(* ===== verification/Prelude.thy ===== *)
theory Prelude
  imports Main "HOL-Library.Product_Lexorder"
begin

text \<open>
  Shared vocabulary of the development: the SQL-shaped operations on tables held as lists of
  rows (select, update, delete, count, order by), the rule collections the component proofs
  hand to the simplifier, and the generic list facts behind them.
\<close>

named_theorems table_simps \<open>rewriting of row-wise table operations\<close>
named_theorems wf_intros \<open>preservation of the database invariant, one rule per statement\<close>

section \<open>Tables as lists of rows\<close>

text \<open>
  A table is the list of its rows in rowid order. The four row-wise statements of SQL that the
  program uses are the functions below; \<open>order_by\<close> is a stable sort on a key.
\<close>

definition sql_update :: "('r \<Rightarrow> bool) \<Rightarrow> ('r \<Rightarrow> 'r) \<Rightarrow> 'r list \<Rightarrow> 'r list" where
  "sql_update P f rows = map (\<lambda>r. if P r then f r else r) rows"

definition sql_delete :: "('r \<Rightarrow> bool) \<Rightarrow> 'r list \<Rightarrow> 'r list" where
  "sql_delete P rows = filter (\<lambda>r. \<not> P r) rows"

definition sql_count :: "('r \<Rightarrow> bool) \<Rightarrow> 'r list \<Rightarrow> int" where
  "sql_count P rows = int (length (filter P rows))"

definition order_by :: "('r \<Rightarrow> 'k::linorder) \<Rightarrow> 'r list \<Rightarrow> 'r list" where
  "order_by k rows = sort_key k rows"

definition first_row :: "'r list \<Rightarrow> 'r option" where
  "first_row rows = (case rows of [] \<Rightarrow> None | r # _ \<Rightarrow> Some r)"

text \<open>A column whose values never repeat and grow along the table: an AUTOINCREMENT id.\<close>

definition ids_ok :: "('r \<Rightarrow> int) \<Rightarrow> int \<Rightarrow> 'r list \<Rightarrow> bool" where
  "ids_ok k seq rows \<longleftrightarrow>
     sorted_wrt (<) (map k rows) \<and> (\<forall>r\<in>set rows. 0 < k r \<and> k r \<le> seq) \<and> 0 \<le> seq"

section \<open>Facts about the statements\<close>

lemma set_sql_update:
  "set (sql_update P f rows) = (\<lambda>r. if P r then f r else r) ` set rows"
  by (simp add: sql_update_def)

lemma ball_sql_update [table_simps]:
  "(\<forall>r\<in>set (sql_update P f rows). Q r) \<longleftrightarrow> (\<forall>r\<in>set rows. if P r then Q (f r) else Q r)"
  unfolding sql_update_def by (induction rows) auto

lemma set_sql_delete [table_simps]: "set (sql_delete P rows) = {r \<in> set rows. \<not> P r}"
  by (simp add: sql_delete_def)

lemma length_sql_update [table_simps]: "length (sql_update P f rows) = length rows"
  by (simp add: sql_update_def)

lemma sql_update_Nil [table_simps]: "sql_update P f [] = []"
  by (simp add: sql_update_def)

lemma map_sql_update:
  "(\<And>r. r \<in> set rows \<Longrightarrow> P r \<Longrightarrow> k (f r) = k r) \<Longrightarrow> map k (sql_update P f rows) = map k rows"
  by (simp add: sql_update_def)

lemma image_sql_update:
  "(\<And>r. r \<in> set rows \<Longrightarrow> P r \<Longrightarrow> k (f r) = k r) \<Longrightarrow> k ` set (sql_update P f rows) = k ` set rows"
  by (metis list.set_map map_sql_update)

lemma sql_update_id: "(\<And>r. r \<in> set rows \<Longrightarrow> \<not> P r) \<Longrightarrow> sql_update P f rows = rows"
  by (simp add: sql_update_def map_idI)

lemma map_sql_delete_sub: "distinct (map k rows) \<Longrightarrow> distinct (map k (sql_delete P rows))"
  by (simp add: sql_delete_def distinct_map_filter)

lemma sql_delete_none: "(\<And>r. r \<in> set rows \<Longrightarrow> \<not> P r) \<Longrightarrow> sql_delete P rows = rows"
  by (simp add: sql_delete_def)

lemma sorted_wrt_map_filter:
  "sorted_wrt R (map k rows) \<Longrightarrow> sorted_wrt R (map k (filter P rows))"
  by (induction rows) auto

lemma ids_ok_distinct: "ids_ok k seq rows \<Longrightarrow> distinct (map k rows)"
  unfolding ids_ok_def by (meson strict_sorted_iff)

lemma ids_ok_Nil [simp]: "ids_ok k seq [] \<longleftrightarrow> 0 \<le> seq"
  by (simp add: ids_ok_def)

lemma ids_ok_update:
  assumes "ids_ok k seq rows" and "\<And>r. r \<in> set rows \<Longrightarrow> P r \<Longrightarrow> k (f r) = k r"
  shows "ids_ok k seq (sql_update P f rows)"
  using assms unfolding ids_ok_def
  by (simp add: map_sql_update) (auto simp: set_sql_update)

lemma ids_ok_delete: "ids_ok k seq rows \<Longrightarrow> ids_ok k seq (sql_delete P rows)"
  by (simp add: ids_ok_def sql_delete_def sorted_wrt_map_filter)

lemma ids_ok_snoc:
  assumes "ids_ok k seq rows" and "k r = seq + 1"
  shows "ids_ok k (seq + 1) (rows @ [r])"
  using assms by (fastforce simp: ids_ok_def sorted_wrt_append)

lemma ids_ok_inj:
  "ids_ok k seq rows \<Longrightarrow> r \<in> set rows \<Longrightarrow> r' \<in> set rows \<Longrightarrow> k r = k r' \<Longrightarrow> r = r'"
  by (drule ids_ok_distinct) (auto simp: distinct_map inj_on_def)

lemma find_in_set: "find P xs = Some x \<Longrightarrow> x \<in> set xs \<and> P x"
  by (metis find_Some_iff nth_mem)

lemma find_none: "find P xs = None \<longleftrightarrow> (\<forall>x\<in>set xs. \<not> P x)"
  by (auto simp: find_None_iff)

lemma find_unique:
  "distinct (map k rows) \<Longrightarrow> r \<in> set rows \<Longrightarrow> find (\<lambda>x. k x = k r) rows = Some r"
  by (induction rows) auto

lemma filter_unique:
  "distinct (map k rows) \<Longrightarrow> r \<in> set rows \<Longrightarrow> filter (\<lambda>x. k x = k r) rows = [r]"
  by (induction rows) (auto simp: filter_empty_conv, metis imageI)

lemma sql_count_zero: "sql_count P rows = 0 \<longleftrightarrow> (\<forall>r\<in>set rows. \<not> P r)"
  by (simp add: sql_count_def filter_empty_conv)

lemma sql_count_delete: "sql_count P rows = int (length rows) - int (length (sql_delete P rows))"
  using sum_length_filter_compl [of P rows] by (simp add: sql_count_def sql_delete_def)

section \<open>Ordering\<close>

lemma set_order_by [table_simps]: "set (order_by k rows) = set rows"
  by (simp add: order_by_def)

lemma order_by_eq_Nil [table_simps]: "order_by k rows = [] \<longleftrightarrow> rows = []"
  by (metis order_by_def set_empty set_sort)

lemma order_by_first:
  "order_by k rows = r # rest \<Longrightarrow> r \<in> set rows \<and> (\<forall>r'\<in>set rows. k r \<le> k r')"
proof -
  assume a: "order_by k rows = r # rest"
  then have "set (r # rest) = set rows" and "sorted (map k (r # rest))"
    by (metis set_order_by, metis order_by_def sorted_sort_key)
  then show ?thesis by (auto simp flip: \<open>set (r # rest) = set rows\<close>)
qed

lemma first_row_order_by:
  "first_row (order_by k rows) = Some r \<Longrightarrow> r \<in> set rows \<and> (\<forall>r'\<in>set rows. k r \<le> k r')"
  by (auto simp: first_row_def split: list.splits dest: order_by_first)

lemma first_row_none: "first_row (order_by k rows) = None \<longleftrightarrow> rows = []"
  by (cases "order_by k rows") (auto simp: first_row_def simp flip: order_by_eq_Nil [of k rows])

lemma sorted_order_by: "sorted (map k (order_by k rows))"
  by (simp add: order_by_def)

section \<open>Optional values with a property\<close>

definition opt_where :: "('a \<Rightarrow> bool) \<Rightarrow> 'a option \<Rightarrow> bool" where
  "opt_where P x \<longleftrightarrow> (case x of None \<Rightarrow> False | Some y \<Rightarrow> P y)"

lemma opt_whereE: "opt_where P x \<Longrightarrow> \<exists>y. x = Some y \<and> P y"
  by (cases x) (auto simp: opt_where_def)

end
