(* ===== verification/Go_Base.thy ===== *)
theory Go_Base
  imports Prelude
begin

text \<open>
  The parts of Go and its standard library that the program's own code uses: error values with
  wrapping and \<open>errors.Is\<close>, results of fallible calls, 64-bit integers, decimal conversion, and
  byte strings with the \<open>strings\<close> and \<open>unicode/utf8\<close> functions. A Go string is a sequence of
  bytes, and so is a HOL \<open>string\<close>.
\<close>

section \<open>Errors\<close>

text \<open>
  The error values that code compares with \<open>errors.Is\<close>. The first one is \<open>sql.ErrNoRows\<close>, the
  last three are the context and file-system errors of the standard library, the rest are the
  program's own package variables.
\<close>

datatype sentinel =
    SqlErrNoRows | ErrNotRetryable | ErrUnauthorized | ErrRateLimited | ErrNotFound
  | ErrDuplicateKey | ErrInvalidKey | ErrRevokedKey | ErrForbiddenScope
  | ErrAmbiguousLibraryName | ErrQueueEmpty
  | CtxCanceled | CtxDeadlineExceeded | OsErrNotExist

fun sentinel_text :: "sentinel \<Rightarrow> string" where
  "sentinel_text SqlErrNoRows = ''sql: no rows in result set''"
| "sentinel_text ErrNotRetryable = ''queue: work item is not in failed status''"
| "sentinel_text ErrUnauthorized = ''musixmatch: unauthorized''"
| "sentinel_text ErrRateLimited = ''musixmatch: rate limited''"
| "sentinel_text ErrNotFound = ''musixmatch: no results found''"
| "sentinel_text ErrDuplicateKey = ''auth: duplicate key''"
| "sentinel_text ErrInvalidKey = ''auth: invalid key''"
| "sentinel_text ErrRevokedKey = ''auth: revoked key''"
| "sentinel_text ErrForbiddenScope = ''auth: forbidden scope''"
| "sentinel_text ErrAmbiguousLibraryName = ''library: ambiguous name (multiple rows match)''"
| "sentinel_text ErrQueueEmpty = ''worker queue empty''"
| "sentinel_text CtxCanceled = ''context canceled''"
| "sentinel_text CtxDeadlineExceeded = ''context deadline exceeded''"
| "sentinel_text OsErrNotExist = ''file does not exist''"

text \<open>
  An error is a sentinel, a fresh message, a message around one wrapped error (\<open>%w\<close>), around two
  of them, or a join. \<open>Error\<close> is the method that renders it.
\<close>

datatype goerr =
    Sen sentinel
  | New string
  | Errorf string goerr string
  | Errorf2 string goerr string goerr
  | Join goerr goerr

fun errors_Is :: "goerr \<Rightarrow> sentinel \<Rightarrow> bool" where
  "errors_Is (Sen s) t \<longleftrightarrow> s = t"
| "errors_Is (New m) t \<longleftrightarrow> False"
| "errors_Is (Errorf p e q) t \<longleftrightarrow> errors_Is e t"
| "errors_Is (Errorf2 p e q f) t \<longleftrightarrow> errors_Is e t \<or> errors_Is f t"
| "errors_Is (Join e f) t \<longleftrightarrow> errors_Is e t \<or> errors_Is f t"

fun Error :: "goerr \<Rightarrow> string" where
  "Error (Sen s) = sentinel_text s"
| "Error (New m) = m"
| "Error (Errorf p e q) = p @ Error e @ q"
| "Error (Errorf2 p e q f) = p @ Error e @ q @ Error f"
| "Error (Join e f) = Error e @ [CHR 0x0A] @ Error f"

text \<open>
  The verb \<open>%q\<close> in error texts. The escapes it adds to unprintable bytes are left out: no code
  reads such a text back.
\<close>

definition Quoted :: "string \<Rightarrow> string" where
  "Quoted s = [CHR 0x22] @ s @ [CHR 0x22]"

type_synonym 'a res = "goerr + 'a"

definition is_ok :: "'a res \<Rightarrow> bool" where
  "is_ok r \<longleftrightarrow> (case r of Inl _ \<Rightarrow> False | Inr _ \<Rightarrow> True)"

lemma is_ok_simps [simp]: "is_ok (Inl e) \<longleftrightarrow> False" "is_ok (Inr x) \<longleftrightarrow> True"
  by (simp_all add: is_ok_def)

lemma is_okE: "is_ok (fst p) \<Longrightarrow> \<exists>x s. p = (Inr x, s)"
  by (cases p; cases "fst p") auto

text \<open>
  A call into the database driver. \<open>io k\<close> is the error the driver returns from the \<open>k\<close>-th call of
  the operation, if it returns one: a closed database, a cancelled context, a full disk. On such
  an error the operation returns it under its prefix and the surrounding transaction is rolled
  back, so the operation's whole effect is the state it started from.
\<close>

type_synonym io = "nat \<Rightarrow> goerr option"

definition no_faults :: io where
  "no_faults = (\<lambda>_. None)"

definition drv :: "io \<Rightarrow> nat \<Rightarrow> string \<Rightarrow> 'd \<Rightarrow> 'a res \<times> 'd \<Rightarrow> 'a res \<times> 'd" where
  "drv io k pre d r = (case io k of None \<Rightarrow> r | Some e \<Rightarrow> (Inl (Errorf pre e ''''), d))"

lemma no_faults_app [simp]: "no_faults k = None"
  by (simp add: no_faults_def)

lemma drv_no_faults [simp]: "drv no_faults k pre d r = r"
  by (simp add: drv_def)

lemma drv_ok: "drv io k pre d r = (Inr x, d') \<longleftrightarrow> io k = None \<and> r = (Inr x, d')"
  by (auto simp: drv_def split: option.splits)

lemma drv_cases: "drv io k pre d r = y \<Longrightarrow> (y = r \<or> (\<exists>e. y = (Inl e, d)))"
  by (auto simp: drv_def split: option.splits)

text \<open>\<open>QueryRowContext(...).Scan\<close>: the driver's error, or \<open>sql.ErrNoRows\<close> when the query has no row.\<close>

definition query_row :: "io \<Rightarrow> nat \<Rightarrow> 'r option \<Rightarrow> 'r res" where
  "query_row io k row =
     (case io k of Some e \<Rightarrow> Inl e
      | None \<Rightarrow> (case row of None \<Rightarrow> Inl (Sen SqlErrNoRows) | Some r \<Rightarrow> Inr r))"

lemma query_row_ok: "query_row io k row = Inr r \<longleftrightarrow> io k = None \<and> row = Some r"
  by (auto simp: query_row_def split: option.splits)

text \<open>A loop that converts every row and stops at the first error.\<close>

fun map_res :: "('a \<Rightarrow> 'b res) \<Rightarrow> 'a list \<Rightarrow> 'b list res" where
  "map_res f [] = Inr []"
| "map_res f (x # xs) =
     (case f x of Inl e \<Rightarrow> Inl e
      | Inr y \<Rightarrow> (case map_res f xs of Inl e \<Rightarrow> Inl e | Inr ys \<Rightarrow> Inr (y # ys)))"

lemma map_res_all: "(\<And>x. x \<in> set xs \<Longrightarrow> f x = Inr (g x)) \<Longrightarrow> map_res f xs = Inr (map g xs)"
  by (induction xs) auto

section \<open>64-bit integers and decimal text\<close>

text \<open>Two's-complement wrap-around of a 64-bit signed result, and Go's truncating division.\<close>

definition i64 :: "int \<Rightarrow> int" where
  "i64 x = (x + 2 ^ 63) mod 2 ^ 64 - 2 ^ 63"

definition is_i64 :: "int \<Rightarrow> bool" where
  "is_i64 x \<longleftrightarrow> - (2 ^ 63) \<le> x \<and> x < 2 ^ 63"

definition quot :: "int \<Rightarrow> int \<Rightarrow> int" where
  "quot a b = sgn a * sgn b * (\<bar>a\<bar> div \<bar>b\<bar>)"

lemma i64_id: "is_i64 x \<Longrightarrow> i64 x = x"
  by (simp add: i64_def is_i64_def)

lemma is_i64_i64 [simp]: "is_i64 (i64 x)"
proof -
  have "(0::int) \<le> (x + 2 ^ 63) mod 2 ^ 64" and "(x + 2 ^ 63) mod 2 ^ 64 < (2::int) ^ 64"
    by simp_all
  then show ?thesis by (simp add: i64_def is_i64_def)
qed

lemma quot_pos: "0 \<le> a \<Longrightarrow> 0 < b \<Longrightarrow> quot a b = a div b"
  by (cases "a = 0") (simp_all add: quot_def)

definition digit_char :: "int \<Rightarrow> char" where
  "digit_char d = ''0123456789'' ! nat d"

definition digit_val :: "char \<Rightarrow> int" where
  "digit_val c = of_char c - 48"

definition is_digit :: "char \<Rightarrow> bool" where
  "is_digit c \<longleftrightarrow> 48 \<le> (of_char c :: int) \<and> (of_char c :: int) \<le> 57"

function digits10 :: "int \<Rightarrow> string" where
  "digits10 n = (if n < 10 then [digit_char n] else digits10 (n div 10) @ [digit_char (n mod 10)])"
  by pat_completeness auto
termination
  by (relation "measure nat") auto

declare digits10.simps [simp del]

text \<open>\<open>strconv.Itoa\<close> (and \<open>%d\<close>).\<close>

definition Itoa :: "int \<Rightarrow> string" where
  "Itoa i = (if i < 0 then CHR ''-'' # digits10 (- i) else digits10 i)"

definition digits_value :: "string \<Rightarrow> int" where
  "digits_value s = foldl (\<lambda>n c. 10 * n + digit_val c) 0 s"

text \<open>
  \<open>strconv.Atoi\<close> and \<open>strconv.ParseInt(s, 10, 64)\<close>: an optional sign, at least one digit, nothing
  else, and a value that fits 64 bits.
\<close>

definition Atoi :: "string \<Rightarrow> int res" where
  "Atoi s =
     (let neg = (case s of c # _ \<Rightarrow> c = CHR ''-'' | [] \<Rightarrow> False);
          ds = (case s of c # r \<Rightarrow> if c = CHR ''-'' \<or> c = CHR ''+'' then r else s | [] \<Rightarrow> s);
          v = (if neg then - digits_value ds else digits_value ds)
      in if ds = [] \<or> \<not> list_all is_digit ds then Inl (New ''strconv: invalid syntax'')
         else if \<not> is_i64 v then Inl (New ''strconv: value out of range'')
         else Inr v)"

lemma digit_char_val: "0 \<le> d \<Longrightarrow> d < 10 \<Longrightarrow> digit_val (digit_char d) = d \<and> is_digit (digit_char d)"
proof -
  assume "0 \<le> d" "d < 10"
  then have "d \<in> set [0..9]" by simp
  then show ?thesis
    by (auto simp: upto_rec1 digit_char_def digit_val_def is_digit_def)
qed

lemma digits10_digits: "0 \<le> n \<Longrightarrow> list_all is_digit (digits10 n) \<and> digits10 n \<noteq> []"
proof (induction n rule: digits10.induct)
  case (1 n)
  then show ?case
    by (cases "n < 10") (simp_all add: digits10.simps [of n] digit_char_val)
qed

lemma digits_value_snoc: "digits_value (s @ [c]) = 10 * digits_value s + digit_val c"
  by (simp add: digits_value_def)

lemma digits_value_digits10: "0 \<le> n \<Longrightarrow> digits_value (digits10 n) = n"
proof (induction n rule: digits10.induct)
  case (1 n)
  show ?case
  proof (cases "n < 10")
    case True
    with 1 show ?thesis
      by (subst digits10.simps) (simp add: digits_value_def digit_char_val)
  next
    case False
    with 1 show ?thesis
      by (subst digits10.simps) (simp add: digits_value_snoc digit_char_val)
  qed
qed

lemma digits10_head:
  assumes "0 \<le> n"
  shows "hd (digits10 n) \<noteq> CHR ''-'' \<and> hd (digits10 n) \<noteq> CHR ''+''"
proof -
  have "is_digit (hd (digits10 n))"
    using digits10_digits [OF assms] by (auto simp: list_all_iff)
  then show ?thesis by (auto simp: is_digit_def)
qed

lemma Atoi_Itoa: "is_i64 i \<Longrightarrow> Atoi (Itoa i) = Inr i"
proof (cases "i < 0")
  case True
  assume "is_i64 i"
  with True show ?thesis
    using digits10_digits [of "- i"]
    by (simp add: Atoi_def Itoa_def Let_def digits_value_digits10)
next
  case False
  assume i: "is_i64 i"
  obtain c r where d: "digits10 i = c # r"
    using digits10_digits [of i] False by (cases "digits10 i") auto
  have "digits_value (c # r) = i" and "list_all is_digit (c # r)"
    and "c \<noteq> CHR ''-''" and "c \<noteq> CHR ''+''"
    using digits10_digits [of i] digits10_head [of i] digits_value_digits10 [of i] False
    by (simp_all add: d)
  with False i show ?thesis
    by (simp add: Atoi_def Itoa_def Let_def d)
qed

end
