(* ===== verification/Go_Strings.thy ===== *)
theory Go_Strings
  imports Go_Base
begin

text \<open>
  Byte strings: the functions of Go's \<open>strings\<close> and \<open>unicode/utf8\<close> packages that the program
  calls, over HOL \<open>string\<close> (a list of bytes). UTF-8 is decoded as \<open>utf8.DecodeRune\<close> does it, an
  invalid byte being one replacement rune of width 1. What depends on the tables of the Unicode
  character database or on the package golang.org/x/text is a field of the record \<open>unicode_env\<close>,
  a parameter of the definitions that use it.
\<close>

section \<open>UTF-8\<close>

definition byte :: "char \<Rightarrow> int" where
  "byte c = of_char c"

definition cont :: "int \<Rightarrow> bool" where
  "cont b \<longleftrightarrow> 128 \<le> b \<and> b \<le> 191"

definition RuneError :: int where
  "RuneError = 65533"

text \<open>The admissible range of the second byte, given the first byte of a 3- or 4-byte sequence.\<close>

definition second_ok :: "int \<Rightarrow> int \<Rightarrow> bool" where
  "second_ok b0 b1 \<longleftrightarrow>
     (if b0 = 224 then 160 else if b0 = 240 then 144 else 128) \<le> b1 \<and>
     b1 \<le> (if b0 = 237 then 159 else if b0 = 244 then 143 else 191)"

text \<open>\<open>utf8.DecodeRuneInString\<close>: the rune at the head of the string and its width in bytes.\<close>

definition decode_rune :: "string \<Rightarrow> int \<times> nat" where
  "decode_rune s =
     (let b = map byte (take 4 s); b0 = b ! 0; b1 = b ! 1; b2 = b ! 2; b3 = b ! 3; n = length b
      in if n = 0 then (RuneError, 0)
         else if b0 < 128 then (b0, 1)
         else if 194 \<le> b0 \<and> b0 \<le> 223 \<and> 2 \<le> n \<and> cont b1
           then ((b0 - 192) * 64 + (b1 - 128), 2)
         else if 224 \<le> b0 \<and> b0 \<le> 239 \<and> 3 \<le> n \<and> second_ok b0 b1 \<and> cont b2
           then ((b0 - 224) * 4096 + (b1 - 128) * 64 + (b2 - 128), 3)
         else if 240 \<le> b0 \<and> b0 \<le> 244 \<and> 4 \<le> n \<and> second_ok b0 b1 \<and> cont b2 \<and> cont b3
           then ((b0 - 240) * 262144 + (b1 - 128) * 4096 + (b2 - 128) * 64 + (b3 - 128), 4)
         else (RuneError, 1))"

definition invalid_head :: "string \<Rightarrow> bool" where
  "invalid_head s \<longleftrightarrow> decode_rune s = (RuneError, 1)"

definition rune_width :: "string \<Rightarrow> nat" where
  "rune_width s = snd (decode_rune s)"

lemma rune_width_pos: "s \<noteq> [] \<Longrightarrow> 0 < rune_width s"
  by (auto simp: rune_width_def decode_rune_def Let_def)

text \<open>The conversion \<open>[]rune(s)\<close>.\<close>

function runes :: "string \<Rightarrow> int list" where
  "runes s = (if s = [] then [] else fst (decode_rune s) # runes (drop (rune_width s) s))"
  by pat_completeness auto
termination
  by (relation "measure length") (auto simp: rune_width_pos)

declare runes.simps [simp del]

text \<open>\<open>strings.ToValidUTF8\<close>: every run of invalid bytes becomes one copy of the replacement.\<close>

function to_valid_utf8 :: "string \<Rightarrow> bool \<Rightarrow> string \<Rightarrow> string" where
  "to_valid_utf8 rep invalid s =
     (if s = [] then []
      else if invalid_head s
        then (if invalid then [] else rep) @ to_valid_utf8 rep True (tl s)
        else take (rune_width s) s @ to_valid_utf8 rep False (drop (rune_width s) s))"
  by pat_completeness auto
termination
  by (relation "measure (\<lambda>(rep, i, s). length s)") (auto simp: rune_width_pos)

declare to_valid_utf8.simps [simp del]

definition ToValidUTF8 :: "string \<Rightarrow> string \<Rightarrow> string" where
  "ToValidUTF8 s rep = to_valid_utf8 rep False s"

text \<open>
  What \<open>encoding/json\<close> stores for a string: every invalid byte is written as the escape of U+FFFD,
  which decodes to the three bytes below.
\<close>

function coerce_utf8 :: "string \<Rightarrow> string" where
  "coerce_utf8 s =
     (if s = [] then []
      else if invalid_head s then [CHR 0xEF, CHR 0xBF, CHR 0xBD] @ coerce_utf8 (tl s)
      else take (rune_width s) s @ coerce_utf8 (drop (rune_width s) s))"
  by pat_completeness auto
termination
  by (relation "measure length") (auto simp: rune_width_pos)

declare coerce_utf8.simps [simp del]

function valid_utf8 :: "string \<Rightarrow> bool" where
  "valid_utf8 s \<longleftrightarrow>
     (if s = [] then True else \<not> invalid_head s \<and> valid_utf8 (drop (rune_width s) s))"
  by pat_completeness auto
termination
  by (relation "measure length") (auto simp: rune_width_pos)

declare valid_utf8.simps [simp del]

lemma valid_utf8_Nil [simp]: "valid_utf8 []"
  by (simp add: valid_utf8.simps)

lemma coerce_utf8_valid: "valid_utf8 s \<Longrightarrow> coerce_utf8 s = s"
proof (induction s rule: coerce_utf8.induct)
  case (1 s)
  then show ?case
    by (cases "s = []")
      (simp_all add: coerce_utf8.simps [of s] coerce_utf8.simps [of "[]"] valid_utf8.simps [of s])
qed

lemma ToValidUTF8_valid: "valid_utf8 s \<Longrightarrow> to_valid_utf8 rep i s = s"
proof (induction rep i s rule: to_valid_utf8.induct)
  case (1 rep i s)
  then show ?case
    by (cases "s = []")
      (simp_all add: to_valid_utf8.simps [of rep i s] to_valid_utf8.simps [of rep i "[]"]
        valid_utf8.simps [of s])
qed

section \<open>White space\<close>

text \<open>The UTF-8 encodings of the runes for which \<open>unicode.IsSpace\<close> holds.\<close>

definition space_seqs :: "string list" where
  "space_seqs =
     [[CHR 0x20], [CHR 0x09], [CHR 0x0A], [CHR 0x0B], [CHR 0x0C], [CHR 0x0D],
      [CHR 0xC2, CHR 0x85], [CHR 0xC2, CHR 0xA0], [CHR 0xE1, CHR 0x9A, CHR 0x80],
      [CHR 0xE2, CHR 0x80, CHR 0x80], [CHR 0xE2, CHR 0x80, CHR 0x81],
      [CHR 0xE2, CHR 0x80, CHR 0x82], [CHR 0xE2, CHR 0x80, CHR 0x83],
      [CHR 0xE2, CHR 0x80, CHR 0x84], [CHR 0xE2, CHR 0x80, CHR 0x85],
      [CHR 0xE2, CHR 0x80, CHR 0x86], [CHR 0xE2, CHR 0x80, CHR 0x87],
      [CHR 0xE2, CHR 0x80, CHR 0x88], [CHR 0xE2, CHR 0x80, CHR 0x89],
      [CHR 0xE2, CHR 0x80, CHR 0x8A], [CHR 0xE2, CHR 0x80, CHR 0xA8],
      [CHR 0xE2, CHR 0x80, CHR 0xA9], [CHR 0xE2, CHR 0x80, CHR 0xAF],
      [CHR 0xE2, CHR 0x81, CHR 0x9F], [CHR 0xE3, CHR 0x80, CHR 0x80]]"

definition lead_space :: "string \<Rightarrow> nat" where
  "lead_space s =
     (case find (\<lambda>w. take (length w) s = w) space_seqs of None \<Rightarrow> 0 | Some w \<Rightarrow> length w)"

definition tail_space :: "string \<Rightarrow> nat" where
  "tail_space s =
     (case find (\<lambda>w. take (length w) (rev s) = rev w) space_seqs of None \<Rightarrow> 0 | Some w \<Rightarrow> length w)"

lemma space_seqs_nonempty: "w \<in> set space_seqs \<Longrightarrow> w \<noteq> []"
  by (auto simp: space_seqs_def)

lemma lead_space_zero:
  "lead_space s = 0 \<longleftrightarrow> (\<forall>w\<in>set space_seqs. take (length w) s \<noteq> w)"
  using space_seqs_nonempty
  by (auto simp: lead_space_def find_none dest: find_in_set split: option.splits)

lemma tail_space_zero:
  "tail_space s = 0 \<longleftrightarrow> (\<forall>w\<in>set space_seqs. take (length w) (rev s) \<noteq> rev w)"
  using space_seqs_nonempty
  by (auto simp: tail_space_def find_none dest: find_in_set split: option.splits)

lemma lead_space_Nil [simp]: "lead_space [] = 0"
  using space_seqs_nonempty by (auto simp: lead_space_zero)

lemma tail_space_Nil [simp]: "tail_space [] = 0"
  using space_seqs_nonempty by (auto simp: tail_space_zero)

lemma lead_space_drop: "lead_space s \<noteq> 0 \<Longrightarrow> length (drop (lead_space s) s) < length s"
  by (cases s) auto

lemma tail_space_take:
  "tail_space s \<noteq> 0 \<Longrightarrow> length (take (length s - tail_space s) s) < length s"
  by (cases s) auto

function TrimLeftSpace :: "string \<Rightarrow> string" where
  "TrimLeftSpace s =
     (if lead_space s = 0 then s else TrimLeftSpace (drop (lead_space s) s))"
  by pat_completeness auto
termination
  by (relation "measure length") (auto simp only: in_measure lead_space_drop wf_measure)

function TrimRightSpace :: "string \<Rightarrow> string" where
  "TrimRightSpace s =
     (if tail_space s = 0 then s else TrimRightSpace (take (length s - tail_space s) s))"
  by pat_completeness auto
termination
  by (relation "measure length") (auto simp only: in_measure tail_space_take wf_measure)

declare TrimLeftSpace.simps [simp del] TrimRightSpace.simps [simp del]

definition TrimSpace :: "string \<Rightarrow> string" where
  "TrimSpace s = TrimRightSpace (TrimLeftSpace s)"

lemma TrimLeftSpace_lead: "lead_space (TrimLeftSpace s) = 0"
proof (induction s rule: TrimLeftSpace.induct)
  case (1 s)
  then show ?case by (cases "lead_space s = 0") (simp_all add: TrimLeftSpace.simps [of s])
qed

lemma TrimRightSpace_tail: "tail_space (TrimRightSpace s) = 0"
proof (induction s rule: TrimRightSpace.induct)
  case (1 s)
  then show ?case by (cases "tail_space s = 0") (simp_all add: TrimRightSpace.simps [of s])
qed

lemma TrimRightSpace_prefix: "\<exists>n. TrimRightSpace s = take n s"
proof (induction s rule: TrimRightSpace.induct)
  case (1 s)
  show ?case
  proof (cases "tail_space s = 0")
    case True
    then show ?thesis by (metis TrimRightSpace.simps take_all_iff le_refl)
  next
    case False
    with 1 obtain n where "TrimRightSpace (take (length s - tail_space s) s) = take n (take (length s - tail_space s) s)"
      by blast
    with False show ?thesis by (metis TrimRightSpace.simps take_take)
  qed
qed

lemma lead_space_take: "lead_space s = 0 \<Longrightarrow> lead_space (take n s) = 0"
proof -
  assume z: "lead_space s = 0"
  have "take (length w) (take n s) \<noteq> w" if "w \<in> set space_seqs" for w
  proof
    assume w: "take (length w) (take n s) = w"
    then have "length w \<le> n" by (metis length_take min.bounded_iff le_refl)
    with w have "take (length w) s = w" by (simp add: min_def)
    with z that show False by (auto simp: lead_space_zero)
  qed
  then show ?thesis by (simp add: lead_space_zero)
qed

lemma TrimSpace_trimmed: "lead_space (TrimSpace s) = 0 \<and> tail_space (TrimSpace s) = 0"
proof -
  obtain n where n: "TrimRightSpace (TrimLeftSpace s) = take n (TrimLeftSpace s)"
    using TrimRightSpace_prefix by blast
  have "lead_space (take n (TrimLeftSpace s)) = 0"
    by (rule lead_space_take) (rule TrimLeftSpace_lead)
  then show ?thesis
    using TrimRightSpace_tail [of "TrimLeftSpace s"] by (simp add: TrimSpace_def n)
qed

lemma TrimSpace_id: "lead_space s = 0 \<Longrightarrow> tail_space s = 0 \<Longrightarrow> TrimSpace s = s"
  by (simp add: TrimSpace_def TrimLeftSpace.simps [of s] TrimRightSpace.simps [of s])

lemma TrimSpace_idem: "TrimSpace (TrimSpace s) = TrimSpace s"
  using TrimSpace_trimmed by (intro TrimSpace_id) auto

lemma TrimSpace_Nil [simp]: "TrimSpace [] = []"
  by (simp add: TrimSpace_id)

section \<open>Prefixes, suffixes, splitting, joining\<close>

definition HasPrefix :: "string \<Rightarrow> string \<Rightarrow> bool" where
  "HasPrefix s p \<longleftrightarrow> take (length p) s = p"

definition HasSuffix :: "string \<Rightarrow> string \<Rightarrow> bool" where
  "HasSuffix s p \<longleftrightarrow> length p \<le> length s \<and> drop (length s - length p) s = p"

definition TrimSuffix :: "string \<Rightarrow> string \<Rightarrow> string" where
  "TrimSuffix s p = (if HasSuffix s p then take (length s - length p) s else s)"

fun Split :: "char \<Rightarrow> string \<Rightarrow> string list" where
  "Split sep [] = [[]]"
| "Split sep (c # s) =
     (if c = sep then [] # Split sep s
      else (case Split sep s of [] \<Rightarrow> [[c]] | p # ps \<Rightarrow> (c # p) # ps))"

fun JoinStr :: "string list \<Rightarrow> string \<Rightarrow> string" where
  "JoinStr [] sep = []"
| "JoinStr [p] sep = p"
| "JoinStr (p # q # ps) sep = p @ sep @ JoinStr (q # ps) sep"

lemma Split_nonempty: "Split sep s \<noteq> []"
  by (induction s) (auto split: list.splits)

lemma Split_no_sep: "sep \<notin> set s \<Longrightarrow> Split sep s = [s]"
  by (induction s) auto

lemma Split_append: "sep \<notin> set p \<Longrightarrow> Split sep (p @ sep # s) = p # Split sep s"
  by (induction p) auto

lemma Split_Join:
  "ps \<noteq> [] \<Longrightarrow> (\<forall>p\<in>set ps. sep \<notin> set p) \<Longrightarrow> Split sep (JoinStr ps [sep]) = ps"
  by (induction ps "[sep]" rule: JoinStr.induct) (auto simp: Split_no_sep Split_append)

text \<open>\<open>strings.Cut\<close> at the first separator byte.\<close>

fun Cut :: "char \<Rightarrow> string \<Rightarrow> (string \<times> string) option" where
  "Cut sep [] = None"
| "Cut sep (c # s) =
     (if c = sep then Some ([], s) else map_option (\<lambda>(a, b). (c # a, b)) (Cut sep s))"

section \<open>Case\<close>

definition ascii_lower :: "char \<Rightarrow> char" where
  "ascii_lower c = (if 65 \<le> byte c \<and> byte c \<le> 90 then char_of (byte c + 32) else c)"

definition is_ascii :: "string \<Rightarrow> bool" where
  "is_ascii s \<longleftrightarrow> list_all (\<lambda>c. byte c < 128) s"

text \<open>
  The parameter standing for the Unicode character database and golang.org/x/text:
  \<open>u_lower\<close> is \<open>strings.Map(unicode.ToLower, s)\<close>, \<open>u_strip_marks\<close> the transformer chain NFKD, remove
  Mn, NFC (\<open>None\<close> when the transformer reports an error), \<open>u_NFKC\<close> compatibility composition,
  \<open>u_word_rune\<close> the runes for which \<open>unicode.IsLetter\<close> or \<open>unicode.IsNumber\<close> holds.
\<close>

record unicode_env =
  u_lower :: "string \<Rightarrow> string"
  u_strip_marks :: "string \<Rightarrow> string option"
  u_NFKC :: "string \<Rightarrow> string"
  u_word_rune :: "int \<Rightarrow> bool"

text \<open>\<open>strings.ToLower\<close>: byte-wise on an ASCII string, by the Unicode tables otherwise.\<close>

definition ToLower :: "unicode_env \<Rightarrow> string \<Rightarrow> string" where
  "ToLower u s = (if is_ascii s then map ascii_lower s else u_lower u s)"

text \<open>
  \<open>strings.EqualFold\<close> against a word none of whose letters has a non-ASCII case variant (no k and
  no s): byte-wise comparison without ASCII case.
\<close>

definition EqualFoldWord :: "string \<Rightarrow> string \<Rightarrow> bool" where
  "EqualFoldWord s w \<longleftrightarrow> map ascii_lower s = map ascii_lower w"

text \<open>A concrete environment for plain ASCII text, used by the concrete instances.\<close>

definition ascii_env :: unicode_env where
  "ascii_env = \<lparr>u_lower = map ascii_lower, u_strip_marks = Some, u_NFKC = id,
     u_word_rune = (\<lambda>r. (48 \<le> r \<and> r \<le> 57) \<or> (65 \<le> r \<and> r \<le> 90) \<or> (97 \<le> r \<and> r \<le> 122))\<rparr>"

lemma ascii_lower_idem: "ascii_lower (ascii_lower c) = ascii_lower c"
  by (auto simp: ascii_lower_def byte_def)

end
