(* ===== verification/Backoff.thy ===== *)
theory Backoff
  imports Go_Base
begin

text \<open>
  Package \<open>internal/backoff\<close>: the geometric retry delay shared by the durable queue, the worker
  and the one-shot fetch loop. Durations are 64-bit nanosecond counts; the doubling is written with
  its wrap-around (\<open>i64\<close>), and the lemmas show that the guard before it keeps it from wrapping.
\<close>

definition Nanosecond :: int where "Nanosecond = 1"
definition Second :: int where "Second = 1000000000"
definition Minute :: int where "Minute = 60 * Second"
definition Hour :: int where "Hour = 60 * Minute"

definition DefaultBase :: int where "DefaultBase = Minute"
definition DefaultMax :: int where "DefaultMax = Hour"

text \<open>
  The loop \<open>for i := 1; i < attempts; i++\<close>, by the number of rounds left; \<open>Inl\<close> is the early
  return inside the loop, \<open>Inr\<close> the value of \<open>delay\<close> when the loop ends.
\<close>

fun geometric_loop :: "int \<Rightarrow> nat \<Rightarrow> int \<Rightarrow> int + int" where
  "geometric_loop mx 0 delay = Inr delay"
| "geometric_loop mx (Suc n) delay =
     (if delay \<ge> mx \<or> delay > quot mx 2 then Inl mx
      else geometric_loop mx n (i64 (delay * 2)))"

definition Geometric :: "int \<Rightarrow> int \<Rightarrow> int \<Rightarrow> int" where
  "Geometric attempts base mx =
     (if base \<le> 0 \<or> mx \<le> 0 then 0
      else (let attempts' = (if attempts < 1 then 1 else attempts)
            in case geometric_loop mx (nat (attempts' - 1)) base of
                 Inl r \<Rightarrow> r
               | Inr delay \<Rightarrow> if delay > mx then mx else delay))"

section \<open>The closed form\<close>

lemma double_fits: "0 < d \<Longrightarrow> is_i64 m \<Longrightarrow> d \<le> m div 2 \<Longrightarrow> i64 (d * 2) = d * 2"
  by (rule i64_id) (auto simp: is_i64_def)

text \<open>
  The loop from a delay within the cap returns the delay doubled \<open>n\<close> times if that is within the
  cap, and the cap otherwise; the multiplication never wraps.
\<close>

lemma geometric_loop_min:
  assumes "0 < d" "d \<le> m" "is_i64 m"
  shows "(case geometric_loop m n d of Inl r \<Rightarrow> r | Inr e \<Rightarrow> if e > m then m else e)
           = min (d * 2 ^ n) m"
  using assms
proof (induction n arbitrary: d)
  case 0
  then show ?case by simp
next
  case (Suc n)
  show ?case
  proof (cases "d > m div 2 \<or> d \<ge> m")
    case True
    have "m \<le> d * 2"
      using True Suc.prems by linarith
    also have "\<dots> \<le> d * 2 ^ Suc n"
      using Suc.prems(1) by (simp add: mult_le_cancel_left)
    finally have "min (d * 2 ^ Suc n) m = m"
      by (rule min.absorb2)
    with True Suc.prems show ?thesis by (auto simp: quot_pos)
  next
    case False
    then have step: "geometric_loop m (Suc n) d = geometric_loop m n (d * 2)"
      using Suc.prems by (simp add: quot_pos double_fits)
    have "0 < d * 2" and "d * 2 \<le> m"
      using False Suc.prems(1) by linarith+
    from Suc.IH [OF this Suc.prems(3)] show ?thesis
      unfolding step by (simp add: mult.assoc)
  qed
qed

text \<open>A base above the cap gives the cap at once.\<close>

lemma geometric_loop_above:
  assumes "m < d" "0 < m"
  shows "(case geometric_loop m n d of Inl r \<Rightarrow> r | Inr e \<Rightarrow> if e > m then m else e) = m"
  using assms by (cases n) auto

lemma Geometric_closed_form:
  assumes "0 < base" "0 < mx" "is_i64 mx"
  shows "Geometric attempts base mx = min (base * 2 ^ nat (attempts - 1)) mx"
proof -
  let ?n = "nat ((if attempts < 1 then 1 else attempts) - 1)"
  have n: "?n = nat (attempts - 1)" by simp
  show ?thesis
  proof (cases "base \<le> mx")
    case True
    with assms geometric_loop_min [of base mx ?n] show ?thesis
      by (simp add: Geometric_def n)
  next
    case False
    have "base * 1 \<le> base * 2 ^ nat (attempts - 1)"
      using assms(1) by (intro mult_left_mono) simp_all
    then have "mx \<le> base * 2 ^ nat (attempts - 1)"
      using False by linarith
    with False assms geometric_loop_above [of mx base ?n] show ?thesis
      by (simp add: Geometric_def n)
  qed
qed

lemma Geometric_nonneg: "is_i64 mx \<Longrightarrow> 0 \<le> Geometric attempts base mx"
  using Geometric_closed_form [of base mx attempts]
  by (cases "base \<le> 0 \<or> mx \<le> 0") (auto simp: Geometric_def)

lemma Geometric_pos: "0 < base \<Longrightarrow> 0 < mx \<Longrightarrow> is_i64 mx \<Longrightarrow> 0 < Geometric attempts base mx"
  by (simp add: Geometric_closed_form)

lemma default_durations:
  "0 < DefaultBase" "0 < DefaultMax" "is_i64 DefaultMax" "is_i64 DefaultBase"
  by (simp_all add: DefaultBase_def DefaultMax_def Minute_def Hour_def Second_def is_i64_def)

section \<open>Properties\<close>

text \<open>
  For a positive base and cap the delay is the base doubled once per attempt after the first,
  limited by the cap: no doubling overflows 64 bits. With a non-positive base or cap it is 0.
\<close>
theorem Geometric_is_capped_doubling:
  assumes "is_i64 mx"
  shows "Geometric attempts base mx =
           (if base \<le> 0 \<or> mx \<le> 0 then 0 else min (base * 2 ^ nat (attempts - 1)) mx)"
  using assms Geometric_closed_form [of base mx attempts]
  by (auto simp: Geometric_def)

theorem Geometric_is_capped_doubling_witness:
  "is_i64 DefaultMax \<and> Geometric 3 DefaultBase DefaultMax = 4 * Minute \<and>
   Geometric 1000 DefaultBase DefaultMax = Hour"
proof -
  have p: "(2::int) ^ 7 \<le> 2 ^ 999" by (rule power_increasing) simp_all
  show ?thesis
    using Geometric_is_capped_doubling [OF default_durations(3), of 3 DefaultBase]
      Geometric_is_capped_doubling [OF default_durations(3), of 1000 DefaultBase] p
    by (simp add: default_durations(3)) (simp add: DefaultBase_def DefaultMax_def Minute_def Hour_def Second_def)
qed

end
