(* ===== verification/Models.thy ===== *)
theory Models
  imports Complex_Main Go_Strings Backoff
begin

text \<open>
  The data of package \<open>internal/models\<close>, field by field. A field name carries a prefix for its
  struct (\<open>tr\<close> Track, \<open>ti\<close> Time, \<open>li\<close> Lines, \<open>so\<close> Song, \<open>in\<close> Inputs, \<open>op\<close> OutputPath, \<open>lib\<close>
  Library, \<open>sr\<close> ScanResult), because several structs share field names. Strings are byte strings,
  \<open>int\<close> and \<open>int64\<close> fields are integers; the \<open>float64\<close> field \<open>Total\<close>, which no code of the program
  computes with, is a rational.
\<close>

record Track =
  tr_TrackName :: string
  tr_ArtistName :: string
  tr_AlbumName :: string
  tr_TrackLength :: int
  tr_Instrumental :: int
  tr_HasLyrics :: int
  tr_HasSubtitles :: int

record Time =
  ti_Total :: rat
  ti_Minutes :: int
  ti_Seconds :: int
  ti_Hundredths :: int

record Lines =
  li_Text :: string
  li_Time :: Time

text \<open>The structs \<open>Lyrics\<close> and \<open>Synced\<close> hold one field each: the body and the lines.\<close>

record Song =
  so_Track :: Track
  so_LyricsBody :: string
  so_Subtitles :: "Lines list"

record OutputPath =
  op_Outdir :: string
  op_Filename :: string

record Inputs =
  in_Track :: Track
  in_Outdir :: string
  in_Filename :: string
  in_SourcePath :: string
  in_OutputPaths :: "OutputPath list"
  in_ScanResultID :: int

text \<open>
  The code keeps the times of the next two as the text that SQLite gives; here they are the instants, which
  the text stands for. \<open>UpdatedAt\<close> of a \<open>ScanResult\<close> is never set or read, and has no field.
\<close>

record Library =
  lib_ID :: int
  lib_Path :: string
  lib_Name :: string
  lib_CreatedAt :: int
  lib_UpdatedAt :: int

record ScanResult =
  sr_ID :: int
  sr_LibraryID :: int
  sr_FilePath :: string
  sr_Track :: Track
  sr_Outdir :: string
  sr_Filename :: string
  sr_Status :: string
  sr_CreatedAt :: int

text \<open>Go's zero values of the structs that code builds field by field.\<close>

definition zero_Track :: Track where
  "zero_Track = \<lparr>tr_TrackName = '''', tr_ArtistName = '''', tr_AlbumName = '''',
     tr_TrackLength = 0, tr_Instrumental = 0, tr_HasLyrics = 0, tr_HasSubtitles = 0\<rparr>"

definition zero_Song :: Song where
  "zero_Song = \<lparr>so_Track = zero_Track, so_LyricsBody = '''', so_Subtitles = []\<rparr>"

definition zero_Inputs :: Inputs where
  "zero_Inputs = \<lparr>in_Track = zero_Track, in_Outdir = '''', in_Filename = '''',
     in_SourcePath = '''', in_OutputPaths = [], in_ScanResultID = 0\<rparr>"

end
