(* ===== verification/Database.thy ===== *)
theory Database
  imports Models
begin

text \<open>
  The SQLite schema built by \<open>internal/db/migrations\<close> (001 to 010) and the statements that maintain
  it: one row type per table, the database as the record of its tables, the cascades of the foreign
  keys, and the constraints as the invariant \<open>db_wf\<close>.

  A \<open>DATETIME\<close> column holds RFC 3339 text in UTC with a resolution of one second, written by
  \<open>formatTime\<close> or by \<open>strftime('%Y-%m-%dT%H:%M:%SZ', 'now')\<close>; both have the same fixed width, so
  comparing the texts is comparing the instants. Such a column is the number of seconds since the
  epoch. A Go time is a number of nanoseconds. \<open>dbt\<close> is the instant the SQL function reads.
\<close>

section \<open>Rows and tables\<close>

datatype status = Pending | Processing | Done | Failed

fun status_text :: "status \<Rightarrow> string" where
  "status_text Pending = ''pending''"
| "status_text Processing = ''processing''"
| "status_text Done = ''done''"
| "status_text Failed = ''failed''"

text \<open>The CHECK constraint of a status column: which texts it admits.\<close>

definition status_of_text :: "string \<Rightarrow> status option" where
  "status_of_text s = find (\<lambda>st. status_text st = s) [Pending, Processing, Done, Failed]"

lemma status_text_inj: "status_text a = status_text b \<longleftrightarrow> a = b"
  by (cases a; cases b) simp_all

lemma status_of_status_text [simp]: "status_of_text (status_text st) = Some st"
  by (cases st) (simp_all add: status_of_text_def)

text \<open>
  The text of an \<open>output_paths\<close> column, by what \<open>json.Unmarshal\<close> makes of it: the empty default,
  the JSON of a list of paths, or text that is not one.
\<close>

datatype paths_col = PathsEmpty | PathsJSON "OutputPath list" | PathsCorrupt

record wq_row =
  wq_id :: int
  wq_artist :: string
  wq_title :: string
  wq_artist_key :: string
  wq_title_key :: string
  wq_outdir :: string
  wq_filename :: string
  wq_source_path :: string
  wq_output_paths :: paths_col
  wq_scan_result_id :: "int option"
  wq_status :: status
  wq_priority :: int
  wq_attempts :: int
  wq_next_attempt_at :: int
  wq_last_error :: string
  wq_created_at :: int
  wq_updated_at :: int
  wq_completed_at :: "int option"

record sr_row =
  sc_id :: int
  sc_library_id :: int
  sc_file_path :: string
  sc_artist :: string
  sc_title :: string
  sc_outdir :: string
  sc_filename :: string
  sc_status :: status
  sc_created_at :: int

record lib_row =
  lb_id :: int
  lb_path :: string
  lb_name :: string
  lb_created_at :: int
  lb_updated_at :: int

record cache_row =
  lc_id :: int
  lc_artist :: string
  lc_title :: string
  lc_album :: string
  lc_lyrics :: string
  lc_created_at :: int
  lc_updated_at :: int

record key_row =
  ak_id :: string
  ak_name :: string
  ak_hash :: string
  ak_scopes :: string
  ak_created_at :: int
  ak_revoked_at :: "int option"

text \<open>The junction \<open>work_queue_scan_results\<close> is the list of its pairs. \<open>*_seq\<close> is the last id given.\<close>

record db =
  libraries :: "lib_row list"
  lib_seq :: int
  scan_results :: "sr_row list"
  sr_seq :: int
  work_queue :: "wq_row list"
  wq_seq :: int
  junction :: "(int \<times> int) list"
  lyrics_cache :: "cache_row list"
  lc_seq :: int
  api_keys :: "key_row list"

definition empty_db :: db where
  "empty_db = \<lparr>libraries = [], lib_seq = 0, scan_results = [], sr_seq = 0, work_queue = [],
     wq_seq = 0, junction = [], lyrics_cache = [], lc_seq = 0, api_keys = []\<rparr>"

section \<open>Times\<close>

definition formatTime :: "int \<Rightarrow> int" where
  "formatTime t = t div Second"

definition parseTime :: "int \<Rightarrow> int" where
  "parseTime s = s * Second"

lemma format_parseTime [simp]: "formatTime (parseTime s) = s"
  by (simp add: formatTime_def parseTime_def Second_def)

lemma formatTime_mono: "t \<le> t' \<Longrightarrow> formatTime t \<le> formatTime t'"
  by (simp add: formatTime_def Second_def zdiv_mono1)

section \<open>Statements that maintain the schema\<close>

text \<open>An UPDATE of \<open>work_queue\<close>: the trigger then stamps \<open>updated_at\<close> of every updated row.\<close>

definition wq_update :: "int \<Rightarrow> (wq_row \<Rightarrow> bool) \<Rightarrow> (wq_row \<Rightarrow> wq_row) \<Rightarrow> db \<Rightarrow> db" where
  "wq_update dbt P f d =
     d\<lparr>work_queue := sql_update P (\<lambda>r. (f r)\<lparr>wq_updated_at := dbt\<rparr>) (work_queue d)\<rparr>"

text \<open>A DELETE from \<open>work_queue\<close> cascades to the junction (migration 010).\<close>

definition wq_delete :: "(wq_row \<Rightarrow> bool) \<Rightarrow> db \<Rightarrow> db" where
  "wq_delete P d =
     (let gone = map wq_id (filter P (work_queue d))
      in d\<lparr>work_queue := sql_delete P (work_queue d),
           junction := sql_delete (\<lambda>(w, s). w \<in> set gone) (junction d)\<rparr>)"

definition sr_update :: "(sr_row \<Rightarrow> bool) \<Rightarrow> (sr_row \<Rightarrow> sr_row) \<Rightarrow> db \<Rightarrow> db" where
  "sr_update P f d = d\<lparr>scan_results := sql_update P f (scan_results d)\<rparr>"

text \<open>
  A DELETE from \<open>scan_results\<close> cascades to the junction and sets the referring
  \<open>work_queue.scan_result_id\<close> to NULL (migrations 009 and 010).
\<close>

definition sr_delete :: "int \<Rightarrow> (sr_row \<Rightarrow> bool) \<Rightarrow> db \<Rightarrow> db" where
  "sr_delete dbt P d =
     (let gone = map sc_id (filter P (scan_results d));
          d1 = wq_update dbt (\<lambda>r. \<exists>s\<in>set gone. wq_scan_result_id r = Some s)
                 (\<lambda>r. r\<lparr>wq_scan_result_id := None\<rparr>) d
      in d1\<lparr>scan_results := sql_delete P (scan_results d),
            junction := sql_delete (\<lambda>(w, s). s \<in> set gone) (junction d)\<rparr>)"

text \<open>A DELETE from \<open>libraries\<close> cascades to \<open>scan_results\<close> (migration 001), and from there on.\<close>

definition lib_delete :: "int \<Rightarrow> (lib_row \<Rightarrow> bool) \<Rightarrow> db \<Rightarrow> db" where
  "lib_delete dbt P d =
     (let gone = map lb_id (filter P (libraries d));
          d1 = sr_delete dbt (\<lambda>s. sc_library_id s \<in> set gone) d
      in d1\<lparr>libraries := sql_delete P (libraries d)\<rparr>)"

section \<open>The invariant\<close>

text \<open>The foreign key of \<open>work_queue.scan_result_id\<close>: NULL or the id of a row.\<close>

definition sr_ids :: "db \<Rightarrow> int set" where
  "sr_ids d = sc_id ` set (scan_results d)"

definition link_ok :: "int set \<Rightarrow> int option \<Rightarrow> bool" where
  "link_ok S l \<longleftrightarrow> set_option l \<subseteq> S"

text \<open>
  What the queue keeps of each of its rows: the completion time is set exactly on done rows, the
  error text only lives on rows that failed since they were last pending, a failed row has been
  attempted, and attempts are never negative.
\<close>

definition wq_row_ok :: "wq_row \<Rightarrow> bool" where
  "wq_row_ok r \<longleftrightarrow>
     (wq_completed_at r \<noteq> None \<longleftrightarrow> wq_status r = Done) \<and>
     (wq_status r \<in> {Pending, Done} \<longrightarrow> wq_last_error r = '''') \<and>
     (wq_status r = Failed \<longrightarrow> 1 \<le> wq_attempts r) \<and>
     0 \<le> wq_attempts r"

definition wq_key :: "wq_row \<Rightarrow> string \<times> string" where
  "wq_key r = (wq_artist_key r, wq_title_key r)"

definition sr_key :: "sr_row \<Rightarrow> int \<times> string" where
  "sr_key r = (sc_library_id r, sc_file_path r)"

definition lc_key :: "cache_row \<Rightarrow> string \<times> string \<times> string" where
  "lc_key r = (lc_artist r, lc_title r, lc_album r)"

definition wf_queue :: "db \<Rightarrow> bool" where
  "wf_queue d \<longleftrightarrow>
     ids_ok wq_id (wq_seq d) (work_queue d) \<and>
     distinct (map wq_key (work_queue d)) \<and>
     (\<forall>r\<in>set (work_queue d). wq_row_ok r \<and> link_ok (sr_ids d) (wq_scan_result_id r))"

definition wf_scan :: "db \<Rightarrow> bool" where
  "wf_scan d \<longleftrightarrow>
     ids_ok sc_id (sr_seq d) (scan_results d) \<and>
     distinct (map sr_key (scan_results d)) \<and>
     sc_library_id ` set (scan_results d) \<subseteq> lb_id ` set (libraries d)"

definition wf_junction :: "db \<Rightarrow> bool" where
  "wf_junction d \<longleftrightarrow>
     distinct (junction d) \<and>
     fst ` set (junction d) \<subseteq> wq_id ` set (work_queue d) \<and>
     snd ` set (junction d) \<subseteq> sc_id ` set (scan_results d)"

definition wf_libraries :: "db \<Rightarrow> bool" where
  "wf_libraries d \<longleftrightarrow>
     ids_ok lb_id (lib_seq d) (libraries d) \<and> distinct (map lb_path (libraries d))"

definition wf_cache :: "db \<Rightarrow> bool" where
  "wf_cache d \<longleftrightarrow>
     ids_ok lc_id (lc_seq d) (lyrics_cache d) \<and> distinct (map lc_key (lyrics_cache d))"

definition wf_keys :: "db \<Rightarrow> bool" where
  "wf_keys d \<longleftrightarrow>
     distinct (map ak_id (api_keys d)) \<and> distinct (map ak_hash (api_keys d))"

definition db_wf :: "db \<Rightarrow> bool" where
  "db_wf d \<longleftrightarrow>
     wf_queue d \<and> wf_scan d \<and> wf_junction d \<and> wf_libraries d \<and> wf_cache d \<and> wf_keys d"

lemmas wf_defs =
  db_wf_def wf_queue_def wf_scan_def wf_junction_def wf_libraries_def wf_cache_def wf_keys_def

lemma db_wf_empty: "db_wf empty_db"
  by (simp add: wf_defs empty_db_def)

section \<open>Preservation by the statements\<close>

lemma wf_queue_wq_update:
  assumes "wf_queue d"
    and "\<And>r. r \<in> set (work_queue d) \<Longrightarrow> P r \<Longrightarrow> wq_id (f r) = wq_id r \<and> wq_key (f r) = wq_key r"
    and "\<And>r. r \<in> set (work_queue d) \<Longrightarrow> P r \<Longrightarrow> wq_row_ok r \<Longrightarrow> wq_row_ok (f r)"
    and "\<And>r. r \<in> set (work_queue d) \<Longrightarrow> P r \<Longrightarrow> link_ok (sr_ids d) (wq_scan_result_id r) \<Longrightarrow>
           link_ok (sr_ids d) (wq_scan_result_id (f r))"
  shows "wf_queue (wq_update dbt P f d)"
proof -
  have upd: "wq_row_ok (r\<lparr>wq_updated_at := t\<rparr>) = wq_row_ok r" for r t
    by (simp add: wq_row_ok_def)
  have key: "map wq_key (sql_update P (\<lambda>r. (f r)\<lparr>wq_updated_at := dbt\<rparr>) (work_queue d))
               = map wq_key (work_queue d)"
    using assms(2) by (intro map_sql_update) (simp add: wq_key_def)
  have ids: "ids_ok wq_id (wq_seq d)
               (sql_update P (\<lambda>r. (f r)\<lparr>wq_updated_at := dbt\<rparr>) (work_queue d))"
    using assms(1,2) by (intro ids_ok_update) (auto simp: wf_queue_def)
  show ?thesis
    using assms(1,3,4) key ids
    by (simp add: wf_queue_def wq_update_def ball_sql_update upd sr_ids_def)
qed

lemma wq_update_frame [simp]:
  "libraries (wq_update dbt P f d) = libraries d"
  "lib_seq (wq_update dbt P f d) = lib_seq d"
  "scan_results (wq_update dbt P f d) = scan_results d"
  "sr_seq (wq_update dbt P f d) = sr_seq d"
  "wq_seq (wq_update dbt P f d) = wq_seq d"
  "junction (wq_update dbt P f d) = junction d"
  "lyrics_cache (wq_update dbt P f d) = lyrics_cache d"
  "lc_seq (wq_update dbt P f d) = lc_seq d"
  "api_keys (wq_update dbt P f d) = api_keys d"
  by (simp_all add: wq_update_def)

lemma wq_update_ids:
  "(\<And>r. r \<in> set (work_queue d) \<Longrightarrow> P r \<Longrightarrow> wq_id (f r) = wq_id r) \<Longrightarrow>
   wq_id ` set (work_queue (wq_update dbt P f d)) = wq_id ` set (work_queue d)"
  by (simp add: wq_update_def image_sql_update)

lemma db_wf_wq_update [wf_intros]:
  assumes "db_wf d"
    and "\<And>r. r \<in> set (work_queue d) \<Longrightarrow> P r \<Longrightarrow> wq_id (f r) = wq_id r \<and> wq_key (f r) = wq_key r"
    and "\<And>r. r \<in> set (work_queue d) \<Longrightarrow> P r \<Longrightarrow> wq_row_ok r \<Longrightarrow> wq_row_ok (f r)"
    and "\<And>r. r \<in> set (work_queue d) \<Longrightarrow> P r \<Longrightarrow> link_ok (sr_ids d) (wq_scan_result_id r) \<Longrightarrow>
           link_ok (sr_ids d) (wq_scan_result_id (f r))"
  shows "db_wf (wq_update dbt P f d)"
proof -
  have "wf_queue (wq_update dbt P f d)"
    using assms by (intro wf_queue_wq_update) (auto simp: db_wf_def)
  moreover have "wq_id ` set (work_queue (wq_update dbt P f d)) = wq_id ` set (work_queue d)"
    using assms(2) by (intro wq_update_ids) auto
  ultimately show ?thesis
    using assms(1) by (simp add: db_wf_def wf_scan_def wf_junction_def wf_libraries_def
        wf_cache_def wf_keys_def)
qed

lemma wq_delete_frame [simp]:
  "libraries (wq_delete P d) = libraries d" "lib_seq (wq_delete P d) = lib_seq d"
  "scan_results (wq_delete P d) = scan_results d" "sr_seq (wq_delete P d) = sr_seq d"
  "wq_seq (wq_delete P d) = wq_seq d" "lyrics_cache (wq_delete P d) = lyrics_cache d"
  "lc_seq (wq_delete P d) = lc_seq d" "api_keys (wq_delete P d) = api_keys d"
  "work_queue (wq_delete P d) = sql_delete P (work_queue d)"
  by (simp_all add: wq_delete_def Let_def)

lemma wq_delete_junction:
  assumes "ids_ok wq_id (wq_seq d) (work_queue d)"
    and "fst ` set (junction d) \<subseteq> wq_id ` set (work_queue d)"
  shows "fst ` set (junction (wq_delete P d)) \<subseteq> wq_id ` set (sql_delete P (work_queue d))"
  using assms(2) ids_ok_inj [OF assms(1)]
  by (fastforce simp: wq_delete_def Let_def set_sql_delete)

lemma db_wf_wq_delete [wf_intros]:
  assumes "db_wf d"
  shows "db_wf (wq_delete P d)"
proof -
  have "wf_queue (wq_delete P d)"
    using assms
    by (simp add: db_wf_def wf_queue_def ids_ok_delete map_sql_delete_sub set_sql_delete sr_ids_def)
  moreover have "wf_junction (wq_delete P d)"
    using assms wq_delete_junction [of d P]
    by (auto simp: db_wf_def wf_junction_def wf_queue_def)
      (auto simp: wq_delete_def Let_def sql_delete_def)
  ultimately show ?thesis
    using assms by (simp add: db_wf_def wf_scan_def wf_libraries_def wf_cache_def wf_keys_def)
qed

lemma sr_update_frame [simp]:
  "libraries (sr_update P f d) = libraries d" "lib_seq (sr_update P f d) = lib_seq d"
  "work_queue (sr_update P f d) = work_queue d" "sr_seq (sr_update P f d) = sr_seq d"
  "wq_seq (sr_update P f d) = wq_seq d" "lyrics_cache (sr_update P f d) = lyrics_cache d"
  "lc_seq (sr_update P f d) = lc_seq d" "api_keys (sr_update P f d) = api_keys d"
  "junction (sr_update P f d) = junction d"
  by (simp_all add: sr_update_def)

lemma db_wf_sr_update [wf_intros]:
  assumes wf: "db_wf d"
    and "\<And>r. r \<in> set (scan_results d) \<Longrightarrow> P r \<Longrightarrow> sc_id (f r) = sc_id r \<and> sr_key (f r) = sr_key r"
  shows "db_wf (sr_update P f d)"
proof -
  let ?rows = "sql_update P f (scan_results d)"
  have ids: "map sc_id ?rows = map sc_id (scan_results d)"
    and keys: "map sr_key ?rows = map sr_key (scan_results d)"
    using assms(2) by (auto intro!: map_sql_update)
  then have idset: "sc_id ` set ?rows = sc_id ` set (scan_results d)"
    and keyset: "sr_key ` set ?rows = sr_key ` set (scan_results d)"
    by (metis list.set_map)+
  then have "fst ` sr_key ` set ?rows = fst ` sr_key ` set (scan_results d)"
    by simp
  then have "sc_library_id ` set ?rows = sc_library_id ` set (scan_results d)"
    by (simp add: sr_key_def image_image)
  moreover have "ids_ok sc_id (sr_seq d) ?rows"
    using wf assms(2) by (intro ids_ok_update) (auto simp: db_wf_def wf_scan_def)
  ultimately show ?thesis
    using wf idset keys
    by (simp add: wf_defs sr_update_def sr_ids_def)
qed

lemma sr_delete_link:
  assumes "r \<in> set (work_queue (sr_delete dbt P d))"
    and "\<forall>r\<in>set (work_queue d). link_ok (sr_ids d) (wq_scan_result_id r)"
  shows "link_ok (sc_id ` set (sql_delete P (scan_results d))) (wq_scan_result_id r)"
proof (cases "wq_scan_result_id r")
  case (Some s)
  with assms(1) have "s \<notin> sc_id ` set (filter P (scan_results d))"
    by (auto simp: sr_delete_def wq_update_def Let_def set_sql_update split: if_splits)
  moreover have "s \<in> sr_ids d"
    using assms Some
    by (fastforce simp: sr_delete_def wq_update_def Let_def set_sql_update link_ok_def split: if_splits)
  ultimately show ?thesis
    by (auto simp: Some link_ok_def sr_ids_def set_sql_delete)
qed (simp add: link_ok_def)

lemma db_wf_sr_delete [wf_intros]:
  assumes wf: "db_wf d"
  shows "db_wf (sr_delete dbt P d)"
proof -
  define gone where "gone = set (map sc_id (filter P (scan_results d)))"
  define d1 where "d1 = wq_update dbt (\<lambda>r. \<exists>s\<in>gone. wq_scan_result_id r = Some s)
                          (\<lambda>r. r\<lparr>wq_scan_result_id := None\<rparr>) d"
  have eq: "sr_delete dbt P d = d1\<lparr>scan_results := sql_delete P (scan_results d),
      junction := sql_delete (\<lambda>(w, s). s \<in> gone) (junction d)\<rparr>"
    by (simp add: sr_delete_def d1_def gone_def Let_def)
  have fr: "scan_results d1 = scan_results d" "junction d1 = junction d" "libraries d1 = libraries d"
    by (simp_all add: d1_def)
  have wf1: "db_wf d1"
    unfolding d1_def using wf
    by (intro db_wf_wq_update) (auto simp: wq_key_def wq_row_ok_def link_ok_def)
  have q: "wf_queue (sr_delete dbt P d)"
    using wf1 sr_delete_link [of _ dbt P d] wf
    by (simp add: eq db_wf_def wf_queue_def sr_ids_def)
  have "snd p \<in> sc_id ` set (sql_delete P (scan_results d))"
    if "p \<in> set (junction d)" "snd p \<notin> gone" for p
  proof -
    from wf that(1) obtain r where r: "r \<in> set (scan_results d)" "sc_id r = snd p"
      by (auto simp: db_wf_def wf_junction_def)
    with that(2) have "\<not> P r" by (auto simp: gone_def intro: rev_image_eqI)
    with r show ?thesis by (auto simp: set_sql_delete intro!: rev_image_eqI)
  qed
  with wf1 have j: "wf_junction (sr_delete dbt P d)"
    by (simp add: eq fr db_wf_def wf_junction_def set_sql_delete image_subset_iff)
      (auto simp: sql_delete_def)
  show ?thesis
    using wf1 q j
    by (simp add: eq fr db_wf_def wf_scan_def wf_libraries_def wf_cache_def wf_keys_def
        ids_ok_delete map_sql_delete_sub) (auto simp: set_sql_delete)
qed

lemma sr_delete_frame [simp]:
  "libraries (sr_delete dbt P d) = libraries d" "lib_seq (sr_delete dbt P d) = lib_seq d"
  "sr_seq (sr_delete dbt P d) = sr_seq d" "wq_seq (sr_delete dbt P d) = wq_seq d"
  "lyrics_cache (sr_delete dbt P d) = lyrics_cache d" "lc_seq (sr_delete dbt P d) = lc_seq d"
  "api_keys (sr_delete dbt P d) = api_keys d"
  "scan_results (sr_delete dbt P d) = sql_delete P (scan_results d)"
  by (simp_all add: sr_delete_def Let_def)

lemma db_wf_lib_delete [wf_intros]:
  assumes wf: "db_wf d"
  shows "db_wf (lib_delete dbt P d)"
proof -
  define gone where "gone = set (map lb_id (filter P (libraries d)))"
  define d1 where "d1 = sr_delete dbt (\<lambda>s. sc_library_id s \<in> gone) d"
  have wf1: "db_wf d1"
    unfolding d1_def using wf by (rule db_wf_sr_delete)
  have eq: "lib_delete dbt P d = d1\<lparr>libraries := sql_delete P (libraries d)\<rparr>"
    by (simp add: lib_delete_def d1_def gone_def Let_def)
  have fk: "sc_library_id s \<in> lb_id ` set (sql_delete P (libraries d))"
    if "s \<in> set (scan_results d1)" for s
    using wf that
    by (fastforce simp: d1_def set_sql_delete gone_def db_wf_def wf_scan_def)
  have "libraries d1 = libraries d" "lib_seq d1 = lib_seq d"
    by (simp_all add: d1_def)
  then show ?thesis
    using wf1 fk
    by (simp add: eq wf_defs ids_ok_delete map_sql_delete_sub sr_ids_def image_subset_iff)
qed

end
