(* ===== verification/Normalize.thy ===== *)
theory Normalize
  imports Go_Strings
begin

text \<open>
  The cache and queue key of package \<open>internal/normalize\<close>. The transformer chain of
  golang.org/x/text (NFKD, remove nonspacing marks, NFC) and the Unicode case table are the fields
  \<open>u_strip_marks\<close> and \<open>u_lower\<close> of the parameter \<open>unicode_env\<close>.
\<close>

definition NormalizeKey :: "unicode_env \<Rightarrow> string \<Rightarrow> string" where
  "NormalizeKey u s =
     (let sanitized = ToValidUTF8 s '''';
          result = (case u_strip_marks u sanitized of None \<Rightarrow> sanitized | Some r \<Rightarrow> r)
      in ToLower u (TrimSpace result))"

text \<open>When the transformer fails the sanitized input is folded instead.\<close>

lemma NormalizeKey_fallback:
  "u_strip_marks u (ToValidUTF8 s '''') = None \<Longrightarrow>
   NormalizeKey u s = ToLower u (TrimSpace (ToValidUTF8 s ''''))"
  by (simp add: NormalizeKey_def)

end
