(* ===== verification/Work_Queue.thy ===== *)
theory Work_Queue
  imports Database Normalize
begin

text \<open>
  The durable queue of \<open>internal/queue/queue.go\<close>: every operation of \<open>DBQueue\<close> over the database
  record, with its SQL statements in order, its transaction, its error returns and its driver
  calls. An operation takes the instant \<open>now\<close> that the queue's clock returns (nanoseconds), the
  instant \<open>dbt\<close> that SQL's \<open>strftime('now')\<close> reads (seconds), and \<open>io\<close>, the errors the driver
  returns at its calls; the comments number the calls. An error inside a transaction rolls it back.
\<close>

section \<open>Items and columns\<close>

definition PriorityScan :: int where "PriorityScan = 0"
definition PriorityWebhook :: int where "PriorityWebhook = 10"

record WorkItem =
  wi_ID :: int
  wi_Inputs :: Inputs
  wi_Status :: status
  wi_Priority :: int
  wi_Attempts :: int
  wi_NextAttemptAt :: int
  wi_LastError :: string
  wi_CreatedAt :: int
  wi_UpdatedAt :: int
  wi_CompletedAt :: "int option"

record DBQueue =
  dq_baseBackoff :: int
  dq_maxBackoff :: int

definition NewDBQueue :: DBQueue where
  "NewDBQueue = \<lparr>dq_baseBackoff = DefaultBase, dq_maxBackoff = DefaultMax\<rparr>"

text \<open>What a path is after a round through its JSON text.\<close>

definition json_path :: "OutputPath \<Rightarrow> OutputPath" where
  "json_path p = \<lparr>op_Outdir = coerce_utf8 (op_Outdir p), op_Filename = coerce_utf8 (op_Filename p)\<rparr>"

definition marshalOutputPaths :: "Inputs \<Rightarrow> paths_col" where
  "marshalOutputPaths inputs =
     (let paths = in_OutputPaths inputs;
          paths = (if length paths = 0
                   then [\<lparr>op_Outdir = in_Outdir inputs, op_Filename = in_Filename inputs\<rparr>] else paths)
      in PathsJSON (map json_path paths))"

definition unmarshalOutputPaths :: "paths_col \<Rightarrow> string \<Rightarrow> string \<Rightarrow> OutputPath list res" where
  "unmarshalOutputPaths s outdir filename =
     (case s of
        PathsEmpty \<Rightarrow> Inr [\<lparr>op_Outdir = outdir, op_Filename = filename\<rparr>]
      | PathsCorrupt \<Rightarrow> Inl (Errorf ''queue: unmarshal output paths: '' (New ''invalid JSON'') '''')
      | PathsJSON paths \<Rightarrow>
          Inr (if length paths = 0 then [\<lparr>op_Outdir = outdir, op_Filename = filename\<rparr>] else paths))"

definition outputPathKey :: "OutputPath \<Rightarrow> string" where
  "outputPathKey p = op_Outdir p @ [CHR 0x00] @ op_Filename p"

definition nullableID :: "int \<Rightarrow> int option" where
  "nullableID i = (if i \<le> 0 then None else Some i)"

text \<open>The conversion of a row to an item; the columns of the track that have no column are zero.\<close>

definition scanWorkItem :: "wq_row \<Rightarrow> WorkItem res" where
  "scanWorkItem r =
     (case unmarshalOutputPaths (wq_output_paths r) (wq_outdir r) (wq_filename r) of
        Inl e \<Rightarrow> Inl e
      | Inr paths \<Rightarrow> Inr
          \<lparr>wi_ID = wq_id r,
           wi_Inputs =
             \<lparr>in_Track = zero_Track\<lparr>tr_ArtistName := wq_artist r, tr_TrackName := wq_title r\<rparr>,
              in_Outdir = wq_outdir r, in_Filename = wq_filename r,
              in_SourcePath = wq_source_path r, in_OutputPaths = paths,
              in_ScanResultID = (case wq_scan_result_id r of None \<Rightarrow> 0 | Some s \<Rightarrow> s)\<rparr>,
           wi_Status = wq_status r, wi_Priority = wq_priority r, wi_Attempts = wq_attempts r,
           wi_NextAttemptAt = parseTime (wq_next_attempt_at r), wi_LastError = wq_last_error r,
           wi_CreatedAt = parseTime (wq_created_at r), wi_UpdatedAt = parseTime (wq_updated_at r),
           wi_CompletedAt = map_option parseTime (wq_completed_at r)\<rparr>)"

text \<open>\<open>requireAffected\<close>: the driver's error, or \<open>sql.ErrNoRows\<close> when no row was affected.\<close>

definition requireAffected :: "io \<Rightarrow> nat \<Rightarrow> int \<Rightarrow> string \<Rightarrow> unit res" where
  "requireAffected io k n op =
     (case io k of
        Some e \<Rightarrow> Inl (Errorf (op @ '' rows affected: '') e '''')
      | None \<Rightarrow> if n = 0 then Inl (Sen SqlErrNoRows) else Inr ())"

section \<open>Enqueue\<close>

text \<open>The row the INSERT offers (the SQL name \<open>excluded\<close>), with the defaults of the other columns.\<close>

definition excluded_row :: "unicode_env \<Rightarrow> Inputs \<Rightarrow> int \<Rightarrow> int \<Rightarrow> int \<Rightarrow> int \<Rightarrow> wq_row" where
  "excluded_row u inputs priority ts dbt newid =
     \<lparr>wq_id = newid,
      wq_artist = tr_ArtistName (in_Track inputs),
      wq_title = tr_TrackName (in_Track inputs),
      wq_artist_key = NormalizeKey u (tr_ArtistName (in_Track inputs)),
      wq_title_key = NormalizeKey u (tr_TrackName (in_Track inputs)),
      wq_outdir = in_Outdir inputs, wq_filename = in_Filename inputs,
      wq_source_path = in_SourcePath inputs,
      wq_output_paths = marshalOutputPaths inputs,
      wq_scan_result_id = nullableID (in_ScanResultID inputs),
      wq_status = Pending, wq_priority = priority, wq_attempts = 0, wq_next_attempt_at = ts,
      wq_last_error = '''', wq_created_at = dbt, wq_updated_at = dbt, wq_completed_at = None\<rparr>"

text \<open>The SET list of ON CONFLICT DO UPDATE, column by column.\<close>

definition conflict_row :: "bool \<Rightarrow> wq_row \<Rightarrow> wq_row \<Rightarrow> wq_row" where
  "conflict_row refreshFailedBackoff old exc =
     (let keep = (wq_status old = Done \<or> wq_status old = Processing)
      in old\<lparr>
        wq_artist := (if keep then wq_artist old else wq_artist exc),
        wq_title := (if keep then wq_title old else wq_title exc),
        wq_outdir := (if keep then wq_outdir old else wq_outdir exc),
        wq_filename := (if keep then wq_filename old else wq_filename exc),
        wq_source_path := (if keep then wq_source_path old else wq_source_path exc),
        wq_output_paths := (if keep then wq_output_paths old else wq_output_paths exc),
        wq_scan_result_id :=
          (case wq_scan_result_id old of Some s \<Rightarrow> Some s | None \<Rightarrow> wq_scan_result_id exc),
        wq_priority := max (wq_priority old) (wq_priority exc),
        wq_status := (if keep \<or> wq_status old = Failed then wq_status old else Pending),
        wq_next_attempt_at :=
          (if keep then wq_next_attempt_at old
           else if wq_status old = Failed \<and> refreshFailedBackoff then wq_next_attempt_at exc
           else if wq_status old = Failed then wq_next_attempt_at old
           else wq_next_attempt_at exc),
        wq_last_error := (if keep \<or> wq_status old = Failed then wq_last_error old else ''''),
        wq_completed_at := (if wq_status old = Done then wq_completed_at old else None)\<rparr>)"

definition fk_error :: goerr where
  "fk_error = New ''FOREIGN KEY constraint failed''"

text \<open>
  INSERT ... ON CONFLICT(artist_key, title_key) DO UPDATE ... RETURNING. The returned row is the
  row as the statement leaves it, before the trigger stamps it.
\<close>

definition wq_upsert :: "bool \<Rightarrow> int \<Rightarrow> wq_row \<Rightarrow> db \<Rightarrow> (wq_row \<times> db) res" where
  "wq_upsert refresh dbt exc d =
     (case find (\<lambda>r. wq_key r = wq_key exc) (work_queue d) of
        None \<Rightarrow>
          if link_ok (sr_ids d) (wq_scan_result_id exc)
          then Inr (exc, d\<lparr>work_queue := work_queue d @ [exc], wq_seq := wq_id exc\<rparr>)
          else Inl fk_error
      | Some old \<Rightarrow>
          (let new = conflict_row refresh old exc
           in if link_ok (sr_ids d) (wq_scan_result_id new)
              then Inr (new, wq_update dbt (\<lambda>r. wq_id r = wq_id old) (\<lambda>_. new) d)
              else Inl fk_error))"

text \<open>INSERT OR IGNORE INTO work_queue_scan_results.\<close>

definition wq_link :: "int \<Rightarrow> int \<Rightarrow> db \<Rightarrow> db res" where
  "wq_link w s d =
     (if (w, s) \<in> set (junction d) then Inr d
      else if w \<in> wq_id ` set (work_queue d) \<and> s \<in> sr_ids d
        then Inr (d\<lparr>junction := junction d @ [(w, s)]\<rparr>)
        else Inl fk_error)"

text \<open>Driver calls: 0 BeginTx, 1 the upsert, 2 the link, 3 Commit.\<close>

definition Enqueue ::
  "unicode_env \<Rightarrow> io \<Rightarrow> int \<Rightarrow> int \<Rightarrow> Inputs \<Rightarrow> int \<Rightarrow> db \<Rightarrow> WorkItem res \<times> db" where
  "Enqueue u io now dbt inputs priority d =
     (let ts = formatTime now;
          refreshFailedBackoff = (priority \<ge> PriorityWebhook);
          exc = excluded_row u inputs priority ts dbt (wq_seq d + 1)
      in drv io 0 ''queue: begin enqueue tx: '' d
        (drv io 1 ''queue: enqueue: '' d
          (case wq_upsert refreshFailedBackoff dbt exc d of
             Inl e \<Rightarrow> (Inl (Errorf ''queue: enqueue: '' e ''''), d)
           | Inr (row, d1) \<Rightarrow>
             (case scanWorkItem row of
                Inl e \<Rightarrow> (Inl (Errorf ''queue: enqueue: '' e ''''), d)
              | Inr item \<Rightarrow>
                 if in_ScanResultID inputs > 0
                 then (let pre = ''queue: link scan_result '' @ Itoa (in_ScanResultID inputs) @ '': ''
                       in drv io 2 pre d
                         (case wq_link (wi_ID item) (in_ScanResultID inputs) d1 of
                            Inl e \<Rightarrow> (Inl (Errorf pre e ''''), d)
                          | Inr d2 \<Rightarrow> drv io 3 ''queue: commit enqueue tx: '' d (Inr item, d2)))
                 else drv io 3 ''queue: commit enqueue tx: '' d (Inr item, d1)))))"

section \<open>Dequeue, Complete, Release, Fail\<close>

definition retryable :: "wq_row \<Rightarrow> bool" where
  "retryable r \<longleftrightarrow> wq_status r = Pending \<or> wq_status r = Failed"

definition ready :: "int \<Rightarrow> wq_row \<Rightarrow> bool" where
  "ready ts r \<longleftrightarrow> retryable r \<and> wq_next_attempt_at r \<le> ts"

text \<open>ORDER BY priority DESC, created_at ASC, id ASC.\<close>

definition queue_order :: "wq_row \<Rightarrow> int \<times> int \<times> int" where
  "queue_order r = (- wq_priority r, wq_created_at r, wq_id r)"

definition dequeue_pick :: "int \<Rightarrow> db \<Rightarrow> wq_row option" where
  "dequeue_pick ts d = first_row (order_by queue_order (filter (ready ts) (work_queue d)))"

text \<open>
  Driver call: 0 the UPDATE ... RETURNING. There is no transaction around it, so the claim stands
  even when the returned row cannot be converted.
\<close>

definition Dequeue :: "io \<Rightarrow> int \<Rightarrow> int \<Rightarrow> db \<Rightarrow> WorkItem res \<times> db" where
  "Dequeue io now dbt d =
     (let ts = formatTime now
      in case query_row io 0 (dequeue_pick ts d) of
           Inl e \<Rightarrow>
             (if errors_Is e SqlErrNoRows then (Inl (Sen SqlErrNoRows), d)
              else (Inl (Errorf ''queue: dequeue: '' e ''''), d))
         | Inr r \<Rightarrow>
             (let claim = (\<lambda>x. x\<lparr>wq_status := Processing\<rparr>);
                  d1 = wq_update dbt (\<lambda>x. wq_id x = wq_id r) claim d
              in case scanWorkItem (claim r) of
                   Inl e \<Rightarrow> (Inl (Errorf ''queue: dequeue: '' e ''''), d1)
                 | Inr item \<Rightarrow> (Inr item, d1)))"

definition in_processing :: "int \<Rightarrow> wq_row \<Rightarrow> bool" where
  "in_processing i r \<longleftrightarrow> wq_id r = i \<and> wq_status r = Processing"

definition linked_results :: "db \<Rightarrow> int \<Rightarrow> int list" where
  "linked_results d i = map snd (filter (\<lambda>(w, s). w = i) (junction d))"

text \<open>
  Driver calls: 0 BeginTx, 1 the UPDATE of the row, 2 its affected count, 3 the UPDATE of the linked
  scan results, 4 Commit.
\<close>

definition Complete :: "io \<Rightarrow> int \<Rightarrow> int \<Rightarrow> int \<Rightarrow> db \<Rightarrow> unit res \<times> db" where
  "Complete io now dbt i d =
     (let ts = formatTime now
      in drv io 0 ''queue: begin complete tx: '' d
        (drv io 1 ''queue: complete: '' d
          (let n = sql_count (in_processing i) (work_queue d);
               d1 = wq_update dbt (in_processing i)
                      (\<lambda>r. r\<lparr>wq_status := Done, wq_completed_at := Some ts, wq_last_error := ''''\<rparr>) d
           in case requireAffected io 2 n ''queue: complete'' of
                Inl e \<Rightarrow> (Inl e, d)
              | Inr _ \<Rightarrow>
                  drv io 3 ''queue: complete scan_results writeback: '' d
                   (let d2 = sr_update
                               (\<lambda>s. sc_id s \<in> set (linked_results d1 i) \<and> sc_status s \<noteq> Done)
                               (\<lambda>s. s\<lparr>sc_status := Done\<rparr>) d1
                    in drv io 4 ''queue: commit complete tx: '' d (Inr (), d2)))))"

text \<open>Driver calls: 0 the UPDATE, 1 its affected count. The UPDATE stands when only call 1 fails.\<close>

definition Release :: "io \<Rightarrow> int \<Rightarrow> int \<Rightarrow> db \<Rightarrow> unit res \<times> db" where
  "Release io dbt i d =
     drv io 0 ''queue: release: '' d
       (let n = sql_count (in_processing i) (work_queue d);
            d1 = wq_update dbt (in_processing i)
                   (\<lambda>r. r\<lparr>wq_status := Pending, wq_last_error := ''''\<rparr>) d
        in (requireAffected io 1 n ''queue: release'', d1))"

text \<open>
  Driver calls: 0 BeginTx, 1 the SELECT of attempts, 2 the UPDATE, 3 Commit. The attempts are counted without
  the wrap of Go's \<open>int\<close>: to reach it, a row would have to fail 2^63 times with a minute or more between two.
\<close>

definition Fail ::
  "DBQueue \<Rightarrow> io \<Rightarrow> int \<Rightarrow> int \<Rightarrow> int \<Rightarrow> goerr option \<Rightarrow> db \<Rightarrow> WorkItem res \<times> db" where
  "Fail q io now dbt i cause d =
     drv io 0 ''queue: begin fail tx: '' d
      (case query_row io 1 (find (in_processing i) (work_queue d)) of
         Inl e \<Rightarrow>
           (if errors_Is e SqlErrNoRows then (Inl (Sen SqlErrNoRows), d)
            else (Inl (Errorf ''queue: load attempts: '' e ''''), d))
       | Inr r \<Rightarrow>
           (let nextAttempts = wq_attempts r + 1;
                nextAttemptAt =
                  formatTime (now + Geometric nextAttempts (dq_baseBackoff q) (dq_maxBackoff q));
                lastError = (case cause of None \<Rightarrow> '''' | Some c \<Rightarrow> Error c);
                upd = (\<lambda>x. x\<lparr>wq_status := Failed, wq_attempts := nextAttempts,
                           wq_next_attempt_at := nextAttemptAt, wq_last_error := lastError\<rparr>);
                d1 = wq_update dbt (in_processing i) upd d
            in drv io 2 ''queue: fail: '' d
                (case scanWorkItem (upd r) of
                   Inl e \<Rightarrow> (Inl (Errorf ''queue: fail: '' e ''''), d)
                 | Inr item \<Rightarrow> drv io 3 ''queue: commit fail tx: '' d (Inr item, d1))))"

section \<open>Cleanup, List, Retry, ClearDone, counts\<close>

text \<open>Driver calls: 0 the DELETE, 1 its affected count.\<close>

definition Cleanup :: "unicode_env \<Rightarrow> io \<Rightarrow> Inputs \<Rightarrow> db \<Rightarrow> int res \<times> db" where
  "Cleanup u io inputs d =
     (let hit = (\<lambda>r. wq_artist_key r = NormalizeKey u (tr_ArtistName (in_Track inputs)) \<and>
                     wq_title_key r = NormalizeKey u (tr_TrackName (in_Track inputs)) \<and>
                     retryable r);
          n = sql_count hit (work_queue d);
          d1 = wq_delete hit d
      in drv io 0 ''queue: cleanup: '' d
          (drv io 1 ''queue: cleanup rows affected: '' d1 (Inr n, d1)))"

record ListFilter =
  lf_Status :: string
  lf_Limit :: int

text \<open>Driver calls: 0 the query, 1 the end of the rows, 2 their Close.\<close>

definition QueueList :: "io \<Rightarrow> ListFilter \<Rightarrow> db \<Rightarrow> WorkItem list res" where
  "QueueList io flt d =
     (let by_status = filter (\<lambda>r. status_text (wq_status r) = lf_Status flt);
          ordered = order_by queue_order;
          rows =
            (if lf_Status flt \<noteq> '''' \<and> lf_Limit flt > 0
             then take (nat (lf_Limit flt)) (ordered (by_status (work_queue d)))
             else if lf_Status flt \<noteq> '''' then ordered (by_status (work_queue d))
             else if lf_Limit flt > 0 then take (nat (lf_Limit flt)) (ordered (work_queue d))
             else ordered (work_queue d))
      in case io 0 of Some e \<Rightarrow> Inl (Errorf ''queue: list: '' e '''')
         | None \<Rightarrow>
           (case map_res scanWorkItem rows of
              Inl e \<Rightarrow> Inl (Errorf ''queue: list scan: '' e '''')
            | Inr items \<Rightarrow>
               (case io 1 of Some e \<Rightarrow> Inl (Errorf ''queue: list rows: '' e '''')
                | None \<Rightarrow>
                   (case io 2 of Some e \<Rightarrow> Inl (Errorf ''queue: close list rows: '' e '''')
                    | None \<Rightarrow> Inr items))))"

text \<open>
  Driver calls: 0 BeginTx, 1 the UPDATE ... RETURNING, 2 the existence check, 3 the UPDATE of the
  linked scan results, 4 Commit.
\<close>

definition Retry :: "io \<Rightarrow> int \<Rightarrow> int \<Rightarrow> int \<Rightarrow> db \<Rightarrow> WorkItem res \<times> db" where
  "Retry io now dbt i d =
     (let ts = formatTime now;
          hit = (\<lambda>r. wq_id r = i \<and> wq_status r = Failed);
          upd = (\<lambda>r. r\<lparr>wq_status := Pending, wq_attempts := 0, wq_next_attempt_at := ts,
                      wq_last_error := ''''\<rparr>);
          d1 = wq_update dbt hit upd d;
          result = (case query_row io 1 (find hit (work_queue d)) of
                      Inl e \<Rightarrow> Inl e | Inr r \<Rightarrow> scanWorkItem (upd r))
      in drv io 0 ''queue: begin retry tx: '' d
          (case result of
             Inl e \<Rightarrow>
               (if errors_Is e SqlErrNoRows
                then (case query_row io 2 (find (\<lambda>r. wq_id r = i) (work_queue d)) of
                        Inl e' \<Rightarrow>
                          (if errors_Is e' SqlErrNoRows then (Inl (Sen SqlErrNoRows), d)
                           else (Inl (Errorf ''queue: retry existence check: '' e' ''''), d))
                      | Inr _ \<Rightarrow> (Inl (Sen ErrNotRetryable), d))
                else (Inl (Errorf ''queue: retry: '' e ''''), d))
           | Inr item \<Rightarrow>
               drv io 3 ''queue: retry scan_results reset: '' d
                (let d2 = sr_update
                            (\<lambda>s. sc_id s \<in> set (linked_results d1 i) \<and> sc_status s = Processing)
                            (\<lambda>s. s\<lparr>sc_status := Pending\<rparr>) d1
                 in drv io 4 ''queue: commit retry tx: '' d (Inr item, d2))))"

text \<open>Driver calls: 0 the DELETE, 1 its affected count.\<close>

definition ClearDone :: "io \<Rightarrow> db \<Rightarrow> int res \<times> db" where
  "ClearDone io d =
     (let hit = (\<lambda>r. wq_status r = Done);
          n = sql_count hit (work_queue d);
          d1 = wq_delete hit d
      in drv io 0 ''queue: clear done: '' d
          (drv io 1 ''queue: clear done rows affected: '' d1 (Inr n, d1)))"

definition CountDone :: "io \<Rightarrow> db \<Rightarrow> int res" where
  "CountDone io d =
     (case io 0 of Some e \<Rightarrow> Inl (Errorf ''queue: count done: '' e '''')
      | None \<Rightarrow> Inr (sql_count (\<lambda>r. wq_status r = Done) (work_queue d)))"

text \<open>Driver calls: 0 the query, 1 the conversion of a row, 2 the end of the rows.\<close>

definition CountByStatus :: "io \<Rightarrow> db \<Rightarrow> (status \<rightharpoonup> int) res" where
  "CountByStatus io d =
     (let counts = (\<lambda>st. let n = sql_count (\<lambda>r. wq_status r = st) (work_queue d)
                         in if n = 0 then None else Some n)
      in case io 0 of Some e \<Rightarrow> Inl (Errorf ''queue: count by status: '' e '''')
         | None \<Rightarrow>
           (case io 1 of Some e \<Rightarrow> Inl (Errorf ''queue: scan status count: '' e '''')
            | None \<Rightarrow>
              (case io 2 of Some e \<Rightarrow> Inl (Errorf ''queue: count by status rows: '' e '''')
               | None \<Rightarrow> Inr counts)))"

section \<open>Cancellation by library\<close>

text \<open>
  The SELECT DISTINCT over the join: the pending and failed rows that some scan result of the
  library is linked to, by id.
\<close>

definition linked_to_library :: "db \<Rightarrow> int \<Rightarrow> wq_row \<Rightarrow> bool" where
  "linked_to_library d lib r \<longleftrightarrow>
     (\<exists>p\<in>set (junction d). fst p = wq_id r \<and>
        (\<exists>s\<in>set (scan_results d). sc_id s = snd p \<and> sc_library_id s = lib))"

definition cancel_candidates :: "db \<Rightarrow> int \<Rightarrow> (int \<times> paths_col) list" where
  "cancel_candidates d lib =
     map (\<lambda>r. (wq_id r, wq_output_paths r))
       (order_by wq_id (filter (\<lambda>r. linked_to_library d lib r \<and> retryable r) (work_queue d)))"

text \<open>Driver calls: \<open>k\<close> the query, \<open>k + 1\<close> a row, \<open>k + 2\<close> the end of the rows.\<close>

definition keepSetForRow :: "io \<Rightarrow> nat \<Rightarrow> db \<Rightarrow> int \<Rightarrow> int \<Rightarrow> string set res" where
  "keepSetForRow io k d workQueueID libraryID =
     (let rows = filter (\<lambda>s. sc_id s \<in> set (linked_results d workQueueID) \<and> sc_library_id s \<noteq> libraryID)
                   (scan_results d)
      in case io k of
        Some e \<Rightarrow> Inl (Errorf (''queue: keep-set query row '' @ Itoa workQueueID @ '': '') e '''')
      | None \<Rightarrow>
        (case (if rows = [] then None else io (k + 1)) of
           Some e \<Rightarrow> Inl (Errorf (''queue: scan keep-set row '' @ Itoa workQueueID @ '': '') e '''')
         | None \<Rightarrow>
           (case io (k + 2) of
              Some e \<Rightarrow> Inl (Errorf (''queue: keep-set rows '' @ Itoa workQueueID @ '': '') e '''')
            | None \<Rightarrow> Inr (set (map (\<lambda>s. outputPathKey \<lparr>op_Outdir = sc_outdir s, op_Filename = sc_filename s\<rparr>)
                rows)))))"

definition cancel_paths :: "paths_col \<Rightarrow> OutputPath list res" where
  "cancel_paths c =
     (case c of PathsEmpty \<Rightarrow> Inr [] | PathsJSON paths \<Rightarrow> Inr paths
      | PathsCorrupt \<Rightarrow> Inl (New ''invalid JSON''))"

definition cancel_hit :: "int \<Rightarrow> wq_row \<Rightarrow> bool" where
  "cancel_hit i r \<longleftrightarrow> wq_id r = i \<and> retryable r"

text \<open>
  The loop over the candidates, with the two counters. Driver calls of one round: \<open>k\<close> to \<open>k + 2\<close>
  the keep set, \<open>k + 3\<close> the DELETE or UPDATE, \<open>k + 4\<close> its affected count.
\<close>

fun cancel_loop ::
  "io \<Rightarrow> int \<Rightarrow> int \<Rightarrow> bool \<Rightarrow> nat \<Rightarrow> (int \<times> paths_col) list \<Rightarrow> int \<Rightarrow> int \<Rightarrow> db \<Rightarrow> (int \<times> int) res \<times> db"
where
  "cancel_loop io dbt lib dryRun k [] deleted updated d = (Inr (deleted, updated), d)"
| "cancel_loop io dbt lib dryRun k ((cid, col) # cs) deleted updated d =
     (case keepSetForRow io k d cid lib of
        Inl e \<Rightarrow> (Inl e, d)
      | Inr keep \<Rightarrow>
        (case cancel_paths col of
           Inl e \<Rightarrow> (Inl (Errorf (''queue: unmarshal output_paths for row '' @ Itoa cid @ '': '') e ''''), d)
         | Inr paths \<Rightarrow>
           (let filtered = filter (\<lambda>p. outputPathKey p \<in> keep) paths;
                n = sql_count (cancel_hit cid) (work_queue d);
                hit = (if n = 1 then 1 else 0)
            in if length filtered = 0
               then (if dryRun then cancel_loop io dbt lib dryRun (k + 5) cs (deleted + 1) updated d
                     else drv io (k + 3) (''queue: cancel delete row '' @ Itoa cid @ '': '') d
                      (drv io (k + 4) (''queue: cancel delete rows affected '' @ Itoa cid @ '': '') d
                        (cancel_loop io dbt lib dryRun (k + 5) cs (deleted + hit) updated
                           (wq_delete (cancel_hit cid) d))))
               else if length filtered = length paths
               then cancel_loop io dbt lib dryRun (k + 5) cs deleted updated d
               else (if dryRun then cancel_loop io dbt lib dryRun (k + 5) cs deleted (updated + 1) d
                     else drv io (k + 3) (''queue: cancel update row '' @ Itoa cid @ '': '') d
                      (drv io (k + 4) (''queue: cancel update rows affected '' @ Itoa cid @ '': '') d
                        (cancel_loop io dbt lib dryRun (k + 5) cs deleted (updated + hit)
                           (wq_update dbt (cancel_hit cid)
                              (\<lambda>r. r\<lparr>wq_output_paths := PathsJSON (map json_path filtered)\<rparr>) d)))))))"

text \<open>
  Driver calls: 2 the candidate query, 3 a row, 4 the end of the rows, 5 their Close, from 6 on the loop.
\<close>

definition cancelByLibrary :: "io \<Rightarrow> int \<Rightarrow> int \<Rightarrow> bool \<Rightarrow> db \<Rightarrow> (int \<times> int) res \<times> db" where
  "cancelByLibrary io dbt libraryID dryRun d =
     drv io 2 ''queue: cancel-by-library candidates: '' d
      (drv (if cancel_candidates d libraryID = [] then no_faults else io) 3 ''queue: scan cancel candidate: '' d
        (drv io 4 ''queue: cancel candidates rows: '' d
          (drv io 5 ''queue: close cancel candidates: '' d
            (cancel_loop io dbt libraryID dryRun 6 (cancel_candidates d libraryID) 0 0 d))))"

text \<open>Driver calls: 0 BeginTx, 1 Commit, and those of \<open>cancelByLibrary\<close>.\<close>

definition CancelByLibrary :: "io \<Rightarrow> int \<Rightarrow> int \<Rightarrow> db \<Rightarrow> (int \<times> int) res \<times> db" where
  "CancelByLibrary io dbt libraryID d =
     drv io 0 ''queue: begin cancel-by-library tx: '' d
      (case cancelByLibrary io dbt libraryID False d of
         (Inl e, _) \<Rightarrow> (Inl e, d)
       | (Inr r, d1) \<Rightarrow> drv io 1 ''queue: commit cancel-by-library tx: '' d (Inr r, d1))"

text \<open>Inside a caller's transaction: the state of an error return is what the caller rolls back.\<close>

definition CancelByLibraryTx :: "io \<Rightarrow> int \<Rightarrow> int \<Rightarrow> db \<Rightarrow> (int \<times> int) res \<times> db" where
  "CancelByLibraryTx io dbt libraryID d = cancelByLibrary io dbt libraryID False d"

definition CountCancelByLibrary :: "io \<Rightarrow> int \<Rightarrow> db \<Rightarrow> (int \<times> int) res" where
  "CountCancelByLibrary io libraryID d =
     fst (drv io 0 ''queue: begin count-cancel tx: '' d (cancelByLibrary io 0 libraryID True d))"

end
