(* ===== verification/Work_Queue_Inv.thy ===== *)
theory Work_Queue_Inv
  imports Work_Queue
begin

text \<open>
  Every operation of the durable queue keeps the database invariant, whatever the driver does.
  The lemmas follow the statements: one for the upsert, one for the link, and then one per
  operation, closed by the rules collected in \<open>wf_intros\<close>.
\<close>

section \<open>Rules shared by the operations\<close>

lemma snd_drv: "snd (drv io k pre d r) = (case io k of None \<Rightarrow> snd r | Some _ \<Rightarrow> d)"
  by (simp add: drv_def split: option.splits)

lemma db_wf_drv [wf_intros]: "db_wf d \<Longrightarrow> db_wf (snd r) \<Longrightarrow> db_wf (snd (drv io k pre d r))"
  by (simp add: snd_drv split: option.splits)

lemma wf_queue_row:
  assumes "db_wf d" and "r \<in> set (work_queue d)"
  shows "wq_row_ok r" and "link_ok (sr_ids d) (wq_scan_result_id r)"
  using assms by (auto simp: db_wf_def wf_queue_def)

lemma db_wf_ids: "db_wf d \<Longrightarrow> ids_ok wq_id (wq_seq d) (work_queue d)"
  by (simp add: db_wf_def wf_queue_def)

lemma wq_id_inj:
  "db_wf d \<Longrightarrow> r \<in> set (work_queue d) \<Longrightarrow> r' \<in> set (work_queue d) \<Longrightarrow> wq_id r = wq_id r' \<Longrightarrow> r = r'"
  by (rule ids_ok_inj [OF db_wf_ids])

lemma find_wq_id:
  "db_wf d \<Longrightarrow> r \<in> set (work_queue d) \<Longrightarrow> find (\<lambda>x. wq_id x = wq_id r) (work_queue d) = Some r"
  by (rule find_unique [OF ids_ok_distinct [OF db_wf_ids]])

text \<open>An update that touches neither ids, nor keys, nor links needs only the row invariant.\<close>

lemma db_wf_wq_update_row [wf_intros]:
  assumes "db_wf d"
    and "\<And>r. wq_id (f r) = wq_id r" "\<And>r. wq_key (f r) = wq_key r"
    and "\<And>r. wq_scan_result_id (f r) = wq_scan_result_id r"
    and "\<And>r. r \<in> set (work_queue d) \<Longrightarrow> P r \<Longrightarrow> wq_row_ok r \<Longrightarrow> wq_row_ok (f r)"
  shows "db_wf (wq_update dbt P f d)"
  using assms by (intro db_wf_wq_update) auto

text \<open>An update of the one row with a given id.\<close>

lemma db_wf_wq_update_at:
  assumes wf: "db_wf d" and r: "r \<in> set (work_queue d)"
    and "wq_id (f r) = wq_id r" "wq_key (f r) = wq_key r" "wq_row_ok (f r)"
    and "link_ok (sr_ids d) (wq_scan_result_id (f r))"
  shows "db_wf (wq_update dbt (\<lambda>x. wq_id x = wq_id r) f d)"
proof (rule db_wf_wq_update [OF wf])
  fix x assume "x \<in> set (work_queue d)" "wq_id x = wq_id r"
  then have "x = r" by (rule wq_id_inj [OF wf _ r])
  with assms show "wq_id (f x) = wq_id x \<and> wq_key (f x) = wq_key x"
    and "wq_row_ok (f x)" and "link_ok (sr_ids d) (wq_scan_result_id (f x))"
    by simp_all
qed

lemma db_wf_sr_status [wf_intros]:
  "db_wf d \<Longrightarrow> db_wf (sr_update P (\<lambda>s. s\<lparr>sc_status := st\<rparr>) d)"
  by (rule db_wf_sr_update) (simp_all add: sr_key_def)

section \<open>Enqueue\<close>

lemma excluded_row_ok: "wq_row_ok (excluded_row u inputs p ts dbt i)"
  by (simp add: excluded_row_def wq_row_ok_def)

lemma conflict_row_simps [simp]:
  "wq_id (conflict_row rf old exc) = wq_id old"
  "wq_key (conflict_row rf old exc) = wq_key old"
  "wq_priority (conflict_row rf old exc) = max (wq_priority old) (wq_priority exc)"
  "wq_attempts (conflict_row rf old exc) = wq_attempts old"
  "wq_status (conflict_row rf old exc) = wq_status old"
  by (cases "wq_status old"; simp add: conflict_row_def wq_key_def Let_def)+

lemma conflict_row_ok: "wq_row_ok old \<Longrightarrow> wq_row_ok (conflict_row rf old exc)"
  by (cases "wq_status old") (auto simp: wq_row_ok_def conflict_row_def Let_def)

lemma db_wf_append_row:
  assumes wf: "db_wf d" and "wq_row_ok exc" "wq_id exc = wq_seq d + 1"
    and new: "\<forall>r\<in>set (work_queue d). wq_key r \<noteq> wq_key exc"
    and "link_ok (sr_ids d) (wq_scan_result_id exc)"
  shows "db_wf (d\<lparr>work_queue := work_queue d @ [exc], wq_seq := wq_seq d + 1\<rparr>)"
proof -
  have "ids_ok wq_id (wq_seq d + 1) (work_queue d @ [exc])"
    using ids_ok_snoc [OF db_wf_ids [OF wf] assms(3)] .
  with assms show ?thesis
    by (auto simp: wf_defs sr_ids_def)
qed

lemma wq_upsert_wf:
  assumes wf: "db_wf d" and "wq_row_ok exc" "wq_id exc = wq_seq d + 1"
    and ok: "wq_upsert rf dbt exc d = Inr (row, d1)"
  shows "db_wf d1"
proof (cases "find (\<lambda>r. wq_key r = wq_key exc) (work_queue d)")
  case None
  with ok assms show ?thesis
    by (auto simp: wq_upsert_def find_none intro!: db_wf_append_row split: if_splits)
next
  case (Some old)
  then have old: "old \<in> set (work_queue d)"
    by (auto dest: find_in_set)
  with Some ok wf show ?thesis
    using db_wf_wq_update_at [OF wf old, of "\<lambda>_. row" dbt] wf_queue_row(1) [OF wf old]
    by (auto simp: wq_upsert_def Let_def conflict_row_ok split: if_splits)
qed

lemma db_wf_link:
  assumes "db_wf d" "(w, s) \<notin> set (junction d)"
    and "w \<in> wq_id ` set (work_queue d)" "s \<in> sr_ids d"
  shows "db_wf (d\<lparr>junction := junction d @ [(w, s)]\<rparr>)"
  using assms by (simp add: wf_defs sr_ids_def)

lemma wq_link_wf: "db_wf d \<Longrightarrow> wq_link w s d = Inr d' \<Longrightarrow> db_wf d'"
  unfolding wq_link_def using db_wf_link by (metis Inl_Inr_False Inr_inject)

lemma Enqueue_wf [wf_intros]:
  "db_wf d \<Longrightarrow> db_wf (snd (Enqueue u io now dbt inputs priority d))"
  unfolding Enqueue_def Let_def
  by (auto intro!: db_wf_drv split: sum.splits
      dest!: wq_upsert_wf [rotated 3] wq_link_wf [rotated]
      simp: excluded_row_ok) (simp_all add: excluded_row_def)

section \<open>The other operations\<close>

lemma dequeue_pick_ready:
  "dequeue_pick ts d = Some r \<Longrightarrow> r \<in> set (work_queue d) \<and> ready ts r"
  by (auto simp: dequeue_pick_def dest!: first_row_order_by)

lemma Dequeue_wf [wf_intros]: "db_wf d \<Longrightarrow> db_wf (snd (Dequeue io now dbt d))"
proof -
  assume wf: "db_wf d"
  have "db_wf (wq_update dbt (\<lambda>x. wq_id x = wq_id r) (\<lambda>x. x\<lparr>wq_status := Processing\<rparr>) d)"
    if "dequeue_pick ts d = Some r" for ts r
  proof -
    have r: "r \<in> set (work_queue d)" "ready ts r"
      using dequeue_pick_ready [OF that] by auto
    with wf_queue_row [OF wf r(1)] show ?thesis
      by (intro db_wf_wq_update_at [OF wf])
        (auto simp: wq_key_def wq_row_ok_def ready_def retryable_def)
  qed
  with wf show ?thesis
    unfolding Dequeue_def Let_def by (auto split: sum.splits simp: query_row_ok)
qed

lemma Complete_wf [wf_intros]: "db_wf d \<Longrightarrow> db_wf (snd (Complete io now dbt i d))"
  unfolding Complete_def Let_def
  by (auto split: sum.splits intro!: wf_intros simp: wq_key_def wq_row_ok_def)

lemma Release_wf [wf_intros]: "db_wf d \<Longrightarrow> db_wf (snd (Release io dbt i d))"
  unfolding Release_def Let_def
  by (auto intro!: wf_intros simp: wq_key_def wq_row_ok_def in_processing_def)

lemma Fail_wf [wf_intros]: "db_wf d \<Longrightarrow> db_wf (snd (Fail q io now dbt i cause d))"
proof -
  assume wf: "db_wf d"
  have "db_wf (wq_update dbt (in_processing i)
          (\<lambda>x. x\<lparr>wq_status := Failed, wq_attempts := wq_attempts r + 1,
                wq_next_attempt_at := t, wq_last_error := e\<rparr>) d)"
    if "find (in_processing i) (work_queue d) = Some r" for r t e
  proof -
    from that have "0 \<le> wq_attempts r"
      using wf by (auto dest!: find_in_set wf_queue_row(1) simp: wq_row_ok_def)
    with wf show ?thesis
      by (intro db_wf_wq_update_row) (auto simp: wq_key_def wq_row_ok_def in_processing_def)
  qed
  with wf show ?thesis
    unfolding Fail_def Let_def
    by (auto split: sum.splits intro!: db_wf_drv simp: query_row_ok)
qed

lemma Cleanup_wf [wf_intros]: "db_wf d \<Longrightarrow> db_wf (snd (Cleanup u io inputs d))"
  unfolding Cleanup_def Let_def by (auto intro!: wf_intros)

lemma Retry_wf [wf_intros]: "db_wf d \<Longrightarrow> db_wf (snd (Retry io now dbt i d))"
  unfolding Retry_def Let_def
  by (auto split: sum.splits intro!: wf_intros simp: wq_key_def wq_row_ok_def)

lemma ClearDone_wf [wf_intros]: "db_wf d \<Longrightarrow> db_wf (snd (ClearDone io d))"
  unfolding ClearDone_def Let_def by (auto intro!: wf_intros)

lemma cancel_loop_wf:
  "db_wf d \<Longrightarrow> db_wf (snd (cancel_loop io dbt lib dry k cs del upd d))"
proof (induction cs arbitrary: k del upd d)
  case Nil
  then show ?case by simp
next
  case (Cons c cs)
  have "db_wf (wq_delete P d)" for P
    using Cons.prems by (rule db_wf_wq_delete)
  moreover have "db_wf (wq_update dbt P (\<lambda>r. r\<lparr>wq_output_paths := x\<rparr>) d)" for P x
    using Cons.prems by (rule db_wf_wq_update_row) (simp_all add: wq_key_def wq_row_ok_def)
  ultimately show ?case
    using Cons by (cases c) (auto simp: Let_def intro!: db_wf_drv split: sum.splits)
qed

lemma cancelByLibrary_wf [wf_intros]:
  "db_wf d \<Longrightarrow> db_wf (snd (cancelByLibrary io dbt lib dry d))"
  unfolding cancelByLibrary_def by (auto intro!: db_wf_drv cancel_loop_wf)

lemma CancelByLibraryTx_wf [wf_intros]:
  "db_wf d \<Longrightarrow> db_wf (snd (CancelByLibraryTx io dbt lib d))"
  unfolding CancelByLibraryTx_def by (rule cancelByLibrary_wf)

lemma CancelByLibrary_wf [wf_intros]:
  "db_wf d \<Longrightarrow> db_wf (snd (CancelByLibrary io dbt lib d))"
  using cancelByLibrary_wf [of d io dbt lib False]
  unfolding CancelByLibrary_def by (auto intro!: db_wf_drv split: prod.splits sum.splits)

end
