(* ===== verification/Queue_Rows.thy ===== *)
theory Queue_Rows
  imports Work_Queue_Inv
begin

text \<open>
  The queue seen row by row: the row with an id, the row for a normalized artist/title key, and the
  status of an id, with what each statement does to them. The behaviour of the operations is proved
  over these views.
\<close>

definition row_of :: "db \<Rightarrow> int \<Rightarrow> wq_row option" where
  "row_of d i = find (\<lambda>r. wq_id r = i) (work_queue d)"

definition row_for :: "db \<Rightarrow> string \<times> string \<Rightarrow> wq_row option" where
  "row_for d k = find (\<lambda>r. wq_key r = k) (work_queue d)"

definition status_of :: "db \<Rightarrow> int \<Rightarrow> status option" where
  "status_of d i = map_option wq_status (row_of d i)"

definition key_of :: "unicode_env \<Rightarrow> Inputs \<Rightarrow> string \<times> string" where
  "key_of u inputs =
     (NormalizeKey u (tr_ArtistName (in_Track inputs)), NormalizeKey u (tr_TrackName (in_Track inputs)))"

text \<open>Everything of the database but the queue table.\<close>

definition same_but_queue :: "db \<Rightarrow> db \<Rightarrow> bool" where
  "same_but_queue d d' \<longleftrightarrow> d' = d\<lparr>work_queue := work_queue d'\<rparr>"

named_theorems row_simps \<open>the row views under the statements\<close>

section \<open>Finding rows\<close>

lemma row_of_mem: "row_of d i = Some r \<Longrightarrow> r \<in> set (work_queue d) \<and> wq_id r = i"
  by (auto simp: row_of_def dest: find_in_set)

lemma row_for_mem: "row_for d k = Some r \<Longrightarrow> r \<in> set (work_queue d) \<and> wq_key r = k"
  by (auto simp: row_for_def dest: find_in_set)

lemma row_of_Some: "db_wf d \<Longrightarrow> row_of d i = Some r \<longleftrightarrow> r \<in> set (work_queue d) \<and> wq_id r = i"
  using find_wq_id [of d r] by (auto simp: row_of_def dest: find_in_set)

lemma row_of_None: "row_of d i = None \<longleftrightarrow> (\<forall>r\<in>set (work_queue d). wq_id r \<noteq> i)"
  by (simp add: row_of_def find_none)

lemma row_for_None: "row_for d k = None \<longleftrightarrow> (\<forall>r\<in>set (work_queue d). wq_key r \<noteq> k)"
  by (simp add: row_for_def find_none)

lemma row_for_Some: "db_wf d \<Longrightarrow> row_for d k = Some r \<longleftrightarrow> r \<in> set (work_queue d) \<and> wq_key r = k"
  using find_unique [of wq_key "work_queue d" r]
  by (auto simp: row_for_def db_wf_def wf_queue_def dest: find_in_set)

lemma find_map_upd:
  "(\<And>x. P x \<Longrightarrow> k (f x) = k x) \<Longrightarrow>
   find (\<lambda>x. k x = i) (sql_update P f xs) = map_option (\<lambda>x. if P x then f x else x) (find (\<lambda>x. k x = i) xs)"
  unfolding sql_update_def by (induction xs) auto

lemma row_of_wq_update [row_simps]:
  "(\<And>r. P r \<Longrightarrow> wq_id (f r) = wq_id r) \<Longrightarrow>
   row_of (wq_update dbt P f d) i =
     map_option (\<lambda>r. if P r then (f r)\<lparr>wq_updated_at := dbt\<rparr> else r) (row_of d i)"
  unfolding row_of_def wq_update_def by (simp add: find_map_upd)

lemma row_for_wq_update [row_simps]:
  "(\<And>r. P r \<Longrightarrow> wq_key (f r) = wq_key r) \<Longrightarrow>
   row_for (wq_update dbt P f d) k =
     map_option (\<lambda>r. if P r then (f r)\<lparr>wq_updated_at := dbt\<rparr> else r) (row_for d k)"
  unfolding row_for_def wq_update_def by (simp add: find_map_upd wq_key_def)

lemma find_filter_unique:
  "distinct (map k xs) \<Longrightarrow>
   find (\<lambda>x. k x = i) (filter P xs) = (case find (\<lambda>x. k x = i) xs of None \<Rightarrow> None | Some x \<Rightarrow> if P x then Some x else None)"
proof (induction xs)
  case (Cons a xs)
  show ?case
  proof (cases "k a = i")
    case True
    with Cons.prems have "\<forall>x\<in>set xs. k x \<noteq> i"
      by (metis distinct.simps(2) image_eqI list.set_map list.simps(9))
    then have "find (\<lambda>x. k x = i) (filter P xs) = None" "find (\<lambda>x. k x = i) xs = None"
      by (auto simp: find_none)
    with True show ?thesis by simp
  next
    case False
    with Cons show ?thesis by simp
  qed
qed simp

lemma row_of_wq_delete [row_simps]:
  "db_wf d \<Longrightarrow>
   row_of (wq_delete P d) i = (case row_of d i of None \<Rightarrow> None | Some r \<Rightarrow> if P r then None else Some r)"
  using find_filter_unique [OF ids_ok_distinct [OF db_wf_ids], of d i "\<lambda>r. \<not> P r"]
  by (auto simp: row_of_def sql_delete_def split: option.splits)

lemma row_for_wq_delete [row_simps]:
  "db_wf d \<Longrightarrow>
   row_for (wq_delete P d) k = (case row_for d k of None \<Rightarrow> None | Some r \<Rightarrow> if P r then None else Some r)"
  using find_filter_unique [of wq_key "work_queue d" k "\<lambda>r. \<not> P r"]
  by (auto simp: row_for_def sql_delete_def db_wf_def wf_queue_def split: option.splits)

lemma row_views_sr_update [row_simps]:
  "row_of (sr_update P f d) i = row_of d i" "row_for (sr_update P f d) k = row_for d k"
  by (simp_all add: row_of_def row_for_def)

lemma count_in_processing:
  assumes "db_wf d"
  shows "sql_count (in_processing i) (work_queue d) = (if status_of d i = Some Processing then 1 else 0)"
proof (cases "row_of d i")
  case None
  then show ?thesis
    by (simp add: status_of_def) (auto simp: row_of_None in_processing_def sql_count_def filter_empty_conv)
next
  case (Some r)
  then have r: "r \<in> set (work_queue d)" "wq_id r = i"
    using row_of_mem by auto
  have "filter (\<lambda>x. wq_id x = wq_id r) (work_queue d) = [r]"
    using filter_unique [OF ids_ok_distinct [OF db_wf_ids [OF assms]] r(1)] .
  then have "filter (in_processing i) (work_queue d) = filter (\<lambda>x. wq_status x = Processing) [r]"
    by (simp flip: r(2)) (simp add: in_processing_def [abs_def] r(2) filter_filter [symmetric] conj_commute)
  then have "sql_count (in_processing i) (work_queue d) = (if wq_status r = Processing then 1 else 0)"
    by (simp add: sql_count_def)
  with Some show ?thesis by (simp add: status_of_def)
qed

lemma find_in_processing:
  assumes "db_wf d"
  shows "find (in_processing i) (work_queue d) =
           (case row_of d i of None \<Rightarrow> None | Some r \<Rightarrow> if wq_status r = Processing then Some r else None)"
proof (cases "find (in_processing i) (work_queue d)")
  case None
  then show ?thesis
    by (auto simp: find_none in_processing_def dest: row_of_mem split: option.splits)
next
  case (Some r)
  then have "r \<in> set (work_queue d)" "wq_id r = i" "wq_status r = Processing"
    by (auto dest: find_in_set simp: in_processing_def)
  moreover from this have "row_of d i = Some r"
    using row_of_Some [OF assms] by simp
  ultimately show ?thesis using Some by simp
qed

section \<open>Readable rows\<close>

text \<open>Rows whose output paths are JSON text: all that the program writes.\<close>

definition readable :: "wq_row \<Rightarrow> bool" where
  "readable r \<longleftrightarrow> wq_output_paths r \<noteq> PathsCorrupt"

definition all_readable :: "db \<Rightarrow> bool" where
  "all_readable d \<longleftrightarrow> (\<forall>r\<in>set (work_queue d). readable r)"

lemma unmarshal_total: "s \<noteq> PathsCorrupt \<Longrightarrow> \<exists>ps. unmarshalOutputPaths s o' f = Inr ps"
  by (cases s) (auto simp: unmarshalOutputPaths_def)

lemma scanWorkItem_total: "readable r \<Longrightarrow> \<exists>item. scanWorkItem r = Inr item \<and> wi_ID item = wq_id r"
  using unmarshal_total [of "wq_output_paths r" "wq_outdir r" "wq_filename r"]
  by (auto simp: scanWorkItem_def readable_def)

lemma scanWorkItem_fields:
  "scanWorkItem r = Inr item \<Longrightarrow>
     wi_ID item = wq_id r \<and> wi_Status item = wq_status r \<and> wi_Priority item = wq_priority r \<and>
     wi_Attempts item = wq_attempts r \<and> wi_NextAttemptAt item = parseTime (wq_next_attempt_at r) \<and>
     wi_LastError item = wq_last_error r"
  by (auto simp: scanWorkItem_def split: sum.splits)

lemma marshal_readable: "marshalOutputPaths inputs \<noteq> PathsCorrupt"
  by (simp add: marshalOutputPaths_def Let_def)

end
