(* ===== verification/Scan_Repo.thy ===== *)
theory Scan_Repo
  imports Queue_Rows
begin

text \<open>
  The scan results of \<open>internal/scan/repository.go\<close>: the upsert of a scan's findings, the listings,
  the status update and the deletion of a library's results, over the table \<open>scan_results\<close>.
\<close>

section \<open>Operations\<close>

record UpsertOptions =
  uo_ForceStatus :: bool

definition check_error :: goerr where
  "check_error = New ''CHECK constraint failed''"

text \<open>The status column an upsert offers: pending unless the result has one.\<close>

definition insert_status :: "ScanResult \<Rightarrow> string" where
  "insert_status res = (if sr_Status res = '''' then status_text Pending else sr_Status res)"

definition res_key :: "int \<Rightarrow> ScanResult \<Rightarrow> int \<times> string" where
  "res_key libraryID res = (libraryID, sr_FilePath res)"

text \<open>The SET list of the conflict clause, with the status only under \<open>ForceStatus\<close>.\<close>

definition refresh_result :: "bool \<Rightarrow> status \<Rightarrow> ScanResult \<Rightarrow> sr_row \<Rightarrow> sr_row" where
  "refresh_result force st res r =
     r\<lparr>sc_artist := tr_ArtistName (sr_Track res), sc_title := tr_TrackName (sr_Track res),
       sc_outdir := sr_Outdir res, sc_filename := sr_Filename res,
       sc_status := (if force then st else sc_status r)\<rparr>"

definition fresh_result :: "int \<Rightarrow> int \<Rightarrow> int \<Rightarrow> status \<Rightarrow> ScanResult \<Rightarrow> sr_row" where
  "fresh_result i dbt libraryID st res =
     \<lparr>sc_id = i, sc_library_id = libraryID, sc_file_path = sr_FilePath res,
      sc_artist = tr_ArtistName (sr_Track res), sc_title = tr_TrackName (sr_Track res),
      sc_outdir = sr_Outdir res, sc_filename = sr_Filename res, sc_status = st, sc_created_at = dbt\<rparr>"

text \<open>The statement for one result. The CHECK constraint is on the row offered.\<close>

definition upsert_one :: "bool \<Rightarrow> int \<Rightarrow> int \<Rightarrow> ScanResult \<Rightarrow> db \<Rightarrow> db res" where
  "upsert_one force dbt libraryID res d =
     (case status_of_text (insert_status res) of
        None \<Rightarrow> Inl check_error
      | Some st \<Rightarrow>
         if \<exists>r\<in>set (scan_results d). sr_key r = res_key libraryID res
         then Inr (sr_update (\<lambda>r. sr_key r = res_key libraryID res) (refresh_result force st res) d)
         else if libraryID \<in> lb_id ` set (libraries d)
         then Inr (d\<lparr>scan_results := scan_results d @ [fresh_result (sr_seq d + 1) dbt libraryID st res],
                     sr_seq := sr_seq d + 1\<rparr>)
         else Inl fk_error)"

fun upsert_loop :: "io \<Rightarrow> nat \<Rightarrow> bool \<Rightarrow> int \<Rightarrow> int \<Rightarrow> ScanResult list \<Rightarrow> db \<Rightarrow> db res" where
  "upsert_loop io k force dbt libraryID [] d = Inr d"
| "upsert_loop io k force dbt libraryID (res # rest) d =
     (let pre = ''scan: upsert '' @ sr_FilePath res @ '': ''
      in case io k of
           Some e \<Rightarrow> Inl (Errorf pre e '''')
         | None \<Rightarrow>
            (case upsert_one force dbt libraryID res d of
               Inl e \<Rightarrow> Inl (Errorf pre e '''')
             | Inr d' \<Rightarrow> upsert_loop io (k + 1) force dbt libraryID rest d'))"

text \<open>Driver calls: 0 BeginTx, 1 Commit, from 2 on the statements.\<close>

definition Upsert :: "io \<Rightarrow> int \<Rightarrow> int \<Rightarrow> ScanResult list \<Rightarrow> UpsertOptions \<Rightarrow> db \<Rightarrow> unit res \<times> db" where
  "Upsert io dbt libraryID results opts d =
     drv io 0 ''scan: begin upsert tx: '' d
       (case upsert_loop io 2 (uo_ForceStatus opts) dbt libraryID results d of
          Inl e \<Rightarrow> (Inl e, d)
        | Inr d' \<Rightarrow> drv io 1 ''scan: commit upsert tx: '' d (Inr (), d'))"

text \<open>\<open>scanResultRows\<close>: the conversion of the rows.\<close>

definition row_result :: "sr_row \<Rightarrow> ScanResult" where
  "row_result r =
     \<lparr>sr_ID = sc_id r, sr_LibraryID = sc_library_id r, sr_FilePath = sc_file_path r,
      sr_Track = zero_Track\<lparr>tr_ArtistName := sc_artist r, tr_TrackName := sc_title r\<rparr>,
      sr_Outdir = sc_outdir r, sr_Filename = sc_filename r, sr_Status = status_text (sc_status r),
      sr_CreatedAt = parseTime (sc_created_at r)\<rparr>"

text \<open>Driver calls of a listing: 0 the query, 1 the rows, 2 their Close.\<close>

definition scan_listing :: "io \<Rightarrow> string \<Rightarrow> string \<Rightarrow> string \<Rightarrow> sr_row list \<Rightarrow> ScanResult list res" where
  "scan_listing io query_pre rows_pre close_pre rows =
     (case io 0 of Some e \<Rightarrow> Inl (Errorf query_pre e '''')
      | None \<Rightarrow>
        (case io 1 of Some e \<Rightarrow> Inl (Errorf rows_pre e '''')
         | None \<Rightarrow>
           (case io 2 of Some e \<Rightarrow> Inl (Errorf close_pre e '''')
            | None \<Rightarrow> Inr (map row_result rows))))"

definition ListByLibrary :: "io \<Rightarrow> int \<Rightarrow> db \<Rightarrow> ScanResult list res" where
  "ListByLibrary io libraryID d =
     scan_listing io ''scan: list by library: '' ''scan: list rows: '' ''scan: close list rows: ''
       (order_by sc_id (filter (\<lambda>r. sc_library_id r = libraryID) (scan_results d)))"

definition ListPendingByLibrary :: "io \<Rightarrow> int \<Rightarrow> db \<Rightarrow> ScanResult list res" where
  "ListPendingByLibrary io libraryID d =
     scan_listing io ''scan: list pending by library: '' ''scan: list pending rows: ''
       ''scan: close pending rows: ''
       (order_by sc_id (filter (\<lambda>r. sc_library_id r = libraryID \<and> sc_status r = Pending) (scan_results d)))"

record ScanFilter =
  sf_LibraryID :: "int option"
  sf_Status :: string
  sf_Limit :: int

definition ScanList :: "io \<Rightarrow> ScanFilter \<Rightarrow> db \<Rightarrow> ScanResult list res" where
  "ScanList io flt d =
     (let has_status = (\<lambda>r. status_text (sc_status r) = sf_Status flt);
          rows =
            (case sf_LibraryID flt of
               Some lib \<Rightarrow>
                 (if sf_Status flt \<noteq> ''''
                  then filter (\<lambda>r. sc_library_id r = lib \<and> has_status r) (scan_results d)
                  else filter (\<lambda>r. sc_library_id r = lib) (scan_results d))
             | None \<Rightarrow>
                 (if sf_Status flt \<noteq> '''' then filter has_status (scan_results d) else scan_results d));
          ordered = order_by sc_id rows;
          limited = (if sf_Limit flt > 0 then take (nat (sf_Limit flt)) ordered else ordered)
      in scan_listing io ''scan: list: '' ''scan: list rows: '' ''scan: close list rows: '' limited)"

text \<open>Driver calls: 0 the DELETE, 1 its affected count.\<close>

definition ClearByLibrary :: "io \<Rightarrow> int \<Rightarrow> int \<Rightarrow> db \<Rightarrow> int res \<times> db" where
  "ClearByLibrary io dbt libraryID d =
     (let hit = (\<lambda>r. sc_library_id r = libraryID);
          n = sql_count hit (scan_results d);
          d1 = sr_delete dbt hit d
      in drv io 0 ''scan: clear by library: '' d
          (drv io 1 ''scan: clear by library rows affected: '' d1 (Inr n, d1)))"

text \<open>The same inside a caller's transaction, which the caller rolls back on an error.\<close>

definition ClearByLibraryTx :: "io \<Rightarrow> int \<Rightarrow> int \<Rightarrow> db \<Rightarrow> int res \<times> db" where
  "ClearByLibraryTx io dbt libraryID d =
     (let hit = (\<lambda>r. sc_library_id r = libraryID);
          n = sql_count hit (scan_results d);
          d1 = sr_delete dbt hit d
      in drv io 0 ''scan: clear by library tx: '' d
          (drv io 1 ''scan: clear by library tx rows affected: '' d1 (Inr n, d1)))"

definition CountByLibrary :: "io \<Rightarrow> int \<Rightarrow> db \<Rightarrow> int res" where
  "CountByLibrary io libraryID d =
     (case io 0 of Some e \<Rightarrow> Inl (Errorf ''scan: count by library: '' e '''')
      | None \<Rightarrow> Inr (sql_count (\<lambda>r. sc_library_id r = libraryID) (scan_results d)))"

text \<open>Driver calls of the loop: \<open>k\<close> the UPDATE, \<open>k + 1\<close> its affected count.\<close>

fun set_status_loop :: "io \<Rightarrow> nat \<Rightarrow> status \<Rightarrow> int list \<Rightarrow> db \<Rightarrow> db res" where
  "set_status_loop io k st [] d = Inr d"
| "set_status_loop io k st (i # ids) d =
     (case io k of
        Some e \<Rightarrow> Inl (Errorf (''scan: set status '' @ Itoa i @ '': '') e '''')
      | None \<Rightarrow>
        (case io (k + 1) of
           Some e \<Rightarrow> Inl (Errorf ''scan: set status rows affected: '' e '''')
         | None \<Rightarrow>
           (if sql_count (\<lambda>r. sc_id r = i) (scan_results d) = 0 then Inl (Sen SqlErrNoRows)
            else set_status_loop io (k + 2) st ids
                   (sr_update (\<lambda>r. sc_id r = i) (\<lambda>r. r\<lparr>sc_status := st\<rparr>) d))))"

text \<open>Driver calls: 0 BeginTx, 1 Commit, from 2 on the loop.\<close>

definition SetStatus :: "io \<Rightarrow> int list \<Rightarrow> string \<Rightarrow> db \<Rightarrow> unit res \<times> db" where
  "SetStatus io ids status d =
     (if ids = [] then (Inr (), d)
      else case status_of_text status of
        None \<Rightarrow> (Inl (New (''scan: unsupported status '' @ Quoted status)), d)
      | Some st \<Rightarrow>
         drv io 0 ''scan: begin set status tx: '' d
           (case set_status_loop io 2 st ids d of
              Inl e \<Rightarrow> (Inl e, d)
            | Inr d' \<Rightarrow> drv io 1 ''scan: commit set status tx: '' d (Inr (), d')))"

section \<open>The invariant\<close>

lemma db_wf_append_result:
  assumes "db_wf d" "sc_id r = sr_seq d + 1" "\<forall>x\<in>set (scan_results d). sr_key x \<noteq> sr_key r"
    and "sc_library_id r \<in> lb_id ` set (libraries d)"
  shows "db_wf (d\<lparr>scan_results := scan_results d @ [r], sr_seq := sr_seq d + 1\<rparr>)"
proof -
  have "ids_ok sc_id (sr_seq d + 1) (scan_results d @ [r])"
    using assms by (intro ids_ok_snoc) (simp_all add: db_wf_def wf_scan_def)
  with assms show ?thesis
    by (auto simp: wf_defs sr_ids_def link_ok_def)
qed

lemma upsert_one_wf:
  assumes "db_wf d" "upsert_one force dbt lib res d = Inr d'"
  shows "db_wf d'"
  using assms
  by (auto simp: upsert_one_def res_key_def sr_key_def refresh_result_def fresh_result_def
      intro!: db_wf_sr_update db_wf_append_result split: option.splits if_splits)

lemma upsert_loop_wf:
  "db_wf d \<Longrightarrow> upsert_loop io k force dbt lib results d = Inr d' \<Longrightarrow> db_wf d'"
  by (induction results arbitrary: k d)
    (auto simp: Let_def split: option.splits sum.splits dest: upsert_one_wf)

lemma Upsert_wf [wf_intros]: "db_wf d \<Longrightarrow> db_wf (snd (Upsert io dbt lib results opts d))"
  unfolding Upsert_def by (auto intro!: db_wf_drv split: sum.splits dest: upsert_loop_wf)

lemma ClearByLibrary_wf [wf_intros]:
  "db_wf d \<Longrightarrow> db_wf (snd (ClearByLibrary io dbt lib d))"
  "db_wf d \<Longrightarrow> db_wf (snd (ClearByLibraryTx io dbt lib d))"
  unfolding ClearByLibrary_def ClearByLibraryTx_def Let_def
  by (auto intro!: db_wf_drv db_wf_sr_delete)

lemma set_status_loop_wf:
  "db_wf d \<Longrightarrow> set_status_loop io k st ids d = Inr d' \<Longrightarrow> db_wf d'"
  by (induction ids arbitrary: k d) (auto split: option.splits if_splits dest: db_wf_sr_status)

lemma SetStatus_wf [wf_intros]: "db_wf d \<Longrightarrow> db_wf (snd (SetStatus io ids status d))"
  unfolding SetStatus_def
  by (auto intro!: db_wf_drv split: sum.splits option.splits dest: set_status_loop_wf)

section \<open>What the upsert does\<close>

definition result_for :: "db \<Rightarrow> int \<times> string \<Rightarrow> sr_row option" where
  "result_for d k = find (\<lambda>r. sr_key r = k) (scan_results d)"

lemma result_for_mem: "result_for d k = Some r \<Longrightarrow> r \<in> set (scan_results d) \<and> sr_key r = k"
  by (auto simp: result_for_def dest: find_in_set)

lemma result_for_None: "result_for d k = None \<longleftrightarrow> (\<forall>r\<in>set (scan_results d). sr_key r \<noteq> k)"
  by (simp add: result_for_def find_none)

text \<open>The row that a result leaves for its key, given the row that was there.\<close>

definition merged :: "bool \<Rightarrow> ScanResult \<Rightarrow> sr_row option \<Rightarrow> sr_row \<Rightarrow> bool" where
  "merged force res old r \<longleftrightarrow>
     sc_artist r = tr_ArtistName (sr_Track res) \<and> sc_title r = tr_TrackName (sr_Track res) \<and>
     sc_outdir r = sr_Outdir res \<and> sc_filename r = sr_Filename res \<and>
     (case old of
        None \<Rightarrow> status_text (sc_status r) = insert_status res
      | Some o' \<Rightarrow> sc_id r = sc_id o' \<and> sc_created_at r = sc_created_at o' \<and>
          (if force then status_text (sc_status r) = insert_status res else sc_status r = sc_status o'))"

lemma status_of_text_Some: "status_of_text s = Some st \<longleftrightarrow> s = status_text st"
proof
  assume "status_of_text s = Some st"
  then show "s = status_text st"
    unfolding status_of_text_def using find_in_set by fastforce
qed simp

lemma find_app: "find Q (xs @ [x]) = (case find Q xs of None \<Rightarrow> if Q x then Some x else None | Some y \<Rightarrow> Some y)"
  by (induction xs) auto

lemma upsert_one_effect:
  assumes "upsert_one force dbt lib res d = Inr d'"
  shows "\<exists>r. result_for d' (res_key lib res) = Some r \<and> merged force res (result_for d (res_key lib res)) r"
    and "k \<noteq> res_key lib res \<Longrightarrow> result_for d' k = result_for d k"
    and "work_queue d' = work_queue d \<and> junction d' = junction d"
proof -
  let ?k = "res_key lib res"
  from assms obtain st where st: "status_of_text (insert_status res) = Some st"
    by (auto simp: upsert_one_def split: option.splits)
  have "(\<exists>r. result_for d' ?k = Some r \<and> merged force res (result_for d ?k) r) \<and>
      (k \<noteq> ?k \<longrightarrow> result_for d' k = result_for d k) \<and> work_queue d' = work_queue d \<and> junction d' = junction d"
  proof (cases "result_for d ?k")
    case None
    then have "\<not> (\<exists>r\<in>set (scan_results d). sr_key r = ?k)"
      by (simp add: result_for_None)
    with assms st have d': "d' = d\<lparr>scan_results := scan_results d @ [fresh_result (sr_seq d + 1) dbt lib st res],
        sr_seq := sr_seq d + 1\<rparr>"
      by (auto simp: upsert_one_def split: if_splits)
    have key: "sr_key (fresh_result (sr_seq d + 1) dbt lib st res) = ?k"
      by (simp add: fresh_result_def sr_key_def res_key_def)
    have rf: "result_for d' k = (case result_for d k of None \<Rightarrow>
        if k = ?k then Some (fresh_result (sr_seq d + 1) dbt lib st res) else None | Some r \<Rightarrow> Some r)" for k
      by (auto simp: d' result_for_def find_app key)
    have m: "merged force res None (fresh_result (sr_seq d + 1) dbt lib st res)"
      using st by (simp add: merged_def fresh_result_def status_of_text_Some)
    have "result_for d' ?k = Some (fresh_result (sr_seq d + 1) dbt lib st res)"
      by (simp add: rf None)
    moreover have "k \<noteq> ?k \<longrightarrow> result_for d' k = result_for d k"
      by (cases "result_for d k") (simp_all add: rf)
    moreover have "work_queue d' = work_queue d" "junction d' = junction d"
      by (simp_all add: d')
    ultimately show ?thesis using None m by auto
  next
    case (Some o')
    then have "\<exists>r\<in>set (scan_results d). sr_key r = ?k"
      using result_for_mem [OF Some] by blast
    with assms st have d': "d' = sr_update (\<lambda>r. sr_key r = ?k) (refresh_result force st res) d"
      by (auto simp: upsert_one_def)
    have "result_for d' k = map_option (\<lambda>r. if sr_key r = ?k then refresh_result force st res r else r) (result_for d k)" for k
      by (simp add: d' result_for_def sr_update_def find_map_upd refresh_result_def sr_key_def)
    then have upd: "result_for d' k = map_option (\<lambda>r. if k = ?k then refresh_result force st res r else r) (result_for d k)" for k
      using result_for_mem [of d k] by (cases "result_for d k") auto
    have m: "merged force res (Some o') (refresh_result force st res o')"
      using st by (simp add: merged_def refresh_result_def status_of_text_Some)
    have "result_for d' ?k = Some (refresh_result force st res o')"
      by (simp add: upd Some)
    moreover have "k \<noteq> ?k \<longrightarrow> result_for d' k = result_for d k"
      by (cases "result_for d k") (simp_all add: upd)
    moreover have "work_queue d' = work_queue d" "junction d' = junction d"
      by (simp_all add: d')
    ultimately show ?thesis using Some m by auto
  qed
  then show "\<exists>r. result_for d' ?k = Some r \<and> merged force res (result_for d ?k) r"
    and "k \<noteq> ?k \<Longrightarrow> result_for d' k = result_for d k"
    and "work_queue d' = work_queue d \<and> junction d' = junction d"
    by auto
qed

lemma upsert_loop_effect:
  "upsert_loop io n force dbt lib results d = Inr d' \<Longrightarrow> distinct (map sr_FilePath results) \<Longrightarrow>
     (\<forall>res\<in>set results. \<exists>r. result_for d' (res_key lib res) = Some r \<and>
        merged force res (result_for d (res_key lib res)) r) \<and>
     (\<forall>k. k \<notin> res_key lib ` set results \<longrightarrow> result_for d' k = result_for d k) \<and>
     work_queue d' = work_queue d \<and> junction d' = junction d"
proof (induction results arbitrary: n d)
  case Nil
  then show ?case by simp
next
  case (Cons res rest)
  from Cons.prems(1) obtain d1 where one: "upsert_one force dbt lib res d = Inr d1"
    and loop: "upsert_loop io (n + 1) force dbt lib rest d1 = Inr d'"
    by (auto simp: Let_def split: option.splits sum.splits)
  note eff = upsert_one_effect [OF one]
  have IH: "(\<forall>res\<in>set rest. \<exists>r. result_for d' (res_key lib res) = Some r \<and>
        merged force res (result_for d1 (res_key lib res)) r) \<and>
     (\<forall>k. k \<notin> res_key lib ` set rest \<longrightarrow> result_for d' k = result_for d1 k) \<and>
     work_queue d' = work_queue d1 \<and> junction d' = junction d1"
    using Cons.IH [OF loop] Cons.prems(2) by simp
  have ne: "res_key lib x \<noteq> res_key lib res" if "x \<in> set rest" for x
  proof -
    have "sr_FilePath res \<notin> sr_FilePath ` set rest" using Cons.prems(2) by simp
    with that have "sr_FilePath x \<noteq> sr_FilePath res" by (metis image_eqI)
    then show ?thesis by (simp add: res_key_def)
  qed
  then have "res_key lib res \<notin> res_key lib ` set rest" by fastforce
  with IH have "result_for d' (res_key lib res) = result_for d1 (res_key lib res)"
    by blast
  with IH eff ne show ?case by auto
qed

text \<open>
  A successful Upsert of a scan leaves one row per scanned file with the scan's names and target.
  A file seen before keeps its id and its creation time, and its status too unless the caller forces
  it; a new file starts with the result's status, pending when it has none. Rows of other files and
  of other libraries, the queue and its links are untouched.
\<close>
theorem Upsert_refreshes_results:
  assumes "Upsert io dbt lib results opts d = (Inr (), d')" and "distinct (map sr_FilePath results)"
  shows "(\<forall>res\<in>set results. \<exists>r. result_for d' (lib, sr_FilePath res) = Some r \<and>
            merged (uo_ForceStatus opts) res (result_for d (lib, sr_FilePath res)) r) \<and>
         (\<forall>k. k \<notin> (\<lambda>res. (lib, sr_FilePath res)) ` set results \<longrightarrow> result_for d' k = result_for d k) \<and>
         work_queue d' = work_queue d \<and> junction d' = junction d"
proof -
  from assms(1) have "upsert_loop io 2 (uo_ForceStatus opts) dbt lib results d = Inr d'"
    by (auto simp: Upsert_def drv_ok split: sum.splits)
  from upsert_loop_effect [OF this assms(2)] show ?thesis
    by (simp add: res_key_def [abs_def])
qed

definition found_file :: "string \<Rightarrow> string \<Rightarrow> ScanResult" where
  "found_file path title =
     \<lparr>sr_ID = 0, sr_LibraryID = 0, sr_FilePath = path,
      sr_Track = zero_Track\<lparr>tr_ArtistName := ''Adele'', tr_TrackName := title\<rparr>,
      sr_Outdir = ''/m'', sr_Filename = ''a.lrc'', sr_Status = '''', sr_CreatedAt = 0\<rparr>"

definition one_library :: db where
  "one_library = empty_db\<lparr>libraries :=
     [\<lparr>lb_id = 1, lb_path = ''/m'', lb_name = ''m'', lb_created_at = 0, lb_updated_at = 0\<rparr>], lib_seq := 1\<rparr>"

lemma db_wf_one_library: "db_wf one_library"
  by (simp add: wf_defs one_library_def empty_db_def ids_ok_def sr_ids_def)

definition scanned_once :: db where
  "scanned_once = snd (SetStatus no_faults [1] ''done''
     (snd (Upsert no_faults 0 1 [found_file ''/m/a.mp3'' ''Hello''] \<lparr>uo_ForceStatus = False\<rparr> one_library)))"

theorem Upsert_refreshes_results_witness:
  "\<exists>d' r. Upsert no_faults 9 1 [found_file ''/m/a.mp3'' ''Hello!'', found_file ''/m/b.mp3'' ''Skyfall'']
             \<lparr>uo_ForceStatus = False\<rparr> scanned_once = (Inr (), d') \<and>
     result_for d' (1, ''/m/a.mp3'') = Some r \<and> sc_status r = Done \<and> sc_title r = ''Hello!''"
proof -
  let ?rs = "[found_file ''/m/a.mp3'' ''Hello!'', found_file ''/m/b.mp3'' ''Skyfall'']"
  have "is_ok (fst (Upsert no_faults 9 1 [found_file ''/m/a.mp3'' ''Hello!'', found_file ''/m/b.mp3'' ''Skyfall'']
             \<lparr>uo_ForceStatus = False\<rparr> scanned_once))"
    by code_simp
  then obtain d' where e: "Upsert no_faults 9 1 ?rs \<lparr>uo_ForceStatus = False\<rparr> scanned_once = (Inr (), d')"
    by (auto dest: is_okE)
  have "distinct (map sr_FilePath ?rs)"
    by (simp add: found_file_def)
  from Upsert_refreshes_results [OF e this]
  obtain r where r: "result_for d' (1, ''/m/a.mp3'') = Some r"
    "merged False (found_file ''/m/a.mp3'' ''Hello!'') (result_for scanned_once (1, ''/m/a.mp3'')) r"
    by (auto simp: found_file_def)
  have "case result_for scanned_once (1, ''/m/a.mp3'') of None \<Rightarrow> False | Some r \<Rightarrow> sc_status r = Done"
    by code_simp
  with r e show ?thesis
    by (auto simp: merged_def found_file_def split: option.splits)
qed

section \<open>Status updates, deletion and listings\<close>

definition with_status :: "status \<Rightarrow> int list \<Rightarrow> sr_row list \<Rightarrow> sr_row list" where
  "with_status st ids rows = map (\<lambda>r. if sc_id r \<in> set ids then r\<lparr>sc_status := st\<rparr> else r) rows"

lemma set_status_loop_no_faults:
  "set_status_loop no_faults k st ids d =
     (if set ids \<subseteq> sr_ids d then Inr (d\<lparr>scan_results := with_status st ids (scan_results d)\<rparr>)
      else Inl (Sen SqlErrNoRows))"
proof (induction ids arbitrary: k d)
  case Nil
  then show ?case by (simp add: with_status_def)
next
  case (Cons i ids)
  let ?d = "sr_update (\<lambda>r. sc_id r = i) (\<lambda>r. r\<lparr>sc_status := st\<rparr>) d"
  have ids: "sr_ids ?d = sr_ids d"
    by (simp add: sr_ids_def sr_update_def image_sql_update)
  have rows: "?d\<lparr>scan_results := with_status st ids (scan_results ?d)\<rparr> =
      d\<lparr>scan_results := with_status st (i # ids) (scan_results d)\<rparr>"
    by (simp add: sr_update_def sql_update_def with_status_def)
  have "sql_count (\<lambda>r. sc_id r = i) (scan_results d) = 0 \<longleftrightarrow> i \<notin> sr_ids d"
    by (auto simp: sql_count_zero sr_ids_def)
  with Cons.IH [of "k + 2" ?d] show ?case
    by (simp add: ids rows)
qed

text \<open>
  SetStatus is all or nothing: with a known status it sets it on exactly the named results, and if
  one of the ids does not exist it changes nothing and returns \<open>sql.ErrNoRows\<close>; an unknown status is
  refused unless there is nothing to do.
\<close>
theorem SetStatus_all_or_nothing:
  "SetStatus no_faults ids status d =
     (if ids = [] then (Inr (), d)
      else case status_of_text status of
        None \<Rightarrow> (Inl (New (''scan: unsupported status '' @ Quoted status)), d)
      | Some st \<Rightarrow>
          if set ids \<subseteq> sr_ids d
          then (Inr (), d\<lparr>scan_results := map (\<lambda>r. if sc_id r \<in> set ids then r\<lparr>sc_status := st\<rparr> else r)
                                         (scan_results d)\<rparr>)
          else (Inl (Sen SqlErrNoRows), d))"
  by (simp add: SetStatus_def set_status_loop_no_faults with_status_def split: option.splits)

lemma sr_delete_rows:
  "work_queue (sr_delete dbt P d) =
     map (\<lambda>r. if \<exists>s\<in>set (filter P (scan_results d)). wq_scan_result_id r = Some (sc_id s)
              then r\<lparr>wq_scan_result_id := None, wq_updated_at := dbt\<rparr> else r) (work_queue d)"
  by (simp add: sr_delete_def Let_def wq_update_def sql_update_def)

lemma sr_delete_junction:
  assumes "db_wf d"
  shows "set (junction (sr_delete dbt P d)) =
     {(w, s) \<in> set (junction d). s \<in> sc_id ` set (scan_results (sr_delete dbt P d))}"
proof -
  have inj: "r = r'" if "r \<in> set (scan_results d)" "r' \<in> set (scan_results d)" "sc_id r = sc_id r'" for r r'
    using assms that by (auto simp: db_wf_def wf_scan_def dest: ids_ok_inj)
  have ex: "\<exists>r\<in>set (scan_results d). sc_id r = s" if "(w, s) \<in> set (junction d)" for w s
    using assms that by (force simp: db_wf_def wf_junction_def)
  have "s \<notin> sc_id ` set (filter P (scan_results d)) \<longleftrightarrow> s \<in> sc_id ` set (sql_delete P (scan_results d))"
    if j: "(w, s) \<in> set (junction d)" for w s
  proof -
    from ex [OF j] obtain r where r: "r \<in> set (scan_results d)" "sc_id r = s" by blast
    have "x = r" if "x \<in> set (scan_results d)" "sc_id x = s" for x
      using inj that r by simp
    then have "s \<in> sc_id ` set (filter P (scan_results d)) \<longleftrightarrow> P r"
      and "s \<in> sc_id ` set (sql_delete P (scan_results d)) \<longleftrightarrow> \<not> P r"
      unfolding image_iff set_filter set_sql_delete using r by blast+
    then show ?thesis by simp
  qed
  moreover have "set (junction (sr_delete dbt P d)) =
     {(w, s) \<in> set (junction d). s \<notin> sc_id ` set (filter P (scan_results d))}"
    by (auto simp: sr_delete_def Let_def sql_delete_def)
  ultimately show ?thesis by auto
qed

text \<open>
  ClearByLibrary deletes exactly the library's results and reports the number that CountByLibrary
  announced; results of other libraries stay, every queue row stays, and what referred to a deleted
  result, by column or by link, no longer does.
\<close>
theorem ClearByLibrary_deletes_exactly:
  assumes "db_wf d" and "ClearByLibrary no_faults dbt lib d = (Inr n, d')"
  shows "scan_results d' = filter (\<lambda>r. sc_library_id r \<noteq> lib) (scan_results d) \<and>
         CountByLibrary no_faults lib d = Inr n \<and> CountByLibrary no_faults lib d' = Inr 0 \<and>
         map (\<lambda>r. r\<lparr>wq_scan_result_id := None, wq_updated_at := 0\<rparr>) (work_queue d') =
         map (\<lambda>r. r\<lparr>wq_scan_result_id := None, wq_updated_at := 0\<rparr>) (work_queue d) \<and>
         set (junction d') = {(w, s) \<in> set (junction d). s \<in> sr_ids d'} \<and>
         (\<forall>r\<in>set (work_queue d'). link_ok (sr_ids d') (wq_scan_result_id r))"
proof -
  have d': "d' = sr_delete dbt (\<lambda>r. sc_library_id r = lib) d"
    and n: "n = sql_count (\<lambda>r. sc_library_id r = lib) (scan_results d)"
    using assms(2) by (auto simp: ClearByLibrary_def Let_def)
  have rows: "scan_results d' = filter (\<lambda>r. sc_library_id r \<noteq> lib) (scan_results d)"
    by (simp add: d' sql_delete_def)
  then have "CountByLibrary no_faults lib d' = Inr 0"
    by (simp add: CountByLibrary_def sql_count_zero)
  moreover have "CountByLibrary no_faults lib d = Inr n"
    by (simp add: CountByLibrary_def n)
  moreover have "map (\<lambda>r. r\<lparr>wq_scan_result_id := None, wq_updated_at := 0\<rparr>) (work_queue d') =
         map (\<lambda>r. r\<lparr>wq_scan_result_id := None, wq_updated_at := 0\<rparr>) (work_queue d)"
    by (simp add: d' sr_delete_rows)
  moreover have "set (junction d') = {(w, s) \<in> set (junction d). s \<in> sr_ids d'}"
    unfolding d' sr_ids_def by (rule sr_delete_junction [OF assms(1)])
  moreover have "db_wf d'"
    unfolding d' by (rule db_wf_sr_delete [OF assms(1)])
  then have "\<forall>r\<in>set (work_queue d'). link_ok (sr_ids d') (wq_scan_result_id r)"
    by (simp add: db_wf_def wf_queue_def)
  ultimately show ?thesis using rows by blast
qed

theorem ClearByLibrary_deletes_exactly_witness:
  "\<exists>d'. ClearByLibrary no_faults 9 1 scanned_once = (Inr 1, d') \<and> scan_results d' = []"
proof -
  have wf: "db_wf scanned_once"
    unfolding scanned_once_def by (intro SetStatus_wf Upsert_wf db_wf_one_library)
  have "fst (ClearByLibrary no_faults 9 1 scanned_once) = Inr 1"
    by code_simp
  then obtain d' where e: "ClearByLibrary no_faults 9 1 scanned_once = (Inr 1, d')"
    by (cases "ClearByLibrary no_faults 9 1 scanned_once") auto
  have "map sc_library_id (scan_results scanned_once) = [1]"
    by code_simp
  with ClearByLibrary_deletes_exactly [OF wf e] e show ?thesis
    by (auto simp: map_eq_Cons_conv)
qed

lemma order_by_sorted: "sorted (map k xs) \<Longrightarrow> order_by k xs = xs"
  by (simp add: order_by_def sort_key_id_if_sorted)

lemma scan_rows_in_order: "db_wf d \<Longrightarrow> order_by sc_id (filter P (scan_results d)) = filter P (scan_results d)"
  by (rule order_by_sorted)
    (auto simp: db_wf_def wf_scan_def ids_ok_def strict_sorted_iff intro: sorted_filter)

text \<open>
  The listings agree: List with a library and a status returns that library's results with that
  status in id order, cut off at the limit when there is one, and ListPendingByLibrary and
  ListByLibrary are its special cases.
\<close>
theorem listings_agree:
  assumes "db_wf d"
  shows "ScanList no_faults \<lparr>sf_LibraryID = Some lib, sf_Status = status_text st, sf_Limit = n\<rparr> d =
           Inr (map row_result ((if n > 0 then take (nat n) else id)
             (filter (\<lambda>r. sc_library_id r = lib \<and> sc_status r = st) (scan_results d)))) \<and>
         ListPendingByLibrary no_faults lib d =
           ScanList no_faults \<lparr>sf_LibraryID = Some lib, sf_Status = ''pending'', sf_Limit = 0\<rparr> d \<and>
         ListByLibrary no_faults lib d =
           ScanList no_faults \<lparr>sf_LibraryID = Some lib, sf_Status = '''', sf_Limit = 0\<rparr> d"
proof -
  have ne: "status_text st \<noteq> ''''"
    by (cases st) simp_all
  have pend: "''pending'' = status_text st' \<longleftrightarrow> st' = Pending" "status_text st' = ''pending'' \<longleftrightarrow> st' = Pending" for st'
    by (cases st'; simp)+
  show ?thesis
    by (simp add: ScanList_def ListPendingByLibrary_def ListByLibrary_def scan_listing_def Let_def ne
        status_text_inj scan_rows_in_order [OF assms] pend)
qed

theorem listings_agree_witness:
  "ListPendingByLibrary no_faults 1 scanned_once =
     ScanList no_faults \<lparr>sf_LibraryID = Some 1, sf_Status = ''pending'', sf_Limit = 0\<rparr> scanned_once"
proof -
  have "db_wf scanned_once"
    unfolding scanned_once_def by (intro SetStatus_wf Upsert_wf db_wf_one_library)
  from listings_agree [OF this] show ?thesis by blast
qed

end
