(* ===== verification/Library_Repo.thy ===== *)
theory Library_Repo
  imports Scan_Repo
begin

text \<open>
  The library roots of \<open>internal/library/repository.go\<close>: validation, insertion, lookup by id and by
  name, update and removal over the table \<open>libraries\<close>.
\<close>

section \<open>Operations\<close>

definition validate :: "string \<Rightarrow> string \<Rightarrow> (string \<times> string) res" where
  "validate path name =
     (let path = TrimSpace path; name = TrimSpace name
      in if path = '''' then Inl (New ''library: path must not be empty'')
         else if name = '''' then Inl (New ''library: name must not be empty'')
         else Inr (path, name))"

definition row_library :: "lib_row \<Rightarrow> Library" where
  "row_library r =
     \<lparr>lib_ID = lb_id r, lib_Path = lb_path r, lib_Name = lb_name r,
      lib_CreatedAt = parseTime (lb_created_at r), lib_UpdatedAt = parseTime (lb_updated_at r)\<rparr>"

text \<open>Driver call: \<open>k\<close> the SELECT.\<close>

definition LibGet :: "io \<Rightarrow> nat \<Rightarrow> int \<Rightarrow> db \<Rightarrow> Library res" where
  "LibGet io k i d =
     (case query_row io k (find (\<lambda>r. lb_id r = i) (libraries d)) of
        Inl e \<Rightarrow> Inl (Errorf ''library: get: '' e '''')
      | Inr r \<Rightarrow> Inr (row_library r))"

definition unique_error :: goerr where
  "unique_error = New ''UNIQUE constraint failed: libraries.path''"

text \<open>Driver calls: 0 the INSERT, 1 its id, 2 the SELECT. There is no transaction around them.\<close>

definition LibAdd :: "io \<Rightarrow> int \<Rightarrow> string \<Rightarrow> string \<Rightarrow> db \<Rightarrow> Library res \<times> db" where
  "LibAdd io dbt path name d =
     (case validate path name of
        Inl e \<Rightarrow> (Inl e, d)
      | Inr (path, name) \<Rightarrow>
         drv io 0 ''library: add: '' d
           (if \<exists>r\<in>set (libraries d). lb_path r = path
            then (Inl (Errorf ''library: add: '' unique_error ''''), d)
            else
              let i = lib_seq d + 1;
                  d1 = d\<lparr>libraries := libraries d @ [\<lparr>lb_id = i, lb_path = path, lb_name = name,
                             lb_created_at = dbt, lb_updated_at = dbt\<rparr>],
                         lib_seq := i\<rparr>
              in drv io 1 ''library: add id: '' d1 (LibGet io 2 i d1, d1)))"

text \<open>Driver calls: 0 the query, 1 a row, 2 the end of the rows, 3 their Close.\<close>

definition LibList :: "io \<Rightarrow> db \<Rightarrow> Library list res" where
  "LibList io d =
     (case io 0 of Some e \<Rightarrow> Inl (Errorf ''library: list: '' e '''')
      | None \<Rightarrow>
        (case io 1 of Some e \<Rightarrow> Inl (Errorf ''library: list scan: '' e '''')
         | None \<Rightarrow>
           (case io 2 of Some e \<Rightarrow> Inl (Errorf ''library: list rows: '' e '''')
            | None \<Rightarrow>
              (case io 3 of Some e \<Rightarrow> Inl (Errorf ''library: close list rows: '' e '''')
               | None \<Rightarrow> Inr (map row_library (order_by lb_id (libraries d)))))))"

text \<open>Driver calls: 0 the query, 1 the rows.\<close>

definition GetByName :: "io \<Rightarrow> string \<Rightarrow> db \<Rightarrow> Library res" where
  "GetByName io name d =
     (let name = TrimSpace name;
          rows = take 2 (filter (\<lambda>r. lb_name r = name) (libraries d))
      in if name = '''' then Inl (New ''library: name must not be empty'')
         else case io 0 of Some e \<Rightarrow> Inl (Errorf ''library: get by name: '' e '''')
         | None \<Rightarrow>
           (case io 1 of Some e \<Rightarrow> Inl (Errorf ''library: get by name: '' e '''')
            | None \<Rightarrow>
              (case rows of
                 [] \<Rightarrow> Inl (Errorf ''library: get by name: '' (Sen SqlErrNoRows) '''')
               | [r] \<Rightarrow> Inr (row_library r)
               | _ \<Rightarrow> Inl (Errorf (''library: get by name '' @ Quoted name @ '': '')
                              (Sen ErrAmbiguousLibraryName) ''''))))"

text \<open>The trigger stamps an updated row. Driver calls: 0 the UPDATE, 1 its affected count, 2 the SELECT.\<close>

definition LibUpdate :: "io \<Rightarrow> int \<Rightarrow> int \<Rightarrow> string \<Rightarrow> string \<Rightarrow> db \<Rightarrow> Library res \<times> db" where
  "LibUpdate io dbt i path name d =
     (case validate path name of
        Inl e \<Rightarrow> (Inl e, d)
      | Inr (path, name) \<Rightarrow>
         drv io 0 ''library: update: '' d
           (if (\<exists>r\<in>set (libraries d). lb_id r = i) \<and> (\<exists>r\<in>set (libraries d). lb_path r = path \<and> lb_id r \<noteq> i)
            then (Inl (Errorf ''library: update: '' unique_error ''''), d)
            else
              let affected = sql_count (\<lambda>r. lb_id r = i) (libraries d);
                  d1 = d\<lparr>libraries := sql_update (\<lambda>r. lb_id r = i)
                           (\<lambda>r. r\<lparr>lb_path := path, lb_name := name, lb_updated_at := dbt\<rparr>) (libraries d)\<rparr>
              in drv io 1 ''library: update rows affected: '' d1
                   (if affected = 0 then (Inl (Errorf ''library: update missing: '' (Sen SqlErrNoRows) ''''), d1)
                    else (LibGet io 2 i d1, d1))))"

text \<open>Driver calls: 0 the DELETE, 1 its affected count.\<close>

definition LibRemove :: "io \<Rightarrow> int \<Rightarrow> int \<Rightarrow> db \<Rightarrow> unit res \<times> db" where
  "LibRemove io dbt i d =
     drv io 0 ''library: remove: '' d
       (let affected = sql_count (\<lambda>r. lb_id r = i) (libraries d);
            d1 = lib_delete dbt (\<lambda>r. lb_id r = i) d
        in drv io 1 ''library: remove rows affected: '' d1
             (if affected = 0 then (Inl (Errorf ''library: remove missing: '' (Sen SqlErrNoRows) ''''), d1)
              else (Inr (), d1)))"

section \<open>The invariant\<close>

lemma LibAdd_wf [wf_intros]: "db_wf d \<Longrightarrow> db_wf (snd (LibAdd io dbt path name d))"
proof -
  assume wf: "db_wf d"
  have "db_wf (d\<lparr>libraries := libraries d @ [\<lparr>lb_id = lib_seq d + 1, lb_path = p, lb_name = n,
                             lb_created_at = dbt, lb_updated_at = dbt\<rparr>], lib_seq := lib_seq d + 1\<rparr>)"
    if "\<forall>r\<in>set (libraries d). lb_path r \<noteq> p" for p n
  proof -
    have "ids_ok lb_id (lib_seq d + 1) (libraries d @ [\<lparr>lb_id = lib_seq d + 1, lb_path = p, lb_name = n,
                             lb_created_at = dbt, lb_updated_at = dbt\<rparr>])"
      using wf by (intro ids_ok_snoc) (simp_all add: db_wf_def wf_libraries_def)
    with wf that show ?thesis by (auto simp: wf_defs sr_ids_def)
  qed
  with wf show ?thesis
    by (auto simp: LibAdd_def Let_def intro!: db_wf_drv split: sum.splits prod.splits)
qed

lemma LibUpdate_wf [wf_intros]: "db_wf d \<Longrightarrow> db_wf (snd (LibUpdate io dbt i path name d))"
proof -
  assume wf: "db_wf d"
  let ?P = "\<lambda>r. lb_id r = i"
  have upd: "db_wf (d\<lparr>libraries := sql_update ?P (\<lambda>r. r\<lparr>lb_path := p, lb_name := n, lb_updated_at := dbt\<rparr>) (libraries d)\<rparr>)"
    if free: "(\<exists>r\<in>set (libraries d). lb_id r = i) \<longrightarrow> (\<forall>r\<in>set (libraries d). lb_path r = p \<longrightarrow> lb_id r = i)" for p n
  proof -
    let ?f = "\<lambda>r. r\<lparr>lb_path := p, lb_name := n, lb_updated_at := dbt\<rparr>"
    have ids: "ids_ok lb_id (lib_seq d) (libraries d)" and paths: "distinct (map lb_path (libraries d))"
      using wf by (simp_all add: db_wf_def wf_libraries_def)
    have "map lb_id (sql_update ?P ?f (libraries d)) = map lb_id (libraries d)"
      by (rule map_sql_update) simp
    then have same: "lb_id ` set (sql_update ?P ?f (libraries d)) = lb_id ` set (libraries d)"
      by (metis list.set_map)
    have "distinct (map lb_path (sql_update ?P ?f (libraries d)))"
    proof (cases "\<exists>r\<in>set (libraries d). lb_id r = i")
      case True
      with free have "\<forall>r\<in>set (libraries d). lb_path r = p \<longrightarrow> lb_id r = i" by blast
      then show ?thesis
        using paths ids_ok_distinct [OF ids] by (auto simp: sql_update_def distinct_map inj_on_def)
    next
      case False
      then have "sql_update ?P ?f (libraries d) = libraries d" by (intro sql_update_id) auto
      with paths show ?thesis by simp
    qed
    moreover have "ids_ok lb_id (lib_seq d) (sql_update ?P ?f (libraries d))"
      by (rule ids_ok_update [OF ids]) simp
    ultimately show ?thesis
      using wf same by (simp add: wf_defs sr_ids_def)
  qed
  show ?thesis
  proof (cases "validate path name")
    case (Inl e)
    with wf show ?thesis by (simp add: LibUpdate_def)
  next
    case (Inr pn)
    then show ?thesis
      unfolding LibUpdate_def Let_def using wf upd [of "fst pn" "snd pn"]
      by (cases pn) (auto simp: snd_drv split: option.splits)
  qed
qed

lemma LibRemove_wf [wf_intros]: "db_wf d \<Longrightarrow> db_wf (snd (LibRemove io dbt i d))"
  unfolding LibRemove_def Let_def by (auto intro!: db_wf_drv db_wf_lib_delete)

section \<open>What the operations do\<close>

definition lib_of :: "db \<Rightarrow> int \<Rightarrow> lib_row option" where
  "lib_of d i = find (\<lambda>r. lb_id r = i) (libraries d)"

lemma LibGet_lib_of:
  "LibGet no_faults k i d =
     (case lib_of d i of None \<Rightarrow> Inl (Errorf ''library: get: '' (Sen SqlErrNoRows) '''') | Some r \<Rightarrow> Inr (row_library r))"
  by (simp add: LibGet_def lib_of_def query_row_def split: option.splits)

lemma validate_ok:
  "validate path name = Inr (p, n) \<longleftrightarrow> p = TrimSpace path \<and> n = TrimSpace name \<and> p \<noteq> '''' \<and> n \<noteq> ''''"
  by (auto simp: validate_def Let_def)

lemma lib_id_bound: "db_wf d \<Longrightarrow> r \<in> set (libraries d) \<Longrightarrow> lb_id r \<le> lib_seq d"
  by (auto simp: db_wf_def wf_libraries_def ids_ok_def)

definition added_row :: "db \<Rightarrow> int \<Rightarrow> string \<Rightarrow> string \<Rightarrow> lib_row" where
  "added_row d dbt path name =
     \<lparr>lb_id = lib_seq d + 1, lb_path = TrimSpace path, lb_name = TrimSpace name,
      lb_created_at = dbt, lb_updated_at = dbt\<rparr>"

lemma LibAdd_ok:
  assumes wf: "db_wf d" and ok: "LibAdd no_faults dbt path name d = (Inr lib, d')"
  shows "d' = d\<lparr>libraries := libraries d @ [added_row d dbt path name], lib_seq := lib_seq d + 1\<rparr>"
    and "TrimSpace path \<noteq> ''''" "TrimSpace name \<noteq> ''''" "lib = row_library (added_row d dbt path name)"
    and "\<forall>r\<in>set (libraries d). lb_path r \<noteq> TrimSpace path"
    and "lib_of d (lib_seq d + 1) = None"
proof -
  from ok obtain p n where v: "validate path name = Inr (p, n)"
    by (auto simp: LibAdd_def split: sum.splits)
  note v' = v [unfolded validate_ok]
  show none: "lib_of d (lib_seq d + 1) = None"
    using lib_id_bound [OF wf] by (force simp: lib_of_def find_none)
  from ok v v' have free: "\<not> (\<exists>r\<in>set (libraries d). lb_path r = TrimSpace path)"
    by (auto simp: LibAdd_def Let_def split: if_splits)
  then show "\<forall>r\<in>set (libraries d). lb_path r \<noteq> TrimSpace path" by blast
  let ?d = "d\<lparr>libraries := libraries d @ [added_row d dbt path name], lib_seq := lib_seq d + 1\<rparr>"
  have r: "added_row d dbt path name = \<lparr>lb_id = lib_seq d + 1, lb_path = p, lb_name = n,
      lb_created_at = dbt, lb_updated_at = dbt\<rparr>"
    using v' by (simp add: added_row_def)
  have "LibAdd no_faults dbt path name d = (LibGet no_faults 2 (lib_seq d + 1) ?d, ?d)"
    using free v' unfolding LibAdd_def Let_def v r by simp
  from ok [unfolded this prod.inject] have *: "LibGet no_faults 2 (lib_seq d + 1) ?d = Inr lib" "?d = d'"
    by blast+
  then show "d' = ?d" by simp
  have "lib_of ?d (lib_seq d + 1) = Some (added_row d dbt path name)"
    using none by (simp add: lib_of_def find_app added_row_def)
  with *(1) show "lib = row_library (added_row d dbt path name)"
    by (simp add: LibGet_lib_of)
  show "TrimSpace path \<noteq> ''''" "TrimSpace name \<noteq> ''''" using v' by auto
qed

text \<open>
  A library that Add accepts is stored under its trimmed path and name, neither of them empty,
  with a new id, and Get by that id returns the very record Add returned; what Get returns for every
  other id is unchanged.
\<close>
theorem LibAdd_then_Get:
  assumes "db_wf d" and "LibAdd no_faults dbt path name d = (Inr lib, d')"
  shows "LibGet no_faults 0 (lib_ID lib) d' = Inr lib \<and>
         lib_Path lib = TrimSpace path \<and> lib_Name lib = TrimSpace name \<and>
         TrimSpace path \<noteq> '''' \<and> TrimSpace name \<noteq> '''' \<and>
         lib_of d (lib_ID lib) = None \<and>
         (\<forall>i. i \<noteq> lib_ID lib \<longrightarrow> LibGet no_faults 0 i d' = LibGet no_faults 0 i d)"
proof -
  note ok = LibAdd_ok [OF assms]
  have id: "lib_ID lib = lib_seq d + 1"
    by (simp add: ok(4) row_library_def added_row_def)
  have get: "lib_of d' i = (if i = lib_ID lib then Some (added_row d dbt path name) else lib_of d i)" for i
    using ok(6) by (simp add: ok(1) id lib_of_def find_app added_row_def split: option.splits)
  show ?thesis
    using ok(2,3,6) by (simp add: LibGet_lib_of get ok(4) [symmetric] id)
      (simp add: ok(4) row_library_def added_row_def)
qed

theorem LibAdd_then_Get_witness:
  "\<exists>lib d'. LibAdd no_faults 0 '' /n '' ''n'' one_library = (Inr lib, d') \<and> lib_Path lib = ''/n'' \<and>
     LibGet no_faults 0 (lib_ID lib) d' = Inr lib"
proof -
  have "is_ok (fst (LibAdd no_faults 0 '' /n '' ''n'' one_library))"
    by code_simp
  then obtain lib d' where e: "LibAdd no_faults 0 '' /n '' ''n'' one_library = (Inr lib, d')"
    by (blast dest: is_okE)
  have "TrimSpace '' /n '' = ''/n''"
    by code_simp
  with LibAdd_then_Get [OF db_wf_one_library e] e show ?thesis by auto
qed

lemma lib_delete_rows:
  "work_queue (lib_delete dbt P d) = work_queue (sr_delete dbt (\<lambda>s. sc_library_id s \<in> lb_id ` set (filter P (libraries d))) d)"
  "scan_results (lib_delete dbt P d) = filter (\<lambda>s. sc_library_id s \<notin> lb_id ` set (filter P (libraries d))) (scan_results d)"
  "libraries (lib_delete dbt P d) = filter (\<lambda>r. \<not> P r) (libraries d)"
  "lyrics_cache (lib_delete dbt P d) = lyrics_cache d" "api_keys (lib_delete dbt P d) = api_keys d"
  by (simp_all add: lib_delete_def Let_def sql_delete_def)

text \<open>
  Remove deletes the library with all of its scan results, and answers an id that no library has
  with an error that is \<open>sql.ErrNoRows\<close>, changing nothing. The other libraries and their results
  stay, no queue row is lost, and the cache is kept.
\<close>
theorem LibRemove_cascades:
  assumes "db_wf d"
  shows "case LibRemove no_faults dbt i d of
           (Inl e, d') \<Rightarrow> errors_Is e SqlErrNoRows \<and> lib_of d i = None \<and> d' = d
         | (Inr _, d') \<Rightarrow> lib_of d i \<noteq> None \<and> lib_of d' i = None \<and>
             libraries d' = filter (\<lambda>r. lb_id r \<noteq> i) (libraries d) \<and>
             scan_results d' = filter (\<lambda>s. sc_library_id s \<noteq> i) (scan_results d) \<and>
             map wq_id (work_queue d') = map wq_id (work_queue d) \<and>
             map wq_status (work_queue d') = map wq_status (work_queue d) \<and>
             lyrics_cache d' = lyrics_cache d"
proof (cases "lib_of d i")
  case None
  then have no: "lb_id r \<noteq> i" if "r \<in> set (libraries d)" for r
    using that by (simp add: lib_of_def find_none)
  then have f: "filter (\<lambda>r. lb_id r = i) (libraries d) = []" "sql_delete (\<lambda>r. lb_id r = i) (libraries d) = libraries d"
    by (simp_all add: filter_empty_conv sql_delete_none)
  have "sr_delete dbt (\<lambda>s. False) d = d"
    by (simp add: sr_delete_def wq_update_def sql_update_id sql_delete_none Let_def)
  then have "lib_delete dbt (\<lambda>r. lb_id r = i) d = d"
    using f by (simp add: lib_delete_def)
  with None f show ?thesis by (simp add: LibRemove_def Let_def sql_count_def)
next
  case (Some r)
  then have r: "r \<in> set (libraries d)" "lb_id r = i"
    by (auto simp: lib_of_def dest: find_in_set)
  then have gone: "lb_id ` set (filter (\<lambda>r. lb_id r = i) (libraries d)) = {i}"
    by auto
  have n: "sql_count (\<lambda>r. lb_id r = i) (libraries d) \<noteq> 0"
    using r by (auto simp: sql_count_zero)
  have rows: "map wq_id (work_queue (lib_delete dbt (\<lambda>r. lb_id r = i) d)) = map wq_id (work_queue d)"
    "map wq_status (work_queue (lib_delete dbt (\<lambda>r. lb_id r = i) d)) = map wq_status (work_queue d)"
    by (simp_all add: lib_delete_rows sr_delete_rows)
  have "lib_of (lib_delete dbt (\<lambda>r. lb_id r = i) d) i = None"
    by (simp add: lib_of_def lib_delete_rows find_none)
  with Some n gone rows show ?thesis
    by (simp add: LibRemove_def Let_def lib_delete_rows(2-5))
qed

theorem LibRemove_cascades_witness:
  "\<exists>d'. LibRemove no_faults 0 1 scanned_once = (Inr (), d') \<and> scan_results d' = [] \<and> libraries d' = []"
proof -
  have wf: "db_wf scanned_once"
    unfolding scanned_once_def by (intro SetStatus_wf Upsert_wf db_wf_one_library)
  have "is_ok (fst (LibRemove no_faults 0 1 scanned_once))"
    by code_simp
  then obtain d' where e: "LibRemove no_faults 0 1 scanned_once = (Inr (), d')"
    by (auto dest: is_okE)
  have "map sc_library_id (scan_results scanned_once) = [1]" "map lb_id (libraries scanned_once) = [1]"
    by code_simp+
  with LibRemove_cascades [OF wf, where i = 1 and dbt = 0] e show ?thesis
    by (auto simp: map_eq_Cons_conv)
qed

text \<open>
  Names need not be unique: once two libraries are stored under the same trimmed name, GetByName
  refuses that name with an error that is \<open>ErrAmbiguousLibraryName\<close>; while there is one it finds it.
\<close>
theorem GetByName_ambiguity:
  assumes "db_wf d" and "\<forall>r\<in>set (libraries d). lb_name r \<noteq> TrimSpace name"
    and "LibAdd no_faults t1 path1 name d = (Inr lib1, d1)" and "LibAdd no_faults t2 path2 name d1 = (Inr lib2, d2)"
  shows "GetByName no_faults name d1 = Inr lib1 \<and>
         (case GetByName no_faults name d2 of Inl e \<Rightarrow> errors_Is e ErrAmbiguousLibraryName | Inr _ \<Rightarrow> False)"
proof -
  note ok1 = LibAdd_ok [OF assms(1,3)]
  have "db_wf d1"
    using LibAdd_wf [OF assms(1), of no_faults t1 path1 name] assms(3) by simp
  note ok2 = LibAdd_ok [OF this assms(4)]
  have none: "filter (\<lambda>r. lb_name r = TrimSpace name) (libraries d) = []"
    using assms(2) by (simp add: filter_empty_conv)
  have "filter (\<lambda>r. lb_name r = TrimSpace name) (libraries d1) = [added_row d t1 path1 name]"
    by (simp add: ok1(1) none added_row_def)
  moreover from this have "filter (\<lambda>r. lb_name r = TrimSpace name) (libraries d2) =
      [added_row d t1 path1 name, added_row d1 t2 path2 name]"
    by (simp add: ok2(1) added_row_def)
  ultimately show ?thesis
    using ok1(3) ok1(4) by (simp add: GetByName_def Let_def)
qed

theorem GetByName_ambiguity_witness:
  "\<exists>lib1 d1 lib2 d2. LibAdd no_faults 0 ''/n'' ''x'' one_library = (Inr lib1, d1) \<and>
     LibAdd no_faults 0 ''/o'' ''x'' d1 = (Inr lib2, d2) \<and> GetByName no_faults ''x'' d1 = Inr lib1"
proof -
  have "is_ok (fst (LibAdd no_faults 0 ''/n'' ''x'' one_library))"
    "is_ok (fst (LibAdd no_faults 0 ''/o'' ''x'' (snd (LibAdd no_faults 0 ''/n'' ''x'' one_library))))"
    by code_simp+
  then obtain lib1 d1 lib2 d2 where e: "LibAdd no_faults 0 ''/n'' ''x'' one_library = (Inr lib1, d1)"
    "LibAdd no_faults 0 ''/o'' ''x'' d1 = (Inr lib2, d2)"
    by (metis is_okE snd_conv)
  have "TrimSpace ''x'' = ''x''"
    by code_simp
  then have "\<forall>r\<in>set (libraries one_library). lb_name r \<noteq> TrimSpace ''x''"
    by (simp add: one_library_def empty_db_def)
  from GetByName_ambiguity [OF db_wf_one_library this e] e show ?thesis by blast
qed

end
