(* ===== verification/Db_Open.thy ===== *)
theory Db_Open
  imports Library_Repo
begin

text \<open>
  \<open>db.Open\<close> of \<open>internal/db/db.go\<close> and the SQL function it registers, on databases of the last version of
  the schema, that of theory \<open>Database\<close>. A disk maps the path of a database to its tables; a path without a
  file has none. No migration is pending for such a database, and a new one gets its empty tables. The
  commands of theories \<open>Commands_DB\<close> and \<open>Commands_Run\<close> open their database with \<open>db_Open\<close>; theory
  \<open>Migrations\<close> opens databases of the older versions, and shows that what it opens is a database of the
  last version with the contents of the old one, on which it agrees with \<open>db_Open\<close>.
\<close>

type_synonym disk = "string \<Rightarrow> db option"

definition tables_at :: "disk \<Rightarrow> string \<Rightarrow> db" where
  "tables_at D path = (case D path of None \<Rightarrow> empty_db | Some d \<Rightarrow> d)"

text \<open>An SQL value, as the driver hands it to a registered function.\<close>

datatype sql_value = SqlNull | SqlText string | SqlInt int | SqlOther string

text \<open>\<open>%T\<close> of a value; \<open>SqlOther\<close> carries the name of its Go type.\<close>

fun go_type :: "sql_value \<Rightarrow> string" where
  "go_type SqlNull = ''<nil>''"
| "go_type (SqlText s) = ''string''"
| "go_type (SqlInt i) = ''int64''"
| "go_type (SqlOther t) = t"

definition normalize_key_sql :: "unicode_env \<Rightarrow> sql_value list \<Rightarrow> string res" where
  "normalize_key_sql u args =
     (if length args \<noteq> 1 \<or> hd args = SqlNull then Inr ''''
      else case hd args of
             SqlText s \<Rightarrow> Inr (NormalizeKey u s)
           | v \<Rightarrow> Inl (New (''normalize_key: expected string, got '' @ go_type v)))"

definition pragmas :: "string list" where
  "pragmas = [''PRAGMA foreign_keys=ON'', ''PRAGMA busy_timeout=5000'', ''PRAGMA synchronous=NORMAL'']"

fun run_pragmas :: "io \<Rightarrow> nat \<Rightarrow> string list \<Rightarrow> goerr option" where
  "run_pragmas io k [] = None"
| "run_pragmas io k (p # ps) =
     (case io k of Some e \<Rightarrow> Some (Errorf (''db: pragma '' @ Quoted p @ '': '') e '''') | None \<Rightarrow> run_pragmas io (k + 1) ps)"

text \<open>
  Calls: 0 MkdirAll, 1 sql.Open, 2 the journal mode (a mode other than WAL is only logged), 3 fs.Sub,
  4 NewProvider, 5 Up, from 6 on the pragmas. An error of one of them leaves the rows as they are.
\<close>

definition db_Open :: "io \<Rightarrow> string \<Rightarrow> disk \<Rightarrow> db res \<times> disk" where
  "db_Open io path D =
     (if path = '''' then (Inl (New ''db: path must not be empty''), D)
      else case io 0 of Some e \<Rightarrow> (Inl (Errorf ''db: create data dir: '' e ''''), D) | None \<Rightarrow>
     (case io 1 of Some e \<Rightarrow> (Inl (Errorf (''db: open '' @ path @ '': '') e ''''), D) | None \<Rightarrow>
     (case io 2 of Some e \<Rightarrow> (Inl (Errorf ''db: set WAL mode: '' e ''''), D) | None \<Rightarrow>
     (case run_pragmas io 6 pragmas of Some e \<Rightarrow> (Inl e, D) | None \<Rightarrow>
     (case io 3 of Some e \<Rightarrow> (Inl (Errorf ''db: sub migrations fs: '' e ''''), D) | None \<Rightarrow>
     (case io 4 of Some e \<Rightarrow> (Inl (Errorf ''db: migration provider: '' e ''''), D) | None \<Rightarrow>
     (case io 5 of Some e \<Rightarrow> (Inl (Errorf ''db: migrate: '' e ''''), D) | None \<Rightarrow>
       (Inr (tables_at D path), D(path \<mapsto> tables_at D path)))))))))"

definition disk_wf :: "disk \<Rightarrow> bool" where
  "disk_wf D \<longleftrightarrow> (\<forall>p d. D p = Some d \<longrightarrow> db_wf d)"

lemma disk_wf_tables: "disk_wf D \<Longrightarrow> db_wf (tables_at D path)"
  by (auto simp: disk_wf_def tables_at_def db_wf_empty split: option.split)

lemma disk_wf_upd: "disk_wf D \<Longrightarrow> db_wf d \<Longrightarrow> disk_wf (D(path \<mapsto> d))"
  by (auto simp: disk_wf_def)

lemma tables_at_upd [simp]: "tables_at (D(path \<mapsto> d)) path' = (if path' = path then d else tables_at D path')"
  by (simp add: tables_at_def)

lemma run_pragmas_no_faults [simp]: "run_pragmas no_faults k ps = None"
  by (induction ps arbitrary: k) simp_all

lemma db_Open_no_faults: "path \<noteq> '''' \<Longrightarrow> db_Open no_faults path D = (Inr (tables_at D path), D(path \<mapsto> tables_at D path))"
  by (simp add: db_Open_def)

text \<open>Opening never changes a row: what any path holds is what it held.\<close>

lemma db_Open_content:
  assumes "db_Open io path D = (r, D')"
  shows "tables_at D' p = tables_at D p \<and> (\<forall>d. r = Inr d \<longrightarrow> path \<noteq> '''' \<and> d = tables_at D path \<and> D' = D(path \<mapsto> d))"
  using assms by (auto simp: db_Open_def split: if_splits option.splits)

lemma db_Open_wf: "disk_wf D \<Longrightarrow> db_Open io path D = (r, D') \<Longrightarrow> disk_wf D'"
  by (auto simp: db_Open_def disk_wf_tables disk_wf_upd split: if_splits option.splits)

end
