(* ===== verification/Go_Float.thy ===== *)
theory Go_Float
  imports Complex_Main Prelude
begin

text \<open>
  Go's \<open>float64\<close>. A finite value is the rational number it denotes (the two zeros are one number:
  no code of the program tells them apart), and an operation is the exact one followed by the
  rounding \<open>rnd\<close>, a parameter. What the proofs use of IEEE 754 rounding to nearest is
  \<open>float_rounding\<close>: it is monotone, it keeps the numbers m / 2^k with at most 53 significant bits,
  and between one half and one it returns multiples of 2^-53.
\<close>

datatype float64 = Fin rat | PosInf | NegInf | NaN

fun f_le :: "float64 \<Rightarrow> float64 \<Rightarrow> bool" where
  "f_le (Fin a) (Fin b) = (a \<le> b)"
| "f_le NaN y = False"
| "f_le x NaN = False"
| "f_le NegInf y = True"
| "f_le x PosInf = True"
| "f_le x y = False"

fun f_lt :: "float64 \<Rightarrow> float64 \<Rightarrow> bool" where
  "f_lt (Fin a) (Fin b) = (a < b)"
| "f_lt NaN y = False"
| "f_lt x NaN = False"
| "f_lt NegInf NegInf = False"
| "f_lt NegInf y = True"
| "f_lt PosInf y = False"
| "f_lt x PosInf = True"
| "f_lt x NegInf = False"

definition float_rounding :: "(rat \<Rightarrow> rat) \<Rightarrow> bool" where
  "float_rounding rnd \<longleftrightarrow>
     (\<forall>x y. x \<le> y \<longrightarrow> rnd x \<le> rnd y) \<and>
     (\<forall>m::int. \<forall>k::nat. \<bar>m\<bar> \<le> 2 ^ 53 \<and> k \<le> 53 \<longrightarrow> rnd (of_int m / 2 ^ k) = of_int m / 2 ^ k) \<and>
     (\<forall>x. 1 / 2 \<le> x \<and> x \<le> 1 \<longrightarrow> (\<exists>m::int. rnd x = of_int m / 2 ^ 53))"

lemma rnd_mono: "float_rounding rnd \<Longrightarrow> x \<le> y \<Longrightarrow> rnd x \<le> rnd y"
  by (simp add: float_rounding_def)

lemma rnd_dyadic: "float_rounding rnd \<Longrightarrow> \<bar>m\<bar> \<le> 2 ^ 53 \<Longrightarrow> k \<le> 53 \<Longrightarrow> rnd (of_int m / 2 ^ k) = of_int m / 2 ^ k"
  by (simp add: float_rounding_def)

lemma rnd_int: "float_rounding rnd \<Longrightarrow> \<bar>m\<bar> \<le> 2 ^ 53 \<Longrightarrow> rnd (of_int m) = of_int m"
  using rnd_dyadic [of rnd m 0] by simp

lemma rnd_small [simp]:
  assumes "float_rounding rnd"
  shows "rnd 0 = 0" "rnd 1 = 1" "rnd 2 = 2" "rnd 3 = 3"
  using rnd_int [OF assms, of 0] rnd_int [OF assms, of 1] rnd_int [OF assms, of 2] rnd_int [OF assms, of 3]
  by simp_all

lemma rnd_pow:
  assumes "float_rounding rnd" "k \<le> 53"
  shows "rnd (1 / 2 ^ k) = 1 / 2 ^ k"
  using rnd_dyadic [OF assms(1) _ assms(2), of 1] by simp

lemma rnd_nonneg: "float_rounding rnd \<Longrightarrow> 0 \<le> x \<Longrightarrow> 0 \<le> rnd x"
  using rnd_mono [of rnd 0 x] by simp

lemma rnd_le_int: "float_rounding rnd \<Longrightarrow> \<bar>m\<bar> \<le> 2 ^ 53 \<Longrightarrow> x \<le> of_int m \<Longrightarrow> rnd x \<le> of_int m"
  using rnd_mono [of rnd x "of_int m"] rnd_int [of rnd m] by simp

lemma rnd_le_1: "float_rounding rnd \<Longrightarrow> x \<le> 1 \<Longrightarrow> rnd x \<le> 1"
  using rnd_le_int [of rnd 1 x] by simp

text \<open>
  A rounded number below one but not below one half is at least 2^-53 away from one, so its distance
  lies in a binade above 2^-53.
\<close>

lemma binade:
  fixes x :: rat
  assumes "1 / 2 ^ n \<le> x" "x \<le> 1"
  shows "\<exists>k\<le>n. 1 / 2 ^ (Suc k) < x \<and> x \<le> 1 / 2 ^ k"
  using assms
proof (induction n)
  case 0
  then show ?case by (intro exI [of _ 0]) simp
next
  case (Suc n)
  show ?case
  proof (cases "1 / 2 ^ n \<le> x")
    case True
    with Suc.IH Suc.prems(2) show ?thesis using le_Suc_eq by blast
  next
    case False
    show ?thesis
    proof (cases "x = 1 / 2 ^ Suc n")
      case True
      then show ?thesis by (intro exI [of _ "Suc n"]) (simp add: field_simps)
    next
      case neq: False
      with False Suc.prems show ?thesis by (intro exI [of _ n]) simp
    qed
  qed
qed

lemma below_one_gap:
  assumes "float_rounding rnd" "j = rnd x" "x \<le> 1" "j < 1" "0 \<le> x"
  shows "1 / 2 ^ 53 \<le> 1 - j"
proof (cases "1 / 2 \<le> x")
  case True
  with assms obtain m :: int where m: "j = of_int m / 2 ^ 53"
    unfolding float_rounding_def by metis
  with assms(4) have "(of_int m :: rat) < of_int (2 ^ 53)" by (simp add: field_simps)
  then have "m < 2 ^ 53" by (simp only: of_int_less_iff)
  then have "m + 1 \<le> 2 ^ 53" by simp
  then have "(of_int (m + 1) :: rat) \<le> of_int (2 ^ 53)" by (simp only: of_int_le_iff)
  then show ?thesis by (simp add: m field_simps)
next
  case False
  then have "j \<le> rnd (1 / 2)" using rnd_mono [OF assms(1), of x "1 / 2"] assms(2) by simp
  also have "rnd (1 / 2) = 1 / 2" using rnd_pow [OF assms(1), of 1] by simp
  finally show ?thesis by simp
qed

text \<open>An executable rounding with these properties: truncation to multiples of 2^-53.\<close>

definition fixed53 :: "rat \<Rightarrow> rat" where
  "fixed53 x = of_int \<lfloor>x * 2 ^ 53\<rfloor> / 2 ^ 53"

lemma float_rounding_fixed53: "float_rounding fixed53"
proof -
  have 1: "fixed53 x \<le> fixed53 y" if "x \<le> y" for x y
    using that by (simp add: fixed53_def divide_right_mono floor_mono)
  have 2: "fixed53 (of_int m / 2 ^ k) = of_int m / 2 ^ k" if "k \<le> 53" for m :: int and k :: nat
  proof -
    have e: "(2::rat) ^ 53 = 2 ^ k * 2 ^ (53 - k)"
      using that by (metis le_add_diff_inverse power_add)
    have i: "(of_int m / 2 ^ k) * 2 ^ 53 = (of_int (m * 2 ^ (53 - k)) :: rat)"
      unfolding e by simp
    show ?thesis
      unfolding fixed53_def i floor_of_int unfolding e by simp
  qed
  have 3: "\<exists>m::int. fixed53 x = of_int m / 2 ^ 53" for x
    by (auto simp: fixed53_def)
  show ?thesis
    unfolding float_rounding_def using 1 2 3 by blast
qed

text \<open>\<open>fmt.Sprintf\<close> with the verb \<open>%.3f\<close> on a finite value: the nearest thousandth, ties to even.\<close>

definition thousandths :: "rat \<Rightarrow> int" where
  "thousandths x =
     (let y = x * 1000; n = \<lfloor>y\<rfloor>; r = y - of_int n
      in if r < 1 / 2 \<or> (r = 1 / 2 \<and> n mod 2 = 0) then n else n + 1)"

end
