(* ===== verification/Go_Strconv.thy ===== *)
theory Go_Strconv
  imports Go_Float Go_Strings
begin

text \<open>
  \<open>strconv.ParseBool\<close> and \<open>strconv.ParseFloat(s, 64)\<close>: the words for infinities and NaN, decimal and
  hexadecimal numbers, underscores between digits, and the correctly rounded value of the rest.
  Integers are in \<open>Go_Base\<close>.
\<close>

definition ParseBool :: "string \<Rightarrow> bool res" where
  "ParseBool s =
     (if s \<in> {''1'', ''t'', ''T'', ''true'', ''TRUE'', ''True''} then Inr True
      else if s \<in> {''0'', ''f'', ''F'', ''false'', ''FALSE'', ''False''} then Inr False
      else Inl (New ''strconv.ParseBool: invalid syntax''))"

definition FormatBool :: "bool \<Rightarrow> string" where
  "FormatBool b = (if b then ''true'' else ''false'')"

lemma ParseBool_FormatBool: "ParseBool (FormatBool b) = Inr b"
  by (cases b) (simp_all add: ParseBool_def FormatBool_def)

section \<open>ParseFloat\<close>

definition float_syntax :: goerr where "float_syntax = New ''strconv.ParseFloat: invalid syntax''"
definition float_range :: goerr where "float_range = New ''strconv.ParseFloat: value out of range''"

definition hex_letter :: "char \<Rightarrow> bool" where
  "hex_letter c \<longleftrightarrow> 97 \<le> byte (ascii_lower c) \<and> byte (ascii_lower c) \<le> 102"

text \<open>Split off a sign.\<close>

definition split_sign :: "string \<Rightarrow> bool \<times> string" where
  "split_sign s = (case s of [] \<Rightarrow> (False, [])
     | c # r \<Rightarrow> if c = CHR ''-'' then (True, r) else if c = CHR ''+'' then (False, r) else (False, s))"

definition special_float :: "string \<Rightarrow> float64 option" where
  "special_float s =
     (case split_sign s of (neg, r) \<Rightarrow>
        if map ascii_lower r \<in> {''inf'', ''infinity''} then Some (if neg then NegInf else PosInf)
        else if map ascii_lower s = ''nan'' then Some NaN else None)"

text \<open>The digits of the mantissa: its value, the number of digits after the point, and the rest.\<close>

fun scan_mantissa :: "bool \<Rightarrow> bool \<Rightarrow> int \<Rightarrow> nat \<Rightarrow> bool \<Rightarrow> string \<Rightarrow> int \<times> nat \<times> bool \<times> string" where
  "scan_mantissa hex sawdot m fr saw [] = (m, fr, saw, [])"
| "scan_mantissa hex sawdot m fr saw (c # cs) =
     (if c = CHR ''_'' then scan_mantissa hex sawdot m fr saw cs
      else if c = CHR ''.'' then
        (if sawdot then (m, fr, saw, c # cs) else scan_mantissa hex True m fr saw cs)
      else if is_digit c then
        scan_mantissa hex sawdot ((if hex then 16 else 10) * m + digit_val c) (if sawdot then fr + 1 else fr) True cs
      else if hex \<and> hex_letter c then
        scan_mantissa hex sawdot (16 * m + (byte (ascii_lower c) - 87)) (if sawdot then fr + 1 else fr) True cs
      else (m, fr, saw, c # cs))"

text \<open>The exponent, with its sign; its value stops growing at 10000. \<open>None\<close>: a syntax error.\<close>

definition scan_exponent :: "bool \<Rightarrow> string \<Rightarrow> int option" where
  "scan_exponent hex s =
     (case s of
        [] \<Rightarrow> if hex then None else Some 0
      | c # r \<Rightarrow>
         if ascii_lower c \<noteq> (if hex then CHR ''p'' else CHR ''e'') then None
         else (case split_sign r of (neg, ds) \<Rightarrow>
           if ds = [] \<or> \<not> is_digit (hd ds) \<or> \<not> list_all (\<lambda>c. is_digit c \<or> c = CHR ''_'') ds then None
           else let e = fold (\<lambda>c e. if c \<noteq> CHR ''_'' \<and> e < 10000 then 10 * e + digit_val c else e) ds 0
                in Some (if neg then - e else e)))"

text \<open>Underscores stand between digits, or after the base prefix.\<close>

fun underscores_ok :: "bool \<Rightarrow> char \<Rightarrow> string \<Rightarrow> bool" where
  "underscores_ok hex prev [] \<longleftrightarrow> prev \<noteq> CHR ''_''"
| "underscores_ok hex prev (c # cs) \<longleftrightarrow>
     (if is_digit c \<or> (hex \<and> hex_letter c) then underscores_ok hex (CHR ''0'') cs
      else if c = CHR ''_'' then prev = CHR ''0'' \<and> underscores_ok hex (CHR ''_'') cs
      else prev \<noteq> CHR ''_'' \<and> underscores_ok hex (CHR ''!'') cs)"

definition ParseFloat :: "(rat \<Rightarrow> rat) \<Rightarrow> string \<Rightarrow> float64 res" where
  "ParseFloat rnd s =
     (case special_float s of Some v \<Rightarrow> Inr v
      | None \<Rightarrow>
        (case split_sign s of (neg, r) \<Rightarrow>
          let hex = (2 < length r \<and> r ! 0 = CHR ''0'' \<and> ascii_lower (r ! 1) = CHR ''x'');
              ds = (if hex then drop 2 r else r)
          in case scan_mantissa hex False 0 0 False ds of (m, fr, saw, rest) \<Rightarrow>
             if \<not> saw then Inl float_syntax
             else case scan_exponent hex rest of None \<Rightarrow> Inl float_syntax
             | Some e \<Rightarrow>
                if CHR ''_'' \<in> set s \<and> \<not> underscores_ok hex (if hex then CHR ''0'' else CHR ''^'') ds then Inl float_syntax
                else let b = (if hex then 2 else 10 :: rat);
                         scale = (if 0 \<le> e then b ^ nat e else 1 / b ^ nat (- e));
                         v = of_int m * scale / (if hex then 16 else 10) ^ fr
                     in if v \<ge> 2 ^ 1024 - 2 ^ 970 then Inl float_range
                        else Inr (Fin (rnd (if neg then - v else v)))))"

lemma ParseFloat_nan:
  assumes "map ascii_lower s = ''nan''"
  shows "ParseFloat rnd s = Inr NaN"
proof -
  obtain c r where s: "s = c # r" using assms by (cases s) auto
  with assms have "c \<noteq> CHR ''-''" "c \<noteq> CHR ''+''" by (auto simp: ascii_lower_def byte_def)
  then have "split_sign s = (False, s)" by (simp add: split_sign_def s)
  with assms show ?thesis by (simp add: ParseFloat_def special_float_def)
qed

end
