(* ===== verification/Go_Paths.thy ===== *)
theory Go_Paths
  imports Go_Strings
begin

text \<open>
  The parts of \<open>path/filepath\<close> (on Unix) that the program uses, on byte strings: \<open>Clean\<close>, \<open>Dir\<close>,
  \<open>Base\<close>, \<open>Ext\<close> and \<open>Join\<close>.
\<close>

definition slash :: char where "slash = CHR 0x2F"
definition dot :: char where "dot = CHR 0x2E"

text \<open>
  \<open>Clean\<close> keeps a stack of components (innermost first): empty and \<open>.\<close> components are skipped, \<open>..\<close>
  removes a component, is dropped at the root, and is kept at the front of a relative path.
\<close>

fun clean_stack :: "bool \<Rightarrow> string list \<Rightarrow> string list \<Rightarrow> string list" where
  "clean_stack rooted out [] = out"
| "clean_stack rooted out (c # cs) =
     (if c = [] \<or> c = [dot] then clean_stack rooted out cs
      else if c = [dot, dot] then
        (case out of
           [] \<Rightarrow> clean_stack rooted (if rooted then [] else [c]) cs
         | p # ps \<Rightarrow> clean_stack rooted (if p = [dot, dot] then c # out else ps) cs)
      else clean_stack rooted (c # out) cs)"

definition Clean :: "string \<Rightarrow> string" where
  "Clean path =
     (if path = [] then [dot]
      else let rooted = (hd path = slash);
               comps = rev (clean_stack rooted [] (Split slash path));
               s = JoinStr comps [slash]
           in if rooted then slash # s else if s = [] then [dot] else s)"

text \<open>The part of a path after its last slash, and the part up to and with it.\<close>

definition after_slash :: "string \<Rightarrow> string" where
  "after_slash path = rev (takeWhile (\<lambda>c. c \<noteq> slash) (rev path))"

definition upto_slash :: "string \<Rightarrow> string" where
  "upto_slash path = rev (dropWhile (\<lambda>c. c \<noteq> slash) (rev path))"

definition Dir :: "string \<Rightarrow> string" where
  "Dir path = Clean (upto_slash path)"

definition Base :: "string \<Rightarrow> string" where
  "Base path =
     (if path = [] then [dot]
      else let stripped = rev (dropWhile (\<lambda>c. c = slash) (rev path));
               b = after_slash stripped
           in if b = [] then [slash] else b)"

text \<open>The suffix from the last dot of the last component, empty without one.\<close>

definition Ext :: "string \<Rightarrow> string" where
  "Ext path =
     (let b = after_slash path; tail = takeWhile (\<lambda>c. c \<noteq> dot) (rev b)
      in if dot \<in> set b then dot # rev tail else [])"

definition JoinPath :: "string list \<Rightarrow> string" where
  "JoinPath elems =
     (let ne = dropWhile (\<lambda>e. e = []) elems
      in if ne = [] then [] else Clean (JoinStr ne [slash]))"

lemma dir_base_split: "upto_slash path @ after_slash path = path"
  by (metis after_slash_def rev_append rev_rev_ident takeWhile_dropWhile_id upto_slash_def)

lemma takeWhile_to: "x \<notin> set xs \<Longrightarrow> takeWhile (\<lambda>c. c \<noteq> x) (xs @ x # ys) = xs"
  by (induction xs) auto

lemma takeWhile_none: "x \<notin> set xs \<Longrightarrow> takeWhile (\<lambda>c. c \<noteq> x) xs = xs"
  by (induction xs) auto

lemma after_slash_last: "slash \<notin> set b \<Longrightarrow> after_slash (dir @ slash # b) = b"
  using takeWhile_to [of slash "rev b" "rev dir"] by (simp add: after_slash_def)

lemma after_slash_plain: "slash \<notin> set b \<Longrightarrow> after_slash b = b"
  by (simp add: after_slash_def takeWhile_none)

lemma Ext_last_dot:
  assumes "slash \<notin> set stem" "slash \<notin> set ext" "dot \<notin> set ext"
  shows "Ext (stem @ dot # ext) = dot # ext"
proof -
  have "slash \<noteq> dot"
    by (simp add: slash_def dot_def)
  then have "after_slash (stem @ dot # ext) = stem @ dot # ext"
    using assms by (intro after_slash_plain) auto
  moreover have "takeWhile (\<lambda>c. c \<noteq> dot) (rev ext @ dot # rev stem) = rev ext"
    using assms(3) by (intro takeWhile_to) simp
  ultimately show ?thesis by (simp add: Ext_def)
qed

lemma Base_last: "slash \<notin> set b \<Longrightarrow> b \<noteq> [] \<Longrightarrow> Base (dir @ slash # b) = b"
proof -
  assume b: "slash \<notin> set b" "b \<noteq> []"
  then have "last b \<noteq> slash"
    by (metis last_in_set)
  then have "dropWhile (\<lambda>c. c = slash) (rev (dir @ slash # b)) = rev (dir @ slash # b)"
    using b(2) by (cases b rule: rev_cases) auto
  then show ?thesis
    using b after_slash_last [OF b(1), of dir] by (simp add: Base_def Let_def)
qed

lemma TrimSuffix_append [simp]: "TrimSuffix (a @ b) b = a"
  by (simp add: TrimSuffix_def HasSuffix_def)

end
