(* ===== verification/Path_Facts.thy ===== *)
theory Path_Facts
  imports Go_Paths
begin

text \<open>
  Cleaned paths: what the components of a cleaned path look like, that cleaning is idempotent, and
  that exchanging the extension of the last component keeps a path clean.
\<close>

definition dots :: string where "dots = [dot, dot]"

definition clean_list :: "bool \<Rightarrow> string list \<Rightarrow> bool" where
  "clean_list rooted cs \<longleftrightarrow>
     (\<forall>c\<in>set cs. c \<noteq> [] \<and> c \<noteq> [dot] \<and> slash \<notin> set c) \<and>
     (\<exists>k ds. cs = replicate k dots @ ds \<and> dots \<notin> set ds \<and> (rooted \<longrightarrow> k = 0))"

lemma clean_list_Nil [simp]: "clean_list rooted []"
  by (simp add: clean_list_def)

lemma clean_list_snoc:
  assumes "clean_list rooted cs" "c \<noteq> []" "c \<noteq> [dot]" "c \<noteq> dots" "slash \<notin> set c"
  shows "clean_list rooted (cs @ [c])"
proof -
  from assms(1) obtain k ds where "cs = replicate k dots @ ds" "dots \<notin> set ds" "rooted \<longrightarrow> k = 0"
    by (auto simp: clean_list_def)
  then have "cs @ [c] = replicate k dots @ (ds @ [c]) \<and> dots \<notin> set (ds @ [c]) \<and> (rooted \<longrightarrow> k = 0)"
    using assms(4) by simp
  with assms show ?thesis unfolding clean_list_def by (metis Un_iff empty_iff insert_iff list.set(1,2) set_append)
qed

lemma clean_list_butlast:
  assumes "clean_list rooted (cs @ [p])"
  shows "clean_list rooted cs"
proof -
  from assms obtain k ds where d: "cs @ [p] = replicate k dots @ ds" "dots \<notin> set ds" "rooted \<longrightarrow> k = 0"
    by (auto simp: clean_list_def)
  have "\<exists>k ds. cs = replicate k dots @ ds \<and> dots \<notin> set ds \<and> (rooted \<longrightarrow> k = 0)"
  proof (cases ds rule: rev_cases)
    case Nil
    with d show ?thesis
      by (intro exI [of _ "k - 1"] exI [of _ "[]"]) (cases k, auto simp: replicate_append_same [symmetric])
  next
    case (snoc es e)
    with d show ?thesis by (intro exI [of _ k] exI [of _ es]) auto
  qed
  with assms show ?thesis by (simp add: clean_list_def)
qed

lemma clean_list_dots:
  assumes "clean_list rooted (cs @ [dots])"
  shows "\<not> rooted \<and> (\<exists>k. cs = replicate k dots)"
proof -
  from assms obtain k ds where d: "cs @ [dots] = replicate k dots @ ds" "dots \<notin> set ds" "rooted \<longrightarrow> k = 0"
    by (auto simp: clean_list_def)
  from d(1,2) have "ds = []" by (cases ds rule: rev_cases) auto
  with d show ?thesis by (cases k) (auto simp: replicate_append_same [symmetric])
qed

lemma clean_list_more_dots:
  assumes "clean_list rooted (cs @ [dots])"
  shows "clean_list rooted (cs @ [dots, dots])"
proof -
  from clean_list_dots [OF assms] obtain k where k: "\<not> rooted" "cs = replicate k dots" by blast
  then have "cs @ [dots, dots] = replicate (k + 2) dots @ []"
    by (simp add: replicate_add [symmetric] numeral_2_eq_2 replicate_append_same [symmetric])
  moreover have "dots \<noteq> []" "dots \<noteq> [dot]" "slash \<notin> set dots"
    by (simp_all add: dots_def slash_def dot_def)
  ultimately show ?thesis
    unfolding clean_list_def using k(1) by (metis empty_iff in_set_replicate list.set(1) append_Nil2)
qed

lemma clean_stack_clean:
  assumes "clean_list rooted (rev out)" "\<forall>c\<in>set cs. slash \<notin> set c"
  shows "clean_list rooted (rev (clean_stack rooted out cs))"
  using assms
proof (induction rooted out cs rule: clean_stack.induct)
  case (2 rooted out c cs)
  show ?case
  proof (cases "c = [] \<or> c = [dot]")
    case True
    with 2(1,5,6) show ?thesis by auto
  next
    case plain: False
    show ?thesis
    proof (cases "c = dots")
      case False
      with plain 2(4) [OF plain] clean_list_snoc [OF 2(5)] 2(6) show ?thesis
        by (auto simp: dots_def)
    next
      case c: True
      show ?thesis
      proof (cases out)
        case Nil
        have "clean_list rooted (rev (if rooted then [] else [c]))"
          using clean_list_def [of False "[dots]"]
          by (auto simp: c clean_list_def dots_def slash_def dot_def intro: exI [of _ 1])
        with 2(2) [OF plain _ Nil] 2(6) plain c show ?thesis by (cases rooted) (simp_all add: Nil dots_def)
      next
        case (Cons p ps)
        have "clean_list rooted (rev (if p = dots then c # out else ps))"
          using 2(5) clean_list_butlast [of rooted "rev ps" p] clean_list_more_dots [of rooted "rev ps"]
          by (cases "p = dots") (simp_all add: Cons c)
        with 2(3) [OF plain _ Cons] 2(6) plain c show ?thesis
          by (cases "p = dots") (simp_all add: Cons dots_def)
      qed
    qed
  qed
qed simp

lemma clean_list_prefix: "clean_list rooted (xs @ ys) \<Longrightarrow> clean_list rooted xs"
  by (induction ys rule: rev_induct) (auto dest: clean_list_butlast simp flip: append_assoc)

lemma clean_stack_id: "clean_list rooted (rev out @ cs) \<Longrightarrow> clean_stack rooted out cs = rev cs @ out"
proof (induction cs arbitrary: out)
  case (Cons c cs)
  have c: "c \<noteq> []" "c \<noteq> [dot]" using Cons.prems by (auto simp: clean_list_def)
  have IH: "clean_stack rooted (c # out) cs = rev cs @ c # out" using Cons by simp
  show ?case
  proof (cases "c = dots")
    case False
    with c IH show ?thesis by (simp add: dots_def)
  next
    case True
    have "clean_list rooted (rev out @ [dots])"
      using clean_list_prefix [of rooted "rev out @ [c]" cs] Cons.prems True by simp
    from clean_list_dots [OF this] obtain k where "\<not> rooted" "rev out = replicate k dots" by blast
    then have "\<not> rooted" "out = replicate k dots" by (metis rev_replicate rev_rev_ident)+
    with c IH True show ?thesis by (cases k) (auto simp: dots_def)
  qed
qed simp

section \<open>Cleaning is idempotent\<close>

definition path_of :: "bool \<Rightarrow> string list \<Rightarrow> string" where
  "path_of rooted cs =
     (if rooted then slash # JoinStr cs [slash] else if cs = [] then [dot] else JoinStr cs [slash])"

lemma Split_parts: "\<forall>c\<in>set (Split sep s). sep \<notin> set c"
  by (induction s) (auto split: list.splits if_splits)

lemma JoinStr_hd: "cs \<noteq> [] \<Longrightarrow> hd cs \<noteq> [] \<Longrightarrow> JoinStr cs sep \<noteq> [] \<and> hd (JoinStr cs sep) = hd (hd cs)"
  by (induction cs sep rule: JoinStr.induct) auto

lemma JoinStr_Nil: "clean_list rooted cs \<Longrightarrow> JoinStr cs [slash] = [] \<longleftrightarrow> cs = []"
  using JoinStr_hd [of cs "[slash]"] by (cases cs) (auto simp: clean_list_def)

lemma Clean_path_of:
  assumes "clean_list rooted cs"
  shows "Clean (path_of rooted cs) = path_of rooted cs"
proof (cases cs)
  case Nil
  then show ?thesis
    by (cases rooted) (simp_all add: path_of_def Clean_def Let_def slash_def dot_def)
next
  case (Cons c ds)
  have c: "c \<noteq> []" "slash \<notin> set c" and parts: "\<forall>p\<in>set cs. slash \<notin> set p"
    using assms by (auto simp: Cons clean_list_def)
  have sp: "Split slash (JoinStr cs [slash]) = cs"
    using parts by (intro Split_Join) (auto simp: Cons)
  have st: "clean_stack rooted [] cs = rev cs"
    using clean_stack_id [of rooted "[]" cs] assms by simp
  have hd: "hd (JoinStr cs [slash]) \<noteq> slash" "JoinStr cs [slash] \<noteq> []"
    using JoinStr_hd [of cs "[slash]"] c hd_in_set [OF c(1)] by (simp_all add: Cons, metis)
  show ?thesis
  proof (cases rooted)
    case True
    with sp st show ?thesis by (simp add: path_of_def Clean_def Let_def)
  next
    case False
    with sp st hd show ?thesis by (simp add: path_of_def Clean_def Let_def Cons)
  qed
qed

lemma Clean_is_path_of: "\<exists>rooted cs. clean_list rooted cs \<and> Clean p = path_of rooted cs"
proof (cases "p = []")
  case True
  then show ?thesis by (intro exI [of _ False] exI [of _ "[]"]) (simp add: Clean_def path_of_def)
next
  case False
  let ?r = "hd p = slash" and ?cs = "rev (clean_stack (hd p = slash) [] (Split slash p))"
  have "clean_list ?r ?cs" using Split_parts by (intro clean_stack_clean) auto
  moreover have "Clean p = path_of ?r ?cs"
    using False JoinStr_Nil [OF calculation]
    by (cases "hd p = slash") (simp_all add: Clean_def path_of_def Let_def)
  ultimately show ?thesis by blast
qed

lemma Clean_idem [simp]: "Clean (Clean p) = Clean p"
  using Clean_is_path_of [of p] Clean_path_of by metis

lemma Clean_JoinPath [simp]: "dropWhile (\<lambda>e. e = []) es \<noteq> [] \<Longrightarrow> Clean (JoinPath es) = JoinPath es"
  by (simp only: JoinPath_def Let_def if_False Clean_idem)

section \<open>Exchanging the extension\<close>

lemma clean_list_last:
  assumes "clean_list rooted (cs @ [b])" "b' \<noteq> []" "b' \<noteq> [dot]" "b' \<noteq> dots" "slash \<notin> set b'"
  shows "clean_list rooted (cs @ [b'])"
  using assms by (intro clean_list_snoc) (auto dest: clean_list_butlast)

lemma JoinStr_snoc: "cs \<noteq> [] \<Longrightarrow> JoinStr (cs @ [b]) sep = JoinStr cs sep @ sep @ b"
  by (induction cs sep rule: JoinStr.induct) auto

lemma path_of_snoc:
  "\<exists>pre. (pre = [] \<or> (\<exists>q. pre = q @ [slash])) \<and> (\<forall>b. b \<noteq> [] \<longrightarrow> path_of rooted (cs @ [b]) = pre @ b)"
proof (cases "cs = []")
  case True
  then show ?thesis
    by (cases rooted) (auto simp: path_of_def intro: exI [of _ "[]"] exI [of _ "[slash]"])
next
  case False
  let ?q = "(if rooted then [slash] else []) @ JoinStr cs [slash]"
  have "path_of rooted (cs @ [b]) = (?q @ [slash]) @ b" for b
    using False by (simp add: path_of_def JoinStr_snoc)
  then show ?thesis by (intro exI [of _ "?q @ [slash]"]) blast
qed

lemma after_slash_snoc: "slash \<notin> set b \<Longrightarrow> pre = [] \<or> (\<exists>q. pre = q @ [slash]) \<Longrightarrow> after_slash (pre @ b) = b"
  using after_slash_last [of b] by (auto simp: after_slash_plain)

lemma Ext_suffix: "Ext p = dot # e \<Longrightarrow> \<exists>y. after_slash p = y @ dot # e"
proof -
  assume e: "Ext p = dot # e"
  let ?b = "after_slash p"
  from e have d: "dot \<in> set ?b" and tl: "rev (takeWhile (\<lambda>c. c \<noteq> dot) (rev ?b)) = e"
    by (auto simp: Ext_def Let_def split: if_splits)
  let ?d = "dropWhile (\<lambda>c. c \<noteq> dot) (rev ?b)"
  have "?d \<noteq> []" using d by (auto simp: dropWhile_eq_Nil_conv)
  from hd_dropWhile [OF this] this obtain z where z: "?d = dot # z"
    by (cases ?d) auto
  have "takeWhile (\<lambda>c. c \<noteq> dot) (rev ?b) = rev e" using tl by (simp add: rev_swap)
  with z takeWhile_dropWhile_id [of "\<lambda>c. c \<noteq> dot" "rev ?b"] have "rev ?b = rev e @ dot # z"
    by simp
  then have "?b = rev z @ dot # e" by (simp add: rev_swap)
  then show ?thesis by blast
qed

text \<open>
  A cleaned path whose extension is \<open>e\<close> stays clean, and becomes another path, when the extension is
  exchanged for another one of two characters or more.
\<close>

lemma exchange_ext:
  assumes "Clean p = p" "Ext p = dot # e" "slash \<notin> set e'" "2 \<le> length e'" "length e' = length e" "e' \<noteq> e"
  shows "\<exists>q. p = q @ dot # e \<and> Clean (q @ dot # e') = q @ dot # e' \<and> q @ dot # e' \<noteq> p"
proof -
  from Clean_is_path_of [of p] assms(1) obtain rooted cs where
    cs: "clean_list rooted cs" "p = path_of rooted cs" by metis
  show ?thesis
  proof (cases cs rule: rev_cases)
    case Nil
    then show ?thesis
      using cs assms(2,4,5)
      by (cases rooted) (auto simp: path_of_def Ext_def after_slash_def slash_def dot_def)
  next
    case (snoc init b)
    have b: "b \<noteq> []" "slash \<notin> set b" using cs(1) by (auto simp: snoc clean_list_def)
    obtain pre where pre: "pre = [] \<or> (\<exists>q. pre = q @ [slash])"
      "\<And>b. b \<noteq> [] \<Longrightarrow> path_of rooted (init @ [b]) = pre @ b"
      using path_of_snoc by blast
    have p: "p = pre @ b" using cs(2) pre(2) [OF b(1)] by (simp add: snoc)
    obtain y where y: "b = y @ dot # e"
      using Ext_suffix [OF assms(2)] after_slash_snoc [OF b(2) pre(1)] by (auto simp: p)
    let ?b' = "y @ dot # e'"
    have "slash \<notin> set ?b'" using b(2) assms(3) by (auto simp: y)
    moreover have "length ?b' \<noteq> length [dot]" "length ?b' \<noteq> length dots"
      using assms(4) by (auto simp: dots_def)
    then have "?b' \<noteq> [dot]" "?b' \<noteq> dots" by metis+
    ultimately have "clean_list rooted (init @ [?b'])"
      using cs(1) \<open>?b' \<noteq> [dot]\<close> \<open>?b' \<noteq> dots\<close> by (simp add: snoc clean_list_last)
    from Clean_path_of [OF this] pre(2) [of ?b'] have "Clean (pre @ ?b') = pre @ ?b'" by simp
    then show ?thesis using assms(6) by (intro exI [of _ "pre @ y"]) (auto simp: p y)
  qed
qed

end
