(* ===== verification/Config.thy ===== *)
theory Config
  imports Go_Strconv Path_Facts
begin

text \<open>
  Package \<open>internal/config\<close>: the configuration records, the built-in defaults, the file, the environment
  variables over it, the repair of values that must not be blank or out of range, and the XDG paths.
  Decoding a TOML file belongs to a third-party package and is a function of the environment.
\<close>

section \<open>The records\<close>

record APIConfig =
  ac_Token :: string
  ac_Cooldown :: int
  ac_CircuitOpenDuration :: int

record OutputConfig =
  oc_Dir :: string

record DBConfig =
  dc_Path :: string

record ServerConfig =
  sv_Addr :: string
  sv_WebhookAPIKeys :: "string list"
  sv_ScanIntervalSeconds :: int
  sv_WorkIntervalSeconds :: int

record ProvidersConfig =
  pc_Primary :: string
  pc_Disabled :: "string list"

record VerificationConfig =
  vc_Enabled :: bool
  vc_WhisperURL :: string
  vc_FFmpegPath :: string
  vc_SampleDurationSeconds :: int
  vc_MinConfidence :: float64
  vc_MinSimilarity :: float64

record Config =
  cf_API :: APIConfig
  cf_Output :: OutputConfig
  cf_DB :: DBConfig
  cf_Server :: ServerConfig
  cf_Providers :: ProvidersConfig
  cf_Verification :: VerificationConfig

definition circuitOpenDefaultSeconds :: int where "circuitOpenDefaultSeconds = 30 * 60"
definition circuitOpenMinSeconds :: int where "circuitOpenMinSeconds = 5 * 60"
definition defaultScanIntervalSeconds :: int where "defaultScanIntervalSeconds = 900"

text \<open>
  The operating system: \<open>os.Getenv\<close>, which is empty for an unset variable, \<open>os.Stat\<close> with its error,
  what \<open>toml.DecodeFile\<close> makes of a configuration it starts from, and the rounding of numbers.
\<close>

record os_env =
  oe_getenv :: "string \<Rightarrow> string"
  oe_stat :: "string \<Rightarrow> goerr option"
  oe_decode :: "string \<Rightarrow> Config \<Rightarrow> Config \<times> goerr option"
  oe_rnd :: "rat \<Rightarrow> rat"

section \<open>Paths\<close>

definition dockerMode :: "os_env \<Rightarrow> bool" where
  "dockerMode E = (let v = TrimSpace (oe_getenv E ''MXLRC_DOCKER'') in EqualFoldWord v ''true'' \<or> v = ''1'')"

text \<open>\<open>os.UserHomeDir\<close> on Unix.\<close>

definition UserHomeDir :: "os_env \<Rightarrow> string res" where
  "UserHomeDir E = (let v = oe_getenv E ''HOME'' in if v \<noteq> '''' then Inr v else Inl (New ''$HOME is not defined''))"

definition xdgConfigPath :: "os_env \<Rightarrow> string \<Rightarrow> string \<Rightarrow> string" where
  "xdgConfigPath E app f =
     (if dockerMode E then JoinPath [''/config'', f]
      else let base = oe_getenv E ''XDG_CONFIG_HOME'' in
        if base = '''' then
          (case UserHomeDir E of
             Inl _ \<Rightarrow> if oe_stat E ''/.dockerenv'' = None then JoinPath [''/config'', f] else ''''
           | Inr home \<Rightarrow> JoinPath [JoinPath [home, ''.config''], app, f])
        else JoinPath [base, app, f])"

definition xdgDataPath :: "os_env \<Rightarrow> string \<Rightarrow> string \<Rightarrow> string" where
  "xdgDataPath E app f =
     (if dockerMode E then JoinPath [''/config'', f]
      else let base = oe_getenv E ''XDG_DATA_HOME'' in
        if base = '''' then
          (case UserHomeDir E of
             Inl _ \<Rightarrow> if oe_stat E ''/.dockerenv'' = None then JoinPath [''/config'', f] else ''''
           | Inr home \<Rightarrow> JoinPath [JoinPath [home, ''.local'', ''share''], app, f])
        else JoinPath [base, app, f])"

section \<open>Loading\<close>

definition defaults :: "os_env \<Rightarrow> Config" where
  "defaults E =
     \<lparr>cf_API = \<lparr>ac_Token = '''', ac_Cooldown = 15, ac_CircuitOpenDuration = circuitOpenDefaultSeconds\<rparr>,
      cf_Output = \<lparr>oc_Dir = ''lyrics''\<rparr>,
      cf_DB = \<lparr>dc_Path = xdgDataPath E ''mxlrcgo-svc'' ''mxlrcgo.db''\<rparr>,
      cf_Server = \<lparr>sv_Addr = ''127.0.0.1:3876'', sv_WebhookAPIKeys = [],
        sv_ScanIntervalSeconds = defaultScanIntervalSeconds, sv_WorkIntervalSeconds = 0\<rparr>,
      cf_Providers = \<lparr>pc_Primary = ''musixmatch'', pc_Disabled = []\<rparr>,
      cf_Verification = \<lparr>vc_Enabled = False, vc_WhisperURL = '''', vc_FFmpegPath = ''ffmpeg'',
        vc_SampleDurationSeconds = 30, vc_MinConfidence = Fin (oe_rnd E (85 / 100)),
        vc_MinSimilarity = Fin (oe_rnd E (35 / 100))\<rparr>\<rparr>"

text \<open>A number in the open-closed unit interval, as the code tests it.\<close>

definition out_of_unit :: "float64 \<Rightarrow> bool" where
  "out_of_unit x \<longleftrightarrow> f_le x (Fin 0) \<or> f_lt (Fin 1) x"

text \<open>The defaults for the fields that a file has set to blank.\<close>

definition reapply_defaults :: "Config \<Rightarrow> Config \<Rightarrow> Config" where
  "reapply_defaults d cfg =
     cfg\<lparr>cf_DB := (if dc_Path (cf_DB cfg) = '''' then (cf_DB cfg)\<lparr>dc_Path := dc_Path (cf_DB d)\<rparr> else cf_DB cfg),
       cf_Output := (if oc_Dir (cf_Output cfg) = '''' then (cf_Output cfg)\<lparr>oc_Dir := oc_Dir (cf_Output d)\<rparr> else cf_Output cfg),
       cf_Server := (if sv_Addr (cf_Server cfg) = '''' then (cf_Server cfg)\<lparr>sv_Addr := sv_Addr (cf_Server d)\<rparr> else cf_Server cfg),
       cf_Providers := (if pc_Primary (cf_Providers cfg) = ''''
         then (cf_Providers cfg)\<lparr>pc_Primary := pc_Primary (cf_Providers d)\<rparr> else cf_Providers cfg),
       cf_Verification := (let v = cf_Verification cfg; vd = cf_Verification d in
         v\<lparr>vc_SampleDurationSeconds := (if vc_SampleDurationSeconds v \<le> 0 then vc_SampleDurationSeconds vd else vc_SampleDurationSeconds v),
           vc_FFmpegPath := (if vc_FFmpegPath v = '''' then vc_FFmpegPath vd else vc_FFmpegPath v),
           vc_MinConfidence := (if out_of_unit (vc_MinConfidence v) then vc_MinConfidence vd else vc_MinConfidence v),
           vc_MinSimilarity := (if out_of_unit (vc_MinSimilarity v) then vc_MinSimilarity vd else vc_MinSimilarity v)\<rparr>),
       cf_API := (if ac_CircuitOpenDuration (cf_API cfg) = 0
         then (cf_API cfg)\<lparr>ac_CircuitOpenDuration := ac_CircuitOpenDuration (cf_API d)\<rparr> else cf_API cfg)\<rparr>"

fun splitCSV_loop :: "string list \<Rightarrow> string list" where
  "splitCSV_loop [] = []"
| "splitCSV_loop (v # vs) = (if TrimSpace v \<noteq> '''' then TrimSpace v # splitCSV_loop vs else splitCSV_loop vs)"

definition splitCSV :: "string \<Rightarrow> string list" where
  "splitCSV s = splitCSV_loop (Split (CHR '','') s)"

text \<open>A variable's value, that of its alias when it is empty, and the uses of a value.\<close>

definition env_alias :: "os_env \<Rightarrow> string \<Rightarrow> string \<Rightarrow> string" where
  "env_alias E name alias = (let v = oe_getenv E name in if v = '''' then oe_getenv E alias else v)"

definition env_string :: "string \<Rightarrow> string \<Rightarrow> string" where
  "env_string v current = (if v \<noteq> '''' then v else current)"

definition env_int :: "(int \<Rightarrow> bool) \<Rightarrow> string \<Rightarrow> int \<Rightarrow> int" where
  "env_int bad v current =
     (if v = '''' then current else case Atoi v of Inl _ \<Rightarrow> current | Inr n \<Rightarrow> if bad n then current else n)"

definition env_float :: "(rat \<Rightarrow> rat) \<Rightarrow> string \<Rightarrow> float64 \<Rightarrow> float64" where
  "env_float rnd v current =
     (if v = '''' then current
      else case ParseFloat rnd v of Inl _ \<Rightarrow> current | Inr n \<Rightarrow> if out_of_unit n then current else n)"

definition applyEnvOverrides :: "os_env \<Rightarrow> Config \<Rightarrow> Config" where
  "applyEnvOverrides E cfg =
     (let g = oe_getenv E; a = cf_API cfg; s = cf_Server cfg; p = cf_Providers cfg; v = cf_Verification cfg in
      \<lparr>cf_API =
         \<lparr>ac_Token = env_string (g ''MUSIXMATCH_TOKEN'') (env_string (g ''MXLRC_API_TOKEN'') (ac_Token a)),
          ac_Cooldown = env_int (\<lambda>n. n < 0) (env_alias E ''MXLRC_API_COOLDOWN'' ''MXLRC_COOLDOWN'') (ac_Cooldown a),
          ac_CircuitOpenDuration = env_int (\<lambda>n. n \<le> 0) (g ''MXLRC_API_CIRCUIT_OPEN_DURATION'') (ac_CircuitOpenDuration a)\<rparr>,
       cf_Output = \<lparr>oc_Dir = env_string (g ''MXLRC_OUTPUT_DIR'') (oc_Dir (cf_Output cfg))\<rparr>,
       cf_DB = \<lparr>dc_Path = env_string (g ''MXLRC_DB_PATH'') (dc_Path (cf_DB cfg))\<rparr>,
       cf_Server =
         \<lparr>sv_Addr = env_string (g ''MXLRC_SERVER_ADDR'') (sv_Addr s),
          sv_WebhookAPIKeys = (if g ''MXLRC_WEBHOOK_API_KEY'' \<noteq> '''' then splitCSV (g ''MXLRC_WEBHOOK_API_KEY'') else sv_WebhookAPIKeys s),
          sv_ScanIntervalSeconds = env_int (\<lambda>n. n < 0) (g ''MXLRC_SCAN_INTERVAL'') (sv_ScanIntervalSeconds s),
          sv_WorkIntervalSeconds = env_int (\<lambda>n. n < 0) (g ''MXLRC_WORK_INTERVAL'') (sv_WorkIntervalSeconds s)\<rparr>,
       cf_Providers =
         \<lparr>pc_Primary = env_string (g ''MXLRC_PROVIDER_PRIMARY'') (pc_Primary p),
          pc_Disabled = (if g ''MXLRC_PROVIDERS_DISABLED'' \<noteq> '''' then splitCSV (g ''MXLRC_PROVIDERS_DISABLED'') else pc_Disabled p)\<rparr>,
       cf_Verification =
         \<lparr>vc_Enabled = (if g ''MXLRC_VERIFICATION_ENABLED'' = '''' then vc_Enabled v
            else case ParseBool (g ''MXLRC_VERIFICATION_ENABLED'') of Inl _ \<Rightarrow> vc_Enabled v | Inr b \<Rightarrow> b),
          vc_WhisperURL = env_string (env_alias E ''MXLRC_VERIFICATION_WHISPER_URL'' ''MXLRC_WHISPER_URL'') (vc_WhisperURL v),
          vc_FFmpegPath = env_string (g ''MXLRC_VERIFICATION_FFMPEG_PATH'') (vc_FFmpegPath v),
          vc_SampleDurationSeconds = env_int (\<lambda>n. n \<le> 0)
            (env_alias E ''MXLRC_VERIFICATION_SAMPLE_DURATION_SECONDS'' ''MXLRC_VERIFICATION_SAMPLE_DURATION'') (vc_SampleDurationSeconds v),
          vc_MinConfidence = env_float (oe_rnd E) (g ''MXLRC_VERIFICATION_MIN_CONFIDENCE'') (vc_MinConfidence v),
          vc_MinSimilarity = env_float (oe_rnd E) (g ''MXLRC_VERIFICATION_MIN_SIMILARITY'') (vc_MinSimilarity v)\<rparr>\<rparr>)"

definition clampCircuitOpenDuration :: "Config \<Rightarrow> Config" where
  "clampCircuitOpenDuration cfg =
     (let c = ac_CircuitOpenDuration (cf_API cfg) in
      if c \<le> 0 then cfg\<lparr>cf_API := (cf_API cfg)\<lparr>ac_CircuitOpenDuration := circuitOpenDefaultSeconds\<rparr>\<rparr>
      else if c < circuitOpenMinSeconds
      then cfg\<lparr>cf_API := (cf_API cfg)\<lparr>ac_CircuitOpenDuration := circuitOpenMinSeconds\<rparr>\<rparr>
      else cfg)"

definition finish_load :: "os_env \<Rightarrow> Config \<Rightarrow> Config res" where
  "finish_load E cfg =
     (let cfg = clampCircuitOpenDuration (applyEnvOverrides E cfg)
      in if dc_Path (cf_DB cfg) = ''''
         then Inl (New ''config: cannot determine DB path: set MXLRC_DB_PATH or XDG_DATA_HOME'')
         else Inr cfg)"

definition LoadConfig :: "os_env \<Rightarrow> string \<Rightarrow> Config res" where
  "LoadConfig E path =
     (let cfg = defaults E;
          path = (if path = '''' then xdgConfigPath E ''mxlrcgo-svc'' ''config.toml'' else path)
      in if path = '''' then finish_load E cfg
         else (case oe_stat E path of
                 None \<Rightarrow>
                   (case oe_decode E path cfg of
                      (_, Some e) \<Rightarrow> Inl (Errorf (''config: decode '' @ path @ '': '') e '''')
                    | (cfg', None) \<Rightarrow> finish_load E (reapply_defaults (defaults E) cfg'))
               | Some e \<Rightarrow>
                   (if \<not> errors_Is e OsErrNotExist then Inl (Errorf (''config: stat '' @ path @ '': '') e '''')
                    else finish_load E cfg)))"

section \<open>What a loaded configuration satisfies\<close>

lemma env_string_nonempty: "current \<noteq> '''' \<Longrightarrow> env_string v current \<noteq> ''''"
  by (simp add: env_string_def)

lemma env_int_ok: "\<not> bad current \<Longrightarrow> \<not> bad (env_int bad v current)"
  by (auto simp: env_int_def split: sum.splits)

lemma env_float_ok: "\<not> out_of_unit current \<Longrightarrow> \<not> out_of_unit (env_float rnd v current)"
  by (auto simp: env_float_def split: sum.splits)

lemma out_of_unit_iff: "out_of_unit x \<longleftrightarrow> \<not> (x = NaN \<or> (\<exists>q. x = Fin q \<and> 0 < q \<and> q \<le> 1))"
  by (cases x) (auto simp: out_of_unit_def)

definition in_range :: "Config \<Rightarrow> bool" where
  "in_range cfg \<longleftrightarrow> oc_Dir (cf_Output cfg) \<noteq> '''' \<and> sv_Addr (cf_Server cfg) \<noteq> '''' \<and> pc_Primary (cf_Providers cfg) \<noteq> '''' \<and>
     0 < vc_SampleDurationSeconds (cf_Verification cfg) \<and> vc_FFmpegPath (cf_Verification cfg) \<noteq> '''' \<and>
     \<not> out_of_unit (vc_MinConfidence (cf_Verification cfg)) \<and> \<not> out_of_unit (vc_MinSimilarity (cf_Verification cfg))"

lemma in_range_overrides: "in_range cfg \<Longrightarrow> in_range (applyEnvOverrides E cfg)"
  using env_int_ok [of "\<lambda>n. n \<le> 0"]
  by (simp add: in_range_def applyEnvOverrides_def Let_def env_string_nonempty env_float_ok not_le)

lemma default_fractions:
  assumes "float_rounding rnd"
  shows "\<not> out_of_unit (Fin (rnd (85 / 100)))" "\<not> out_of_unit (Fin (rnd (35 / 100)))"
proof -
  have "rnd (1 / 2 ^ 2) \<le> rnd (85 / 100)" "rnd (1 / 2 ^ 2) \<le> rnd (35 / 100)"
    by (rule rnd_mono [OF assms], simp)+
  moreover have "rnd (1 / 2 ^ 2) = 1 / 4" using rnd_pow [OF assms, of 2] by simp
  ultimately have "0 < rnd (85 / 100)" "0 < rnd (35 / 100)" by simp_all
  moreover have "rnd (85 / 100) \<le> 1" "rnd (35 / 100) \<le> 1" by (rule rnd_le_1 [OF assms], simp)+
  ultimately show "\<not> out_of_unit (Fin (rnd (85 / 100)))" "\<not> out_of_unit (Fin (rnd (35 / 100)))"
    by (simp_all add: out_of_unit_def)
qed

lemma in_range_defaults: "float_rounding (oe_rnd E) \<Longrightarrow> in_range (defaults E)"
  using default_fractions [of "oe_rnd E"] by (simp add: in_range_def defaults_def)

lemma in_range_reapply: "in_range d \<Longrightarrow> in_range (reapply_defaults d cfg)"
  by (simp add: in_range_def reapply_defaults_def Let_def not_le)

lemma LoadConfig_from:
  assumes "LoadConfig E path = Inr cfg"
  shows "\<exists>c. (c = defaults E \<or> (\<exists>f. c = reapply_defaults (defaults E) f)) \<and> finish_load E c = Inr cfg"
  using assms by (auto simp: LoadConfig_def Let_def split: if_splits option.splits prod.splits)

text \<open>
  C28. Whatever the configuration file and the environment hold, a configuration that loads has a database
  path, an output directory, an address, a provider and an ffmpeg path, a sample of at least a second,
  a circuit-open window of at least five minutes, and thresholds that are not outside the unit
  interval. They need not be inside: a threshold can also be the float NaN, because the range check
  compares and no comparison with NaN holds.
\<close>
theorem LoadConfig_in_range:
  assumes "float_rounding (oe_rnd E)" and "LoadConfig E path = Inr cfg"
  shows "dc_Path (cf_DB cfg) \<noteq> '''' \<and> oc_Dir (cf_Output cfg) \<noteq> '''' \<and> sv_Addr (cf_Server cfg) \<noteq> '''' \<and>
    pc_Primary (cf_Providers cfg) \<noteq> '''' \<and> vc_FFmpegPath (cf_Verification cfg) \<noteq> '''' \<and>
    1 \<le> vc_SampleDurationSeconds (cf_Verification cfg) \<and> 300 \<le> ac_CircuitOpenDuration (cf_API cfg) \<and>
    (\<forall>x \<in> {vc_MinConfidence (cf_Verification cfg), vc_MinSimilarity (cf_Verification cfg)}.
       x = NaN \<or> (\<exists>q. x = Fin q \<and> 0 < q \<and> q \<le> 1))"
proof -
  from LoadConfig_from [OF assms(2)] obtain c where
    c: "c = defaults E \<or> (\<exists>f. c = reapply_defaults (defaults E) f)" "finish_load E c = Inr cfg" by blast
  have "in_range c" using c(1) in_range_defaults [OF assms(1)] in_range_reapply by auto
  then have r: "in_range (applyEnvOverrides E c)" by (rule in_range_overrides)
  from c(2) have cfg: "cfg = clampCircuitOpenDuration (applyEnvOverrides E c)" "dc_Path (cf_DB cfg) \<noteq> ''''"
    by (auto simp: finish_load_def Let_def split: if_splits)
  have "300 \<le> ac_CircuitOpenDuration (cf_API cfg)"
    by (auto simp: cfg(1) clampCircuitOpenDuration_def Let_def circuitOpenDefaultSeconds_def circuitOpenMinSeconds_def)
  moreover have "in_range cfg" using r by (auto simp: cfg(1) clampCircuitOpenDuration_def Let_def in_range_def)
  ultimately show ?thesis using cfg(2) by (auto simp: in_range_def out_of_unit_iff)
qed

text \<open>An environment with a home directory, no file, and a threshold that is not a number.\<close>

definition sample_env :: os_env where
  "sample_env =
     \<lparr>oe_getenv = (\<lambda>v. if v = ''HOME'' then ''/root'' else if v = ''MXLRC_VERIFICATION_MIN_SIMILARITY'' then ''nan''
        else if v = ''MXLRC_API_CIRCUIT_OPEN_DURATION'' then ''60'' else ''''),
      oe_stat = (\<lambda>_. Some (Sen OsErrNotExist)), oe_decode = (\<lambda>_ c. (c, None)), oe_rnd = fixed53\<rparr>"

lemma sample_env_loads:
  "is_ok (LoadConfig sample_env '''')"
  "map_sum id (\<lambda>c. vc_MinSimilarity (cf_Verification c)) (LoadConfig sample_env '''') = Inr NaN"
  by code_simp+

theorem LoadConfig_in_range_witness:
  "\<exists>cfg. LoadConfig sample_env '''' = Inr cfg \<and> vc_MinSimilarity (cf_Verification cfg) = NaN \<and>
     300 \<le> ac_CircuitOpenDuration (cf_API cfg)"
proof -
  have r: "float_rounding (oe_rnd sample_env)" by (simp add: sample_env_def float_rounding_fixed53)
  obtain cfg where c: "LoadConfig sample_env '''' = Inr cfg"
    using sample_env_loads(1) by (cases "LoadConfig sample_env ''''") auto
  with sample_env_loads(2) LoadConfig_in_range [OF r c] show ?thesis by simp
qed

section \<open>Lists in a value\<close>

lemma splitCSV_loop_items: "v \<in> set (splitCSV_loop vs) \<Longrightarrow> TrimSpace v = v \<and> v \<noteq> '''' \<and> (\<exists>w\<in>set vs. v = TrimSpace w)"
  by (induction vs) (auto simp: TrimSpace_idem split: if_splits)

lemma splitCSV_loop_id: "(\<And>v. v \<in> set vs \<Longrightarrow> TrimSpace v = v \<and> v \<noteq> '''') \<Longrightarrow> splitCSV_loop vs = vs"
  by (induction vs) auto

lemma set_TrimSpace: "c \<in> set (TrimSpace s) \<Longrightarrow> c \<in> set s"
proof -
  have left: "c \<in> set (TrimLeftSpace s) \<Longrightarrow> c \<in> set s" for s
  proof (induction s rule: TrimLeftSpace.induct)
    case (1 s)
    then show ?case by (cases "lead_space s = 0") (auto simp: TrimLeftSpace.simps [of s] dest: in_set_dropD)
  qed
  show "c \<in> set (TrimSpace s) \<Longrightarrow> c \<in> set s"
    using TrimRightSpace_prefix [of "TrimLeftSpace s"] left by (metis TrimSpace_def in_set_takeD)
qed

lemma splitCSV_Join: "splitCSV (JoinStr (splitCSV s) [CHR '','']) = splitCSV s"
proof (cases "splitCSV s = []")
  case True
  then show ?thesis by (simp add: splitCSV_def)
next
  case False
  have "CHR '','' \<notin> set v" if "v \<in> set (splitCSV s)" for v
    using splitCSV_loop_items [OF that [unfolded splitCSV_def]] set_TrimSpace Split_parts [of "CHR '',''" s] by blast
  then have "Split (CHR '','') (JoinStr (splitCSV s) [CHR '','']) = splitCSV s"
    using False by (intro Split_Join) auto
  moreover have "splitCSV_loop (splitCSV s) = splitCSV s"
    by (rule splitCSV_loop_id) (auto simp: splitCSV_def dest: splitCSV_loop_items)
  ultimately show ?thesis unfolding splitCSV_def by simp
qed

end
