(* ===== verification/Config_Cmd.thy ===== *)
theory Config_Cmd
  imports Config Backoff
begin

text \<open>
  The configuration side of \<open>internal/commands/commands.go\<close>: the keys of \<open>config get/set/list\<close>, the
  \<open>config\<close> command, and the intervals that \<open>serve\<close> derives from the configuration, with the 64-bit
  arithmetic of \<open>time.Duration\<close>. \<open>strconv.FormatFloat(v, 'f', -1, 64)\<close>, the shortest decimal that
  parses back to \<open>v\<close>, is the function \<open>ff\<close>.
\<close>

section \<open>Keys\<close>

definition configKeys :: "string list" where
  "configKeys =
     [''api.token'', ''api.cooldown'', ''api.circuit_open_duration'', ''output.dir'', ''db.path'', ''server.addr'',
      ''server.webhook_api_keys'', ''server.scan_interval_seconds'', ''server.work_interval_seconds'',
      ''providers.primary'', ''providers.disabled'', ''verification.enabled'', ''verification.whisper_url'',
      ''verification.ffmpeg_path'', ''verification.sample_duration_seconds'', ''verification.min_confidence'',
      ''verification.min_similarity'']"

definition configValue :: "(float64 \<Rightarrow> string) \<Rightarrow> Config \<Rightarrow> string \<Rightarrow> string option" where
  "configValue ff cfg key =
     (let a = cf_API cfg; s = cf_Server cfg; p = cf_Providers cfg; v = cf_Verification cfg in
      if key = ''api.token'' then Some (ac_Token a)
      else if key = ''api.cooldown'' then Some (Itoa (ac_Cooldown a))
      else if key = ''api.circuit_open_duration'' then Some (Itoa (ac_CircuitOpenDuration a))
      else if key = ''output.dir'' then Some (oc_Dir (cf_Output cfg))
      else if key = ''db.path'' then Some (dc_Path (cf_DB cfg))
      else if key = ''server.addr'' then Some (sv_Addr s)
      else if key = ''server.webhook_api_keys'' then Some (JoinStr (sv_WebhookAPIKeys s) '','')
      else if key = ''server.scan_interval_seconds'' then Some (Itoa (sv_ScanIntervalSeconds s))
      else if key = ''server.work_interval_seconds'' then Some (Itoa (sv_WorkIntervalSeconds s))
      else if key = ''providers.primary'' then Some (pc_Primary p)
      else if key = ''providers.disabled'' then Some (JoinStr (pc_Disabled p) '','')
      else if key = ''verification.enabled'' then Some (FormatBool (vc_Enabled v))
      else if key = ''verification.whisper_url'' then Some (vc_WhisperURL v)
      else if key = ''verification.ffmpeg_path'' then Some (vc_FFmpegPath v)
      else if key = ''verification.sample_duration_seconds'' then Some (Itoa (vc_SampleDurationSeconds v))
      else if key = ''verification.min_confidence'' then Some (ff (vc_MinConfidence v))
      else if key = ''verification.min_similarity'' then Some (ff (vc_MinSimilarity v))
      else None)"

text \<open>The integer cases: \<open>strconv.Atoi\<close> and a range check, with one message for both errors.\<close>

definition set_int :: "(int \<Rightarrow> bool) \<Rightarrow> string \<Rightarrow> string \<Rightarrow> (int \<Rightarrow> Config) \<Rightarrow> Config res" where
  "set_int bad msg value upd =
     (case Atoi value of Inl _ \<Rightarrow> Inl (New msg) | Inr n \<Rightarrow> if bad n then Inl (New msg) else Inr (upd n))"

definition set_float :: "(rat \<Rightarrow> rat) \<Rightarrow> string \<Rightarrow> string \<Rightarrow> (float64 \<Rightarrow> Config) \<Rightarrow> Config res" where
  "set_float rnd msg value upd =
     (case ParseFloat rnd value of Inl _ \<Rightarrow> Inl (New msg) | Inr n \<Rightarrow> if out_of_unit n then Inl (New msg) else Inr (upd n))"

definition setConfigValue :: "(rat \<Rightarrow> rat) \<Rightarrow> Config \<Rightarrow> string \<Rightarrow> string \<Rightarrow> Config res" where
  "setConfigValue rnd cfg key value =
     (let a = cf_API cfg; s = cf_Server cfg; p = cf_Providers cfg; v = cf_Verification cfg in
      if key = ''api.token'' then Inr (cfg\<lparr>cf_API := a\<lparr>ac_Token := value\<rparr>\<rparr>)
      else if key = ''api.cooldown'' then
        set_int (\<lambda>n. n < 0) ''api.cooldown must be a non-negative integer'' value
          (\<lambda>n. cfg\<lparr>cf_API := a\<lparr>ac_Cooldown := n\<rparr>\<rparr>)
      else if key = ''api.circuit_open_duration'' then
        set_int (\<lambda>n. n \<le> 0) ''api.circuit_open_duration must be a positive integer (seconds)'' value
          (\<lambda>n. cfg\<lparr>cf_API := a\<lparr>ac_CircuitOpenDuration := n\<rparr>\<rparr>)
      else if key = ''output.dir'' then Inr (cfg\<lparr>cf_Output := \<lparr>oc_Dir = value\<rparr>\<rparr>)
      else if key = ''db.path'' then Inr (cfg\<lparr>cf_DB := \<lparr>dc_Path = value\<rparr>\<rparr>)
      else if key = ''server.addr'' then Inr (cfg\<lparr>cf_Server := s\<lparr>sv_Addr := value\<rparr>\<rparr>)
      else if key = ''server.webhook_api_keys'' then Inr (cfg\<lparr>cf_Server := s\<lparr>sv_WebhookAPIKeys := splitCSV value\<rparr>\<rparr>)
      else if key = ''server.scan_interval_seconds'' then
        set_int (\<lambda>n. n < 0) ''server.scan_interval_seconds must be a non-negative integer (seconds; 0 disables repeat)'' value
          (\<lambda>n. cfg\<lparr>cf_Server := s\<lparr>sv_ScanIntervalSeconds := n\<rparr>\<rparr>)
      else if key = ''server.work_interval_seconds'' then
        set_int (\<lambda>n. n < 0) ''server.work_interval_seconds must be a non-negative integer (seconds; 0 uses api.cooldown)'' value
          (\<lambda>n. cfg\<lparr>cf_Server := s\<lparr>sv_WorkIntervalSeconds := n\<rparr>\<rparr>)
      else if key = ''providers.primary'' then Inr (cfg\<lparr>cf_Providers := p\<lparr>pc_Primary := value\<rparr>\<rparr>)
      else if key = ''providers.disabled'' then Inr (cfg\<lparr>cf_Providers := p\<lparr>pc_Disabled := splitCSV value\<rparr>\<rparr>)
      else if key = ''verification.enabled'' then
        (case ParseBool value of Inl _ \<Rightarrow> Inl (New ''verification.enabled must be a boolean'')
         | Inr b \<Rightarrow> Inr (cfg\<lparr>cf_Verification := v\<lparr>vc_Enabled := b\<rparr>\<rparr>))
      else if key = ''verification.whisper_url'' then Inr (cfg\<lparr>cf_Verification := v\<lparr>vc_WhisperURL := value\<rparr>\<rparr>)
      else if key = ''verification.ffmpeg_path'' then
        (if TrimSpace value = '''' then Inl (New ''verification.ffmpeg_path must not be empty'')
         else Inr (cfg\<lparr>cf_Verification := v\<lparr>vc_FFmpegPath := value\<rparr>\<rparr>))
      else if key = ''verification.sample_duration_seconds'' then
        set_int (\<lambda>n. n \<le> 0) ''verification.sample_duration_seconds must be a positive integer'' value
          (\<lambda>n. cfg\<lparr>cf_Verification := v\<lparr>vc_SampleDurationSeconds := n\<rparr>\<rparr>)
      else if key = ''verification.min_confidence'' then
        set_float rnd ''verification.min_confidence must be a number between 0 and 1'' value
          (\<lambda>n. cfg\<lparr>cf_Verification := v\<lparr>vc_MinConfidence := n\<rparr>\<rparr>)
      else if key = ''verification.min_similarity'' then
        set_float rnd ''verification.min_similarity must be a number between 0 and 1'' value
          (\<lambda>n. cfg\<lparr>cf_Verification := v\<lparr>vc_MinSimilarity := n\<rparr>\<rparr>)
      else Inl (New (''unknown config key: '' @ key)))"

definition defaultConfigPath :: "os_env \<Rightarrow> string" where
  "defaultConfigPath E =
     (let base = oe_getenv E ''XDG_CONFIG_HOME'' in
      if base \<noteq> '''' then JoinPath [base, ''mxlrcgo-svc'', ''config.toml'']
      else case UserHomeDir E of
        Inl _ \<Rightarrow> JoinPath [''config.toml'']
      | Inr home \<Rightarrow> JoinPath [home, ''.config'', ''mxlrcgo-svc'', ''config.toml''])"

section \<open>The command\<close>

datatype ConfigCmd =
    ConfigGet string string
  | ConfigSet string string string
  | ConfigListing string
  | ConfigNone

fun configCommandPath :: "ConfigCmd \<Rightarrow> string" where
  "configCommandPath (ConfigGet key path) = path"
| "configCommandPath (ConfigSet key value path) = path"
| "configCommandPath (ConfigListing path) = path"
| "configCommandPath ConfigNone = ''''"

definition line :: "string \<Rightarrow> string" where "line s = s @ [CHR 0x0A]"

text \<open>
  The exit code, the output, and the file that was written, if one was. \<open>io\<close> has the errors of
  \<open>MkdirAll\<close>, \<open>OpenFile\<close>, \<open>Encode\<close> and \<open>Close\<close>. Opening truncates the file, so that after an error of
  the last two it holds an unknown part of the encoding: \<open>None\<close> in the second component.
\<close>

definition runConfig :: "os_env \<Rightarrow> (float64 \<Rightarrow> string) \<Rightarrow> io \<Rightarrow> ConfigCmd \<Rightarrow> int \<times> string \<times> (string \<times> Config option) option" where
  "runConfig E ff io args =
     (let path = configCommandPath args in
      case LoadConfig E path of Inl e \<Rightarrow> (1, '''', None)
      | Inr cfg \<Rightarrow>
        (case args of
           ConfigGet key _ \<Rightarrow>
             (case configValue ff cfg key of
                None \<Rightarrow> (2, line (''unknown config key: '' @ key), None)
              | Some v \<Rightarrow> (0, line v, None))
         | ConfigListing _ \<Rightarrow>
             (0, concat (map (\<lambda>k. line (k @ ''='' @ (case configValue ff cfg k of None \<Rightarrow> '''' | Some v \<Rightarrow> v))) configKeys), None)
         | ConfigSet key value _ \<Rightarrow>
             (case setConfigValue (oe_rnd E) cfg key value of
                Inl e \<Rightarrow> (2, line (Error e), None)
              | Inr cfg' \<Rightarrow>
                 (let path = (if path = '''' then defaultConfigPath E else path) in
                  if io 0 \<noteq> None \<or> io 1 \<noteq> None then (1, '''', None)
                  else if io 2 \<noteq> None \<or> io 3 \<noteq> None then (1, '''', Some (path, None))
                  else (0, line (key @ ''='' @ value), Some (path, Some cfg'))))
         | ConfigNone \<Rightarrow> (2, line ''missing config subcommand'', None)))"

section \<open>Intervals\<close>

text \<open>\<open>time.Duration(n) * time.Second\<close>.\<close>

definition seconds :: "int \<Rightarrow> int" where
  "seconds n = i64 (n * Second)"

definition serveWorkerInterval :: "Config \<Rightarrow> int option \<Rightarrow> int" where
  "serveWorkerInterval cfg workInterval =
     (let interval = ac_Cooldown (cf_API cfg);
          interval = (if sv_WorkIntervalSeconds (cf_Server cfg) > 0 then sv_WorkIntervalSeconds (cf_Server cfg) else interval);
          interval = (case workInterval of None \<Rightarrow> interval | Some n \<Rightarrow> n)
      in seconds interval)"

definition serveScanInterval :: "Config \<Rightarrow> int option \<Rightarrow> int" where
  "serveScanInterval cfg scanInterval =
     seconds (case scanInterval of None \<Rightarrow> sv_ScanIntervalSeconds (cf_Server cfg) | Some n \<Rightarrow> n)"

definition normalizeWorkerInterval :: "int \<Rightarrow> int" where
  "normalizeWorkerInterval interval = (if interval < 15 * Second then 15 * Second else interval)"

section \<open>What is set is what is read\<close>

lemma Atoi_i64: "Atoi s = Inr n \<Longrightarrow> Atoi (Itoa n) = Inr n"
  by (rule Atoi_Itoa) (auto simp: Atoi_def Let_def split: if_splits)

lemma set_int_okD: "set_int bad msg value upd = Inr cfg' \<Longrightarrow> \<exists>n. Atoi value = Inr n \<and> \<not> bad n \<and> cfg' = upd n"
  by (auto simp: set_int_def split: sum.splits if_splits)

lemma set_int_Itoa: "Atoi value = Inr n \<Longrightarrow> \<not> bad n \<Longrightarrow> upd n = cfg' \<Longrightarrow> set_int bad msg (Itoa n) upd = Inr cfg'"
  by (simp add: set_int_def Atoi_i64)

lemma set_float_okD:
  "set_float rnd msg value upd = Inr cfg' \<Longrightarrow> \<exists>x. ParseFloat rnd value = Inr x \<and> \<not> out_of_unit x \<and> cfg' = upd x"
  by (auto simp: set_float_def split: sum.splits if_splits)

lemma set_float_format:
  "ParseFloat rnd (ff x) = Inr x \<Longrightarrow> \<not> out_of_unit x \<Longrightarrow> upd x = cfg' \<Longrightarrow> set_float rnd msg (ff x) upd = Inr cfg'"
  by (simp add: set_float_def)

lemma known_key: "setConfigValue rnd cfg key value = Inr cfg' \<Longrightarrow> key \<in> set configKeys"
  by (rule ccontr) (simp add: setConfigValue_def configKeys_def Let_def)

text \<open>Setting the shown text of a key again changes nothing.\<close>

lemma set_then_get:
  assumes "setConfigValue rnd cfg key value = Inr cfg'"
    and "\<forall>x. ParseFloat rnd value = Inr x \<longrightarrow> ParseFloat rnd (ff x) = Inr x"
  shows "\<exists>v. configValue ff cfg' key = Some v \<and> setConfigValue rnd cfg' key v = Inr cfg'"
  using known_key [OF assms(1)] assms(1) unfolding configKeys_def list.set insert_iff empty_iff
  by (elim disjE) (auto simp: setConfigValue_def configValue_def Let_def splitCSV_Join ParseBool_FormatBool assms(2)
      intro!: set_int_Itoa set_float_format dest!: set_int_okD set_float_okD split: sum.splits if_splits)

section \<open>The file that was written is the file that is read\<close>

text \<open>
  The environment after \<open>config set\<close> has written \<open>cfg\<close> to \<open>path\<close>: the file is there, and decoding it gives what
  was encoded, every field of the record being in it.
\<close>

definition after_write :: "os_env \<Rightarrow> string \<Rightarrow> Config \<Rightarrow> os_env" where
  "after_write E path cfg =
     E\<lparr>oe_stat := (oe_stat E)(path := None),
       oe_decode := (\<lambda>p c. if p = path then (cfg, None) else oe_decode E p c)\<rparr>"

text \<open>No variable that overrides a field of the configuration is set.\<close>

definition no_overrides :: "os_env \<Rightarrow> bool" where
  "no_overrides E \<longleftrightarrow> (\<forall>v. oe_getenv E v \<noteq> '''' \<longrightarrow> v \<in> {''HOME'', ''XDG_CONFIG_HOME'', ''XDG_DATA_HOME'', ''MXLRC_DOCKER''})"

text \<open>
  The text that a key shows after it was set, from the text it was set to: an integer in its usual form, the
  circuit's window at least five minutes, the members of a list trimmed and without blanks, the default of a
  field that must not be empty, else the text itself.
\<close>

definition number :: "string \<Rightarrow> int" where
  "number value = (case Atoi value of Inr n \<Rightarrow> n | Inl _ \<Rightarrow> 0)"

definition or_default :: "string \<Rightarrow> string \<Rightarrow> string" where
  "or_default value d = (if value = '''' then d else value)"

definition shown :: "os_env \<Rightarrow> (float64 \<Rightarrow> string) \<Rightarrow> string \<Rightarrow> string \<Rightarrow> string" where
  "shown E ff key value =
     (if key = ''api.circuit_open_duration'' then Itoa (max 300 (number value))
      else if key \<in> set [''api.cooldown'', ''server.scan_interval_seconds'', ''server.work_interval_seconds'',
        ''verification.sample_duration_seconds''] then Itoa (number value)
      else if key \<in> set [''server.webhook_api_keys'', ''providers.disabled'']
      then JoinStr (filter (\<lambda>v. v \<noteq> '''') (map TrimSpace (Split (CHR '','') value))) '',''
      else if key = ''verification.enabled'' then FormatBool (ParseBool value = Inr True)
      else if key \<in> set [''verification.min_confidence'', ''verification.min_similarity'']
      then (case ParseFloat (oe_rnd E) value of Inr x \<Rightarrow> ff x | Inl _ \<Rightarrow> '''')
      else if key = ''output.dir'' then or_default value ''lyrics''
      else if key = ''db.path'' then or_default value (xdgDataPath E ''mxlrcgo-svc'' ''mxlrcgo.db'')
      else if key = ''server.addr'' then or_default value ''127.0.0.1:3876''
      else if key = ''providers.primary'' then or_default value ''musixmatch''
      else value)"

lemma splitCSV_filter: "splitCSV s = filter (\<lambda>v. v \<noteq> '''') (map TrimSpace (Split (CHR '','') s))"
proof -
  have "splitCSV_loop vs = filter (\<lambda>v. v \<noteq> '''') (map TrimSpace vs)" for vs
    by (induction vs) auto
  then show ?thesis by (simp add: splitCSV_def)
qed

lemma no_overrides_apply: "no_overrides E \<Longrightarrow> applyEnvOverrides E cfg = cfg"
proof -
  assume "no_overrides E"
  then have g: "oe_getenv E v = ''''" if "v \<notin> {''HOME'', ''XDG_CONFIG_HOME'', ''XDG_DATA_HOME'', ''MXLRC_DOCKER''}" for v
    using that unfolding no_overrides_def by blast
  show ?thesis
    by (simp add: applyEnvOverrides_def env_string_def env_int_def env_float_def env_alias_def g Let_def)
qed

text \<open>The repair of a configuration that is read back.\<close>

definition repaired :: "os_env \<Rightarrow> Config \<Rightarrow> Config" where
  "repaired E cfg = clampCircuitOpenDuration (reapply_defaults (defaults E) cfg)"

definition sane :: "Config \<Rightarrow> bool" where
  "sane cfg \<longleftrightarrow> in_range cfg \<and> 300 \<le> ac_CircuitOpenDuration (cf_API cfg) \<and> dc_Path (cf_DB cfg) \<noteq> ''''"

lemma LoadConfig_sane:
  assumes "float_rounding (oe_rnd E)" "LoadConfig E path = Inr cfg"
  shows "sane cfg"
proof -
  from LoadConfig_from [OF assms(2)] obtain c where
    c: "c = defaults E \<or> (\<exists>f. c = reapply_defaults (defaults E) f)" "finish_load E c = Inr cfg" by blast
  have "in_range c" using c(1) in_range_defaults [OF assms(1)] in_range_reapply by auto
  then have r: "in_range (applyEnvOverrides E c)" by (rule in_range_overrides)
  from c(2) have cfg: "cfg = clampCircuitOpenDuration (applyEnvOverrides E c)" "dc_Path (cf_DB cfg) \<noteq> ''''"
    by (auto simp: finish_load_def Let_def split: if_splits)
  with r show ?thesis
    by (auto simp: sane_def clampCircuitOpenDuration_def Let_def in_range_def circuitOpenDefaultSeconds_def circuitOpenMinSeconds_def)
qed

lemma read_back:
  assumes "no_overrides E" "path \<noteq> ''''" "dc_Path (cf_DB (repaired (after_write E path cfg) cfg)) \<noteq> ''''"
  shows "LoadConfig (after_write E path cfg) path = Inr (repaired (after_write E path cfg) cfg)"
proof -
  have "no_overrides (after_write E path cfg)" using assms(1) by (simp add: no_overrides_def after_write_def)
  note o = no_overrides_apply [OF this]
  have "oe_stat (after_write E path cfg) path = None" "oe_decode (after_write E path cfg) path c = (cfg, None)" for c
    by (simp_all add: after_write_def)
  with assms(2,3) show ?thesis
    by (simp add: LoadConfig_def finish_load_def o repaired_def)
qed

lemmas repair_defs = repaired_def reapply_defaults_def clampCircuitOpenDuration_def defaults_def
  circuitOpenDefaultSeconds_def circuitOpenMinSeconds_def

lemma set_shown:
  assumes "setConfigValue (oe_rnd E) cfg key value = Inr cfg'" "sane cfg"
  shows "configValue ff (repaired E cfg') key = Some (shown E ff key value)"
  using known_key [OF assms(1)] assms unfolding configKeys_def list.set insert_iff empty_iff
  by (elim disjE; clarsimp simp: setConfigValue_def Let_def dest!: set_int_okD set_float_okD
      split: sum.splits if_split_asm split del: if_split)
    (auto simp: configValue_def shown_def repair_defs sane_def in_range_def number_def or_default_def splitCSV_filter Let_def)

lemma set_repaired_frame:
  assumes "setConfigValue (oe_rnd E) cfg key value = Inr cfg'" "sane cfg" "k \<noteq> key"
  shows "configValue ff (repaired E cfg') k = configValue ff cfg k"
  using known_key [OF assms(1)] assms unfolding configKeys_def list.set insert_iff empty_iff
  by (elim disjE; clarsimp simp: setConfigValue_def Let_def dest!: set_int_okD set_float_okD
      split: sum.splits if_split_asm split del: if_split)
    (simp_all add: configValue_def repair_defs sane_def in_range_def Let_def)


text \<open>A formatter that prints one half and NaN, and an environment with a home directory and no variables.\<close>

definition demo_format :: "float64 \<Rightarrow> string" where
  "demo_format x = (case x of NaN \<Rightarrow> ''NaN'' | _ \<Rightarrow> ''0.5'')"

definition plain_env :: os_env where
  "plain_env = sample_env\<lparr>oe_getenv := (\<lambda>v. if v = ''HOME'' then ''/root'' else '''')\<rparr>"


text \<open>A threshold can be set to NaN.\<close>

lemma config_set_accepts_nan:
  "setConfigValue rnd cfg ''verification.min_similarity'' ''NaN'' =
     Inr (cfg\<lparr>cf_Verification := (cf_Verification cfg)\<lparr>vc_MinSimilarity := NaN\<rparr>\<rparr>)"
proof -
  have "ParseFloat rnd ''NaN'' = Inr NaN" by (rule ParseFloat_nan) code_simp
  then show ?thesis by (simp add: setConfigValue_def set_float_def out_of_unit_def Let_def)
qed

text \<open>
  In a container (MXLRC_DOCKER) every command reads \<open>/config/config.toml\<close>, but \<open>config set\<close> without a
  path writes below the home directory: what was set is not read back.
\<close>

definition docker_env :: os_env where
  "docker_env = sample_env\<lparr>oe_getenv := (\<lambda>v. if v = ''MXLRC_DOCKER'' then ''1'' else if v = ''HOME'' then ''/root'' else '''')\<rparr>"

lemma docker_set_is_not_read:
  "xdgConfigPath docker_env ''mxlrcgo-svc'' ''config.toml'' = ''/config/config.toml''"
  "map_option fst (snd (snd (runConfig docker_env demo_format no_faults (ConfigSet ''output.dir'' ''/music'' '''')))) =
     Some ''/root/.config/mxlrcgo-svc/config.toml''"
  by code_simp+

section \<open>The worker interval\<close>

lemma seconds_exact: "\<bar>n\<bar> \<le> 9223372036 \<Longrightarrow> seconds n = n * Second"
  unfolding seconds_def by (rule i64_id) (simp add: is_i64_def Second_def, linarith)

text \<open>
  The worker of serve never polls more often than every 15 seconds, whatever the command line, the
  configuration and the 64-bit overflow of a huge number of seconds make of the interval. Up to 2^63
  nanoseconds it is the larger of 15 seconds and the configured time: the flag, else the positive
  work interval, else the cooldown.
\<close>
theorem worker_interval_bounds:
  assumes "n = (case flag of Some m \<Rightarrow> m
    | None \<Rightarrow> if 0 < sv_WorkIntervalSeconds (cf_Server cfg) then sv_WorkIntervalSeconds (cf_Server cfg)
        else ac_Cooldown (cf_API cfg))"
  shows "15 * Second \<le> normalizeWorkerInterval (serveWorkerInterval cfg flag) \<and>
    (\<bar>n\<bar> \<le> 9223372036 \<longrightarrow> normalizeWorkerInterval (serveWorkerInterval cfg flag) = max (15 * Second) (n * Second))"
proof -
  have "serveWorkerInterval cfg flag = seconds n"
    by (simp add: serveWorkerInterval_def Let_def assms split: option.split)
  then show ?thesis by (simp add: normalizeWorkerInterval_def seconds_exact max_def)
qed

theorem worker_interval_bounds_witness:
  "normalizeWorkerInterval (serveWorkerInterval (defaults sample_env) (Some 60)) = 60 * Second"
  using worker_interval_bounds [where n = 60 and flag = "Some 60" and cfg = "defaults sample_env"] by (simp add: Second_def)

lemma huge_interval_wraps: "normalizeWorkerInterval (serveWorkerInterval cfg (Some 9223372037)) = 15 * Second"
  by (simp add: normalizeWorkerInterval_def serveWorkerInterval_def seconds_def Let_def i64_def Second_def)

end
