(* ===== verification/Auth.thy ===== *)
theory Auth
  imports Library_Repo "HOL-Library.List_Lexorder" "HOL-Library.Char_ord"
begin

text \<open>
  API keys, package \<open>internal/auth\<close>: scopes, key hashing, the service over the \<open>Store\<close> interface, the
  two stores (a map in memory and the table \<open>api_key_metadata\<close>), and the two ways the server loads its
  configured webhook keys. PBKDF2 is the parameter \<open>kdf\<close>, which maps a raw key to its 32 derived
  bytes or to an error; the random source is the bytes it yields or its error.
\<close>

section \<open>Scopes\<close>

type_synonym Scope = string

definition ScopeWebhook :: Scope where "ScopeWebhook = ''webhook''"
definition ScopeAdmin :: Scope where "ScopeAdmin = ''admin''"

text \<open>The loop of \<open>NormalizeScopes\<close>: trimmed scopes in the order of their first occurrence.\<close>

fun normalize_loop :: "Scope list \<Rightarrow> Scope list \<Rightarrow> Scope list res" where
  "normalize_loop acc [] = Inr acc"
| "normalize_loop acc (v # vs) =
     (let scope = TrimSpace v
      in if scope \<noteq> ScopeWebhook \<and> scope \<noteq> ScopeAdmin
         then Inl (New (''auth: unsupported scope '' @ Quoted v))
         else normalize_loop (if scope \<in> set acc then acc else acc @ [scope]) vs)"

definition NormalizeScopes :: "Scope list \<Rightarrow> Scope list res" where
  "NormalizeScopes scopes =
     (if scopes = [] then Inl (New ''auth: at least one scope is required'')
      else map_sum id sort (normalize_loop [] scopes))"

definition HasScope :: "Scope list \<Rightarrow> Scope \<Rightarrow> bool" where
  "HasScope scopes required \<longleftrightarrow> required = '''' \<or> list_ex (\<lambda>v. v = ScopeAdmin \<or> v = required) scopes"

definition comma :: char where "comma = CHR 0x2C"

definition encodeScopes :: "Scope list \<Rightarrow> string" where
  "encodeScopes scopes = JoinStr scopes [comma]"

definition decodeScopes :: "string \<Rightarrow> Scope list" where
  "decodeScopes scopes = filter (\<lambda>v. v \<noteq> '''') (map TrimSpace (Split comma scopes))"

section \<open>Keys and hashes\<close>

record Key =
  ky_ID :: string
  ky_Name :: string
  ky_Hash :: string
  ky_Scopes :: "Scope list"
  ky_CreatedAt :: int
  ky_RevokedAt :: "int option"

record CreatedKey =
  ck_Raw :: string
  ck_Key :: Key

definition KeyPrefix :: string where "KeyPrefix = ''mxlrc_''"

definition hex_digit :: "int \<Rightarrow> char" where
  "hex_digit n = (if n < 10 then char_of (48 + n) else char_of (87 + n))"

definition hex_encode :: "string \<Rightarrow> string" where
  "hex_encode bs = concat (map (\<lambda>c. [hex_digit (byte c div 16), hex_digit (byte c mod 16)]) bs)"

type_synonym kdf = "string \<Rightarrow> string res"

definition HashKey :: "kdf \<Rightarrow> string \<Rightarrow> string res" where
  "HashKey kdf raw =
     (case kdf raw of Inl e \<Rightarrow> Inl (Errorf ''auth: derive key hash: '' e '''') | Inr key \<Rightarrow> Inr (hex_encode key))"

definition generateKey :: "string res \<Rightarrow> string res" where
  "generateKey rnd =
     (case rnd of Inl e \<Rightarrow> Inl (Errorf ''auth: generate key: '' e '''') | Inr b \<Rightarrow> Inr (KeyPrefix @ hex_encode b))"

section \<open>The service\<close>

record 's Store =
  st_Create :: "Key \<Rightarrow> 's \<Rightarrow> unit res \<times> 's"
  st_FindByHash :: "string \<Rightarrow> 's \<Rightarrow> Key res"
  st_RevokeByHash :: "string \<Rightarrow> int \<Rightarrow> 's \<Rightarrow> Key res \<times> 's"
  st_List :: "'s \<Rightarrow> Key list res"

text \<open>The service with the bytes its random source yields and the instant its clock returns.\<close>

record 's Service =
  sv_store :: "'s Store option"
  sv_rand :: "string res option"
  sv_now :: "int option"

definition NewService :: "'s Store \<Rightarrow> string res \<Rightarrow> int \<Rightarrow> 's Service" where
  "NewService store rnd now = \<lparr>sv_store = Some store, sv_rand = Some rnd, sv_now = Some now\<rparr>"

definition CreateKey :: "kdf \<Rightarrow> 's Service \<Rightarrow> string \<Rightarrow> Scope list \<Rightarrow> 's \<Rightarrow> CreatedKey res \<times> 's" where
  "CreateKey kdf sv name scopes s =
     (case sv_store sv of None \<Rightarrow> (Inl (New ''auth: store dependency is nil''), s) | Some store \<Rightarrow>
     (case sv_rand sv of None \<Rightarrow> (Inl (New ''auth: rand dependency is nil''), s) | Some rnd \<Rightarrow>
     (case sv_now sv of None \<Rightarrow> (Inl (New ''auth: now dependency is nil''), s) | Some now \<Rightarrow>
     (case NormalizeScopes scopes of Inl e \<Rightarrow> (Inl e, s) | Inr granted \<Rightarrow>
     (case generateKey rnd of Inl e \<Rightarrow> (Inl e, s) | Inr raw \<Rightarrow>
     (case HashKey kdf raw of Inl e \<Rightarrow> (Inl e, s) | Inr hash \<Rightarrow>
      (if length hash < 16 then (Inl (New ''auth: derived key hash is too short''), s)
       else
         let key = \<lparr>ky_ID = take 16 hash, ky_Name = TrimSpace name, ky_Hash = hash,
                    ky_Scopes = granted, ky_CreatedAt = now, ky_RevokedAt = None\<rparr>
         in case st_Create store key s of
              (Inl e, s') \<Rightarrow> (Inl e, s')
            | (Inr _, s') \<Rightarrow> (Inr \<lparr>ck_Raw = raw, ck_Key = key\<rparr>, s'))))))))"

definition ValidateKey :: "kdf \<Rightarrow> 's Service \<Rightarrow> string \<Rightarrow> Scope \<Rightarrow> 's \<Rightarrow> Key res" where
  "ValidateKey kdf sv raw required s =
     (case sv_store sv of None \<Rightarrow> Inl (New ''auth: store dependency is nil'') | Some store \<Rightarrow>
      (if \<not> HasPrefix raw KeyPrefix then Inl (Sen ErrInvalidKey)
       else case HashKey kdf raw of Inl e \<Rightarrow> Inl e | Inr hash \<Rightarrow>
        (case st_FindByHash store hash s of Inl e \<Rightarrow> Inl e | Inr key \<Rightarrow>
          (if ky_Hash key \<noteq> hash then Inl (Sen ErrInvalidKey)
           else if ky_RevokedAt key \<noteq> None then Inl (Sen ErrRevokedKey)
           else if required \<noteq> '''' \<and> \<not> HasScope (ky_Scopes key) required then Inl (Sen ErrForbiddenScope)
           else Inr key))))"

definition RevokeKey :: "kdf \<Rightarrow> 's Service \<Rightarrow> string \<Rightarrow> 's \<Rightarrow> Key res \<times> 's" where
  "RevokeKey kdf sv raw s =
     (case sv_store sv of None \<Rightarrow> (Inl (New ''auth: store dependency is nil''), s) | Some store \<Rightarrow>
     (case sv_now sv of None \<Rightarrow> (Inl (New ''auth: now dependency is nil''), s) | Some now \<Rightarrow>
      (if \<not> HasPrefix raw KeyPrefix then (Inl (Sen ErrInvalidKey), s)
       else case HashKey kdf raw of Inl e \<Rightarrow> (Inl e, s)
            | Inr hash \<Rightarrow> st_RevokeByHash store hash now s)))"

definition ListKeys :: "'s Service \<Rightarrow> 's \<Rightarrow> Key list res" where
  "ListKeys sv s =
     (case sv_store sv of None \<Rightarrow> Inl (New ''auth: store dependency is nil'') | Some store \<Rightarrow> st_List store s)"

section \<open>The store in memory\<close>

text \<open>The map from hashes, as a function with the list of the keys' hashes. \<open>ctxErr\<close> is \<open>ctx.Err()\<close>.\<close>

type_synonym memory = "(string \<times> Key) list"

definition NewMemoryStore :: memory where "NewMemoryStore = []"

definition MemCreate :: "goerr option \<Rightarrow> Key \<Rightarrow> memory \<Rightarrow> unit res \<times> memory" where
  "MemCreate ctxErr key m =
     (case ctxErr of Some e \<Rightarrow> (Inl e, m)
      | None \<Rightarrow>
        (if ky_Hash key = '''' then (Inl (New ''auth: key hash must not be empty''), m)
         else if map_of m (ky_Hash key) \<noteq> None then (Inl (Sen ErrDuplicateKey), m)
         else (Inr (), m @ [(ky_Hash key, key)])))"

definition MemFindByHash :: "goerr option \<Rightarrow> string \<Rightarrow> memory \<Rightarrow> Key res" where
  "MemFindByHash ctxErr hash m =
     (case ctxErr of Some e \<Rightarrow> Inl e
      | None \<Rightarrow> (case map_of m hash of None \<Rightarrow> Inl (Sen ErrInvalidKey) | Some key \<Rightarrow> Inr key))"

definition MemRevokeByHash :: "goerr option \<Rightarrow> string \<Rightarrow> int \<Rightarrow> memory \<Rightarrow> Key res \<times> memory" where
  "MemRevokeByHash ctxErr hash revokedAt m =
     (case ctxErr of Some e \<Rightarrow> (Inl e, m)
      | None \<Rightarrow>
        (case map_of m hash of None \<Rightarrow> (Inl (Sen ErrInvalidKey), m)
         | Some key \<Rightarrow>
            let key' = key\<lparr>ky_RevokedAt := Some revokedAt\<rparr>
            in (Inr key', map (\<lambda>(h, k). if h = hash then (h, key') else (h, k)) m)))"

text \<open>Sorted by creation and id; the iteration order of the map decides between equal ones.\<close>

definition MemList :: "goerr option \<Rightarrow> memory \<Rightarrow> Key list res" where
  "MemList ctxErr m =
     (case ctxErr of Some e \<Rightarrow> Inl e
      | None \<Rightarrow> Inr (order_by (\<lambda>k. (ky_CreatedAt k, ky_ID k)) (map snd m)))"

definition memory_store :: "goerr option \<Rightarrow> memory Store" where
  "memory_store ctxErr =
     \<lparr>st_Create = MemCreate ctxErr, st_FindByHash = MemFindByHash ctxErr,
      st_RevokeByHash = MemRevokeByHash ctxErr, st_List = MemList ctxErr\<rparr>"

section \<open>The store in the database\<close>

definition key_row_of :: "Key \<Rightarrow> key_row" where
  "key_row_of key =
     \<lparr>ak_id = ky_ID key, ak_name = ky_Name key, ak_hash = ky_Hash key,
      ak_scopes = encodeScopes (ky_Scopes key), ak_created_at = formatTime (ky_CreatedAt key),
      ak_revoked_at = None\<rparr>"

text \<open>\<open>scanKey\<close>: the stored instants are RFC 3339 text that parses.\<close>

definition scanKey :: "key_row \<Rightarrow> Key" where
  "scanKey r =
     \<lparr>ky_ID = ak_id r, ky_Name = ak_name r, ky_Hash = ak_hash r, ky_Scopes = decodeScopes (ak_scopes r),
      ky_CreatedAt = parseTime (ak_created_at r), ky_RevokedAt = map_option parseTime (ak_revoked_at r)\<rparr>"

definition key_unique_error :: goerr where
  "key_unique_error = New ''UNIQUE constraint failed: api_key_metadata''"

definition SQLCreate :: "io \<Rightarrow> Key \<Rightarrow> db \<Rightarrow> unit res \<times> db" where
  "SQLCreate io key d =
     (if ky_Hash key = '''' then (Inl (New ''auth: key hash must not be empty''), d)
      else drv io 0 ''auth: create key: '' d
        (if \<exists>r\<in>set (api_keys d). ak_id r = ky_ID key \<or> ak_hash r = ky_Hash key
         then (Inl (Errorf ''auth: create key: '' key_unique_error ''''), d)
         else (Inr (), d\<lparr>api_keys := api_keys d @ [key_row_of key]\<rparr>)))"

text \<open>ON CONFLICT(hash) DO NOTHING: a conflict on the id alone is still an error.\<close>

definition CreateIfNotExists :: "io \<Rightarrow> Key \<Rightarrow> db \<Rightarrow> bool res \<times> db" where
  "CreateIfNotExists io key d =
     (if ky_Hash key = '''' then (Inl (New ''auth: key hash must not be empty''), d)
      else drv io 0 ''auth: create key if not exists: '' d
        (if \<exists>r\<in>set (api_keys d). ak_hash r = ky_Hash key
         then drv io 1 ''auth: create key rows affected: '' d (Inr False, d)
         else if \<exists>r\<in>set (api_keys d). ak_id r = ky_ID key
         then (Inl (Errorf ''auth: create key if not exists: '' key_unique_error ''''), d)
         else let d1 = d\<lparr>api_keys := api_keys d @ [key_row_of key]\<rparr>
              in drv io 1 ''auth: create key rows affected: '' d1 (Inr True, d1)))"

definition SQLFindByHash :: "io \<Rightarrow> string \<Rightarrow> db \<Rightarrow> Key res" where
  "SQLFindByHash io hash d =
     (case query_row io 0 (find (\<lambda>r. ak_hash r = hash) (api_keys d)) of
        Inl e \<Rightarrow> (if errors_Is e SqlErrNoRows then Inl (Sen ErrInvalidKey)
                  else Inl (Errorf ''auth: find key: '' e ''''))
      | Inr r \<Rightarrow> Inr (scanKey r))"

text \<open>Driver calls: 0 the SELECT of \<open>FindByHash\<close>, 1 the UPDATE.\<close>

definition SQLRevokeByHash :: "io \<Rightarrow> string \<Rightarrow> int \<Rightarrow> db \<Rightarrow> Key res \<times> db" where
  "SQLRevokeByHash io hash revokedAt d =
     (case SQLFindByHash io hash d of
        Inl e \<Rightarrow> (Inl e, d)
      | Inr key \<Rightarrow>
         drv io 1 ''auth: revoke key: '' d
           (Inr (key\<lparr>ky_RevokedAt := Some revokedAt\<rparr>),
            d\<lparr>api_keys := sql_update (\<lambda>r. ak_hash r = hash)
               (\<lambda>r. r\<lparr>ak_revoked_at := Some (formatTime revokedAt)\<rparr>) (api_keys d)\<rparr>))"

text \<open>Driver calls: 0 the query, 1 a row, 2 the end of the rows, 3 their Close.\<close>

definition SQLList :: "io \<Rightarrow> db \<Rightarrow> Key list res" where
  "SQLList io d =
     (case io 0 of Some e \<Rightarrow> Inl (Errorf ''auth: list keys: '' e '''')
      | None \<Rightarrow>
        (case io 1 of Some e \<Rightarrow> Inl e
         | None \<Rightarrow>
           (case io 2 of Some e \<Rightarrow> Inl (Errorf ''auth: key rows: '' e '''')
            | None \<Rightarrow>
              (case io 3 of Some e \<Rightarrow> Inl (Errorf ''auth: close key rows: '' e '''')
               | None \<Rightarrow> Inr (map scanKey (order_by (\<lambda>r. (ak_created_at r, ak_id r)) (api_keys d)))))))"

definition sql_store :: "io \<Rightarrow> db Store" where
  "sql_store io =
     \<lparr>st_Create = SQLCreate io, st_FindByHash = SQLFindByHash io,
      st_RevokeByHash = SQLRevokeByHash io, st_List = SQLList io\<rparr>"

section \<open>Configured webhook keys\<close>

definition webhook_key :: "int \<Rightarrow> string \<Rightarrow> int \<Rightarrow> Key" where
  "webhook_key i hash now =
     \<lparr>ky_ID = take 16 hash, ky_Name = ''webhook-'' @ Itoa (i + 1), ky_Hash = hash,
      ky_Scopes = [ScopeWebhook], ky_CreatedAt = now, ky_RevokedAt = None\<rparr>"

text \<open>The loop of \<open>NewWebhookService\<close>, from index \<open>i\<close>, with the number of keys created.\<close>

fun webhook_loop :: "kdf \<Rightarrow> goerr option \<Rightarrow> int \<Rightarrow> int \<Rightarrow> string list \<Rightarrow> int \<Rightarrow> memory \<Rightarrow> (int \<times> memory) res" where
  "webhook_loop kdf ctxErr now i [] created m = Inr (created, m)"
| "webhook_loop kdf ctxErr now i (raw # raws) created m =
     (let raw = TrimSpace raw; pre = ''webhook API key '' @ Itoa (i + 1)
      in if raw = '''' then webhook_loop kdf ctxErr now (i + 1) raws created m
         else if \<not> HasPrefix raw KeyPrefix then Inl (New (pre @ '': invalid format''))
         else case HashKey kdf raw of
            Inl e \<Rightarrow> Inl (Errorf (''hash '' @ pre @ '': '') e '''')
          | Inr hash \<Rightarrow>
             (if length hash < 16 then Inl (New (pre @ '': derived hash is too short''))
              else case MemCreate ctxErr (webhook_key i hash now) m of
                 (Inl e, _) \<Rightarrow> Inl (Errorf (''create '' @ pre @ '': '') e '''')
               | (Inr _, m') \<Rightarrow> webhook_loop kdf ctxErr now (i + 1) raws (created + 1) m'))"

definition NewWebhookService :: "kdf \<Rightarrow> goerr option \<Rightarrow> int \<Rightarrow> string list \<Rightarrow> memory res" where
  "NewWebhookService kdf ctxErr now rawKeys =
     (if rawKeys = [] then Inl (New ''at least one webhook API key is required'')
      else case webhook_loop kdf ctxErr now 0 rawKeys 0 NewMemoryStore of
        Inl e \<Rightarrow> Inl e
      | Inr (created, m) \<Rightarrow>
          (if created = 0 then Inl (New ''at least one webhook API key is required'') else Inr m))"

text \<open>
  \<open>keyService\<close> of \<open>commands.go\<close>, from index \<open>i\<close>. A key that is already stored stays as it is. The two
  driver calls and the clock of each key are its own.
\<close>

fun keyService :: "kdf \<Rightarrow> (int \<Rightarrow> io) \<Rightarrow> (int \<Rightarrow> int) \<Rightarrow> int \<Rightarrow> string list \<Rightarrow> db \<Rightarrow> unit res \<times> db" where
  "keyService kdf ios clock i [] d = (Inr (), d)"
| "keyService kdf ios clock i (raw # raws) d =
     (let raw = TrimSpace raw; pre = ''webhook API key '' @ Itoa (i + 1)
      in if raw = '''' then keyService kdf ios clock (i + 1) raws d
         else if \<not> HasPrefix raw KeyPrefix then (Inl (New (pre @ '': invalid format'')), d)
         else case HashKey kdf raw of
            Inl e \<Rightarrow> (Inl e, d)
          | Inr hash \<Rightarrow>
             (if length hash < 16 then (Inl (New (pre @ '': derived hash is too short'')), d)
              else case CreateIfNotExists (ios i) (webhook_key i hash (clock i)) d of
                 (Inl e, d') \<Rightarrow> (Inl e, d')
               | (Inr _, d') \<Rightarrow> keyService kdf ios clock (i + 1) raws d'))"

end
