(* ===== verification/Auth_Keys.thy ===== *)
theory Auth_Keys
  imports Auth
begin

text \<open>
  What the authentication code guarantees: scopes keep their meaning through the stores, a created key
  is accepted for its scopes until it is revoked and never after, over either store, and the start-up
  loading of configured keys neither duplicates a stored key nor revives a revoked one.
\<close>

section \<open>Scopes\<close>

definition known_scopes :: "Scope list \<Rightarrow> bool" where
  "known_scopes scopes \<longleftrightarrow> set scopes \<subseteq> {ScopeWebhook, ScopeAdmin}"

lemma known_scopes_Nil: "known_scopes []"
  by (simp add: known_scopes_def)

lemma normalize_loop_ok:
  "normalize_loop acc vs = Inr r \<Longrightarrow> distinct acc \<Longrightarrow> known_scopes acc \<Longrightarrow>
     distinct r \<and> known_scopes r \<and> set r = set acc \<union> TrimSpace ` set vs"
proof (induction vs arbitrary: acc)
  case Nil
  then show ?case by simp
next
  case (Cons v vs)
  let ?acc = "if TrimSpace v \<in> set acc then acc else acc @ [TrimSpace v]"
  have t: "TrimSpace v \<in> {ScopeWebhook, ScopeAdmin}"
    by (rule ccontr) (use Cons.prems(1) in \<open>simp add: Let_def\<close>)
  then have "\<not> (TrimSpace v \<noteq> ScopeWebhook \<and> TrimSpace v \<noteq> ScopeAdmin)"
    by blast
  with Cons.prems(1) have r: "normalize_loop ?acc vs = Inr r"
    unfolding normalize_loop.simps Let_def by (simp only: if_False)
  have acc: "set ?acc = insert (TrimSpace v) (set acc)" "distinct ?acc"
    using Cons.prems(2) by auto
  have "known_scopes ?acc"
    using t Cons.prems(3) unfolding known_scopes_def acc(1) by simp
  from Cons.IH [OF r acc(2) this] show ?case unfolding acc(1) by simp
qed

lemma normalize_loop_err:
  "(\<exists>e. normalize_loop acc vs = Inl e) \<longleftrightarrow> (\<exists>v\<in>set vs. TrimSpace v \<notin> {ScopeWebhook, ScopeAdmin})"
  by (induction vs arbitrary: acc) (auto simp: Let_def)

lemma NormalizeScopes_ok:
  assumes "NormalizeScopes scopes = Inr r"
  shows "distinct r \<and> sorted r \<and> known_scopes r \<and> set r = TrimSpace ` set scopes \<and> r \<noteq> []"
proof -
  from assms obtain l where l: "normalize_loop [] scopes = Inr l" "r = sort l" and ne: "scopes \<noteq> []"
    by (cases "normalize_loop [] scopes") (auto simp: NormalizeScopes_def split: if_splits)
  have "distinct l \<and> known_scopes l \<and> set l = TrimSpace ` set scopes"
    using normalize_loop_ok [OF l(1)] known_scopes_Nil by simp
  moreover from this ne have "l \<noteq> []" by auto
  moreover have "set r = set l" "sorted r" "r = [] \<longleftrightarrow> l = []" "distinct r = distinct l"
    using l(2) set_empty [of "sort l"] by simp_all
  ultimately show ?thesis
    by (simp only: known_scopes_def) blast
qed

lemma scope_text_ok:
  "v \<in> {ScopeWebhook, ScopeAdmin} \<Longrightarrow> TrimSpace v = v \<and> v \<noteq> '''' \<and> comma \<notin> set v"
proof -
  have "TrimSpace ScopeWebhook = ScopeWebhook" "TrimSpace ScopeAdmin = ScopeAdmin"
    by code_simp+
  then show "v \<in> {ScopeWebhook, ScopeAdmin} \<Longrightarrow> TrimSpace v = v \<and> v \<noteq> '''' \<and> comma \<notin> set v"
    by (auto simp: ScopeWebhook_def ScopeAdmin_def comma_def)
qed

lemma decode_encode:
  assumes "known_scopes scopes"
  shows "decodeScopes (encodeScopes scopes) = scopes"
proof (cases "scopes = []")
  case True
  then show ?thesis by (simp add: encodeScopes_def decodeScopes_def)
next
  case False
  have ok: "\<forall>v\<in>set scopes. TrimSpace v = v \<and> v \<noteq> '''' \<and> comma \<notin> set v"
    using assms scope_text_ok by (auto simp: known_scopes_def)
  then have "Split comma (encodeScopes scopes) = scopes"
    unfolding encodeScopes_def by (intro Split_Join [OF False]) auto
  moreover have "map TrimSpace scopes = scopes"
    using ok by (simp add: map_idI)
  moreover have "filter (\<lambda>v. v \<noteq> '''') scopes = scopes"
    using ok by (simp add: filter_id_conv)
  ultimately show ?thesis by (simp add: decodeScopes_def)
qed

text \<open>
  NormalizeScopes accepts exactly the non-empty lists whose trimmed members are webhook or admin;
  its result is their set, sorted and without repetition, and storing it as text and reading it back
  gives the same list.
\<close>
theorem NormalizeScopes_canonical:
  "is_ok (NormalizeScopes scopes) = (scopes \<noteq> [] \<and> known_scopes (map TrimSpace scopes)) \<and>
   (case NormalizeScopes scopes of
      Inl _ \<Rightarrow> True
    | Inr r \<Rightarrow> sorted r \<and> distinct r \<and> set r = TrimSpace ` set scopes \<and> decodeScopes (encodeScopes r) = r)"
proof (cases "NormalizeScopes scopes")
  case (Inl e)
  then show ?thesis
    using normalize_loop_err [of "[]" scopes]
    by (cases "normalize_loop [] scopes") (auto simp: NormalizeScopes_def known_scopes_def split: if_splits)
next
  case (Inr r)
  from NormalizeScopes_ok [OF this] have r: "distinct r \<and> sorted r \<and> known_scopes r \<and> set r = TrimSpace ` set scopes \<and> r \<noteq> []" .
  moreover from r have "known_scopes (map TrimSpace scopes)" by (metis known_scopes_def set_map)
  moreover from r have "scopes \<noteq> []" by auto
  ultimately show ?thesis
    using Inr decode_encode by simp
qed

section \<open>The contract of a key store\<close>

type_synonym key_view = "string \<Rightarrow> (string \<times> Scope list \<times> bool) option"

text \<open>
  The view of a store: for each hash the id, the scopes and whether the key is revoked. Create adds a
  new hash, the lookup shows the view, revocation sets the mark and nothing else.
\<close>

locale key_store =
  fixes store :: "'s Store"
    and view :: "'s \<Rightarrow> key_view"
    and inv :: "'s \<Rightarrow> bool"
  assumes create_ok: "inv s \<Longrightarrow> known_scopes (ky_Scopes k) \<Longrightarrow> ky_RevokedAt k = None \<Longrightarrow>
      st_Create store k s = (Inr x, s') \<Longrightarrow>
      inv s' \<and> view s (ky_Hash k) = None \<and> view s' = (view s)(ky_Hash k \<mapsto> (ky_ID k, ky_Scopes k, False))"
    and find_view: "inv s \<Longrightarrow>
      (case view s h of
         None \<Rightarrow> st_FindByHash store h s = Inl (Sen ErrInvalidKey)
       | Some (i, sc, gone) \<Rightarrow> \<exists>k. st_FindByHash store h s = Inr k \<and> ky_Hash k = h \<and> ky_ID k = i \<and>
           ky_Scopes k = sc \<and> (ky_RevokedAt k \<noteq> None \<longleftrightarrow> gone))"
    and revoke_view: "inv s \<Longrightarrow>
      (case view s h of
         None \<Rightarrow> st_RevokeByHash store h t s = (Inl (Sen ErrInvalidKey), s)
       | Some (i, sc, gone) \<Rightarrow> \<exists>k s'. st_RevokeByHash store h t s = (Inr k, s') \<and> ky_ID k = i \<and>
           inv s' \<and> view s' = (view s)(h \<mapsto> (i, sc, True)))"
begin

text \<open>What the service decides about a raw key, from the view alone.\<close>

definition decision :: "kdf \<Rightarrow> string \<Rightarrow> Scope \<Rightarrow> 's \<Rightarrow> string res" where
  "decision kdf raw required s =
     (if \<not> HasPrefix raw KeyPrefix then Inl (Sen ErrInvalidKey)
      else case HashKey kdf raw of Inl e \<Rightarrow> Inl e
      | Inr h \<Rightarrow>
         (case view s h of
            None \<Rightarrow> Inl (Sen ErrInvalidKey)
          | Some (i, sc, gone) \<Rightarrow>
             if gone then Inl (Sen ErrRevokedKey)
             else if HasScope sc required then Inr i else Inl (Sen ErrForbiddenScope)))"

lemma validate_decision:
  "inv s \<Longrightarrow> map_sum id ky_ID (ValidateKey kdf (NewService store rnd now) raw required s) = decision kdf raw required s"
proof -
  assume inv: "inv s"
  show ?thesis
  proof (cases "HashKey kdf raw")
    case (Inl e)
    then show ?thesis by (simp add: ValidateKey_def NewService_def decision_def)
  next
    case (Inr h)
    then show ?thesis
      using find_view [OF inv, of h]
      by (auto simp: ValidateKey_def NewService_def decision_def HasScope_def split: option.splits prod.splits)
  qed
qed

lemma create_decides:
  assumes "inv s" and "CreateKey kdf (NewService store rnd now) name scopes s = (Inr ck, s')"
  shows "inv s' \<and>
    decision kdf (ck_Raw ck) required s' =
      (if HasScope (ky_Scopes (ck_Key ck)) required then Inr (ky_ID (ck_Key ck)) else Inl (Sen ErrForbiddenScope)) \<and>
    (\<forall>raw. HashKey kdf raw \<noteq> HashKey kdf (ck_Raw ck) \<longrightarrow> decision kdf raw required s' = decision kdf raw required s)"
proof -
  from assms(2) obtain granted raw hash x where
    norm: "NormalizeScopes scopes = Inr granted" and gen: "generateKey rnd = Inr raw" and hash: "HashKey kdf raw = Inr hash"
    and cr: "st_Create store \<lparr>ky_ID = take 16 hash, ky_Name = TrimSpace name, ky_Hash = hash,
                    ky_Scopes = granted, ky_CreatedAt = now, ky_RevokedAt = None\<rparr> s = (Inr x, s')"
    and ck: "ck = \<lparr>ck_Raw = raw, ck_Key = \<lparr>ky_ID = take 16 hash, ky_Name = TrimSpace name, ky_Hash = hash,
                    ky_Scopes = granted, ky_CreatedAt = now, ky_RevokedAt = None\<rparr>\<rparr>"
    by (auto simp: CreateKey_def NewService_def Let_def split: sum.splits if_splits prod.splits)
  have "HasPrefix raw KeyPrefix"
    using gen by (auto simp: generateKey_def HasPrefix_def split: sum.splits)
  moreover have "inv s' \<and> view s hash = None \<and> view s' = (view s)(hash \<mapsto> (take 16 hash, granted, False))"
    using create_ok [OF assms(1) _ _ cr] NormalizeScopes_ok [OF norm] by simp
  ultimately show ?thesis
    using hash ck by (auto simp: decision_def split: sum.splits)
qed

lemma revoke_decides:
  assumes "inv s" and "RevokeKey kdf (NewService store rnd now) raw s = (Inr k, s')"
  shows "inv s' \<and> decision kdf raw required s' = Inl (Sen ErrRevokedKey) \<and>
    (\<forall>raw'. HashKey kdf raw' \<noteq> HashKey kdf raw \<longrightarrow> decision kdf raw' required s' = decision kdf raw' required s)"
proof -
  from assms(2) obtain h where pre: "HasPrefix raw KeyPrefix" and h: "HashKey kdf raw = Inr h"
    and rv: "st_RevokeByHash store h now s = (Inr k, s')"
    by (auto simp: RevokeKey_def NewService_def split: sum.splits if_splits)
  from revoke_view [OF assms(1), of h now] rv obtain i sc gone where
    "inv s'" "view s' = (view s)(h \<mapsto> (i, sc, True))"
    by (auto split: option.splits prod.splits)
  with pre h show ?thesis
    by (auto simp: decision_def split: sum.splits)
qed

text \<open>A revoked key stays revoked whatever keys are created later.\<close>

lemma create_keeps_revoked:
  assumes "inv s" and "CreateKey kdf (NewService store rnd now) name scopes s = (Inr ck, s')"
    and "decision kdf raw required s = Inl (Sen ErrRevokedKey)"
    and "HasPrefix raw KeyPrefix" "HashKey kdf raw = Inr h" "view s h = Some (i, sc, True)"
  shows "decision kdf raw required s' = Inl (Sen ErrRevokedKey)"
proof -
  have "HashKey kdf raw \<noteq> HashKey kdf (ck_Raw ck)"
  proof
    assume same: "HashKey kdf raw = HashKey kdf (ck_Raw ck)"
    from assms(2) obtain granted x where
      norm: "NormalizeScopes scopes = Inr granted"
      and cr: "st_Create store (ck_Key ck) s = (Inr x, s')" and hk: "HashKey kdf (ck_Raw ck) = Inr (ky_Hash (ck_Key ck))"
      and sc: "ky_Scopes (ck_Key ck) = granted" "ky_RevokedAt (ck_Key ck) = None"
      by (auto simp: CreateKey_def NewService_def Let_def split: sum.splits if_splits prod.splits)
    from create_ok [OF assms(1) _ sc(2) cr] sc(1) NormalizeScopes_ok [OF norm] have "view s (ky_Hash (ck_Key ck)) = None"
      by simp
    with same hk assms(5,6) show False by simp
  qed
  with create_decides [OF assms(1,2), of required] assms(3) show ?thesis by simp
qed

end

section \<open>The two stores keep the contract\<close>

definition memory_view :: "memory \<Rightarrow> key_view" where
  "memory_view m h = map_option (\<lambda>k. (ky_ID k, ky_Scopes k, ky_RevokedAt k \<noteq> None)) (map_of m h)"

definition memory_ok :: "memory \<Rightarrow> bool" where
  "memory_ok m \<longleftrightarrow> distinct (map fst m) \<and> (\<forall>(h, k)\<in>set m. ky_Hash k = h)"

lemma map_of_snoc: "h \<notin> fst ` set m \<Longrightarrow> map_of (m @ [(h, k)]) = (map_of m)(h \<mapsto> k)"
  by (induction m) (auto simp: fun_eq_iff)

lemma map_of_replace:
  assumes "map_of m h = Some k"
  shows "map_of (map (\<lambda>(h', x). if h' = h then (h', k') else (h', x)) m) = (map_of m)(h \<mapsto> k')"
proof -
  have "map_of (map (\<lambda>(h', x). if h' = h then (h', k') else (h', x)) m) x =
      (if x = h then map_option (\<lambda>_. k') (map_of m h) else map_of m x)" for x
    by (induction m) auto
  with assms show ?thesis by (simp add: fun_eq_iff)
qed

lemma keys_replace: "map fst (map (\<lambda>(h', x). if h' = h then (h', k') else (h', x)) m) = map fst m"
  by (induction m) auto

interpretation mem: key_store "memory_store None" memory_view memory_ok
proof
  fix s s' :: memory and k :: Key and x h t
  show "memory_ok s' \<and> memory_view s (ky_Hash k) = None \<and>
      memory_view s' = (memory_view s)(ky_Hash k \<mapsto> (ky_ID k, ky_Scopes k, False))"
    if ok: "memory_ok s" and live: "ky_RevokedAt k = None" and c: "st_Create (memory_store None) k s = (Inr x, s')"
  proof -
    from c have new: "map_of s (ky_Hash k) = None" and s': "s' = s @ [(ky_Hash k, k)]"
      by (auto simp: memory_store_def MemCreate_def split: if_splits)
    from new have "ky_Hash k \<notin> fst ` set s"
      by (simp add: map_of_eq_None_iff)
    with ok new live show ?thesis
      by (auto simp: s' memory_ok_def memory_view_def map_of_snoc fun_eq_iff simp del: map_of_append)
  qed
  show "case memory_view s h of
      None \<Rightarrow> st_FindByHash (memory_store None) h s = Inl (Sen ErrInvalidKey)
    | Some (i, sc, gone) \<Rightarrow> \<exists>k. st_FindByHash (memory_store None) h s = Inr k \<and> ky_Hash k = h \<and> ky_ID k = i \<and>
           ky_Scopes k = sc \<and> (ky_RevokedAt k \<noteq> None \<longleftrightarrow> gone)" if "memory_ok s"
    using that by (auto simp: memory_view_def memory_store_def MemFindByHash_def memory_ok_def
        dest: map_of_SomeD split: option.splits)
  show "case memory_view s h of
      None \<Rightarrow> st_RevokeByHash (memory_store None) h t s = (Inl (Sen ErrInvalidKey), s)
    | Some (i, sc, gone) \<Rightarrow> \<exists>k s'. st_RevokeByHash (memory_store None) h t s = (Inr k, s') \<and> ky_ID k = i \<and>
           memory_ok s' \<and> memory_view s' = (memory_view s)(h \<mapsto> (i, sc, True))" if ok: "memory_ok s"
  proof (cases "map_of s h")
    case None
    then show ?thesis by (simp add: memory_view_def memory_store_def MemRevokeByHash_def)
  next
    case (Some k)
    let ?k = "k\<lparr>ky_RevokedAt := Some t\<rparr>"
    let ?s = "map (\<lambda>(h', x). if h' = h then (h', ?k) else (h', x)) s"
    have "ky_Hash k = h"
      using ok map_of_SomeD [OF Some] by (auto simp: memory_ok_def)
    with ok have "memory_ok ?s"
      unfolding memory_ok_def keys_replace by (auto split: if_splits)
    moreover have "memory_view ?s = (memory_view s)(h \<mapsto> (ky_ID k, ky_Scopes k, True))"
      by (simp add: memory_view_def map_of_replace [OF Some] fun_eq_iff)
    ultimately show ?thesis
      using Some by (simp add: memory_view_def memory_store_def MemRevokeByHash_def Let_def)
  qed
qed

definition sql_view :: "db \<Rightarrow> key_view" where
  "sql_view d h =
     map_option (\<lambda>r. (ak_id r, decodeScopes (ak_scopes r), ak_revoked_at r \<noteq> None))
       (find (\<lambda>r. ak_hash r = h) (api_keys d))"

lemma SQLCreate_wf [wf_intros]: "db_wf d \<Longrightarrow> db_wf (snd (SQLCreate io key d))"
  by (auto simp: SQLCreate_def key_row_of_def wf_defs sr_ids_def snd_drv split: option.splits)

lemma CreateIfNotExists_wf [wf_intros]: "db_wf d \<Longrightarrow> db_wf (snd (CreateIfNotExists io key d))"
  by (auto simp: CreateIfNotExists_def Let_def key_row_of_def wf_defs sr_ids_def snd_drv split: option.splits)

lemma db_wf_revoke:
  assumes "db_wf d"
  shows "db_wf (d\<lparr>api_keys := sql_update (\<lambda>r. ak_hash r = h) (\<lambda>r. r\<lparr>ak_revoked_at := t\<rparr>) (api_keys d)\<rparr>)"
proof -
  have "map ak_id (sql_update (\<lambda>r. ak_hash r = h) (\<lambda>r. r\<lparr>ak_revoked_at := t\<rparr>) (api_keys d)) = map ak_id (api_keys d)"
    "map ak_hash (sql_update (\<lambda>r. ak_hash r = h) (\<lambda>r. r\<lparr>ak_revoked_at := t\<rparr>) (api_keys d)) = map ak_hash (api_keys d)"
    by (rule map_sql_update, simp)+
  with assms show ?thesis
    by (simp add: wf_defs sr_ids_def)
qed

lemma SQLRevokeByHash_wf [wf_intros]: "db_wf d \<Longrightarrow> db_wf (snd (SQLRevokeByHash io h t d))"
  by (auto simp: SQLRevokeByHash_def intro!: db_wf_drv db_wf_revoke split: sum.splits)

interpretation sql: key_store "sql_store no_faults" sql_view db_wf
proof
  fix s s' :: db and k :: Key and x h t
  show "db_wf s' \<and> sql_view s (ky_Hash k) = None \<and>
      sql_view s' = (sql_view s)(ky_Hash k \<mapsto> (ky_ID k, ky_Scopes k, False))"
    if ok: "db_wf s" and sc: "known_scopes (ky_Scopes k)" and c: "st_Create (sql_store no_faults) k s = (Inr x, s')"
  proof -
    from c have new: "find (\<lambda>r. ak_hash r = ky_Hash k) (api_keys s) = None"
      and s': "s' = s\<lparr>api_keys := api_keys s @ [key_row_of k]\<rparr>"
      by (auto simp: sql_store_def SQLCreate_def find_none split: if_splits)
    have "db_wf s'"
      using SQLCreate_wf [OF ok, of no_faults k] c by (simp add: sql_store_def)
    with new sc show ?thesis
      by (auto simp: s' sql_view_def find_app key_row_of_def decode_encode fun_eq_iff split: option.splits)
  qed
  show "case sql_view s h of
      None \<Rightarrow> st_FindByHash (sql_store no_faults) h s = Inl (Sen ErrInvalidKey)
    | Some (i, sc, gone) \<Rightarrow> \<exists>k. st_FindByHash (sql_store no_faults) h s = Inr k \<and> ky_Hash k = h \<and> ky_ID k = i \<and>
           ky_Scopes k = sc \<and> (ky_RevokedAt k \<noteq> None \<longleftrightarrow> gone)"
    by (auto simp: sql_view_def sql_store_def SQLFindByHash_def query_row_def scanKey_def
        dest: find_in_set split: option.splits)
  show "case sql_view s h of
      None \<Rightarrow> st_RevokeByHash (sql_store no_faults) h t s = (Inl (Sen ErrInvalidKey), s)
    | Some (i, sc, gone) \<Rightarrow> \<exists>k s'. st_RevokeByHash (sql_store no_faults) h t s = (Inr k, s') \<and> ky_ID k = i \<and>
           db_wf s' \<and> sql_view s' = (sql_view s)(h \<mapsto> (i, sc, True))" if ok: "db_wf s"
  proof (cases "find (\<lambda>r. ak_hash r = h) (api_keys s)")
    case None
    then show ?thesis
      by (simp add: sql_view_def sql_store_def SQLRevokeByHash_def SQLFindByHash_def query_row_def)
  next
    case (Some r)
    let ?f = "\<lambda>r. r\<lparr>ak_revoked_at := Some (formatTime t)\<rparr>"
    let ?s = "s\<lparr>api_keys := sql_update (\<lambda>r. ak_hash r = h) ?f (api_keys s)\<rparr>"
    have f: "find (\<lambda>r. ak_hash r = h') (sql_update (\<lambda>r. ak_hash r = h) ?f (api_keys s)) =
        map_option (\<lambda>r. if ak_hash r = h then ?f r else r) (find (\<lambda>r. ak_hash r = h') (api_keys s))" for h'
      by (simp add: find_map_upd)
    have "sql_view ?s h' = ((sql_view s)(h \<mapsto> (ak_id r, decodeScopes (ak_scopes r), True))) h'" for h'
      using Some find_in_set [OF Some]
      by (cases "find (\<lambda>r. ak_hash r = h') (api_keys s)") (auto simp: sql_view_def f dest: find_in_set)
    then have "sql_view ?s = (sql_view s)(h \<mapsto> (ak_id r, decodeScopes (ak_scopes r), True))"
      by blast
    moreover have "st_RevokeByHash (sql_store no_faults) h t s = (Inr (scanKey r\<lparr>ky_RevokedAt := Some t\<rparr>), ?s)"
      using Some by (simp add: sql_store_def SQLRevokeByHash_def SQLFindByHash_def query_row_def)
    moreover have "sql_view s h = Some (ak_id r, decodeScopes (ak_scopes r), ak_revoked_at r \<noteq> None)"
      using Some by (simp add: sql_view_def)
    ultimately show ?thesis
      using db_wf_revoke [OF ok] by (simp add: scanKey_def)
  qed
qed

section \<open>The life of a key\<close>

text \<open>
  C40. Over the database, a key that CreateKey returns is accepted by ValidateKey exactly for the scopes
  it was given (admin standing for all), and refused with \<open>ErrForbiddenScope\<close> for the others; the
  decision about every raw key with a different hash is what it was before.
\<close>
theorem created_key_is_accepted:
  assumes "db_wf d"
    and "CreateKey kdf (NewService (sql_store no_faults) rnd now) name scopes d = (Inr ck, d')"
  shows "map_sum id ky_ID (ValidateKey kdf (NewService (sql_store no_faults) rnd now) (ck_Raw ck) required d') =
           (if HasScope (ky_Scopes (ck_Key ck)) required then Inr (ky_ID (ck_Key ck)) else Inl (Sen ErrForbiddenScope)) \<and>
         set (ky_Scopes (ck_Key ck)) = TrimSpace ` set scopes \<and>
         (\<forall>raw. HashKey kdf raw \<noteq> HashKey kdf (ck_Raw ck) \<longrightarrow>
            map_sum id ky_ID (ValidateKey kdf (NewService (sql_store no_faults) rnd now) raw required d') =
            map_sum id ky_ID (ValidateKey kdf (NewService (sql_store no_faults) rnd now) raw required d))"
proof -
  note dec = sql.create_decides [OF assms, of required]
  have "NormalizeScopes scopes = Inr (ky_Scopes (ck_Key ck))"
    using assms(2) by (auto simp: CreateKey_def NewService_def Let_def split: sum.splits if_splits prod.splits)
  from NormalizeScopes_ok [OF this] dec sql.validate_decision [OF assms(1)] sql.validate_decision [of d']
  show ?thesis by simp
qed

text \<open>A derivation function for the concrete instances: the first 32 bytes of the padded key.\<close>

definition plain_kdf :: kdf where
  "plain_kdf raw = Inr (take 32 (drop 6 raw @ replicate 32 CHR 0x00))"

definition zero_rand :: "string res" where
  "zero_rand = Inr (replicate 32 CHR 0x07)"

theorem created_key_is_accepted_witness:
  "\<exists>ck d'. CreateKey plain_kdf (NewService (sql_store no_faults) zero_rand 0) ''ci'' [''webhook''] empty_db = (Inr ck, d') \<and>
     is_ok (ValidateKey plain_kdf (NewService (sql_store no_faults) zero_rand 0) (ck_Raw ck) ''webhook'' d')"
proof -
  have "is_ok (fst (CreateKey plain_kdf (NewService (sql_store no_faults) zero_rand 0) ''ci'' [''webhook''] empty_db))"
    by code_simp
  then obtain ck d' where
    e: "CreateKey plain_kdf (NewService (sql_store no_faults) zero_rand 0) ''ci'' [''webhook''] empty_db = (Inr ck, d')"
    by (blast dest: is_okE)
  note main = created_key_is_accepted [OF db_wf_empty e, of "''webhook''"]
  have "TrimSpace ''webhook'' = ''webhook''" by code_simp
  with main have "HasScope (ky_Scopes (ck_Key ck)) ''webhook''"
    by (auto simp: HasScope_def list_ex_iff)
  with main have "map_sum id ky_ID (ValidateKey plain_kdf (NewService (sql_store no_faults) zero_rand 0)
      (ck_Raw ck) ''webhook'' d') = Inr (ky_ID (ck_Key ck))"
    by simp
  then have "is_ok (ValidateKey plain_kdf (NewService (sql_store no_faults) zero_rand 0) (ck_Raw ck) ''webhook'' d')"
    by (auto simp: is_ok_def split: sum.splits)
  with e show ?thesis by blast
qed

text \<open>
  A key that RevokeKey has revoked is refused from then on with \<open>ErrRevokedKey\<close>, for every scope,
  even the empty one; keys with another hash are not affected. The same holds over the store in memory.
\<close>
theorem revoked_key_is_refused:
  assumes "db_wf d" and "memory_ok m"
    and "RevokeKey kdf (NewService (sql_store no_faults) rnd now) raw d = (Inr k, d')"
    and "RevokeKey kdf (NewService (memory_store None) rnd now) raw m = (Inr k', m')"
  shows "ValidateKey kdf (NewService (sql_store no_faults) rnd now) raw required d' = Inl (Sen ErrRevokedKey) \<and>
         ValidateKey kdf (NewService (memory_store None) rnd now) raw required m' = Inl (Sen ErrRevokedKey) \<and>
         (\<forall>other. HashKey kdf other \<noteq> HashKey kdf raw \<longrightarrow>
            map_sum id ky_ID (ValidateKey kdf (NewService (sql_store no_faults) rnd now) other required d') =
            map_sum id ky_ID (ValidateKey kdf (NewService (sql_store no_faults) rnd now) other required d) \<and>
            map_sum id ky_ID (ValidateKey kdf (NewService (memory_store None) rnd now) other required m') =
            map_sum id ky_ID (ValidateKey kdf (NewService (memory_store None) rnd now) other required m))"
proof -
  note s = sql.revoke_decides [OF assms(1,3), of required]
  note m = mem.revoke_decides [OF assms(2,4), of required]
  have err: "x = Inl e" if "map_sum id ky_ID x = Inl e" for x :: "Key res" and e
    using that by (cases x) simp_all
  show ?thesis
    using s m sql.validate_decision [of d' kdf rnd now raw required] mem.validate_decision [of m' kdf rnd now raw required]
      sql.validate_decision [of d' kdf rnd now _ required] mem.validate_decision [of m' kdf rnd now _ required]
      sql.validate_decision [OF assms(1), of kdf rnd now _ required] mem.validate_decision [OF assms(2), of kdf rnd now _ required]
    by (auto intro: err)
qed

definition zero_raw :: string where
  "zero_raw = KeyPrefix @ hex_encode (replicate 32 CHR 0x07)"

theorem revoked_key_is_refused_witness:
  "\<exists>d d' k. RevokeKey plain_kdf (NewService (sql_store no_faults) zero_rand 0) zero_raw d = (Inr k, d') \<and>
     ValidateKey plain_kdf (NewService (sql_store no_faults) zero_rand 0) zero_raw '''' d' = Inl (Sen ErrRevokedKey)"
proof -
  let ?d = "snd (CreateKey plain_kdf (NewService (sql_store no_faults) zero_rand 0) ''ci'' [''webhook''] empty_db)"
  let ?m = "snd (CreateKey plain_kdf (NewService (memory_store None) zero_rand 0) ''ci'' [''webhook''] NewMemoryStore)"
  have ok: "is_ok (fst (CreateKey plain_kdf (NewService (sql_store no_faults) zero_rand 0) ''ci'' [''webhook''] empty_db))"
    "is_ok (fst (CreateKey plain_kdf (NewService (memory_store None) zero_rand 0) ''ci'' [''webhook''] NewMemoryStore))"
    "is_ok (fst (RevokeKey plain_kdf (NewService (sql_store no_faults) zero_rand 0) zero_raw
       (snd (CreateKey plain_kdf (NewService (sql_store no_faults) zero_rand 0) ''ci'' [''webhook''] empty_db))))"
    "is_ok (fst (RevokeKey plain_kdf (NewService (memory_store None) zero_rand 0) zero_raw
       (snd (CreateKey plain_kdf (NewService (memory_store None) zero_rand 0) ''ci'' [''webhook''] NewMemoryStore))))"
    by code_simp+
  have d: "db_wf ?d"
    using ok(1) sql.create_decides [OF db_wf_empty] by (metis is_okE snd_conv)
  have "memory_ok NewMemoryStore"
    by (simp add: memory_ok_def NewMemoryStore_def)
  then have m: "memory_ok ?m"
    using ok(2) mem.create_decides by (metis is_okE snd_conv)
  from ok(3,4) obtain k d' k' m' where
    r: "RevokeKey plain_kdf (NewService (sql_store no_faults) zero_rand 0) zero_raw ?d = (Inr k, d')"
    "RevokeKey plain_kdf (NewService (memory_store None) zero_rand 0) zero_raw ?m = (Inr k', m')"
    by (blast dest: is_okE)
  from revoked_key_is_refused [OF d m r, of "''''"] r(1) show ?thesis by blast
qed

section \<open>Configured keys at start-up\<close>

lemma keyService_wf [wf_intros]: "db_wf d \<Longrightarrow> db_wf (snd (keyService kdf ios clock i raws d))"
proof (induction raws arbitrary: i d)
  case (Cons raw raws)
  have "db_wf (snd (CreateIfNotExists (ios i) (webhook_key i hash (clock i)) d))" for hash
    by (rule CreateIfNotExists_wf [OF Cons.prems])
  with Cons.prems show ?case
    by (auto simp: Let_def split: sum.splits prod.splits intro!: Cons.IH) (metis snd_conv)+
qed simp

text \<open>A stored hash stays as it is.\<close>

lemma find_snoc_keep: "find Q xs = Some y \<Longrightarrow> find Q (xs @ ys) = Some y"
  by (induction xs) auto

lemma CreateIfNotExists_keeps:
  assumes "CreateIfNotExists io key d = (res, d')" "sql_view d h = Some v"
  shows "sql_view d' h = Some v"
proof -
  from assms(1) have "api_keys d' = api_keys d \<or> api_keys d' = api_keys d @ [key_row_of key]"
    by (auto simp: CreateIfNotExists_def drv_def Let_def split: option.splits if_splits)
  with assms(2) show ?thesis
    by (auto simp: sql_view_def find_snoc_keep)
qed

lemma keyService_keeps:
  "sql_view d h = Some v \<Longrightarrow> sql_view (snd (keyService kdf ios clock i raws d)) h = Some v"
proof (induction raws arbitrary: i d)
  case (Cons raw raws)
  have "sql_view (snd (CreateIfNotExists (ios i) (webhook_key i hash (clock i)) d)) h = Some v" for hash
    by (rule CreateIfNotExists_keeps [OF prod.collapse [symmetric] Cons.prems])
  with Cons show ?case
    by (auto simp: Let_def split: sum.splits prod.splits) (metis snd_conv)+
qed simp

text \<open>What a raw configured value asks for: nothing when blank, else its hash.\<close>

definition wants_hash :: "kdf \<Rightarrow> string \<Rightarrow> string \<Rightarrow> bool" where
  "wants_hash kdf raw h \<longleftrightarrow> TrimSpace raw \<noteq> '''' \<and> HashKey kdf (TrimSpace raw) = Inr h"

lemma CreateIfNotExists_stores:
  assumes "CreateIfNotExists io key d = (Inr x, d')" "known_scopes (ky_Scopes key)"
  shows "sql_view d' (ky_Hash key) \<noteq> None"
proof (cases "find (\<lambda>r. ak_hash r = ky_Hash key) (api_keys d)")
  case None
  with assms have "d' = d\<lparr>api_keys := api_keys d @ [key_row_of key]\<rparr>"
    by (auto simp: CreateIfNotExists_def drv_ok Let_def find_none split: if_splits)
  with None show ?thesis
    by (simp add: sql_view_def find_app key_row_of_def)
next
  case (Some r)
  then have "sql_view d (ky_Hash key) = Some (ak_id r, decodeScopes (ak_scopes r), ak_revoked_at r \<noteq> None)"
    by (simp add: sql_view_def)
  from CreateIfNotExists_keeps [OF assms(1) this] show ?thesis by simp
qed

lemma keyService_step:
  assumes "keyService kdf ios clock i (raw # raws) d = (Inr (), d')"
  shows "TrimSpace raw = '''' \<and> keyService kdf ios clock (i + 1) raws d = (Inr (), d') \<or>
    (\<exists>hash x d1. TrimSpace raw \<noteq> '''' \<and> HasPrefix (TrimSpace raw) KeyPrefix \<and> HashKey kdf (TrimSpace raw) = Inr hash \<and>
       16 \<le> length hash \<and> CreateIfNotExists (ios i) (webhook_key i hash (clock i)) d = (Inr x, d1) \<and>
       keyService kdf ios clock (i + 1) raws d1 = (Inr (), d'))"
  using assms by (auto simp: Let_def split: if_splits sum.splits prod.splits)

lemma keyService_stores:
  "keyService kdf ios clock i raws d = (Inr (), d') \<Longrightarrow> raw \<in> set raws \<Longrightarrow> wants_hash kdf raw h \<Longrightarrow>
     HasPrefix (TrimSpace raw) KeyPrefix \<and> 16 \<le> length h \<and> sql_view d' h \<noteq> None"
proof (induction raws arbitrary: i d)
  case (Cons r raws)
  from keyService_step [OF Cons.prems(1)] show ?case
  proof
    assume "TrimSpace r = '''' \<and> keyService kdf ios clock (i + 1) raws d = (Inr (), d')"
    with Cons show ?thesis by (auto simp: wants_hash_def)
  next
    assume "\<exists>hash x d1. TrimSpace r \<noteq> '''' \<and> HasPrefix (TrimSpace r) KeyPrefix \<and> HashKey kdf (TrimSpace r) = Inr hash \<and>
       16 \<le> length hash \<and> CreateIfNotExists (ios i) (webhook_key i hash (clock i)) d = (Inr x, d1) \<and>
       keyService kdf ios clock (i + 1) raws d1 = (Inr (), d')"
    then obtain hash x d1 where r: "HasPrefix (TrimSpace r) KeyPrefix" "HashKey kdf (TrimSpace r) = Inr hash" "16 \<le> length hash"
      and c: "CreateIfNotExists (ios i) (webhook_key i hash (clock i)) d = (Inr x, d1)"
      and rest: "keyService kdf ios clock (i + 1) raws d1 = (Inr (), d')"
      by blast
    show ?thesis
    proof (cases "raw \<in> set raws")
      case True
      with Cons.IH [OF rest] Cons.prems(3) show ?thesis by blast
    next
      case False
      with Cons.prems(2,3) r(2) have h: "raw = r" "h = hash"
        by (auto simp: wants_hash_def)
      obtain v where "sql_view d1 h = Some v"
        using CreateIfNotExists_stores [OF c] h by (auto simp: webhook_key_def known_scopes_def)
      from keyService_keeps [OF this, of kdf ios clock "i + 1" raws] rest h r show ?thesis by simp
    qed
  qed
qed simp

lemma keyService_hashes:
  "keyService kdf ios clock i raws d = (Inr (), d') \<Longrightarrow> raw \<in> set raws \<Longrightarrow>
     TrimSpace raw = '''' \<or> TrimSpace raw \<noteq> '''' \<and> (\<exists>h. HashKey kdf (TrimSpace raw) = Inr h)"
proof (induction raws arbitrary: i d)
  case (Cons r raws)
  from keyService_step [OF Cons.prems(1)] Cons.IH Cons.prems(2) show ?case by auto
qed simp

text \<open>Keys that are all stored already leave nothing to do.\<close>

lemma keyService_noop:
  "\<forall>raw\<in>set raws. TrimSpace raw = '''' \<or> (\<exists>h. HasPrefix (TrimSpace raw) KeyPrefix \<and>
      HashKey kdf (TrimSpace raw) = Inr h \<and> 16 \<le> length h \<and> sql_view d h \<noteq> None) \<Longrightarrow>
   keyService kdf (\<lambda>_. no_faults) clock i raws d = (Inr (), d)"
proof (induction raws arbitrary: i)
  case (Cons raw raws)
  then have IH: "keyService kdf (\<lambda>_. no_faults) clock (i + 1) raws d = (Inr (), d)"
    by (simp del: keyService.simps no_faults_app)
  show ?case
  proof (cases "TrimSpace raw = ''''")
    case True
    with IH show ?thesis by (simp add: Let_def del: no_faults_app)
  next
    case False
    with Cons.prems obtain h where h: "HasPrefix (TrimSpace raw) KeyPrefix" "HashKey kdf (TrimSpace raw) = Inr h"
      "16 \<le> length h" "sql_view d h \<noteq> None"
      by auto
    then have "\<exists>r\<in>set (api_keys d). ak_hash r = h"
      by (auto simp: sql_view_def dest: find_in_set)
    with h(3) have "CreateIfNotExists no_faults (webhook_key i h (clock i)) d = (Inr False, d)"
      by (auto simp: CreateIfNotExists_def webhook_key_def)
    with False h IH show ?thesis by (simp add: Let_def del: no_faults_app)
  qed
qed simp

text \<open>
  Loading the configured webhook keys at start-up is idempotent: once keyService has returned
  without an error, running it again on the same keys succeeds and changes nothing. A key that was
  already stored keeps its id, its scopes and its revocation, so a revoked key in the configuration
  is not revived; and every non-blank configured key is stored afterwards.
\<close>
theorem keyService_idempotent:
  assumes "keyService kdf ios clock 0 raws d = (Inr (), d')"
  shows "keyService kdf (\<lambda>_. no_faults) clock' 0 raws d' = (Inr (), d') \<and>
         (\<forall>h v. sql_view d h = Some v \<longrightarrow> sql_view d' h = Some v) \<and>
         (\<forall>raw h. raw \<in> set raws \<and> wants_hash kdf raw h \<longrightarrow> sql_view d' h \<noteq> None)"
proof -
  have stored: "HasPrefix (TrimSpace raw) KeyPrefix \<and> 16 \<le> length h \<and> sql_view d' h \<noteq> None"
    if "raw \<in> set raws" "wants_hash kdf raw h" for raw h
    using keyService_stores [OF assms that] .
  have hashed: "TrimSpace raw = '''' \<or> (\<exists>h. wants_hash kdf raw h)" if "raw \<in> set raws" for raw
    using keyService_hashes [OF assms that] by (auto simp: wants_hash_def)
  have "keyService kdf (\<lambda>_. no_faults) clock' 0 raws d' = (Inr (), d')"
  proof (intro keyService_noop ballI)
    fix raw assume raw: "raw \<in> set raws"
    from hashed [OF this] show "TrimSpace raw = '''' \<or> (\<exists>h. HasPrefix (TrimSpace raw) KeyPrefix \<and>
      HashKey kdf (TrimSpace raw) = Inr h \<and> 16 \<le> length h \<and> sql_view d' h \<noteq> None)"
    proof
      assume "\<exists>h. wants_hash kdf raw h"
      then obtain h where h: "wants_hash kdf raw h" by blast
      with stored [OF raw h] show ?thesis by (auto simp: wants_hash_def)
    qed simp
  qed
  moreover have "sql_view d' h = Some v" if "sql_view d h = Some v" for h v
    using keyService_keeps [OF that, of kdf ios clock 0 raws] assms by simp
  ultimately show ?thesis using stored by blast
qed

definition configured :: "string list" where
  "configured = ['' '', zero_raw, zero_raw]"

theorem keyService_idempotent_witness:
  "\<exists>d'. keyService plain_kdf (\<lambda>_. no_faults) (\<lambda>_. 0) 0 configured empty_db = (Inr (), d') \<and>
     keyService plain_kdf (\<lambda>_. no_faults) (\<lambda>_. 9) 0 configured d' = (Inr (), d') \<and> length (api_keys d') = 1"
proof -
  have ok: "is_ok (fst (keyService plain_kdf (\<lambda>_. no_faults) (\<lambda>_. 0) 0 configured empty_db))"
    and n: "length (api_keys (snd (keyService plain_kdf (\<lambda>_. no_faults) (\<lambda>_. 0) 0 configured empty_db))) = 1"
    by code_simp+
  from ok obtain d' where e: "keyService plain_kdf (\<lambda>_. no_faults) (\<lambda>_. 0) 0 configured empty_db = (Inr (), d')"
    by (auto dest: is_okE)
  from keyService_idempotent [OF e, of "\<lambda>_. 9"] e n show ?thesis by auto
qed

text \<open>
  A second key with the same hash is refused by both stores, but only the store in memory says so
  with \<open>ErrDuplicateKey\<close>: the error of the database store is not that value.
\<close>
theorem duplicate_key_errors_differ:
  assumes "MemCreate None key m = (Inr (), m')" and "SQLCreate no_faults key d = (Inr (), d')"
  shows "fst (MemCreate None key m') = Inl (Sen ErrDuplicateKey) \<and>
         (case fst (SQLCreate no_faults key d') of Inl e \<Rightarrow> \<not> errors_Is e ErrDuplicateKey | Inr _ \<Rightarrow> False)"
  using assms
  by (auto simp: MemCreate_def SQLCreate_def key_unique_error_def key_row_of_def split: if_splits)

theorem duplicate_key_errors_differ_witness:
  "fst (MemCreate None (webhook_key 0 ''h'' 0) (snd (MemCreate None (webhook_key 0 ''h'' 0) NewMemoryStore))) =
     Inl (Sen ErrDuplicateKey)"
proof -
  have "fst (MemCreate None (webhook_key 0 ''h'' 0) NewMemoryStore) = Inr ()"
    "fst (SQLCreate no_faults (webhook_key 0 ''h'' 0) empty_db) = Inr ()"
    by code_simp+
  then have "MemCreate None (webhook_key 0 ''h'' 0) NewMemoryStore =
      (Inr (), snd (MemCreate None (webhook_key 0 ''h'' 0) NewMemoryStore))"
    "SQLCreate no_faults (webhook_key 0 ''h'' 0) empty_db = (Inr (), snd (SQLCreate no_faults (webhook_key 0 ''h'' 0) empty_db))"
    by (metis prod.collapse)+
  from duplicate_key_errors_differ [OF this] show ?thesis by blast
qed

end
