(* ===== verification/Queue_Enqueue.thy ===== *)
theory Queue_Enqueue
  imports Queue_Rows
begin

text \<open>
  What \<open>Enqueue\<close> does to the queue, over the row views: one row per normalized key, rows that a
  worker holds or has finished are protected, and a row waiting for its retry keeps its schedule
  unless the request comes from the webhook.
\<close>

section \<open>The effect of the statement\<close>

lemma excluded_row_key [simp]: "wq_key (excluded_row u inputs p ts dbt i) = key_of u inputs"
  by (simp add: excluded_row_def wq_key_def key_of_def)

lemma excluded_row_simps [simp]:
  "wq_id (excluded_row u inputs p ts dbt i) = i"
  "wq_priority (excluded_row u inputs p ts dbt i) = p"
  "wq_next_attempt_at (excluded_row u inputs p ts dbt i) = ts"
  "wq_status (excluded_row u inputs p ts dbt i) = Pending"
  "wq_attempts (excluded_row u inputs p ts dbt i) = 0"
  "wq_output_paths (excluded_row u inputs p ts dbt i) = marshalOutputPaths inputs"
  "wq_scan_result_id (excluded_row u inputs p ts dbt i) = nullableID (in_ScanResultID inputs)"
  by (simp_all add: excluded_row_def)

lemma wq_key_inj:
  assumes "db_wf d" "r \<in> set (work_queue d)" "r' \<in> set (work_queue d)" "wq_key r = wq_key r'"
  shows "r = r'"
  using assms by (auto simp: db_wf_def wf_queue_def distinct_map inj_on_def)

lemma filter_row_for:
  assumes "db_wf d" "row_for d k = Some r"
  shows "filter (\<lambda>x. wq_key x = k) (work_queue d) = [r]"
  using filter_unique [of wq_key "work_queue d" r] row_for_mem [OF assms(2)] assms(1)
  by (auto simp: db_wf_def wf_queue_def)

text \<open>The row that the upsert leaves for the key, before the trigger.\<close>

definition upserted :: "bool \<Rightarrow> wq_row \<Rightarrow> db \<Rightarrow> wq_row" where
  "upserted rf exc d =
     (case row_for d (wq_key exc) of None \<Rightarrow> exc | Some old \<Rightarrow> conflict_row rf old exc)"

lemma wq_key_updated [simp]: "wq_key (r\<lparr>wq_updated_at := t\<rparr>) = wq_key r"
  by (simp add: wq_key_def)

lemma conflict_row_updated_key:
  "wq_key (conflict_row rf old exc\<lparr>wq_updated_at := t\<rparr>) = wq_key old"
  by simp

lemma wq_upsert_effect:
  assumes wf: "db_wf d" and ok: "wq_upsert rf dbt exc d = Inr (row, d1)"
  shows "row = upserted rf exc d"
    and "\<exists>t. row_for d1 (wq_key exc) = Some (row\<lparr>wq_updated_at := t\<rparr>)"
    and "k \<noteq> wq_key exc \<Longrightarrow> row_for d1 k = row_for d k"
    and "scan_results d1 = scan_results d \<and> junction d1 = junction d"
proof -
  have "row = upserted rf exc d \<and> (\<exists>t. row_for d1 (wq_key exc) = Some (row\<lparr>wq_updated_at := t\<rparr>)) \<and>
      (k \<noteq> wq_key exc \<longrightarrow> row_for d1 k = row_for d k) \<and>
      scan_results d1 = scan_results d \<and> junction d1 = junction d"
  proof (cases "row_for d (wq_key exc)")
    case None
    then have f: "find (\<lambda>r. wq_key r = wq_key exc) (work_queue d) = None"
      by (simp add: row_for_def)
    with ok have eq: "row = exc" "d1 = d\<lparr>work_queue := work_queue d @ [exc], wq_seq := wq_id exc\<rparr>"
      by (auto simp: wq_upsert_def split: if_splits)
    have app: "find Q (xs @ [exc]) = (case find Q xs of None \<Rightarrow> if Q exc then Some exc else None | Some x \<Rightarrow> Some x)"
      for Q and xs :: "wq_row list"
      by (induction xs) auto
    have "row_for d1 (wq_key exc) = Some exc"
      using f by (simp add: eq row_for_def app)
    then have "\<exists>t. row_for d1 (wq_key exc) = Some (exc\<lparr>wq_updated_at := t\<rparr>)"
      by (intro exI [of _ "wq_updated_at exc"]) simp
    moreover have "k \<noteq> wq_key exc \<longrightarrow> row_for d1 k = row_for d k"
      by (simp add: eq row_for_def app split: option.splits)
    ultimately show ?thesis
      using None by (simp add: eq upserted_def)
  next
    case (Some old)
    then have f: "find (\<lambda>r. wq_key r = wq_key exc) (work_queue d) = Some old"
      by (simp add: row_for_def)
    have old: "old \<in> set (work_queue d)" "wq_key old = wq_key exc"
      using row_for_mem [OF Some] by auto
    let ?new = "conflict_row rf old exc"
    from f ok have eq: "row = ?new" "d1 = wq_update dbt (\<lambda>r. wq_id r = wq_id old) (\<lambda>_. ?new) d"
      by (auto simp: wq_upsert_def Let_def split: if_splits)
    have by_key: "wq_update dbt (\<lambda>r. wq_id r = wq_id old) (\<lambda>_. ?new) d
        = wq_update dbt (\<lambda>r. wq_key r = wq_key old) (\<lambda>_. ?new) d"
    proof -
      have "wq_id r = wq_id old \<longleftrightarrow> wq_key r = wq_key old" if "r \<in> set (work_queue d)" for r
        using wq_id_inj [OF wf that old(1)] wq_key_inj [OF wf that old(1)] by metis
      then show ?thesis by (simp add: wq_update_def sql_update_def)
    qed
    have "row_for d1 k' = map_option (\<lambda>r. if wq_key r = wq_key old then ?new\<lparr>wq_updated_at := dbt\<rparr> else r)
        (row_for d k')" for k'
      unfolding eq by_key by (rule row_for_wq_update) simp
    with Some old show ?thesis
      unfolding eq
      by (cases "row_for d k") (auto simp: upserted_def dest: row_for_mem)
  qed
  then show "row = upserted rf exc d"
    and "\<exists>t. row_for d1 (wq_key exc) = Some (row\<lparr>wq_updated_at := t\<rparr>)"
    and "k \<noteq> wq_key exc \<Longrightarrow> row_for d1 k = row_for d k"
    and "scan_results d1 = scan_results d \<and> junction d1 = junction d"
    by auto
qed

lemma wq_link_effect:
  "wq_link w s d = Inr d' \<Longrightarrow>
     row_for d' k = row_for d k \<and> row_of d' i = row_of d i \<and> scan_results d' = scan_results d \<and>
     set (junction d') = insert (w, s) (set (junction d))"
  by (auto simp: wq_link_def row_for_def row_of_def split: if_splits)

definition enqueue_row :: "unicode_env \<Rightarrow> int \<Rightarrow> int \<Rightarrow> Inputs \<Rightarrow> int \<Rightarrow> db \<Rightarrow> wq_row" where
  "enqueue_row u now dbt inputs p d =
     upserted (p \<ge> PriorityWebhook) (excluded_row u inputs p (formatTime now) dbt (wq_seq d + 1)) d"

text \<open>The whole effect of a successful \<open>Enqueue\<close>.\<close>

lemma Enqueue_effect:
  assumes wf: "db_wf d" and ok: "Enqueue u io now dbt inputs p d = (Inr item, d')"
  shows "scanWorkItem (enqueue_row u now dbt inputs p d) = Inr item"
    and "\<exists>t. row_for d' (key_of u inputs) = Some (enqueue_row u now dbt inputs p d\<lparr>wq_updated_at := t\<rparr>)"
    and "k \<noteq> key_of u inputs \<Longrightarrow> row_for d' k = row_for d k"
    and "scan_results d' = scan_results d"
    and "set (junction d') = (if in_ScanResultID inputs > 0
           then insert (wi_ID item, in_ScanResultID inputs) (set (junction d)) else set (junction d))"
proof -
  let ?exc = "excluded_row u inputs p (formatTime now) dbt (wq_seq d + 1)"
  from ok obtain row d1 where up: "wq_upsert (p \<ge> PriorityWebhook) dbt ?exc d = Inr (row, d1)"
    and sc: "scanWorkItem row = Inr item"
    and rest: "if in_ScanResultID inputs > 0 then wq_link (wi_ID item) (in_ScanResultID inputs) d1 = Inr d'
               else d' = d1"
    by (auto simp: Enqueue_def Let_def drv_ok split: sum.splits if_splits)
  note eff = wq_upsert_effect [OF wf up]
  have row: "row = enqueue_row u now dbt inputs p d"
    using eff(1) by (simp add: enqueue_row_def)
  have same: "row_for d' k' = row_for d1 k'" "scan_results d' = scan_results d1" for k'
    using rest wq_link_effect [of _ _ d1 d' k'] by (auto split: if_splits)
  show "scanWorkItem (enqueue_row u now dbt inputs p d) = Inr item"
    using sc row by simp
  show "\<exists>t. row_for d' (key_of u inputs) = Some (enqueue_row u now dbt inputs p d\<lparr>wq_updated_at := t\<rparr>)"
    using eff(2) same row by simp
  show "k \<noteq> key_of u inputs \<Longrightarrow> row_for d' k = row_for d k"
    using eff(3) same by simp
  show "scan_results d' = scan_results d"
    using eff(4) same by simp
  show "set (junction d') = (if in_ScanResultID inputs > 0
           then insert (wi_ID item, in_ScanResultID inputs) (set (junction d)) else set (junction d))"
    using rest eff(4) wq_link_effect [of _ _ d1 d'] by (auto split: if_splits)
qed


text \<open>Sample values for the concrete instances below.\<close>

definition track_named :: "string \<Rightarrow> string \<Rightarrow> Track" where
  "track_named artist title = zero_Track\<lparr>tr_ArtistName := artist, tr_TrackName := title\<rparr>"

definition sample_inputs :: "string \<Rightarrow> string \<Rightarrow> string \<Rightarrow> Inputs" where
  "sample_inputs artist title dir =
     zero_Inputs\<lparr>in_Track := track_named artist title, in_Outdir := dir, in_Filename := ''a.lrc''\<rparr>"

definition one_pending :: db where
  "one_pending = snd (Enqueue ascii_env no_faults 0 0 (sample_inputs ''Adele'' ''Hello'' ''x'') 0 empty_db)"

lemma db_wf_one_pending: "db_wf one_pending"
  unfolding one_pending_def by (intro Enqueue_wf db_wf_empty)

text \<open>A library with two files of one song, both linked or about to be linked to a queue row.\<close>

definition two_files :: db where
  "two_files = empty_db\<lparr>
     libraries := [\<lparr>lb_id = 1, lb_path = ''/m'', lb_name = ''m'', lb_created_at = 0, lb_updated_at = 0\<rparr>],
     lib_seq := 1,
     scan_results :=
       [\<lparr>sc_id = 1, sc_library_id = 1, sc_file_path = ''/m/x/a.mp3'', sc_artist = ''Adele'', sc_title = ''Hello'',
         sc_outdir = ''/m/x'', sc_filename = ''a.lrc'', sc_status = Processing, sc_created_at = 0\<rparr>,
        \<lparr>sc_id = 2, sc_library_id = 1, sc_file_path = ''/m/y/a.mp3'', sc_artist = ''Adele'', sc_title = ''Hello'',
         sc_outdir = ''/m/y'', sc_filename = ''a.lrc'', sc_status = Processing, sc_created_at = 0\<rparr>],
     sr_seq := 2\<rparr>"

definition file_inputs :: "string \<Rightarrow> int \<Rightarrow> Inputs" where
  "file_inputs dir sid = (sample_inputs ''Adele'' ''Hello'' dir)\<lparr>in_ScanResultID := sid\<rparr>"

definition first_enqueued :: db where
  "first_enqueued = snd (Enqueue ascii_env no_faults 0 0 (file_inputs ''/m/x'' 1) 0 two_files)"

definition first_claimed :: db where
  "first_claimed = snd (Dequeue no_faults 0 0 first_enqueued)"

lemma db_wf_two_files: "db_wf two_files"
  by (simp add: wf_defs two_files_def empty_db_def ids_ok_def sr_key_def sr_ids_def)

lemma db_wf_first_enqueued: "db_wf first_enqueued"
  unfolding first_enqueued_def by (intro Enqueue_wf db_wf_two_files)

lemma db_wf_first_claimed: "db_wf first_claimed"
  unfolding first_claimed_def by (intro Dequeue_wf db_wf_first_enqueued)

text \<open>
  C4. A successful Enqueue leaves exactly one row for the normalized artist/title key: a new
  pending row, or the existing one with its status kept and its priority raised to the larger of
  the two. It returns that row's id and touches no row of any other key.
\<close>
theorem Enqueue_one_row_per_key:
  assumes "db_wf d" and "Enqueue u io now dbt inputs p d = (Inr item, d')"
  shows "(\<exists>row. filter (\<lambda>r. wq_key r = key_of u inputs) (work_queue d') = [row] \<and>
           wi_ID item = wq_id row \<and>
           wq_priority row = (case row_for d (key_of u inputs) of None \<Rightarrow> p | Some old \<Rightarrow> max (wq_priority old) p) \<and>
           wq_status row = (case row_for d (key_of u inputs) of None \<Rightarrow> Pending | Some old \<Rightarrow> wq_status old))
         \<and> (\<forall>k. k \<noteq> key_of u inputs \<longrightarrow> row_for d' k = row_for d k)"
proof
  let ?row = "enqueue_row u now dbt inputs p d"
  note eff = Enqueue_effect [OF assms]
  from eff(2) obtain t where t: "row_for d' (key_of u inputs) = Some (?row\<lparr>wq_updated_at := t\<rparr>)"
    by blast
  have wf': "db_wf d'"
    using Enqueue_wf [OF assms(1), of u io now dbt inputs p] assms(2) by simp
  have "filter (\<lambda>r. wq_key r = key_of u inputs) (work_queue d') = [?row\<lparr>wq_updated_at := t\<rparr>]"
    by (rule filter_row_for [OF wf' t])
  moreover have "wi_ID item = wq_id ?row"
    using scanWorkItem_fields [OF eff(1)] by simp
  ultimately show "\<exists>row. filter (\<lambda>r. wq_key r = key_of u inputs) (work_queue d') = [row] \<and>
           wi_ID item = wq_id row \<and>
           wq_priority row = (case row_for d (key_of u inputs) of None \<Rightarrow> p | Some old \<Rightarrow> max (wq_priority old) p) \<and>
           wq_status row = (case row_for d (key_of u inputs) of None \<Rightarrow> Pending | Some old \<Rightarrow> wq_status old)"
    by (simp add: enqueue_row_def upserted_def split: option.splits)
  show "\<forall>k. k \<noteq> key_of u inputs \<longrightarrow> row_for d' k = row_for d k"
    using eff(3) by blast
qed

theorem Enqueue_one_row_per_key_witness:
  "\<exists>item d'. Enqueue ascii_env no_faults 5 5 (sample_inputs ''ADELE'' '' hello '' ''y'') 10 one_pending = (Inr item, d') \<and>
     (\<exists>row. filter (\<lambda>r. wq_key r = key_of ascii_env (sample_inputs ''ADELE'' '' hello '' ''y'')) (work_queue d') = [row])"
proof -
  have "is_ok (fst (Enqueue ascii_env no_faults 5 5 (sample_inputs ''ADELE'' '' hello '' ''y'') 10 one_pending))"
    by code_simp
  then obtain item d' where
    e: "Enqueue ascii_env no_faults 5 5 (sample_inputs ''ADELE'' '' hello '' ''y'') 10 one_pending = (Inr item, d')"
    by (blast dest: is_okE)
  from Enqueue_one_row_per_key [OF db_wf_one_pending e] e show ?thesis by blast
qed

lemma conflict_row_claimed:
  assumes "wq_status old = Processing \<or> wq_status old = Done" "wq_row_ok old"
  shows "conflict_row rf old exc = old\<lparr>
     wq_priority := max (wq_priority old) (wq_priority exc),
     wq_scan_result_id := (case wq_scan_result_id old of Some s \<Rightarrow> Some s | None \<Rightarrow> wq_scan_result_id exc)\<rparr>"
proof -
  have keep: "(wq_status old = Done \<or> wq_status old = Processing) = True"
    using assms(1) by blast
  have c: "(if wq_status old = Done then wq_completed_at old else None) = wq_completed_at old"
    using assms by (auto simp: wq_row_ok_def)
  show ?thesis
    unfolding conflict_row_def Let_def keep c by (cases old) simp
qed

lemma conflict_row_waiting:
  assumes "retryable old" "wq_row_ok old"
  shows "wq_output_paths (conflict_row rf old exc) = wq_output_paths exc"
    "wq_outdir (conflict_row rf old exc) = wq_outdir exc"
    "wq_filename (conflict_row rf old exc) = wq_filename exc"
    "wq_source_path (conflict_row rf old exc) = wq_source_path exc"
    "wq_last_error (conflict_row rf old exc) = wq_last_error old"
    "wq_next_attempt_at (conflict_row rf old exc) =
       (if wq_status old = Pending \<or> rf then wq_next_attempt_at exc else wq_next_attempt_at old)"
  using assms by (cases "wq_status old"; simp add: conflict_row_def retryable_def wq_row_ok_def)+

lemma enqueue_row_for:
  assumes "db_wf d" "Enqueue u io now dbt inputs p d = (Inr item, d')"
    and "row_for d (key_of u inputs) = Some old"
  obtains t where "row_for d' (key_of u inputs) =
     Some (conflict_row (p \<ge> PriorityWebhook) old
             (excluded_row u inputs p (formatTime now) dbt (wq_seq d + 1))\<lparr>wq_updated_at := t\<rparr>)"
  using Enqueue_effect(2) [OF assms(1,2)] assms(3) by (auto simp: enqueue_row_def upserted_def)

text \<open>
  C5. Enqueue never disturbs work that is claimed or finished: on a processing or done row it raises
  the priority, fills in a missing scan-result id and stamps the row, and leaves every other column
  (paths, names, schedule, attempts, completion) as it was.
\<close>
theorem Enqueue_protects_claimed_rows:
  assumes "db_wf d" and "Enqueue u io now dbt inputs p d = (Inr item, d')"
    and "row_for d (key_of u inputs) = Some old" and "wq_status old \<in> {Processing, Done}"
  shows "\<exists>t. row_for d' (key_of u inputs) = Some (old\<lparr>
           wq_priority := max (wq_priority old) p,
           wq_scan_result_id := (case wq_scan_result_id old of Some s \<Rightarrow> Some s
                                 | None \<Rightarrow> nullableID (in_ScanResultID inputs)),
           wq_updated_at := t\<rparr>)"
proof -
  from enqueue_row_for [OF assms(1-3)] obtain t where t: "row_for d' (key_of u inputs) =
     Some (conflict_row (p \<ge> PriorityWebhook) old
             (excluded_row u inputs p (formatTime now) dbt (wq_seq d + 1))\<lparr>wq_updated_at := t\<rparr>)" .
  have "wq_row_ok old"
    using wf_queue_row(1) [OF assms(1)] row_for_mem [OF assms(3)] by blast
  with t assms(4) show ?thesis
    by (auto simp: conflict_row_claimed cong: option.case_cong)
qed

theorem Enqueue_protects_claimed_rows_witness:
  "\<exists>item d' old. Enqueue ascii_env no_faults 9 9 (file_inputs ''/m/y'' 2) 10 first_claimed = (Inr item, d') \<and>
     row_for first_claimed (key_of ascii_env (file_inputs ''/m/y'' 2)) = Some old \<and>
     wq_status old = Processing \<and>
     (\<exists>row. row_for d' (key_of ascii_env (file_inputs ''/m/y'' 2)) = Some row \<and>
        wq_priority row = max (wq_priority old) 10 \<and> wq_output_paths row = wq_output_paths old)"
proof -
  have "is_ok (fst (Enqueue ascii_env no_faults 9 9 (file_inputs ''/m/y'' 2) 10 first_claimed))"
    by code_simp
  then obtain item d' where
    e: "Enqueue ascii_env no_faults 9 9 (file_inputs ''/m/y'' 2) 10 first_claimed = (Inr item, d')"
    by (blast dest: is_okE)
  have "opt_where (\<lambda>r. wq_status r = Processing) (row_for first_claimed (key_of ascii_env (file_inputs ''/m/y'' 2)))"
    by code_simp
  then obtain old where old: "row_for first_claimed (key_of ascii_env (file_inputs ''/m/y'' 2)) = Some old"
    "wq_status old = Processing"
    by (blast dest: opt_whereE)
  from Enqueue_protects_claimed_rows [OF db_wf_first_claimed e old(1)] old e show ?thesis by auto
qed

text \<open>
  On a row that still waits, Enqueue replaces the names and paths by the request's. A pending row
  becomes eligible at once; a failed row keeps its status, attempts and error, and its backoff is
  cut short exactly when the request has webhook priority.
\<close>
theorem Enqueue_refreshes_waiting_rows:
  assumes "db_wf d" and "Enqueue u io now dbt inputs p d = (Inr item, d')"
    and "row_for d (key_of u inputs) = Some old" and "retryable old"
  shows "\<exists>row. row_for d' (key_of u inputs) = Some row \<and> wq_id row = wq_id old \<and>
           wq_output_paths row = marshalOutputPaths inputs \<and> wq_outdir row = in_Outdir inputs \<and>
           wq_filename row = in_Filename inputs \<and> wq_source_path row = in_SourcePath inputs \<and>
           wq_status row = wq_status old \<and> wq_attempts row = wq_attempts old \<and>
           wq_last_error row = wq_last_error old \<and>
           wq_next_attempt_at row =
             (if wq_status old = Pending \<or> p \<ge> PriorityWebhook then formatTime now
              else wq_next_attempt_at old)"
proof -
  from enqueue_row_for [OF assms(1-3)] obtain t where t: "row_for d' (key_of u inputs) =
     Some (conflict_row (p \<ge> PriorityWebhook) old
             (excluded_row u inputs p (formatTime now) dbt (wq_seq d + 1))\<lparr>wq_updated_at := t\<rparr>)" .
  have "wq_row_ok old"
    using wf_queue_row(1) [OF assms(1)] row_for_mem [OF assms(3)] by blast
  with t assms(4) show ?thesis
    by (simp add: conflict_row_waiting) (simp add: excluded_row_def)
qed

theorem Enqueue_refreshes_waiting_rows_witness:
  "\<exists>item d' row. Enqueue ascii_env no_faults 9000000000 9 (file_inputs ''/m/y'' 2) 0 first_enqueued = (Inr item, d') \<and>
     row_for d' (key_of ascii_env (file_inputs ''/m/y'' 2)) = Some row \<and> wq_outdir row = ''/m/y''"
proof -
  have "is_ok (fst (Enqueue ascii_env no_faults 9000000000 9 (file_inputs ''/m/y'' 2) 0 first_enqueued))"
    by code_simp
  then obtain item d' where
    e: "Enqueue ascii_env no_faults 9000000000 9 (file_inputs ''/m/y'' 2) 0 first_enqueued = (Inr item, d')"
    by (blast dest: is_okE)
  have "opt_where retryable (row_for first_enqueued (key_of ascii_env (file_inputs ''/m/y'' 2)))"
    by code_simp
  then obtain old where old: "row_for first_enqueued (key_of ascii_env (file_inputs ''/m/y'' 2)) = Some old"
    "retryable old"
    by (blast dest: opt_whereE)
  from Enqueue_refreshes_waiting_rows [OF db_wf_first_enqueued e old] e show ?thesis
    by (auto simp: file_inputs_def sample_inputs_def)
qed

text \<open>
  C15. A second file of the same song: when Enqueue meets a waiting row that already stands for other
  scan results, the row's output paths become those of the new request only, while the links of the
  earlier scan results stay beside the new one.
\<close>
theorem Enqueue_keeps_links_but_replaces_paths:
  assumes "db_wf d" and "Enqueue u io now dbt inputs p d = (Inr item, d')"
    and "row_for d (key_of u inputs) = Some old" and "retryable old" and "in_ScanResultID inputs > 0"
  shows "(\<exists>row. row_for d' (key_of u inputs) = Some row \<and> wq_id row = wq_id old \<and>
            wq_output_paths row = marshalOutputPaths inputs) \<and>
         set (linked_results d' (wq_id old)) = insert (in_ScanResultID inputs) (set (linked_results d (wq_id old)))"
proof -
  from enqueue_row_for [OF assms(1-3)] obtain t where t: "row_for d' (key_of u inputs) =
     Some (conflict_row (p \<ge> PriorityWebhook) old
             (excluded_row u inputs p (formatTime now) dbt (wq_seq d + 1))\<lparr>wq_updated_at := t\<rparr>)" .
  have "wi_ID item = wq_id old"
    using scanWorkItem_fields [OF Enqueue_effect(1) [OF assms(1,2)]] assms(3)
    by (simp add: enqueue_row_def upserted_def)
  then have "set (linked_results d' (wq_id old)) =
      insert (in_ScanResultID inputs) (set (linked_results d (wq_id old)))"
    using Enqueue_effect(5) [OF assms(1,2)] assms(5) by (auto simp: linked_results_def image_iff)
  moreover have "wq_row_ok old"
    using wf_queue_row(1) [OF assms(1)] row_for_mem [OF assms(3)] by blast
  with t assms(4) have "\<exists>row. row_for d' (key_of u inputs) = Some row \<and> wq_id row = wq_id old \<and>
            wq_output_paths row = marshalOutputPaths inputs"
    by (simp add: conflict_row_waiting)
  ultimately show ?thesis by simp
qed

theorem Enqueue_keeps_links_but_replaces_paths_witness:
  "\<exists>item d' row. Enqueue ascii_env no_faults 9 9 (file_inputs ''/m/y'' 2) 0 first_enqueued = (Inr item, d') \<and>
     row_for d' (key_of ascii_env (file_inputs ''/m/y'' 2)) = Some row \<and>
     wq_output_paths row = marshalOutputPaths (file_inputs ''/m/y'' 2) \<and>
     set (linked_results d' (wq_id row)) = {1, 2}"
proof -
  have "is_ok (fst (Enqueue ascii_env no_faults 9 9 (file_inputs ''/m/y'' 2) 0 first_enqueued))"
    by code_simp
  then obtain item d' where
    e: "Enqueue ascii_env no_faults 9 9 (file_inputs ''/m/y'' 2) 0 first_enqueued = (Inr item, d')"
    by (blast dest: is_okE)
  have "opt_where (\<lambda>r. retryable r \<and> linked_results first_enqueued (wq_id r) = [1])
          (row_for first_enqueued (key_of ascii_env (file_inputs ''/m/y'' 2)))"
    by code_simp
  then obtain old where old: "row_for first_enqueued (key_of ascii_env (file_inputs ''/m/y'' 2)) = Some old"
    "retryable old" "linked_results first_enqueued (wq_id old) = [1]"
    by (blast dest: opt_whereE)
  have "0 < in_ScanResultID (file_inputs ''/m/y'' 2)"
    by (simp add: file_inputs_def)
  from Enqueue_keeps_links_but_replaces_paths [OF db_wf_first_enqueued e old(1,2) this] old(3) e
  show ?thesis by (auto simp: file_inputs_def)
qed

end
