(* ===== verification/Queue_Claims.thy ===== *)
theory Queue_Claims
  imports Queue_Enqueue
begin

text \<open>
  What the operations on claimed rows do: the choice of \<open>Dequeue\<close> and the order in which repeated
  calls empty the queue, the effects of \<open>Complete\<close>, \<open>Fail\<close> and \<open>Release\<close> with the writeback to the
  linked scan results, and the operator's \<open>Retry\<close>, \<open>Cleanup\<close> and \<open>ClearDone\<close>.
\<close>

section \<open>The row an UPDATE by id leaves\<close>

lemma status_of_Some: "status_of d i = Some st \<longleftrightarrow> (\<exists>r. row_of d i = Some r \<and> wq_status r = st)"
  by (auto simp: status_of_def)

lemma in_processing_row:
  "db_wf d \<Longrightarrow> find (in_processing i) (work_queue d) = Some r \<longleftrightarrow> row_of d i = Some r \<and> wq_status r = Processing"
  by (auto simp: find_in_processing split: option.splits)

text \<open>An UPDATE of the processing row with id \<open>i\<close>, seen through \<open>row_of\<close>.\<close>

lemma row_of_update_processing:
  assumes "\<And>r. wq_id (f r) = wq_id r"
  shows "row_of d i = Some r \<Longrightarrow> wq_status r = Processing \<Longrightarrow>
           row_of (wq_update dbt (in_processing i) f d) i = Some ((f r)\<lparr>wq_updated_at := dbt\<rparr>)"
    and "j \<noteq> i \<Longrightarrow> row_of (wq_update dbt (in_processing i) f d) j = row_of d j"
proof -
  note u = row_of_wq_update [of "in_processing i" f dbt d, OF assms]
  show "row_of d i = Some r \<Longrightarrow> wq_status r = Processing \<Longrightarrow>
           row_of (wq_update dbt (in_processing i) f d) i = Some ((f r)\<lparr>wq_updated_at := dbt\<rparr>)"
    using row_of_mem [of d i r] by (simp add: u in_processing_def)
  show "j \<noteq> i \<Longrightarrow> row_of (wq_update dbt (in_processing i) f d) j = row_of d j"
    by (cases "row_of d j") (auto simp: u in_processing_def dest: row_of_mem)
qed

lemma wq_update_none: "(\<And>r. r \<in> set (work_queue d) \<Longrightarrow> \<not> P r) \<Longrightarrow> wq_update dbt P f d = d"
  by (simp add: wq_update_def sql_update_id)

section \<open>Dequeue\<close>

definition claimed :: "wq_row \<Rightarrow> wq_row" where
  "claimed r = r\<lparr>wq_status := Processing\<rparr>"

lemma Dequeue_ok:
  "Dequeue io now dbt d = (Inr item, d') \<longleftrightarrow>
     (\<exists>r. io 0 = None \<and> dequeue_pick (formatTime now) d = Some r \<and> scanWorkItem (claimed r) = Inr item \<and>
          d' = wq_update dbt (\<lambda>x. wq_id x = wq_id r) claimed d)"
  by (auto simp: Dequeue_def Let_def query_row_def claimed_def [abs_def] split: sum.splits option.splits)

lemma row_of_claimed:
  assumes "db_wf d" "r \<in> set (work_queue d)"
  shows "row_of (wq_update dbt (\<lambda>x. wq_id x = wq_id r) claimed d) i =
           (if i = wq_id r then Some (r\<lparr>wq_status := Processing, wq_updated_at := dbt\<rparr>) else row_of d i)"
proof -
  have "row_of d (wq_id r) = Some r"
    using assms by (simp add: row_of_Some)
  then show ?thesis
    by (cases "row_of d i") (auto simp: row_of_wq_update claimed_def dest: row_of_mem)
qed

text \<open>
  C2. Dequeue claims the best ready row: of the pending and failed rows whose next attempt is due, the
  one with the highest priority, the oldest of those, the smallest id of those. It moves that row to
  processing, returns it, and changes no other row.
\<close>
theorem Dequeue_claims_best:
  assumes "db_wf d" and "Dequeue io now dbt d = (Inr item, d')"
  shows "\<exists>r. r \<in> set (work_queue d) \<and> ready (formatTime now) r \<and>
           (\<forall>x\<in>set (work_queue d). ready (formatTime now) x \<longrightarrow> queue_order r \<le> queue_order x) \<and>
           wi_ID item = wq_id r \<and> wi_Status item = Processing \<and>
           row_of d' (wq_id r) = Some (r\<lparr>wq_status := Processing, wq_updated_at := dbt\<rparr>) \<and>
           (\<forall>i. i \<noteq> wq_id r \<longrightarrow> row_of d' i = row_of d i)"
proof -
  from assms(2) obtain r where pick: "dequeue_pick (formatTime now) d = Some r"
    and sc: "scanWorkItem (claimed r) = Inr item"
    and d': "d' = wq_update dbt (\<lambda>x. wq_id x = wq_id r) claimed d"
    unfolding Dequeue_ok by blast
  from pick have r: "r \<in> set (work_queue d)" "ready (formatTime now) r"
    and best: "\<forall>x\<in>set (work_queue d). ready (formatTime now) x \<longrightarrow> queue_order r \<le> queue_order x"
    by (auto simp: dequeue_pick_def dest!: first_row_order_by)
  have "wi_ID item = wq_id r \<and> wi_Status item = Processing"
    using scanWorkItem_fields [OF sc] by (simp add: claimed_def)
  with r best show ?thesis
    unfolding d' by (intro exI [of _ r]) (simp add: row_of_claimed [OF assms(1)])
qed

theorem Dequeue_claims_best_witness:
  "\<exists>item d'. Dequeue no_faults 0 0 first_enqueued = (Inr item, d') \<and>
     (\<exists>r\<in>set (work_queue first_enqueued). row_of d' (wq_id r) = Some (r\<lparr>wq_status := Processing, wq_updated_at := 0\<rparr>))"
proof -
  have "is_ok (fst (Dequeue no_faults 0 0 first_enqueued))"
    by code_simp
  then obtain item d' where e: "Dequeue no_faults 0 0 first_enqueued = (Inr item, d')"
    by (blast dest: is_okE)
  from Dequeue_claims_best [OF db_wf_first_enqueued e] e show ?thesis by blast
qed

section \<open>Emptying the queue\<close>

text \<open>
  The contract of a queue of claims: a claim returns the head of the waiting list and leaves its
  tail, and fails exactly on the empty list. \<open>drain\<close> is a client that claims until nothing is left.
\<close>

fun drain :: "('s \<Rightarrow> ('i \<times> 's) option) \<Rightarrow> nat \<Rightarrow> 's \<Rightarrow> 'i list \<times> 's" where
  "drain claim 0 s = ([], s)"
| "drain claim (Suc n) s =
     (case claim s of None \<Rightarrow> ([], s)
      | Some (i, s') \<Rightarrow> (case drain claim n s' of (is, s'') \<Rightarrow> (i # is, s'')))"

locale claim_queue =
  fixes claim :: "'s \<Rightarrow> ('i \<times> 's) option"
    and waiting :: "'s \<Rightarrow> 'i list"
    and inv :: "'s \<Rightarrow> bool"
  assumes claim_empty: "inv s \<Longrightarrow> waiting s = [] \<Longrightarrow> claim s = None"
    and claim_next: "inv s \<Longrightarrow> waiting s = i # is \<Longrightarrow> \<exists>s'. claim s = Some (i, s') \<and> waiting s' = is \<and> inv s'"
begin

lemma drain_waiting:
  "inv s \<Longrightarrow> length (waiting s) \<le> n \<Longrightarrow>
     \<exists>s'. drain claim n s = (waiting s, s') \<and> waiting s' = [] \<and> inv s'"
proof (induction n arbitrary: s)
  case 0
  then show ?case by simp
next
  case (Suc n)
  show ?case
  proof (cases "waiting s")
    case Nil
    with Suc.prems claim_empty show ?thesis by simp
  next
    case (Cons i "is")
    with claim_next Suc.prems obtain s' where "claim s = Some (i, s')" "waiting s' = is" "inv s'"
      by blast
    moreover from this obtain s'' where "drain claim n s' = (is, s'')" "waiting s'' = []" "inv s''"
      using Suc.IH [of s'] Suc.prems(2) Cons by auto
    ultimately show ?thesis using Cons by auto
  qed
qed

lemma claim_iff: "inv s \<Longrightarrow> claim s = None \<longleftrightarrow> waiting s = []"
  using claim_empty claim_next by (cases "waiting s") (blast, fastforce)

end

definition claim_id :: "int \<Rightarrow> int \<Rightarrow> db \<Rightarrow> (int \<times> db) option" where
  "claim_id now dbt d =
     (case Dequeue no_faults now dbt d of (Inl _, _) \<Rightarrow> None | (Inr item, d') \<Rightarrow> Some (wi_ID item, d'))"

definition ready_ids :: "int \<Rightarrow> db \<Rightarrow> int list" where
  "ready_ids now d = map wq_id (order_by queue_order (filter (ready (formatTime now)) (work_queue d)))"

definition queue_ok :: "db \<Rightarrow> bool" where
  "queue_ok d \<longleftrightarrow> db_wf d \<and> all_readable d"

lemma order_by_filter: "order_by k (filter P xs) = filter P (order_by k xs)"
  by (simp add: order_by_def filter_sort)

lemma filter_ready_claimed:
  "filter (ready ts) (work_queue (wq_update dbt (\<lambda>x. wq_id x = i) claimed d)) =
   filter (\<lambda>r. wq_id r \<noteq> i) (filter (ready ts) (work_queue d))"
proof -
  have "filter (ready ts) (map (\<lambda>r. if wq_id r = i then (claimed r)\<lparr>wq_updated_at := dbt\<rparr> else r) rows) =
        filter (\<lambda>r. wq_id r \<noteq> i) (filter (ready ts) rows)" for rows
    by (induction rows) (auto simp: ready_def retryable_def claimed_def)
  then show ?thesis by (simp add: wq_update_def sql_update_def)
qed

lemma ready_ids_claimed:
  assumes "db_wf d" "order_by queue_order (filter (ready (formatTime now)) (work_queue d)) = r # rs"
  shows "ready_ids now (wq_update dbt (\<lambda>x. wq_id x = wq_id r) claimed d) = map wq_id rs"
proof -
  have "distinct (map wq_id (work_queue d))"
    by (rule ids_ok_distinct [OF db_wf_ids [OF assms(1)]])
  then have "distinct (map wq_id (order_by queue_order (filter (ready (formatTime now)) (work_queue d))))"
    by (simp add: order_by_def distinct_map distinct_map_filter inj_on_def)
  with assms(2) have "wq_id r \<notin> wq_id ` set rs"
    by simp
  then have "filter (\<lambda>x. wq_id x \<noteq> wq_id r) (r # rs) = rs"
    by (auto simp: image_iff filter_id_conv)
  then show ?thesis
    using assms(2) by (simp add: ready_ids_def filter_ready_claimed order_by_filter [of queue_order "\<lambda>x. wq_id x \<noteq> wq_id r"]
        del: filter_filter)
qed

lemma readable_claimed:
  "all_readable d \<Longrightarrow> all_readable (wq_update dbt P claimed d)"
  by (simp add: all_readable_def wq_update_def ball_sql_update readable_def claimed_def)

interpretation dq: claim_queue "claim_id now dbt" "ready_ids now" queue_ok for now dbt
proof
  fix s :: db
  assume "queue_ok s" "ready_ids now s = []"
  then have "dequeue_pick (formatTime now) s = None"
    by (simp add: ready_ids_def dequeue_pick_def first_row_def split: list.splits)
  then show "claim_id now dbt s = None"
    by (simp add: claim_id_def Dequeue_def query_row_def)
next
  fix s :: db and i "is"
  assume ok: "queue_ok s" and w: "ready_ids now s = i # is"
  then obtain r rs where o: "order_by queue_order (filter (ready (formatTime now)) (work_queue s)) = r # rs"
    and i: "wq_id r = i" "map wq_id rs = is"
    by (auto simp: ready_ids_def)
  then have pick: "dequeue_pick (formatTime now) s = Some r"
    by (simp add: dequeue_pick_def first_row_def)
  let ?s' = "wq_update dbt (\<lambda>x. wq_id x = wq_id r) claimed s"
  have "readable (claimed r)"
    using ok dequeue_pick_ready [OF pick] by (simp add: queue_ok_def all_readable_def readable_def claimed_def)
  then obtain item where item: "scanWorkItem (claimed r) = Inr item" "wi_ID item = wq_id r"
    using scanWorkItem_total [of "claimed r"] by (auto simp: claimed_def)
  then have deq: "Dequeue no_faults now dbt s = (Inr item, ?s')"
    unfolding Dequeue_ok using pick by auto
  have "db_wf ?s'"
    using Dequeue_wf [of s no_faults now dbt] ok deq by (simp add: queue_ok_def)
  then have "queue_ok ?s'"
    using ok readable_claimed by (simp add: queue_ok_def)
  moreover have "ready_ids now ?s' = is"
    using ready_ids_claimed [OF _ o] ok i by (simp add: queue_ok_def)
  moreover have "claim_id now dbt s = Some (i, ?s')"
    using deq item i by (simp add: claim_id_def)
  ultimately show "\<exists>s'. claim_id now dbt s = Some (i, s') \<and> ready_ids now s' = is \<and> queue_ok s'"
    by blast
qed

text \<open>
  C3. Calling Dequeue until it reports that the queue is empty hands out exactly the rows that are
  ready, each once, by descending priority, then age, then id; as many calls as there are ready rows
  are enough, and none is ready afterwards.
\<close>
theorem Dequeue_drains_in_order:
  assumes "db_wf d" and "all_readable d" and "length (ready_ids now d) \<le> n"
  shows "\<exists>d'. drain (claim_id now dbt) n d = (ready_ids now d, d') \<and>
           sorted (map queue_order (order_by queue_order (filter (ready (formatTime now)) (work_queue d)))) \<and>
           distinct (ready_ids now d) \<and>
           fst (Dequeue no_faults now dbt d') = Inl (Sen SqlErrNoRows)"
proof -
  have ok: "queue_ok d"
    using assms by (simp add: queue_ok_def)
  from dq.drain_waiting [OF ok assms(3)] obtain d' where d': "drain (claim_id now dbt) n d = (ready_ids now d, d')"
    "ready_ids now d' = []"
    by blast
  have "distinct (map wq_id (filter (ready (formatTime now)) (work_queue d)))"
    using ids_ok_distinct [OF db_wf_ids [OF assms(1)]] by (simp add: distinct_map_filter)
  then have "distinct (ready_ids now d)"
    by (simp add: ready_ids_def order_by_def distinct_map)
  moreover have "fst (Dequeue no_faults now dbt d') = Inl (Sen SqlErrNoRows)"
    using d'(2) by (simp add: ready_ids_def Dequeue_def dequeue_pick_def first_row_def query_row_def split: list.splits)
  ultimately show ?thesis
    using d'(1) by (auto simp: sorted_order_by)
qed

definition two_songs :: db where
  "two_songs = snd (Enqueue ascii_env no_faults 0 0 (sample_inputs ''Abba'' ''Waterloo'' ''z'') 10 one_pending)"

theorem Dequeue_drains_in_order_witness:
  "\<exists>d'. drain (claim_id 0 0) 2 two_songs = ([2, 1], d') \<and>
     fst (Dequeue no_faults 0 0 d') = Inl (Sen SqlErrNoRows)"
proof -
  have "db_wf two_songs"
    unfolding two_songs_def by (intro Enqueue_wf db_wf_one_pending)
  moreover have "\<forall>r\<in>set (work_queue two_songs). readable r"
    by code_simp
  moreover have ids: "ready_ids 0 two_songs = [2, 1]"
    by code_simp
  ultimately show ?thesis
    using Dequeue_drains_in_order [of two_songs 0 2 0] by (auto simp: all_readable_def)
qed

section \<open>Complete, Fail and Release\<close>

lemma requireAffected_ok: "requireAffected io k n op = Inr x \<longleftrightarrow> io k = None \<and> n \<noteq> 0"
  by (auto simp: requireAffected_def split: option.splits)

lemma count_processing_nonzero:
  "db_wf d \<Longrightarrow> sql_count (in_processing i) (work_queue d) \<noteq> 0 \<longleftrightarrow> (\<exists>r. row_of d i = Some r \<and> wq_status r = Processing)"
  by (simp add: count_in_processing status_of_Some)

lemma linked_results_mem: "s \<in> set (linked_results d i) \<longleftrightarrow> (i, s) \<in> set (junction d)"
  by (force simp: linked_results_def)

definition completed :: "int \<Rightarrow> wq_row \<Rightarrow> wq_row" where
  "completed ts r = r\<lparr>wq_status := Done, wq_completed_at := Some ts, wq_last_error := ''''\<rparr>"

lemma Complete_ok:
  "Complete io now dbt i d = (Inr (), d') \<Longrightarrow>
     sql_count (in_processing i) (work_queue d) \<noteq> 0 \<and>
     d' = sr_update (\<lambda>s. (i, sc_id s) \<in> set (junction d) \<and> sc_status s \<noteq> Done) (\<lambda>s. s\<lparr>sc_status := Done\<rparr>)
            (wq_update dbt (in_processing i) (completed (formatTime now)) d)"
  by (auto simp: Complete_def Let_def drv_ok requireAffected_ok linked_results_mem completed_def [abs_def]
      split: sum.splits)

lemma sr_status_map:
  "scan_results (sr_update (\<lambda>s. P s \<and> sc_status s \<noteq> st) (\<lambda>s. s\<lparr>sc_status := st\<rparr>) d) =
   map (\<lambda>s. if P s then s\<lparr>sc_status := st\<rparr> else s) (scan_results d)"
  by (simp add: sr_update_def sql_update_def)

text \<open>
  C1. A successful Complete moves the claimed row to done, with its completion time and no error, and
  marks every scan result linked to the row done in the same transaction. Nothing else changes.
\<close>
theorem Complete_writes_back:
  assumes "db_wf d" and "Complete io now dbt i d = (Inr (), d')"
  shows "\<exists>r. row_of d i = Some r \<and> wq_status r = Processing \<and>
           row_of d' i = Some (r\<lparr>wq_status := Done, wq_completed_at := Some (formatTime now),
                                wq_last_error := '''', wq_updated_at := dbt\<rparr>) \<and>
           (\<forall>j. j \<noteq> i \<longrightarrow> row_of d' j = row_of d j) \<and>
           scan_results d' = map (\<lambda>s. if (i, sc_id s) \<in> set (junction d) then s\<lparr>sc_status := Done\<rparr> else s)
                                (scan_results d) \<and>
           junction d' = junction d"
proof -
  let ?f = "completed (formatTime now)"
  from Complete_ok [OF assms(2)]
  have n: "sql_count (in_processing i) (work_queue d) \<noteq> 0"
    and d': "d' = sr_update (\<lambda>s. (i, sc_id s) \<in> set (junction d) \<and> sc_status s \<noteq> Done)
                    (\<lambda>s. s\<lparr>sc_status := Done\<rparr>) (wq_update dbt (in_processing i) ?f d)"
    by auto
  from n count_processing_nonzero [OF assms(1)] obtain r where r: "row_of d i = Some r" "wq_status r = Processing"
    by blast
  have id: "\<And>r. wq_id (?f r) = wq_id r"
    by (simp add: completed_def)
  have "row_of d' i = Some ((?f r)\<lparr>wq_updated_at := dbt\<rparr>)"
    using row_of_update_processing(1) [of ?f, OF id r] by (simp add: d' row_views_sr_update)
  moreover have "\<forall>j. j \<noteq> i \<longrightarrow> row_of d' j = row_of d j"
    using row_of_update_processing(2) [of ?f, OF id] by (simp add: d' row_views_sr_update)
  moreover have "scan_results d' = map (\<lambda>s. if (i, sc_id s) \<in> set (junction d) then s\<lparr>sc_status := Done\<rparr> else s)
                                (scan_results d)"
    unfolding d' sr_status_map by simp
  moreover have "junction d' = junction d"
    by (simp add: d')
  ultimately show ?thesis
    using r by (auto simp: completed_def)
qed

theorem Complete_writes_back_witness:
  "\<exists>d'. Complete no_faults 7000000000 7 1 first_claimed = (Inr (), d') \<and>
     map sc_status (scan_results d') = [Done, Processing]"
proof -
  have "is_ok (fst (Complete no_faults 7000000000 7 1 first_claimed))"
    by code_simp
  then obtain d' where e: "Complete no_faults 7000000000 7 1 first_claimed = (Inr (), d')"
    by (auto dest: is_okE)
  have j: "junction first_claimed = [(1, 1)]" and s: "map sc_id (scan_results first_claimed) = [1, 2]"
    "map sc_status (scan_results first_claimed) = [Processing, Processing]"
    by code_simp+
  from Complete_writes_back [OF db_wf_first_claimed e] e s show ?thesis
    by (auto simp: j map_eq_Cons_conv)
qed

text \<open>
  C17. Complete, Fail and Release act on claimed rows only: without a driver error, on an id whose row
  is absent or not processing each returns \<open>sql.ErrNoRows\<close> and leaves the database as it was.
\<close>
theorem terminal_operations_need_a_claim:
  assumes "db_wf d" and "status_of d i \<noteq> Some Processing"
  shows "Complete no_faults now dbt i d = (Inl (Sen SqlErrNoRows), d) \<and>
         Fail q no_faults now dbt i cause d = (Inl (Sen SqlErrNoRows), d) \<and>
         Release no_faults dbt i d = (Inl (Sen SqlErrNoRows), d)"
proof (intro conjI)
  have n: "sql_count (in_processing i) (work_queue d) = 0"
    using assms by (simp add: count_in_processing)
  then have none: "\<not> in_processing i r" if "r \<in> set (work_queue d)" for r
    using that by (simp add: sql_count_zero)
  then have f: "find (in_processing i) (work_queue d) = None"
    by (simp add: find_none)
  show "Complete no_faults now dbt i d = (Inl (Sen SqlErrNoRows), d)"
    by (simp add: Complete_def Let_def n requireAffected_def)
  show "Fail q no_faults now dbt i cause d = (Inl (Sen SqlErrNoRows), d)"
    by (simp add: Fail_def f query_row_def)
  show "Release no_faults dbt i d = (Inl (Sen SqlErrNoRows), d)"
    using none by (simp add: Release_def Let_def n requireAffected_def wq_update_none)
qed

theorem terminal_operations_need_a_claim_witness:
  "Complete no_faults 5 5 1 one_pending = (Inl (Sen SqlErrNoRows), one_pending)"
proof -
  have "status_of one_pending 1 = Some Pending"
    by code_simp
  then show ?thesis
    using terminal_operations_need_a_claim [OF db_wf_one_pending, of 1 5 5 NewDBQueue None] by simp
qed

definition failed :: "DBQueue \<Rightarrow> int \<Rightarrow> goerr option \<Rightarrow> wq_row \<Rightarrow> wq_row" where
  "failed q now cause r = r\<lparr>wq_status := Failed, wq_attempts := wq_attempts r + 1,
     wq_next_attempt_at := formatTime (now + Geometric (wq_attempts r + 1) (dq_baseBackoff q) (dq_maxBackoff q)),
     wq_last_error := (case cause of None \<Rightarrow> '''' | Some c \<Rightarrow> Error c)\<rparr>"

definition fail_upd :: "DBQueue \<Rightarrow> int \<Rightarrow> goerr option \<Rightarrow> int \<Rightarrow> wq_row \<Rightarrow> wq_row" where
  "fail_upd q now cause n = (\<lambda>x. x\<lparr>wq_status := Failed, wq_attempts := n,
     wq_next_attempt_at := formatTime (now + Geometric n (dq_baseBackoff q) (dq_maxBackoff q)),
     wq_last_error := (case cause of None \<Rightarrow> '''' | Some c \<Rightarrow> Error c)\<rparr>)"

lemma Fail_ok:
  assumes "Fail q io now dbt i cause d = (Inr item, d')"
  obtains r where "find (in_processing i) (work_queue d) = Some r" "scanWorkItem (failed q now cause r) = Inr item"
    "d' = wq_update dbt (in_processing i) (fail_upd q now cause (wq_attempts r + 1)) d"
proof -
  from assms obtain r where r: "query_row io 1 (find (in_processing i) (work_queue d)) = Inr r"
    by (cases "query_row io 1 (find (in_processing i) (work_queue d))")
      (auto simp: Fail_def drv_ok split: if_splits)
  let ?f = "fail_upd q now cause (wq_attempts r + 1)"
  from assms have "drv io 2 ''queue: fail: '' d
      (case scanWorkItem (?f r) of
         Inl e \<Rightarrow> (Inl (Errorf ''queue: fail: '' e ''''), d)
       | Inr item \<Rightarrow> drv io 3 ''queue: commit fail tx: '' d (Inr item, wq_update dbt (in_processing i) ?f d))
    = (Inr item, d')"
    by (simp add: Fail_def drv_ok r [unfolded One_nat_def] Let_def fail_upd_def cong: sum.case_cong)
  then have "scanWorkItem (?f r) = Inr item" "d' = wq_update dbt (in_processing i) ?f d"
    by (auto simp: drv_ok split: sum.splits)
  moreover have "?f r = failed q now cause r"
    by (simp add: fail_upd_def failed_def)
  ultimately show ?thesis
    using that r by (simp add: query_row_ok)
qed

text \<open>
  C16. A successful Fail counts the attempt, records the cause's text, and schedules the next attempt
  after the geometric backoff of the new attempt count; the row is retryable from then on. No other
  row, scan result or link changes, and the returned item is the row.
\<close>
theorem Fail_schedules_retry:
  assumes "db_wf d" and "Fail q io now dbt i cause d = (Inr item, d')"
  shows "\<exists>r. row_of d i = Some r \<and> wq_status r = Processing \<and>
           row_of d' i = Some (r\<lparr>wq_status := Failed, wq_attempts := wq_attempts r + 1,
             wq_next_attempt_at := formatTime (now + Geometric (wq_attempts r + 1) (dq_baseBackoff q) (dq_maxBackoff q)),
             wq_last_error := (case cause of None \<Rightarrow> '''' | Some c \<Rightarrow> Error c), wq_updated_at := dbt\<rparr>) \<and>
           wi_ID item = i \<and> wi_Attempts item = wq_attempts r + 1 \<and>
           (\<forall>j. j \<noteq> i \<longrightarrow> row_of d' j = row_of d j) \<and>
           scan_results d' = scan_results d \<and> junction d' = junction d"
proof -
  from Fail_ok [OF assms(2)] obtain r where r: "find (in_processing i) (work_queue d) = Some r"
    and sc: "scanWorkItem (failed q now cause r) = Inr item"
    and d': "d' = wq_update dbt (in_processing i) (fail_upd q now cause (wq_attempts r + 1)) d" .
  let ?f = "fail_upd q now cause (wq_attempts r + 1)"
  have id: "\<And>x. wq_id (?f x) = wq_id x" and fr: "?f r = failed q now cause r"
    by (simp_all add: fail_upd_def failed_def)
  from r in_processing_row [OF assms(1)] have r': "row_of d i = Some r" "wq_status r = Processing"
    by auto
  have "row_of d' i = Some (failed q now cause r\<lparr>wq_updated_at := dbt\<rparr>)"
    using row_of_update_processing(1) [of ?f, OF id r'] fr d' by simp
  moreover have "\<forall>j. j \<noteq> i \<longrightarrow> row_of d' j = row_of d j"
    using row_of_update_processing(2) [of ?f, OF id] d' by simp
  moreover have "wi_ID item = i" "wi_Attempts item = wq_attempts r + 1"
    using scanWorkItem_fields [OF sc] row_of_mem [OF r'(1)] by (simp_all add: failed_def)
  moreover have "scan_results d' = scan_results d" "junction d' = junction d"
    by (simp_all add: d')
  ultimately show ?thesis
    using r' unfolding failed_def by (intro exI [of _ r] conjI)
qed

definition first_failed :: db where
  "first_failed = snd (Fail NewDBQueue no_faults 0 0 1 None first_claimed)"

lemma db_wf_first_failed: "db_wf first_failed"
  unfolding first_failed_def by (intro Fail_wf db_wf_first_claimed)

lemma first_failed_ok:
  "\<exists>item. Fail NewDBQueue no_faults 0 0 1 None first_claimed = (Inr item, first_failed)"
proof -
  have "is_ok (fst (Fail NewDBQueue no_faults 0 0 1 None first_claimed))"
    by code_simp
  then show ?thesis
    by (auto simp: first_failed_def dest!: is_okE)
qed

theorem Fail_schedules_retry_witness:
  "\<exists>r. row_of first_failed 1 = Some r \<and> wq_status r = Failed \<and> wq_attempts r = 1 \<and> wq_next_attempt_at r = 60"
proof -
  obtain item where e: "Fail NewDBQueue no_faults 0 0 1 None first_claimed = (Inr item, first_failed)"
    using first_failed_ok by blast
  have g: "formatTime (0 + Geometric 1 (dq_baseBackoff NewDBQueue) (dq_maxBackoff NewDBQueue)) = 60"
    by code_simp
  have "opt_where (\<lambda>r. wq_attempts r = 0) (row_of first_claimed 1)"
    by code_simp
  with Fail_schedules_retry [OF db_wf_first_claimed e] g show ?thesis
    by (auto simp: opt_where_def)
qed

text \<open>
  A failed row rests: until the clock comes within a second of the end of its backoff (stored
  times have whole seconds) no Dequeue returns it.
\<close>
theorem failed_row_rests:
  assumes "db_wf d" and "Fail q io now dbt i cause d = (Inr item, d')"
    and "now' + Second \<le> now + Geometric (wi_Attempts item) (dq_baseBackoff q) (dq_maxBackoff q)"
    and "Dequeue io' now' dbt' d' = (Inr item', d'')"
  shows "wi_ID item' \<noteq> i"
proof
  assume i: "wi_ID item' = i"
  have wf': "db_wf d'"
    using Fail_wf [OF assms(1), of q io now dbt i cause] assms(2) by simp
  from Fail_schedules_retry [OF assms(1,2)] obtain r where r: "row_of d' i = Some r"
    and next_at: "wq_next_attempt_at r =
          formatTime (now + Geometric (wi_Attempts item) (dq_baseBackoff q) (dq_maxBackoff q))"
    by auto
  from assms(4) obtain r' where r': "dequeue_pick (formatTime now') d' = Some r'"
    "scanWorkItem (claimed r') = Inr item'"
    unfolding Dequeue_ok by blast
  then have r': "r' \<in> set (work_queue d')" "wq_id r' = i" "ready (formatTime now') r'"
    using dequeue_pick_ready scanWorkItem_fields [of "claimed r'"] i by (auto simp: claimed_def)
  then have "row_of d' i = Some r'"
    using row_of_Some [OF wf'] by simp
  with r have "r' = r" by simp
  with r' next_at have
    "(now + Geometric (wi_Attempts item) (dq_baseBackoff q) (dq_maxBackoff q)) div Second \<le> now' div Second"
    by (simp add: ready_def formatTime_def)
  moreover have "(now' + Second) div Second = now' div Second + 1"
    by (simp add: Second_def)
  ultimately show False
    using zdiv_mono1 [OF assms(3), of Second] by (simp add: Second_def)
qed

definition second_enqueued :: db where
  "second_enqueued =
     snd (Enqueue ascii_env no_faults 0 0 (sample_inputs ''Abba'' ''Waterloo'' ''z'') 10 first_enqueued)"

definition second_claimed :: db where
  "second_claimed = snd (Dequeue no_faults 0 0 second_enqueued)"

lemma db_wf_second_claimed: "db_wf second_claimed"
  unfolding second_claimed_def second_enqueued_def
  by (intro Dequeue_wf Enqueue_wf db_wf_first_enqueued)

theorem failed_row_rests_witness:
  "\<exists>item d' item' d''. Fail NewDBQueue no_faults 0 0 2 None second_claimed = (Inr item, d') \<and>
     Dequeue no_faults 0 0 d' = (Inr item', d'') \<and> wi_ID item' \<noteq> 2"
proof -
  have "is_ok (fst (Fail NewDBQueue no_faults 0 0 2 None second_claimed))"
    "case Fail NewDBQueue no_faults 0 0 2 None second_claimed of
       (Inl _, _) \<Rightarrow> False | (Inr item, d') \<Rightarrow> wi_Attempts item = 1 \<and> is_ok (fst (Dequeue no_faults 0 0 d'))"
    by code_simp+
  then obtain item d' item' d'' where e: "Fail NewDBQueue no_faults 0 0 2 None second_claimed = (Inr item, d')"
    "wi_Attempts item = 1" "Dequeue no_faults 0 0 d' = (Inr item', d'')"
    by (auto dest!: is_okE)
  have "0 + Second \<le> 0 + Geometric 1 (dq_baseBackoff NewDBQueue) (dq_maxBackoff NewDBQueue)"
    by code_simp
  with failed_row_rests [OF db_wf_second_claimed e(1) _ e(3)] e show ?thesis by auto
qed

definition released :: "wq_row \<Rightarrow> wq_row" where
  "released r = r\<lparr>wq_status := Pending, wq_last_error := ''''\<rparr>"

lemma Release_ok:
  "Release io dbt i d = (Inr (), d') \<Longrightarrow>
     sql_count (in_processing i) (work_queue d) \<noteq> 0 \<and> d' = wq_update dbt (in_processing i) released d"
  by (auto simp: Release_def Let_def drv_ok requireAffected_ok released_def [abs_def])

text \<open>
  Release gives a claim back: the row is pending again with no error, its attempts and its
  schedule as they were, so that the very next Dequeue can claim it; nothing else changes.
\<close>
theorem Release_gives_claim_back:
  assumes "db_wf d" and "Release io dbt i d = (Inr (), d')"
  shows "\<exists>r. row_of d i = Some r \<and> wq_status r = Processing \<and>
           row_of d' i = Some (r\<lparr>wq_status := Pending, wq_last_error := '''', wq_updated_at := dbt\<rparr>) \<and>
           (\<forall>j. j \<noteq> i \<longrightarrow> row_of d' j = row_of d j) \<and>
           scan_results d' = scan_results d \<and> junction d' = junction d"
proof -
  from Release_ok [OF assms(2)] count_processing_nonzero [OF assms(1)]
  obtain r where r: "row_of d i = Some r" "wq_status r = Processing"
    and d': "d' = wq_update dbt (in_processing i) released d"
    by blast
  have id: "\<And>r. wq_id (released r) = wq_id r"
    by (simp add: released_def)
  have "row_of d' i = Some ((released r)\<lparr>wq_updated_at := dbt\<rparr>)"
    using row_of_update_processing(1) [of released, OF id r] d' by simp
  moreover have "\<forall>j. j \<noteq> i \<longrightarrow> row_of d' j = row_of d j"
    using row_of_update_processing(2) [of released, OF id] d' by simp
  moreover have "scan_results d' = scan_results d" "junction d' = junction d"
    by (simp_all add: d')
  ultimately show ?thesis
    using r unfolding released_def by (intro exI [of _ r] conjI)
qed

theorem Release_gives_claim_back_witness:
  "\<exists>d' r. Release no_faults 3 1 first_claimed = (Inr (), d') \<and> row_of d' 1 = Some r \<and>
     wq_status r = Pending \<and> wq_attempts r = 0"
proof -
  have "is_ok (fst (Release no_faults 3 1 first_claimed))"
    by code_simp
  then obtain d' where e: "Release no_faults 3 1 first_claimed = (Inr (), d')"
    by (auto dest: is_okE)
  have "opt_where (\<lambda>r. wq_attempts r = 0) (row_of first_claimed 1)"
    by code_simp
  with Release_gives_claim_back [OF db_wf_first_claimed e] e show ?thesis
    by (auto simp: opt_where_def)
qed

section \<open>Retry, Cleanup and ClearDone\<close>

lemma find_by_id_and:
  "db_wf d \<Longrightarrow> find (\<lambda>r. wq_id r = i \<and> P r) (work_queue d) =
     (case row_of d i of None \<Rightarrow> None | Some r \<Rightarrow> if P r then Some r else None)"
proof -
  assume wf: "db_wf d"
  have "find (\<lambda>r. wq_id r = i \<and> P r) xs = find (\<lambda>r. wq_id r = i) (filter P xs)" for xs
    by (induction xs) auto
  then show ?thesis
    using find_filter_unique [OF ids_ok_distinct [OF db_wf_ids [OF wf]], of i P] by (simp add: row_of_def)
qed

definition retried :: "int \<Rightarrow> wq_row \<Rightarrow> wq_row" where
  "retried ts r = r\<lparr>wq_status := Pending, wq_attempts := 0, wq_next_attempt_at := ts, wq_last_error := ''''\<rparr>"

lemma Retry_unfold:
  assumes "db_wf d"
  shows "Retry no_faults now dbt i d =
    (case row_of d i of
       None \<Rightarrow> (Inl (Sen SqlErrNoRows), d)
     | Some r \<Rightarrow>
        if wq_status r \<noteq> Failed then (Inl (Sen ErrNotRetryable), d)
        else (case scanWorkItem (retried (formatTime now) r) of
                Inl e \<Rightarrow> (if errors_Is e SqlErrNoRows then (Inl (Sen ErrNotRetryable), d)
                          else (Inl (Errorf ''queue: retry: '' e ''''), d))
              | Inr item \<Rightarrow> (Inr item,
                  sr_update (\<lambda>s. (i, sc_id s) \<in> set (junction d) \<and> sc_status s = Processing)
                    (\<lambda>s. s\<lparr>sc_status := Pending\<rparr>)
                    (wq_update dbt (\<lambda>r. wq_id r = i \<and> wq_status r = Failed) (retried (formatTime now)) d))))"
  using find_by_id_and [OF assms, of i "\<lambda>r. wq_status r = Failed"]
  by (auto simp: Retry_def Let_def query_row_def row_of_def [symmetric] linked_results_mem retried_def [abs_def]
      split: option.splits sum.splits)

text \<open>
  Retry, without a driver error, answers by the row's state: \<open>sql.ErrNoRows\<close> when no row has the
  id, \<open>ErrNotRetryable\<close> when the row has not failed, both with the database unchanged. A failed row
  becomes pending, due now, with its attempts and error cleared, and the linked scan results that
  were processing are pending again.
\<close>
theorem Retry_classifies:
  assumes "db_wf d" and "all_readable d"
  shows "case row_of d i of
           None \<Rightarrow> Retry no_faults now dbt i d = (Inl (Sen SqlErrNoRows), d)
         | Some r \<Rightarrow>
            if wq_status r \<noteq> Failed then Retry no_faults now dbt i d = (Inl (Sen ErrNotRetryable), d)
            else \<exists>item d'. Retry no_faults now dbt i d = (Inr item, d') \<and> wi_ID item = i \<and>
              row_of d' i = Some (r\<lparr>wq_status := Pending, wq_attempts := 0,
                wq_next_attempt_at := formatTime now, wq_last_error := '''', wq_updated_at := dbt\<rparr>) \<and>
              (\<forall>j. j \<noteq> i \<longrightarrow> row_of d' j = row_of d j) \<and>
              scan_results d' =
                map (\<lambda>s. if (i, sc_id s) \<in> set (junction d) \<and> sc_status s = Processing
                         then s\<lparr>sc_status := Pending\<rparr> else s) (scan_results d)"
proof (cases "row_of d i")
  case None
  then show ?thesis by (simp add: Retry_unfold [OF assms(1)])
next
  case (Some r)
  show ?thesis
  proof (cases "wq_status r = Failed")
    case False
    with Some show ?thesis by (simp add: Retry_unfold [OF assms(1)])
  next
    case True
    let ?f = "retried (formatTime now)"
    let ?P = "\<lambda>r. wq_id r = i \<and> wq_status r = Failed"
    have "readable (?f r)"
      using assms(2) row_of_mem [OF Some] by (simp add: all_readable_def readable_def retried_def)
    then obtain item where item: "scanWorkItem (?f r) = Inr item" "wi_ID item = i"
      using scanWorkItem_total [of "?f r"] row_of_mem [OF Some] by (auto simp: retried_def)
    let ?d' = "sr_update (\<lambda>s. (i, sc_id s) \<in> set (junction d) \<and> sc_status s = Processing)
                    (\<lambda>s. s\<lparr>sc_status := Pending\<rparr>) (wq_update dbt ?P ?f d)"
    have id: "\<And>r. wq_id (?f r) = wq_id r"
      by (simp add: retried_def)
    have "row_of ?d' j = (if j = i then Some ((?f r)\<lparr>wq_updated_at := dbt\<rparr>) else row_of d j)" for j
      using Some True row_of_mem [OF Some] row_of_wq_update [of ?P ?f dbt d j, OF id]
      by (cases "row_of d j") (auto simp: row_views_sr_update dest: row_of_mem)
    moreover have "Retry no_faults now dbt i d = (Inr item, ?d')"
      using Some True item by (simp add: Retry_unfold [OF assms(1)])
    ultimately show ?thesis
      using Some True item(2) by (simp add: retried_def sr_update_def sql_update_def)
  qed
qed

theorem Retry_classifies_witness:
  "\<exists>item d'. Retry no_faults 5000000000 5 1 first_failed = (Inr item, d') \<and> wi_ID item = 1"
proof -
  have "\<forall>r\<in>set (work_queue first_failed). readable r"
    by code_simp
  moreover have "opt_where (\<lambda>r. wq_status r = Failed) (row_of first_failed 1)"
    by code_simp
  ultimately show ?thesis
    using Retry_classifies [OF db_wf_first_failed, where i = 1 and now = 5000000000 and dbt = 5]
    by (auto simp: all_readable_def opt_where_def split: option.splits)
qed

lemma delete_links:
  assumes "db_wf d"
  shows "set (junction (wq_delete P d)) = {(w, s) \<in> set (junction d). \<exists>r. row_of (wq_delete P d) w = Some r}"
proof -
  have ex: "\<exists>r. row_of d w = Some r" if "(w, s) \<in> set (junction d)" for w s
  proof (cases "row_of d w")
    case None
    have "w \<in> wq_id ` set (work_queue d)"
      using assms that by (force simp: db_wf_def wf_junction_def)
    with None show ?thesis by (auto simp: row_of_None)
  qed simp
  have "w \<in> wq_id ` set (filter P (work_queue d)) \<longleftrightarrow> row_of (wq_delete P d) w = None"
    if "(w, s) \<in> set (junction d)" for w s
  proof -
    from ex [OF that] obtain r where r: "row_of d w = Some r" by blast
    then have "w \<in> wq_id ` set (filter P (work_queue d)) \<longleftrightarrow> P r"
      using row_of_mem [OF r] wq_id_inj [OF assms] by (auto simp: image_iff)
    with r show ?thesis by (simp add: row_of_wq_delete [OF assms])
  qed
  then have "w \<notin> wq_id ` set (filter P (work_queue d)) \<longleftrightarrow> (\<exists>r. row_of (wq_delete P d) w = Some r)"
    if "(w, s) \<in> set (junction d)" for w s
    using that by (metis not_None_eq)
  moreover have "set (junction (wq_delete P d)) =
      {(w, s) \<in> set (junction d). w \<notin> wq_id ` set (filter P (work_queue d))}"
    by (auto simp: wq_delete_def sql_delete_def Let_def)
  ultimately show ?thesis by auto
qed

text \<open>
  Cleanup removes exactly the waiting row of the track's normalized key, if there is one, and
  reports how many rows it removed; ClearDone removes exactly the done rows. Claimed rows survive
  both, the scan results are untouched, and the links of the removed rows go with them.
\<close>
theorem Cleanup_and_ClearDone_remove_only:
  assumes "db_wf d" and "Cleanup u no_faults inputs d = (Inr n, d1)" and "ClearDone no_faults d = (Inr m, d2)"
  shows "(\<forall>i r. row_of d1 i = Some r \<longleftrightarrow>
            row_of d i = Some r \<and> \<not> (wq_key r = key_of u inputs \<and> retryable r)) \<and>
         n = (case row_for d (key_of u inputs) of Some r \<Rightarrow> if retryable r then 1 else 0 | None \<Rightarrow> 0) \<and>
         (\<forall>i r. row_of d2 i = Some r \<longleftrightarrow> row_of d i = Some r \<and> wq_status r \<noteq> Done) \<and>
         m = int (length (work_queue d)) - int (length (work_queue d2)) \<and>
         scan_results d1 = scan_results d \<and> scan_results d2 = scan_results d \<and>
         set (junction d2) = {(w, s) \<in> set (junction d). \<exists>r. row_of d2 w = Some r}"
proof -
  let ?P = "\<lambda>r. wq_key r = key_of u inputs \<and> retryable r"
  have P: "?P = (\<lambda>r. wq_artist_key r = NormalizeKey u (tr_ArtistName (in_Track inputs)) \<and>
                     wq_title_key r = NormalizeKey u (tr_TrackName (in_Track inputs)) \<and> retryable r)"
    by (auto simp: wq_key_def key_of_def)
  have 1: "d1 = wq_delete ?P d" "n = sql_count ?P (work_queue d)"
    using assms(2) unfolding P by (auto simp: Cleanup_def Let_def)
  have 2: "d2 = wq_delete (\<lambda>r. wq_status r = Done) d" "m = sql_count (\<lambda>r. wq_status r = Done) (work_queue d)"
    using assms(3) by (auto simp: ClearDone_def Let_def)
  have "n = (case row_for d (key_of u inputs) of Some r \<Rightarrow> if retryable r then 1 else 0 | None \<Rightarrow> 0)"
  proof (cases "row_for d (key_of u inputs)")
    case None
    then have "sql_count ?P (work_queue d) = 0"
      by (auto simp: sql_count_zero row_for_None)
    with None 1 show ?thesis by simp
  next
    case (Some r)
    have "filter ?P (work_queue d) = filter retryable [r]"
      using filter_row_for [OF assms(1) Some] by (metis filter_filter)
    with Some 1 show ?thesis by (simp add: sql_count_def)
  qed
  moreover have "set (junction d2) = {(w, s) \<in> set (junction d). \<exists>r. row_of d2 w = Some r}"
    using delete_links [OF assms(1)] by (simp add: 2)
  ultimately show ?thesis
    using 1 2 sql_count_delete [of "\<lambda>r. wq_status r = Done" "work_queue d"]
    by (auto simp: row_of_wq_delete [OF assms(1)] split: option.splits if_splits)
qed

definition done_and_waiting :: db where
  "done_and_waiting = snd (Complete no_faults 0 0 2 second_claimed)"

theorem Cleanup_and_ClearDone_remove_only_witness:
  "\<exists>d1 d2. Cleanup ascii_env no_faults (file_inputs '''' 0) done_and_waiting = (Inr 1, d1) \<and>
     ClearDone no_faults done_and_waiting = (Inr 1, d2) \<and>
     row_of d1 1 = None \<and> row_of d2 2 = None \<and> junction d2 = [(1, 1)]"
proof -
  have wf: "db_wf done_and_waiting"
    unfolding done_and_waiting_def by (intro Complete_wf db_wf_second_claimed)
  have "fst (Cleanup ascii_env no_faults (file_inputs '''' 0) done_and_waiting) = Inr 1"
    "fst (ClearDone no_faults done_and_waiting) = Inr 1"
    by code_simp+
  then obtain d1 d2 where e: "Cleanup ascii_env no_faults (file_inputs '''' 0) done_and_waiting = (Inr 1, d1)"
    "ClearDone no_faults done_and_waiting = (Inr 1, d2)"
    by (cases "Cleanup ascii_env no_faults (file_inputs '''' 0) done_and_waiting";
        cases "ClearDone no_faults done_and_waiting") auto
  have "opt_where (\<lambda>r. wq_key r = key_of ascii_env (file_inputs '''' 0) \<and> retryable r) (row_of done_and_waiting 1)"
    "opt_where (\<lambda>r. wq_status r = Done) (row_of done_and_waiting 2)"
    by code_simp+
  then obtain r1 r2 where r: "row_of done_and_waiting 1 = Some r1" "wq_key r1 = key_of ascii_env (file_inputs '''' 0)"
    "retryable r1" "row_of done_and_waiting 2 = Some r2" "wq_status r2 = Done"
    by (auto simp: opt_where_def split: option.splits)
  have "junction (snd (ClearDone no_faults done_and_waiting)) = [(1, 1)]"
    by code_simp
  with e have j: "junction d2 = [(1, 1)]" by simp
  note main = Cleanup_and_ClearDone_remove_only [OF wf e]
  have "row_of d1 1 = None"
    using conjunct1 [OF main] r by (metis not_None_eq option.inject)
  moreover have "row_of d2 2 = None"
    using main r by (metis not_None_eq option.inject)
  ultimately show ?thesis
    using e j by blast
qed

section \<open>Atomicity\<close>

text \<open>An operation is atomic when an error return means that the database is what it was.\<close>

definition atomic :: "('s \<Rightarrow> 'a res \<times> 's) \<Rightarrow> bool" where
  "atomic f \<longleftrightarrow> (\<forall>s e s'. f s = (Inl e, s') \<longrightarrow> s' = s)"

lemma drv_Inl: "drv io k pre d r = (Inl e, d') \<Longrightarrow> d' = d \<or> r = (Inl e, d')"
  by (auto simp: drv_def split: option.splits)

lemma Enqueue_atomic: "atomic (Enqueue u io now dbt inputs p)"
  unfolding atomic_def Enqueue_def Let_def by (auto dest!: drv_Inl split: sum.splits if_splits)

lemma Complete_atomic: "atomic (Complete io now dbt i)"
  unfolding atomic_def Complete_def Let_def by (auto dest!: drv_Inl split: sum.splits)

lemma Fail_atomic: "atomic (Fail q io now dbt i cause)"
  unfolding atomic_def Fail_def Let_def by (auto dest!: drv_Inl split: sum.splits if_splits)

lemma Retry_atomic: "atomic (Retry io now dbt i)"
  unfolding atomic_def Retry_def Let_def by (auto dest!: drv_Inl split: sum.splits if_splits)

lemma CancelByLibrary_atomic: "atomic (CancelByLibrary io dbt lib)"
  unfolding atomic_def CancelByLibrary_def by (auto dest!: drv_Inl split: sum.splits prod.splits)

text \<open>
  C18. The operations with a transaction are all-or-nothing: whichever of its driver calls fails,
  whatever check refuses, an error return of Enqueue, Complete, Fail, Retry or CancelByLibrary leaves
  every table as it was.
\<close>
theorem transactions_are_atomic:
  "atomic (Enqueue u io now dbt inputs p) \<and> atomic (Complete io now dbt i) \<and>
   atomic (Fail q io now dbt i cause) \<and> atomic (Retry io now dbt i) \<and>
   atomic (CancelByLibrary io dbt lib)"
  by (intro conjI Enqueue_atomic Complete_atomic Fail_atomic Retry_atomic CancelByLibrary_atomic)

end
