(* ===== verification/Queue_Cancel.thy ===== *)
theory Queue_Cancel
  imports Queue_Claims
begin

text \<open>
  Cancellation of a library's work: the loop of \<open>cancelByLibrary\<close> against a per-row specification,
  the agreement of the dry run with the real one, and what becomes of rows shared by two libraries.
\<close>

section \<open>The specification\<close>

text \<open>What is decided about one candidate row: keep it, drop it, or keep only some of its paths.\<close>

datatype verdict = KeepRow | DropRow | TrimRow "OutputPath list"

text \<open>
  The paths that the scan results of other libraries still want from a row, as \<open>keepSetForRow\<close> reads them:
  only the results that are linked to the row count. (The comment on \<open>CancelByLibrary\<close> speaks of the scan
  results of other libraries, linked or not; see \<open>cancel_ignores_unlinked_results\<close> below.)
\<close>

definition wanted_elsewhere :: "db \<Rightarrow> int \<Rightarrow> int \<Rightarrow> string set" where
  "wanted_elsewhere d lib i =
     set (map (\<lambda>s. outputPathKey \<lparr>op_Outdir = sc_outdir s, op_Filename = sc_filename s\<rparr>)
       (filter (\<lambda>s. (i, sc_id s) \<in> set (junction d) \<and> sc_library_id s \<noteq> lib) (scan_results d)))"

definition row_paths :: "paths_col \<Rightarrow> OutputPath list" where
  "row_paths c = (case c of PathsJSON ps \<Rightarrow> ps | _ \<Rightarrow> [])"

definition verdict :: "db \<Rightarrow> int \<Rightarrow> int \<Rightarrow> paths_col \<Rightarrow> verdict" where
  "verdict d lib i c =
     (let kept = filter (\<lambda>p. outputPathKey p \<in> wanted_elsewhere d lib i) (row_paths c)
      in if kept = [] then DropRow
         else if length kept = length (row_paths c) then KeepRow else TrimRow kept)"

definition apply_verdict :: "int \<Rightarrow> verdict \<Rightarrow> wq_row \<Rightarrow> wq_row option" where
  "apply_verdict dbt v r =
     (case v of KeepRow \<Rightarrow> Some r | DropRow \<Rightarrow> None
      | TrimRow ps \<Rightarrow> Some (r\<lparr>wq_output_paths := PathsJSON (map json_path ps), wq_updated_at := dbt\<rparr>))"

definition is_trim :: "verdict \<Rightarrow> bool" where
  "is_trim v \<longleftrightarrow> (case v of TrimRow _ \<Rightarrow> True | _ \<Rightarrow> False)"

definition verdicts :: "db \<Rightarrow> int \<Rightarrow> (int \<times> paths_col) list \<Rightarrow> verdict list" where
  "verdicts d lib cs = map (\<lambda>(i, c). verdict d lib i c) cs"

definition tally :: "verdict list \<Rightarrow> int \<times> int" where
  "tally vs = (sql_count (\<lambda>v. v = DropRow) vs, sql_count is_trim vs)"

section \<open>The loop\<close>

lemma keepSet_no_faults: "keepSetForRow no_faults k d i lib = Inr (wanted_elsewhere d lib i)"
  by (simp add: Let_def keepSetForRow_def wanted_elsewhere_def linked_results_mem cong: if_cong split del: if_split)

lemma cancel_paths_readable: "c \<noteq> PathsCorrupt \<Longrightarrow> cancel_paths c = Inr (row_paths c)"
  by (cases c) (simp_all add: cancel_paths_def row_paths_def)

text \<open>One round of the loop, by the verdict on its candidate.\<close>

lemma cancel_round:
  assumes "c \<noteq> PathsCorrupt"
  shows "cancel_loop no_faults dbt lib dry k ((i, c) # cs) del upd d =
    (let hit = (if sql_count (cancel_hit i) (work_queue d) = 1 then 1 else 0)
     in case verdict d lib i c of
          KeepRow \<Rightarrow> cancel_loop no_faults dbt lib dry (k + 5) cs del upd d
        | DropRow \<Rightarrow>
           (if dry then cancel_loop no_faults dbt lib dry (k + 5) cs (del + 1) upd d
            else cancel_loop no_faults dbt lib dry (k + 5) cs (del + hit) upd (wq_delete (cancel_hit i) d))
        | TrimRow ps \<Rightarrow>
           (if dry then cancel_loop no_faults dbt lib dry (k + 5) cs del (upd + 1) d
            else cancel_loop no_faults dbt lib dry (k + 5) cs del (upd + hit)
                   (wq_update dbt (cancel_hit i) (\<lambda>r. r\<lparr>wq_output_paths := PathsJSON (map json_path ps)\<rparr>) d)))"
  by (simp add: keepSet_no_faults cancel_paths_readable [OF assms] verdict_def Let_def)

lemma tally_simps [simp]:
  "tally [] = (0, 0)"
  "tally (v # vs) = (fst (tally vs) + (if v = DropRow then 1 else 0), snd (tally vs) + (if is_trim v then 1 else 0))"
  by (simp_all add: tally_def sql_count_def)

lemma cancel_loop_dry:
  "\<forall>(i, c)\<in>set cs. c \<noteq> PathsCorrupt \<Longrightarrow>
   cancel_loop no_faults dbt lib True k cs del upd d =
     (Inr (del + fst (tally (verdicts d lib cs)), upd + snd (tally (verdicts d lib cs))), d)"
proof (induction cs arbitrary: k del upd)
  case Nil
  then show ?case by (simp add: verdicts_def)
next
  case (Cons p cs)
  obtain i c where p: "p = (i, c)" by (cases p)
  with Cons.prems have "c \<noteq> PathsCorrupt" by simp
  from cancel_round [OF this, of dbt lib True k i cs del upd d] show ?case
    using Cons.IH Cons.prems unfolding p
    by (cases "verdict d lib i c") (simp_all add: verdicts_def is_trim_def Let_def del: cancel_loop.simps no_faults_app)
qed

lemma count_cancel_hit:
  assumes "db_wf d" "row_of d i = Some r" "retryable r"
  shows "sql_count (cancel_hit i) (work_queue d) = 1"
proof -
  have r: "r \<in> set (work_queue d)" "wq_id r = i"
    using row_of_mem [OF assms(2)] by auto
  have "filter (cancel_hit i) (work_queue d) = filter retryable (filter (\<lambda>x. wq_id x = wq_id r) (work_queue d))"
    by (simp add: cancel_hit_def [abs_def] r(2))
  also have "\<dots> = [r]"
    using filter_unique [OF ids_ok_distinct [OF db_wf_ids [OF assms(1)]] r(1)] assms(3) by simp
  finally show ?thesis by (simp add: sql_count_def)
qed

text \<open>The state after one round: the verdict is applied to the candidate's row and to no other.\<close>

definition cancel_step :: "int \<Rightarrow> int \<Rightarrow> verdict \<Rightarrow> db \<Rightarrow> db" where
  "cancel_step dbt i v d =
     (case v of KeepRow \<Rightarrow> d | DropRow \<Rightarrow> wq_delete (cancel_hit i) d
      | TrimRow ps \<Rightarrow> wq_update dbt (cancel_hit i) (\<lambda>r. r\<lparr>wq_output_paths := PathsJSON (map json_path ps)\<rparr>) d)"

lemma linked_row: "db_wf d \<Longrightarrow> (j, s) \<in> set (junction d) \<Longrightarrow> row_of d j \<noteq> None"
proof -
  assume "db_wf d" and j: "(j, s) \<in> set (junction d)"
  then have "fst ` set (junction d) \<subseteq> wq_id ` set (work_queue d)" by (simp add: db_wf_def wf_junction_def)
  moreover have "j \<in> fst ` set (junction d)" using j by force
  ultimately have "j \<in> wq_id ` set (work_queue d)" ..
  then show ?thesis by (auto simp: row_of_None)
qed

lemma cancel_step_wf: "db_wf d \<Longrightarrow> db_wf (cancel_step dbt i v d)"
  by (cases v) (auto simp: cancel_step_def wq_key_def wq_row_ok_def intro!: db_wf_wq_delete db_wf_wq_update_row)

lemma cancel_step_rows:
  assumes "db_wf d" "row_of d i = Some r" "retryable r"
  shows "row_of (cancel_step dbt i v d) j = (if j = i then apply_verdict dbt v r else row_of d j)"
proof (cases v)
  case KeepRow
  with assms show ?thesis by (simp add: cancel_step_def apply_verdict_def)
next
  case DropRow
  with assms row_of_mem [OF assms(2)] show ?thesis
    by (auto simp: cancel_step_def apply_verdict_def row_of_wq_delete cancel_hit_def
        dest: row_of_mem split: option.splits)
next
  case (TrimRow ps)
  let ?f = "\<lambda>r. r\<lparr>wq_output_paths := PathsJSON (map json_path ps)\<rparr>"
  have "row_of (cancel_step dbt i v d) j =
      map_option (\<lambda>r. if cancel_hit i r then (?f r)\<lparr>wq_updated_at := dbt\<rparr> else r) (row_of d j)"
    using row_of_wq_update [of "cancel_hit i" ?f dbt d j] by (simp add: TrimRow cancel_step_def)
  moreover have "cancel_hit i x \<longleftrightarrow> j = i" if "row_of d j = Some x" for x
    using row_of_mem [OF that] assms that by (auto simp: cancel_hit_def)
  ultimately show ?thesis
    using assms(2) by (cases "row_of d j"; cases "j = i") (simp_all add: TrimRow apply_verdict_def)
qed

lemma cancel_step_links:
  "scan_results (cancel_step dbt i v d) = scan_results d"
  "j \<noteq> i \<Longrightarrow> (j, s) \<in> set (junction (cancel_step dbt i v d)) \<longleftrightarrow> (j, s) \<in> set (junction d)"
proof -
  show "scan_results (cancel_step dbt i v d) = scan_results d"
    by (cases v) (simp_all add: cancel_step_def)
  assume "j \<noteq> i"
  then have "j \<notin> wq_id ` set (filter (cancel_hit i) (work_queue d))"
    by (auto simp: cancel_hit_def)
  then show "(j, s) \<in> set (junction (cancel_step dbt i v d)) \<longleftrightarrow> (j, s) \<in> set (junction d)"
    by (cases v) (simp_all add: cancel_step_def wq_delete_def sql_delete_def Let_def)
qed

lemma cancel_step_junction:
  assumes "db_wf d" "row_of d i = Some r" "retryable r"
  shows "(j, s) \<in> set (junction (cancel_step dbt i v d)) \<longleftrightarrow>
    (j, s) \<in> set (junction d) \<and> row_of (cancel_step dbt i v d) j \<noteq> None"
proof -
  let ?d = "cancel_step dbt i v d"
  have sub: "set (junction ?d) \<subseteq> set (junction d)"
    by (cases v) (auto simp: cancel_step_def wq_delete_def sql_delete_def Let_def)
  have rows: "(j, s) \<in> set (junction ?d) \<Longrightarrow> row_of ?d j \<noteq> None"
    by (rule linked_row [OF cancel_step_wf [OF assms(1)]])
  show ?thesis
  proof (cases "j = i")
    case True
    then have "junction ?d = junction d" if "row_of ?d j \<noteq> None"
      using that cancel_step_rows [OF assms, of dbt v i] by (cases v) (auto simp: cancel_step_def apply_verdict_def)
    with sub rows show ?thesis by auto
  next
    case False
    with cancel_step_links(2) [OF False, of s dbt v d] rows show ?thesis by blast
  qed
qed

lemma verdict_step: "j \<noteq> i \<Longrightarrow> verdict (cancel_step dbt i v d) lib j c = verdict d lib j c"
  by (simp add: verdict_def wanted_elsewhere_def cancel_step_links)

lemma verdicts_step:
  "i \<notin> fst ` set cs \<Longrightarrow> verdicts (cancel_step dbt i v d) lib cs = verdicts d lib cs"
  by (induction cs) (auto simp: verdicts_def verdict_step)

text \<open>What a list of candidates does to a row.\<close>

definition judged :: "db \<Rightarrow> int \<Rightarrow> int \<Rightarrow> (int \<times> paths_col) list \<Rightarrow> int \<Rightarrow> wq_row option" where
  "judged d dbt lib cs j =
     (case map_of cs j of None \<Rightarrow> row_of d j
      | Some c \<Rightarrow> (case row_of d j of None \<Rightarrow> None | Some r \<Rightarrow> apply_verdict dbt (verdict d lib j c) r))"

definition live_candidates :: "db \<Rightarrow> (int \<times> paths_col) list \<Rightarrow> bool" where
  "live_candidates d cs \<longleftrightarrow>
     distinct (map fst cs) \<and>
     (\<forall>(i, c)\<in>set cs. c \<noteq> PathsCorrupt \<and> (\<exists>r. row_of d i = Some r \<and> retryable r))"

lemma cancel_round_live:
  assumes "db_wf d" "row_of d i = Some r" "retryable r" "c \<noteq> PathsCorrupt"
  shows "cancel_loop no_faults dbt lib False k ((i, c) # cs) del upd d =
     cancel_loop no_faults dbt lib False (k + 5) cs
       (del + (if verdict d lib i c = DropRow then 1 else 0))
       (upd + (if is_trim (verdict d lib i c) then 1 else 0))
       (cancel_step dbt i (verdict d lib i c) d)"
  using cancel_round [OF assms(4), of dbt lib False k i cs del upd d] count_cancel_hit [OF assms(1-3)]
  by (cases "verdict d lib i c")
    (simp_all add: cancel_step_def is_trim_def Let_def del: cancel_loop.simps no_faults_app)

lemma cancel_loop_judges:
  "db_wf d \<Longrightarrow> live_candidates d cs \<Longrightarrow>
     \<exists>d'. cancel_loop no_faults dbt lib False k cs del upd d =
            (Inr (del + fst (tally (verdicts d lib cs)), upd + snd (tally (verdicts d lib cs))), d') \<and>
          scan_results d' = scan_results d \<and> (\<forall>j. row_of d' j = judged d dbt lib cs j) \<and>
          (\<forall>j s. (j, s) \<in> set (junction d') \<longleftrightarrow> (j, s) \<in> set (junction d) \<and> row_of d' j \<noteq> None)"
proof (induction cs arbitrary: k del upd d)
  case Nil
  then show ?case using linked_row by (auto simp: verdicts_def judged_def)
next
  case (Cons p cs)
  obtain i c where p: "p = (i, c)" by (cases p)
  from Cons.prems(2) obtain r where r: "row_of d i = Some r" "retryable r" "c \<noteq> PathsCorrupt"
    and i: "i \<notin> fst ` set cs"
    by (auto simp: live_candidates_def p)
  let ?v = "verdict d lib i c"
  let ?d = "cancel_step dbt i ?v d"
  note rows = cancel_step_rows [OF Cons.prems(1) r(1,2), of dbt ?v]
  have live: "live_candidates ?d cs"
    using Cons.prems(2) i rows by (fastforce simp: live_candidates_def p image_iff)
  have wf': "db_wf ?d"
    by (rule cancel_step_wf [OF Cons.prems(1)])
  from Cons.IH [OF wf' live, of "k + 5" "del + (if ?v = DropRow then 1 else 0)"
      "upd + (if is_trim ?v then 1 else 0)"]
  obtain d' where loop: "cancel_loop no_faults dbt lib False (k + 5) cs
       (del + (if ?v = DropRow then 1 else 0)) (upd + (if is_trim ?v then 1 else 0)) ?d =
      (Inr (del + (if ?v = DropRow then 1 else 0) + fst (tally (verdicts ?d lib cs)),
            upd + (if is_trim ?v then 1 else 0) + snd (tally (verdicts ?d lib cs))), d')"
    and d': "scan_results d' = scan_results ?d" "\<forall>j. row_of d' j = judged ?d dbt lib cs j"
    and links: "\<forall>j s. (j, s) \<in> set (junction d') \<longleftrightarrow> (j, s) \<in> set (junction ?d) \<and> row_of d' j \<noteq> None"
    by blast
  have "row_of ?d j \<noteq> None" if "row_of d' j \<noteq> None" for j
    using that d'(2) by (auto simp: judged_def split: option.splits)
  then have links': "\<forall>j s. (j, s) \<in> set (junction d') \<longleftrightarrow> (j, s) \<in> set (junction d) \<and> row_of d' j \<noteq> None"
    using links cancel_step_junction [OF Cons.prems(1) r(1,2), of _ _ dbt ?v] by blast
  have tl: "verdicts ?d lib cs = verdicts d lib cs"
    using i by (rule verdicts_step)
  have "cancel_loop no_faults dbt lib False k ((i, c) # cs) del upd d =
      (Inr (del + fst (tally (verdicts d lib ((i, c) # cs))), upd + snd (tally (verdicts d lib ((i, c) # cs)))), d')"
    unfolding cancel_round_live [OF Cons.prems(1) r] loop tl by (simp add: verdicts_def)
  moreover have "judged ?d dbt lib cs j = judged d dbt lib ((i, c) # cs) j" for j
  proof (cases "j = i")
    case True
    with i have "map_of cs j = None" by (simp add: map_of_eq_None_iff)
    with True r rows show ?thesis by (simp add: judged_def)
  next
    case False
    with rows show ?thesis by (simp add: judged_def verdict_step split: option.splits)
  qed
  ultimately show ?case
    using d' links' by (auto simp: p cancel_step_links simp del: cancel_loop.simps no_faults_app)
qed

section \<open>The operations\<close>

definition cancellable :: "db \<Rightarrow> int \<Rightarrow> wq_row \<Rightarrow> bool" where
  "cancellable d lib r \<longleftrightarrow> linked_to_library d lib r \<and> retryable r"

lemma candidates_live:
  assumes "db_wf d" "all_readable d"
  shows "live_candidates d (cancel_candidates d lib)"
proof -
  have "distinct (map wq_id (filter (cancellable d lib) (work_queue d)))"
    using ids_ok_distinct [OF db_wf_ids [OF assms(1)]] by (simp add: distinct_map_filter)
  then have "distinct (map fst (cancel_candidates d lib))"
    by (simp add: cancel_candidates_def order_by_def comp_def cancellable_def [abs_def] distinct_map)
  moreover have "\<forall>(i, c)\<in>set (cancel_candidates d lib). c \<noteq> PathsCorrupt \<and> (\<exists>r. row_of d i = Some r \<and> retryable r)"
    using assms by (auto simp: cancel_candidates_def table_simps row_of_Some all_readable_def readable_def)
  ultimately show ?thesis by (simp add: live_candidates_def)
qed

lemma map_of_candidates:
  assumes "db_wf d" "all_readable d"
  shows "map_of (cancel_candidates d lib) j =
     (case row_of d j of None \<Rightarrow> None
      | Some r \<Rightarrow> if cancellable d lib r then Some (wq_output_paths r) else None)"
proof -
  have dist: "distinct (map fst (cancel_candidates d lib))"
    using candidates_live [OF assms] by (simp add: live_candidates_def)
  have mem: "(j, c) \<in> set (cancel_candidates d lib) \<longleftrightarrow>
      (\<exists>r. row_of d j = Some r \<and> cancellable d lib r \<and> c = wq_output_paths r)" for c
    by (auto simp: cancel_candidates_def table_simps row_of_Some [OF assms(1)] cancellable_def)
  show ?thesis
  proof (cases "map_of (cancel_candidates d lib) j")
    case None
    then have "\<not> (\<exists>r. row_of d j = Some r \<and> cancellable d lib r)"
      using mem by (metis map_of_eq_None_iff fst_conv image_eqI)
    with None show ?thesis by (simp split: option.splits)
  next
    case (Some c)
    with mem dist show ?thesis by (auto dest: map_of_SomeD)
  qed
qed

lemma map_cancellable: "(\<lambda>r. linked_to_library d lib r \<and> retryable r) = cancellable d lib"
  by (simp add: cancellable_def [abs_def])

lemma sql_count_sort: "sql_count P (map f (order_by k xs)) = sql_count (\<lambda>x. P (f x)) xs"
  by (simp add: sql_count_def order_by_def filter_map comp_def filter_sort)

lemma sql_count_filter: "sql_count P (filter Q xs) = sql_count (\<lambda>x. Q x \<and> P x) xs"
  by (simp add: sql_count_def conj_commute)

lemma tally_candidates:
  "tally (verdicts d lib (cancel_candidates d lib)) =
     (sql_count (\<lambda>r. cancellable d lib r \<and> verdict d lib (wq_id r) (wq_output_paths r) = DropRow) (work_queue d),
      sql_count (\<lambda>r. cancellable d lib r \<and> is_trim (verdict d lib (wq_id r) (wq_output_paths r))) (work_queue d))"
  by (simp add: tally_def verdicts_def cancel_candidates_def map_cancellable comp_def sql_count_sort sql_count_filter)

lemma CancelByLibrary_spec:
  assumes "db_wf d" and "all_readable d"
  shows "\<exists>d'. CancelByLibrary no_faults dbt lib d =
      (Inr (sql_count (\<lambda>r. cancellable d lib r \<and> verdict d lib (wq_id r) (wq_output_paths r) = DropRow) (work_queue d),
            sql_count (\<lambda>r. cancellable d lib r \<and> is_trim (verdict d lib (wq_id r) (wq_output_paths r))) (work_queue d)),
       d') \<and>
     scan_results d' = scan_results d \<and>
     (\<forall>i. row_of d' i =
        (case row_of d i of None \<Rightarrow> None
         | Some r \<Rightarrow> if cancellable d lib r then apply_verdict dbt (verdict d lib i (wq_output_paths r)) r
                   else Some r)) \<and>
     (\<forall>i s. (i, s) \<in> set (junction d') \<longleftrightarrow> (i, s) \<in> set (junction d) \<and> row_of d' i \<noteq> None)"
proof -
  from cancel_loop_judges [OF assms(1) candidates_live [OF assms, of lib], of dbt lib 6 0 0]
  obtain d' where loop: "cancel_loop no_faults dbt lib False 6 (cancel_candidates d lib) 0 0 d =
      (Inr (fst (tally (verdicts d lib (cancel_candidates d lib))),
            snd (tally (verdicts d lib (cancel_candidates d lib)))), d')"
    and d': "scan_results d' = scan_results d" "\<forall>j. row_of d' j = judged d dbt lib (cancel_candidates d lib) j"
    and links: "\<forall>i s. (i, s) \<in> set (junction d') \<longleftrightarrow> (i, s) \<in> set (junction d) \<and> row_of d' i \<noteq> None"
    by auto
  have run: "CancelByLibrary no_faults dbt lib d =
      (Inr (fst (tally (verdicts d lib (cancel_candidates d lib))),
            snd (tally (verdicts d lib (cancel_candidates d lib)))), d')"
    using loop by (simp add: CancelByLibrary_def cancelByLibrary_def del: no_faults_app)
  have "\<forall>i. row_of d' i = (case row_of d i of None \<Rightarrow> None
      | Some r \<Rightarrow> if cancellable d lib r then apply_verdict dbt (verdict d lib i (wq_output_paths r)) r else Some r)"
    using d'(2) by (auto simp: judged_def map_of_candidates [OF assms] split: option.splits)
  with run d'(1) links show ?thesis unfolding tally_candidates by auto
qed

text \<open>
  C19. CancelByLibrary does to every row what the specification says, and counts it: a waiting row linked to
  the library is dropped, with its links, when no scan result of another library that is linked to the row
  wants one of its paths, cut down to the wanted paths when such results want some of them, and kept when they
  want all; every other row, every link of a row that stays and every scan result is untouched.
\<close>
theorem CancelByLibrary_refines_spec:
  assumes "db_wf d" and "all_readable d"
  shows "\<exists>d'. CancelByLibrary no_faults dbt lib d =
      (Inr (sql_count (\<lambda>r. cancellable d lib r \<and> verdict d lib (wq_id r) (wq_output_paths r) = DropRow) (work_queue d),
            sql_count (\<lambda>r. cancellable d lib r \<and> is_trim (verdict d lib (wq_id r) (wq_output_paths r))) (work_queue d)),
       d') \<and>
     scan_results d' = scan_results d \<and>
     (\<forall>i. row_of d' i =
        (case row_of d i of None \<Rightarrow> None
         | Some r \<Rightarrow> if cancellable d lib r then apply_verdict dbt (verdict d lib i (wq_output_paths r)) r
                   else Some r)) \<and>
     (\<forall>i s. (i, s) \<in> set (junction d') \<longleftrightarrow> (i, s) \<in> set (junction d) \<and> row_of d' i \<noteq> None)"
  using CancelByLibrary_spec [OF assms] .

text \<open>
  A row none of whose paths is wanted by a linked result of another library is dropped, and with it its links.
\<close>

lemma cancel_drops:
  assumes "db_wf d" "all_readable d" "row_of d i = Some r" "retryable r" "linked_to_library d lib r"
    and "\<And>s p. s \<in> set (scan_results d) \<Longrightarrow> (i, sc_id s) \<in> set (junction d) \<Longrightarrow> sc_library_id s \<noteq> lib \<Longrightarrow>
      p \<in> set (row_paths (wq_output_paths r)) \<Longrightarrow> outputPathKey p \<noteq> outputPathKey \<lparr>op_Outdir = sc_outdir s, op_Filename = sc_filename s\<rparr>"
  shows "\<exists>n m d'. CancelByLibrary no_faults dbt lib d = (Inr (n, m), d') \<and> 1 \<le> n \<and> row_of d' i = None \<and>
    scan_results d' = scan_results d \<and> set (junction d') \<subseteq> set (junction d) \<and> (\<forall>s. (i, s) \<notin> set (junction d'))"
proof -
  have id: "wq_id r = i" "r \<in> set (work_queue d)" using row_of_mem [OF assms(3)] by auto
  have "filter (\<lambda>p. outputPathKey p \<in> wanted_elsewhere d lib i) (row_paths (wq_output_paths r)) = []"
    using assms(6) by (auto simp: wanted_elsewhere_def filter_empty_conv)
  then have v: "verdict d lib i (wq_output_paths r) = DropRow" by (simp add: verdict_def)
  have c: "cancellable d lib r" using assms(4,5) by (simp add: cancellable_def)
  have "filter (\<lambda>r. cancellable d lib r \<and> verdict d lib (wq_id r) (wq_output_paths r) = DropRow) (work_queue d) \<noteq> []"
    using id c v by (auto simp: filter_empty_conv)
  then have n: "1 \<le> sql_count (\<lambda>r. cancellable d lib r \<and> verdict d lib (wq_id r) (wq_output_paths r) = DropRow) (work_queue d)"
    unfolding sql_count_def by (cases "filter (\<lambda>r. cancellable d lib r \<and> verdict d lib (wq_id r) (wq_output_paths r) = DropRow) (work_queue d)") auto
  obtain d' where d': "CancelByLibrary no_faults dbt lib d =
      (Inr (sql_count (\<lambda>r. cancellable d lib r \<and> verdict d lib (wq_id r) (wq_output_paths r) = DropRow) (work_queue d),
            sql_count (\<lambda>r. cancellable d lib r \<and> is_trim (verdict d lib (wq_id r) (wq_output_paths r))) (work_queue d)), d')"
    "scan_results d' = scan_results d"
    and rows: "\<forall>i. row_of d' i = (case row_of d i of None \<Rightarrow> None
         | Some r \<Rightarrow> if cancellable d lib r then apply_verdict dbt (verdict d lib i (wq_output_paths r)) r else Some r)"
    and links: "\<forall>i s. (i, s) \<in> set (junction d') \<longleftrightarrow> (i, s) \<in> set (junction d) \<and> row_of d' i \<noteq> None"
    using CancelByLibrary_spec [OF assms(1,2), of dbt lib] by blast
  have "row_of d' i = None" using rows assms(3) c v by (simp add: apply_verdict_def)
  with d' n links show ?thesis by (metis (no_types, lifting) subrelI)
qed

text \<open>
  The dry run tells the truth: CountCancelByLibrary returns the two counts that CancelByLibrary
  then returns on the same database.
\<close>
theorem CountCancelByLibrary_agrees:
  assumes "db_wf d" and "all_readable d"
  shows "CountCancelByLibrary no_faults lib d = fst (CancelByLibrary no_faults dbt lib d)"
proof -
  have readable: "\<forall>(i, c)\<in>set (cancel_candidates d lib). c \<noteq> PathsCorrupt"
    using candidates_live [OF assms, of lib] by (auto simp: live_candidates_def)
  have "CountCancelByLibrary no_faults lib d =
      Inr (fst (tally (verdicts d lib (cancel_candidates d lib))),
           snd (tally (verdicts d lib (cancel_candidates d lib))))"
    by (simp add: CountCancelByLibrary_def cancelByLibrary_def cancel_loop_dry [OF readable] del: no_faults_app)
  moreover obtain d' where "cancel_loop no_faults dbt lib False 6 (cancel_candidates d lib) 0 0 d =
      (Inr (fst (tally (verdicts d lib (cancel_candidates d lib))),
            snd (tally (verdicts d lib (cancel_candidates d lib)))), d')"
    using cancel_loop_judges [OF assms(1) candidates_live [OF assms, of lib], of dbt lib 6 0 0] by auto
  ultimately show ?thesis
    by (simp add: CancelByLibrary_def cancelByLibrary_def del: no_faults_app)
qed

section \<open>A row shared by two libraries\<close>

definition sr_file :: "int \<Rightarrow> int \<Rightarrow> string \<Rightarrow> sr_row" where
  "sr_file i lib dir =
     \<lparr>sc_id = i, sc_library_id = lib, sc_file_path = dir @ ''/a.mp3'', sc_artist = ''Adele'', sc_title = ''Hello'',
      sc_outdir = dir, sc_filename = ''a.lrc'', sc_status = Processing, sc_created_at = 0\<rparr>"

definition lib_at :: "int \<Rightarrow> string \<Rightarrow> lib_row" where
  "lib_at i path = \<lparr>lb_id = i, lb_path = path, lb_name = path, lb_created_at = 0, lb_updated_at = 0\<rparr>"

definition two_libraries :: db where
  "two_libraries = empty_db\<lparr>libraries := [lib_at 1 ''/m'', lib_at 2 ''/n''], lib_seq := 2,
     scan_results := [sr_file 1 1 ''/m/x'', sr_file 2 2 ''/n/y''], sr_seq := 2\<rparr>"

definition both_enqueued :: db where
  "both_enqueued =
     snd (Enqueue ascii_env no_faults 0 0 (file_inputs ''/n/y'' 2) 0
       (snd (Enqueue ascii_env no_faults 0 0 (file_inputs ''/m/x'' 1) 0 two_libraries)))"

lemma db_wf_both_enqueued: "db_wf both_enqueued"
  unfolding both_enqueued_def
  by (intro Enqueue_wf) (simp add: wf_defs two_libraries_def lib_at_def sr_file_def empty_db_def ids_ok_def sr_key_def sr_ids_def)

lemma readable_both_enqueued: "all_readable both_enqueued"
proof -
  have "\<forall>r\<in>set (work_queue both_enqueued). readable r"
    by code_simp
  then show ?thesis by (simp add: all_readable_def)
qed

text \<open>Three waiting songs of the first library: one of its own, one with a file of each library, one of the second.\<close>

definition lrc_at :: "string \<Rightarrow> OutputPath" where
  "lrc_at dir = \<lparr>op_Outdir = dir, op_Filename = ''a.lrc''\<rparr>"

definition shared_row :: "int \<Rightarrow> string \<Rightarrow> OutputPath list \<Rightarrow> wq_row" where
  "shared_row i title ps = (excluded_row ascii_env (sample_inputs ''Adele'' title ''/m'') 0 0 0 i)\<lparr>wq_output_paths := PathsJSON ps\<rparr>"

definition shared_db :: db where
  "shared_db = empty_db\<lparr>libraries := [lib_at 1 ''/m'', lib_at 2 ''/n''], lib_seq := 2,
     scan_results := [sr_file 1 1 ''/m/a'', sr_file 2 1 ''/m/b'', sr_file 3 2 ''/n/b'', sr_file 4 1 ''/m/c'', sr_file 5 2 ''/n/c''],
     sr_seq := 5,
     work_queue := [shared_row 1 ''Hello'' [lrc_at ''/m/a''], shared_row 2 ''Skyfall'' [lrc_at ''/m/b'', lrc_at ''/n/b''],
       shared_row 3 ''Someone'' [lrc_at ''/n/c'']], wq_seq := 3,
     junction := [(1, 1), (2, 2), (2, 3), (3, 4), (3, 5)]\<rparr>"

lemma shared_db_ok: "db_wf shared_db" "all_readable shared_db"
proof -
  have "\<forall>r\<in>set (work_queue shared_db). readable r" by code_simp
  then show "all_readable shared_db" by (simp add: all_readable_def)
  show "db_wf shared_db" by code_simp
qed

theorem CancelByLibrary_refines_spec_witness:
  "\<exists>d'. CancelByLibrary no_faults 9 1 shared_db = (Inr (1, 1), d') \<and> row_of d' 1 = None \<and>
     row_of d' 2 = Some ((shared_row 2 ''Skyfall'' [lrc_at ''/n/b''])\<lparr>wq_updated_at := 9\<rparr>) \<and>
     row_of d' 3 = Some (shared_row 3 ''Someone'' [lrc_at ''/n/c'']) \<and> (1, 1) \<notin> set (junction d') \<and> (2, 2) \<in> set (junction d')"
proof -
  have n: "sql_count (\<lambda>r. cancellable shared_db 1 r \<and> verdict shared_db 1 (wq_id r) (wq_output_paths r) = DropRow)
      (work_queue shared_db) = 1"
    "sql_count (\<lambda>r. cancellable shared_db 1 r \<and> is_trim (verdict shared_db 1 (wq_id r) (wq_output_paths r)))
      (work_queue shared_db) = 1"
    by code_simp+
  have rows: "row_of shared_db 1 = Some (shared_row 1 ''Hello'' [lrc_at ''/m/a''])"
    "row_of shared_db 2 = Some (shared_row 2 ''Skyfall'' [lrc_at ''/m/b'', lrc_at ''/n/b''])"
    "row_of shared_db 3 = Some (shared_row 3 ''Someone'' [lrc_at ''/n/c''])"
    by (simp_all add: row_of_def shared_db_def shared_row_def excluded_row_def)
  have c: "cancellable shared_db 1 (shared_row 1 ''Hello'' [lrc_at ''/m/a''])"
    "cancellable shared_db 1 (shared_row 2 ''Skyfall'' [lrc_at ''/m/b'', lrc_at ''/n/b''])"
    "cancellable shared_db 1 (shared_row 3 ''Someone'' [lrc_at ''/n/c''])"
    by code_simp+
  have v: "verdict shared_db 1 1 (wq_output_paths (shared_row 1 ''Hello'' [lrc_at ''/m/a''])) = DropRow"
    "verdict shared_db 1 2 (wq_output_paths (shared_row 2 ''Skyfall'' [lrc_at ''/m/b'', lrc_at ''/n/b''])) = TrimRow [lrc_at ''/n/b'']"
    "verdict shared_db 1 3 (wq_output_paths (shared_row 3 ''Someone'' [lrc_at ''/n/c''])) = KeepRow"
    by code_simp+
  have j: "json_path (lrc_at ''/n/b'') = lrc_at ''/n/b''" by code_simp
  obtain d' where run: "CancelByLibrary no_faults 9 1 shared_db = (Inr (1, 1), d')"
    and r: "\<forall>i. row_of d' i = (case row_of shared_db i of None \<Rightarrow> None
       | Some r \<Rightarrow> if cancellable shared_db 1 r then apply_verdict 9 (verdict shared_db 1 i (wq_output_paths r)) r else Some r)"
    and links: "\<forall>i s. (i, s) \<in> set (junction d') \<longleftrightarrow> (i, s) \<in> set (junction shared_db) \<and> row_of d' i \<noteq> None"
    using CancelByLibrary_refines_spec [OF shared_db_ok, of 9 1] unfolding n by blast
  have "row_of d' 1 = None" "row_of d' 2 = Some ((shared_row 2 ''Skyfall'' [lrc_at ''/n/b''])\<lparr>wq_updated_at := 9\<rparr>)"
    "row_of d' 3 = Some (shared_row 3 ''Someone'' [lrc_at ''/n/c''])"
    using spec [OF r, of 1] spec [OF r, of 2] spec [OF r, of 3]
    by (simp_all add: rows c v apply_verdict_def j) (simp_all add: shared_row_def)
  moreover have "(2, 2) \<in> set (junction shared_db)" by (simp add: shared_db_def)
  ultimately show ?thesis using run links by blast
qed

theorem CountCancelByLibrary_agrees_witness:
  "CountCancelByLibrary no_faults 2 both_enqueued = fst (CancelByLibrary no_faults 0 2 both_enqueued) \<and>
   CountCancelByLibrary no_faults 2 both_enqueued = Inr (1, 0)"
  using CountCancelByLibrary_agrees [OF db_wf_both_enqueued readable_both_enqueued, of 2 0]
  by (intro conjI) (assumption, code_simp)

text \<open>
  C20. The queue keeps one row for a song that two libraries hold, and the row may list the paths of one of
  them only. Whenever a waiting row is linked to the cancelled library and none of its paths is that of a
  linked result of another library, cancelling drops the row: a result of another library that is linked to
  this row alone, and in processing because of it, stays in processing with no row of the queue left for it.
\<close>
theorem cancel_drops_row_shared_with_other_library:
  assumes "db_wf d" and "all_readable d" and "row_of d i = Some r" and "retryable r" and "linked_to_library d lib r"
    and "\<forall>s\<in>set (scan_results d). (i, sc_id s) \<in> set (junction d) \<and> sc_library_id s \<noteq> lib \<longrightarrow>
      (\<forall>p\<in>set (row_paths (wq_output_paths r)). outputPathKey p \<noteq> outputPathKey \<lparr>op_Outdir = sc_outdir s, op_Filename = sc_filename s\<rparr>)"
    and "other \<in> set (scan_results d)" and "sc_library_id other \<noteq> lib" and "sc_status other = Processing"
    and "\<forall>j. (j, sc_id other) \<in> set (junction d) \<longleftrightarrow> j = i"
  shows "\<exists>n m d'. CancelByLibrary no_faults dbt lib d = (Inr (n, m), d') \<and> 1 \<le> n \<and> row_of d' i = None \<and>
    other \<in> set (scan_results d') \<and> (\<forall>j. (j, sc_id other) \<notin> set (junction d'))"
proof -
  obtain n m d' where run: "CancelByLibrary no_faults dbt lib d = (Inr (n, m), d')" "1 \<le> n" "row_of d' i = None"
    "scan_results d' = scan_results d" "set (junction d') \<subseteq> set (junction d)" "\<forall>s. (i, s) \<notin> set (junction d')"
    using cancel_drops [OF assms(1-5), of dbt] assms(6) by blast
  have "(j, sc_id other) \<notin> set (junction d')" for j
  proof
    assume j: "(j, sc_id other) \<in> set (junction d')"
    with run(5) have "(j, sc_id other) \<in> set (junction d)" ..
    with assms(10) have "j = i" by blast
    with j run(6) show False by blast
  qed
  with run assms(7) show ?thesis by metis
qed

theorem cancel_drops_row_shared_with_other_library_witness:
  "\<exists>n m d'. CancelByLibrary no_faults 0 2 both_enqueued = (Inr (n, m), d') \<and> row_of d' 1 = None \<and>
     sr_file 1 1 ''/m/x'' \<in> set (scan_results d') \<and> (\<forall>j. (j, 1) \<notin> set (junction d'))"
proof -
  have r: "row_of both_enqueued 1 = Some (hd (work_queue both_enqueued))"
    and live: "retryable (hd (work_queue both_enqueued))"
    and lib: "linked_to_library both_enqueued 2 (hd (work_queue both_enqueued))"
    and paths: "\<forall>s\<in>set (scan_results both_enqueued). (1, sc_id s) \<in> set (junction both_enqueued) \<and> sc_library_id s \<noteq> 2 \<longrightarrow>
      (\<forall>p\<in>set (row_paths (wq_output_paths (hd (work_queue both_enqueued)))).
         outputPathKey p \<noteq> outputPathKey \<lparr>op_Outdir = sc_outdir s, op_Filename = sc_filename s\<rparr>)"
    and mem: "sr_file 1 1 ''/m/x'' \<in> set (scan_results both_enqueued)"
    and j: "set (junction both_enqueued) = {(1, 1), (1, 2)}"
    by code_simp+
  have "\<forall>j. (j, sc_id (sr_file 1 1 ''/m/x'')) \<in> set (junction both_enqueued) \<longleftrightarrow> j = 1"
    unfolding j by (auto simp: sr_file_def)
  from cancel_drops_row_shared_with_other_library [OF db_wf_both_enqueued readable_both_enqueued r live lib paths mem _ _ this, of 0]
  show ?thesis by (auto simp: sr_file_def)
qed

text \<open>
  The comment on \<open>CancelByLibrary\<close> promises to retain the paths that appear in scan results of other
  libraries; a result that is not linked to the row does not count: the row is dropped although the result of
  another library names its very path.
\<close>

lemma cancel_ignores_unlinked_results:
  assumes "db_wf d" "all_readable d" "row_of d i = Some r" "retryable r" "linked_to_library d lib r"
    and "wq_output_paths r = PathsJSON [\<lparr>op_Outdir = sc_outdir other, op_Filename = sc_filename other\<rparr>]"
    and "other \<in> set (scan_results d)" "sc_library_id other \<noteq> lib"
    and "\<forall>s\<in>set (scan_results d). (i, sc_id s) \<in> set (junction d) \<longrightarrow> sc_library_id s = lib"
  shows "\<exists>n m d'. CancelByLibrary no_faults dbt lib d = (Inr (n, m), d') \<and> row_of d' i = None"
  using cancel_drops [OF assms(1-5), of dbt] assms(9) by blast

end
