(* ===== verification/Go_Time.thy ===== *)
theory Go_Time
  imports Go_Base Backoff
begin

text \<open>
  \<open>Time.UTC().Format(time.RFC3339)\<close>: the proleptic Gregorian date of a number of nanoseconds since 1970,
  and its text. Years before 0 and after 9999 are printed as Go prints them.
\<close>

text \<open>The year, month and day of a day number, counted in 400-year cycles from March 1st of year 0.\<close>

definition civil :: "int \<Rightarrow> int \<times> int \<times> int" where
  "civil days =
     (let z = days + 719468;
          era = z div 146097;
          doe = z mod 146097;
          yoe = (doe - doe div 1460 + doe div 36524 - doe div 146096) div 365;
          doy = doe - (365 * yoe + yoe div 4 - yoe div 100);
          mp = (5 * doy + 2) div 153;
          m = (if mp < 10 then mp + 3 else mp - 9)
      in (yoe + era * 400 + (if m \<le> 2 then 1 else 0), m, doy - (153 * mp + 2) div 5 + 1))"

definition pad :: "nat \<Rightarrow> int \<Rightarrow> string" where
  "pad w n = (let ds = digits10 \<bar>n\<bar> in (if n < 0 then ''-'' else '''') @ replicate (w - length ds) (CHR ''0'') @ ds)"

definition FormatRFC3339 :: "int \<Rightarrow> string" where
  "FormatRFC3339 t =
     (let secs = t div Second; r = secs mod 86400; (y, m, d) = civil (secs div 86400)
      in pad 4 y @ ''-'' @ pad 2 m @ ''-'' @ pad 2 d @ ''T'' @ pad 2 (r div 3600) @ '':'' @ pad 2 (r mod 3600 div 60) @
         '':'' @ pad 2 (r mod 60) @ ''Z'')"

lemma sample_dates:
  "FormatRFC3339 0 = ''1970-01-01T00:00:00Z''"
  "FormatRFC3339 (1709251199 * Second) = ''2024-02-29T23:59:59Z''"
  "FormatRFC3339 (4107542400 * Second + 5) = ''2100-03-01T00:00:00Z''"
  "FormatRFC3339 (- 1) = ''1969-12-31T23:59:59Z''"
  by code_simp+

end
