(* ===== verification/Commands_DB.thy ===== *)
theory Commands_DB
  imports Db_Open Config_Cmd Auth_Keys Queue_Cancel Go_Time
begin

text \<open>
  The commands of \<open>internal/commands/commands.go\<close> that work on the database alone: \<open>library\<close>, \<open>keys\<close>,
  \<open>queue\<close>, \<open>scan results\<close> and \<open>scan clear\<close>. A command maps the disk to its exit code, what it printed
  and the disk it leaves; what goes to the log is left out. A struct of nested subcommands is a record
  with one optional field for each, as in the code.
\<close>

section \<open>The environment of a command\<close>

text \<open>
  \<open>ce_io k\<close> has the driver errors of the \<open>k\<close>-th operation, \<open>ce_open\<close> those of \<open>db.Open\<close>, \<open>ce_flush\<close> the
  error of writing the aligned table. A table is the text that the code hands to \<open>text/tabwriter\<close>;
  \<open>Torn\<close> is a table whose writing failed.
\<close>

record cmd_env =
  ce_os :: os_env
  ce_format :: "float64 \<Rightarrow> string"
  ce_open :: io
  ce_io :: "nat \<Rightarrow> io"
  ce_now :: int
  ce_dbt :: int
  ce_kdf :: kdf
  ce_rand :: "string res"
  ce_flush :: "goerr option"

datatype printed = Silent | Text string | Table string | Torn

definition tabbed :: "string list \<Rightarrow> string" where
  "tabbed cells = line (JoinStr cells [CHR 0x09])"

definition say :: "string \<Rightarrow> printed" where "say s = Text (line s)"

text \<open>The prologue of every command: the configuration, then its database.\<close>

definition with_db :: "cmd_env \<Rightarrow> string \<Rightarrow> (db \<Rightarrow> int \<times> printed \<times> db) \<Rightarrow> disk \<Rightarrow> int \<times> printed \<times> disk" where
  "with_db E configPath f D =
     (case LoadConfig (ce_os E) configPath of Inl e \<Rightarrow> (1, Silent, D)
      | Inr cfg \<Rightarrow>
        (case db_Open (ce_open E) (dc_Path (cf_DB cfg)) D of
           (Inl e, D1) \<Rightarrow> (1, Silent, D1)
         | (Inr d, D1) \<Rightarrow> (case f d of (code, out, d') \<Rightarrow> (code, out, D1(dc_Path (cf_DB cfg) \<mapsto> d')))))"

section \<open>Libraries\<close>

record LibraryAddCmd = la_Path :: string la_Name :: string la_ConfigPath :: string
record LibraryListCmd = ll_ConfigPath :: string
record LibraryRemoveCmd = lr_ID :: int lr_ConfigPath :: string
record LibraryUpdateCmd = lu_ID :: int lu_Path :: string lu_Name :: string lu_ConfigPath :: string

record LibraryCmd =
  lc_Add :: "LibraryAddCmd option"
  lc_List :: "LibraryListCmd option"
  lc_Remove :: "LibraryRemoveCmd option"
  lc_Update :: "LibraryUpdateCmd option"

definition libraryConfigPath :: "LibraryCmd \<Rightarrow> string" where
  "libraryConfigPath args =
     (case lc_Add args of Some a \<Rightarrow> la_ConfigPath a | None \<Rightarrow>
     (case lc_List args of Some a \<Rightarrow> ll_ConfigPath a | None \<Rightarrow>
     (case lc_Remove args of Some a \<Rightarrow> lr_ConfigPath a | None \<Rightarrow>
     (case lc_Update args of Some a \<Rightarrow> lu_ConfigPath a | None \<Rightarrow> ''''))))"

definition library_line :: "Library \<Rightarrow> string" where
  "library_line v = tabbed [Itoa (lib_ID v), lib_Name v, lib_Path v]"

definition library_body :: "cmd_env \<Rightarrow> LibraryCmd \<Rightarrow> db \<Rightarrow> int \<times> printed \<times> db" where
  "library_body E args d =
     (case lc_Add args of
        Some a \<Rightarrow>
          (let name = (if la_Name a = '''' then Base (Clean (la_Path a)) else la_Name a) in
           case LibAdd (ce_io E 0) (ce_dbt E) (la_Path a) name d of
             (Inl e, d') \<Rightarrow> (1, Silent, d')
           | (Inr v, d') \<Rightarrow> (0, Text (library_line v), d'))
      | None \<Rightarrow>
     (case lc_List args of
        Some a \<Rightarrow>
          (case LibList (ce_io E 0) d of
             Inl e \<Rightarrow> (1, Silent, d)
           | Inr libs \<Rightarrow> (0, Text (concat (map library_line libs)), d))
      | None \<Rightarrow>
     (case lc_Remove args of
        Some a \<Rightarrow>
          (case LibRemove (ce_io E 0) (ce_dbt E) (lr_ID a) d of
             (Inl e, d') \<Rightarrow> (1, Silent, d')
           | (Inr _, d') \<Rightarrow> (0, say (''removed library '' @ Itoa (lr_ID a)), d'))
      | None \<Rightarrow>
     (case lc_Update args of
        Some a \<Rightarrow>
          (if lu_Path a = '''' \<and> lu_Name a = ''''
           then (2, say ''library update requires --path, --name, or both'', d)
           else case LibGet (ce_io E 0) 0 (lu_ID a) d of
             Inl e \<Rightarrow> (1, if errors_Is e SqlErrNoRows then say (''library '' @ Itoa (lu_ID a) @ '' not found'') else Silent, d)
           | Inr v \<Rightarrow>
              (let path = (if lu_Path a \<noteq> '''' then lu_Path a else lib_Path v);
                   name = (if lu_Name a \<noteq> '''' then lu_Name a else lib_Name v)
               in case LibUpdate (ce_io E 1) (ce_dbt E) (lu_ID a) path name d of
                    (Inl e, d') \<Rightarrow> (1, Silent, d')
                  | (Inr v', d') \<Rightarrow> (0, Text (library_line v'), d')))
      | None \<Rightarrow> (2, say ''missing library subcommand'', d)))))"

definition runLibrary :: "cmd_env \<Rightarrow> LibraryCmd \<Rightarrow> disk \<Rightarrow> int \<times> printed \<times> disk" where
  "runLibrary E args = with_db E (libraryConfigPath args) (library_body E args)"

section \<open>Keys\<close>

record KeysCreateCmd = kc_Name :: string kc_Scopes :: "string list" kc_ConfigPath :: string
record KeysListCmd = kl_ConfigPath :: string
record KeysRevokeCmd = kr_Key :: string kr_ConfigPath :: string

record KeysCmd =
  ks_Create :: "KeysCreateCmd option"
  ks_List :: "KeysListCmd option"
  ks_Revoke :: "KeysRevokeCmd option"

definition keysConfigPath :: "KeysCmd \<Rightarrow> string" where
  "keysConfigPath args =
     (case ks_Create args of Some a \<Rightarrow> kc_ConfigPath a | None \<Rightarrow>
     (case ks_List args of Some a \<Rightarrow> kl_ConfigPath a | None \<Rightarrow>
     (case ks_Revoke args of Some a \<Rightarrow> kr_ConfigPath a | None \<Rightarrow> '''')))"

definition parseScopes :: "string list \<Rightarrow> Scope list res" where
  "parseScopes values =
     (let values = (if values = [] then [ScopeWebhook] else values) in NormalizeScopes values)"

definition encodeScopes_sorted :: "Scope list \<Rightarrow> string" where
  "encodeScopes_sorted scopes = JoinStr (sort scopes) '',''"

definition key_line :: "Key \<Rightarrow> string" where
  "key_line v =
     tabbed [ky_ID v, ky_Name v, encodeScopes_sorted (ky_Scopes v),
       (case ky_RevokedAt v of None \<Rightarrow> '''' | Some t \<Rightarrow> FormatRFC3339 t)]"

definition keys_body :: "cmd_env \<Rightarrow> KeysCmd \<Rightarrow> db \<Rightarrow> int \<times> printed \<times> db" where
  "keys_body E args d =
     (let svc = NewService (sql_store (ce_io E 0)) (ce_rand E) (ce_now E) in
      case ks_Create args of
        Some a \<Rightarrow>
          (case parseScopes (kc_Scopes a) of Inl e \<Rightarrow> (1, Silent, d)
           | Inr scopes \<Rightarrow>
              (case CreateKey (ce_kdf E) svc (kc_Name a) scopes d of
                 (Inl e, d') \<Rightarrow> (1, Silent, d')
               | (Inr created, d') \<Rightarrow> (0, say (ck_Raw created), d')))
      | None \<Rightarrow>
     (case ks_List args of
        Some a \<Rightarrow>
          (case ListKeys svc d of
             Inl e \<Rightarrow> (1, Silent, d)
           | Inr keys \<Rightarrow> (0, Text (concat (map key_line keys)), d))
      | None \<Rightarrow>
     (case ks_Revoke args of
        Some a \<Rightarrow>
          (case RevokeKey (ce_kdf E) svc (kr_Key a) d of
             (Inl e, d') \<Rightarrow> (1, Silent, d')
           | (Inr key, d') \<Rightarrow> (0, say (''revoked '' @ ky_ID key), d'))
      | None \<Rightarrow> (2, say ''missing keys subcommand'', d))))"

definition runKeys :: "cmd_env \<Rightarrow> KeysCmd \<Rightarrow> disk \<Rightarrow> int \<times> printed \<times> disk" where
  "runKeys E args = with_db E (keysConfigPath args) (keys_body E args)"

section \<open>Resolving a library\<close>

definition resolveLibrary :: "(nat \<Rightarrow> io) \<Rightarrow> string \<Rightarrow> db \<Rightarrow> Library res" where
  "resolveLibrary ios ref0 d =
     (let ref = TrimSpace ref0 in
      if ref = '''' then Inl (New ''library reference must not be empty'')
      else case Atoi ref of
        Inl _ \<Rightarrow> GetByName (ios 0) ref d
      | Inr i \<Rightarrow>
         (case (LibGet (ios 0) 0 i d, GetByName (ios 1) ref d) of
            (Inr byID, Inr byName) \<Rightarrow>
              (if lib_ID byID = lib_ID byName then Inr byID
               else Inl (New (''library reference '' @ Quoted ref @ '' is ambiguous: matches id '' @ Itoa (lib_ID byID) @
                 '' and name '' @ Quoted (lib_Name byName) @ '' (id '' @ Itoa (lib_ID byName) @
                 ''); pass an unambiguous form'')))
          | (Inr byID, Inl nameErr) \<Rightarrow> (if \<not> errors_Is nameErr SqlErrNoRows then Inl nameErr else Inr byID)
          | (Inl idErr, Inr byName) \<Rightarrow> (if \<not> errors_Is idErr SqlErrNoRows then Inl idErr else Inr byName)
          | (Inl idErr, Inl nameErr) \<Rightarrow>
              (if errors_Is idErr SqlErrNoRows \<and> errors_Is nameErr SqlErrNoRows
               then Inl (Errorf (''library reference '' @ Quoted ref @ '': '') (Sen SqlErrNoRows) '''')
               else if \<not> errors_Is idErr SqlErrNoRows then Inl idErr
               else Inl nameErr)))"

section \<open>The queue\<close>

definition validateQueueStatus :: "string \<Rightarrow> goerr option" where
  "validateQueueStatus s =
     (if s = '''' then None
      else if s = ''pending'' \<or> s = ''processing'' \<or> s = ''failed'' \<or> s = ''done'' then None
      else Some (New (''invalid status '' @ Quoted s @ '' (want pending, processing, failed, or done)'')))"

definition validateScanStatus :: "string \<Rightarrow> goerr option" where
  "validateScanStatus s =
     (if s = '''' then None
      else if s = ''pending'' \<or> s = ''processing'' \<or> s = ''done'' then None
      else Some (New (''invalid status '' @ Quoted s @ '' (want pending, processing, or done)'')))"

definition truncate_text :: "string \<Rightarrow> int \<Rightarrow> string" where
  "truncate_text s n =
     (if n \<le> 0 \<or> int (length s) \<le> n then s
      else if n \<le> 3 then take (nat n) s
      else take (nat (n - 3)) s @ ''...'')"

record QueueListCmd = ql_Status :: string ql_Limit :: int ql_ConfigPath :: string
record QueueFailedCmd = qf_Limit :: int qf_ConfigPath :: string
record QueueRetryCmd = qr_ID :: int qr_ConfigPath :: string
record QueueClearCmd = qc_Done :: bool qc_Yes :: bool qc_ConfigPath :: string

record QueueCmd =
  qs_List :: "QueueListCmd option"
  qs_Failed :: "QueueFailedCmd option"
  qs_Retry :: "QueueRetryCmd option"
  qs_Clear :: "QueueClearCmd option"

definition item_line :: "WorkItem \<Rightarrow> string" where
  "item_line item =
     tabbed [Itoa (wi_ID item), status_text (wi_Status item), Itoa (wi_Priority item), Itoa (wi_Attempts item),
       FormatRFC3339 (wi_NextAttemptAt item), tr_ArtistName (in_Track (wi_Inputs item)),
       tr_TrackName (in_Track (wi_Inputs item)), truncate_text (wi_LastError item) 80]"

text \<open>What a listing prints, unless writing it fails.\<close>

definition flush :: "cmd_env \<Rightarrow> string \<Rightarrow> 'd \<Rightarrow> int \<times> printed \<times> 'd" where
  "flush E text d = (case ce_flush E of Some e \<Rightarrow> (1, Torn, d) | None \<Rightarrow> (0, Table text, d))"

definition runQueueList :: "cmd_env \<Rightarrow> QueueListCmd \<Rightarrow> disk \<Rightarrow> int \<times> printed \<times> disk" where
  "runQueueList E args D =
     (case validateQueueStatus (ql_Status args) of Some e \<Rightarrow> (2, say (Error e), D)
      | None \<Rightarrow>
        with_db E (ql_ConfigPath args) (\<lambda>d.
          let limit = (if ql_Limit args < 0 then 0 else ql_Limit args) in
          case QueueList (ce_io E 0) \<lparr>lf_Status = ql_Status args, lf_Limit = limit\<rparr> d of
            Inl e \<Rightarrow> (1, Silent, d)
          | Inr items \<Rightarrow>
             flush E (tabbed [''ID'', ''Status'', ''Priority'', ''Attempts'', ''NextAttempt'', ''Artist'', ''Title'', ''LastError''] @
               concat (map item_line items)) d) D)"

definition runQueueRetry :: "cmd_env \<Rightarrow> QueueRetryCmd \<Rightarrow> disk \<Rightarrow> int \<times> printed \<times> disk" where
  "runQueueRetry E args =
     with_db E (qr_ConfigPath args) (\<lambda>d.
       case Retry (ce_io E 0) (ce_now E) (ce_dbt E) (qr_ID args) d of
         (Inl e, d') \<Rightarrow>
           (1, (if errors_Is e SqlErrNoRows then say (''queue: work item '' @ Itoa (qr_ID args) @ '' not found'')
                else if errors_Is e ErrNotRetryable
                then say (''queue: work item '' @ Itoa (qr_ID args) @ '' is not in failed status; refusing to retry'')
                else Silent), d')
       | (Inr item, d') \<Rightarrow>
           (0, say (''retried '' @ Itoa (wi_ID item) @ '' (status='' @ status_text (wi_Status item) @ '', attempts='' @
             Itoa (wi_Attempts item) @ '')''), d'))"

definition runQueueClear :: "cmd_env \<Rightarrow> QueueClearCmd \<Rightarrow> disk \<Rightarrow> int \<times> printed \<times> disk" where
  "runQueueClear E args D =
     (if \<not> qc_Done args then (2, say ''queue clear requires --done'', D)
      else with_db E (qc_ConfigPath args) (\<lambda>d.
        if \<not> qc_Yes args
        then (case CountDone (ce_io E 0) d of
                Inl e \<Rightarrow> (1, Silent, d)
              | Inr n \<Rightarrow> (0, say (''would delete '' @ Itoa n @ '' completed queue rows; pass --yes to confirm''), d))
        else (case ClearDone (ce_io E 0) d of
                (Inl e, d') \<Rightarrow> (1, Silent, d')
              | (Inr n, d') \<Rightarrow> (0, say (''deleted '' @ Itoa n @ '' completed queue rows''), d'))) D)"

definition runQueueCmd :: "cmd_env \<Rightarrow> QueueCmd \<Rightarrow> disk \<Rightarrow> int \<times> printed \<times> disk" where
  "runQueueCmd E args D =
     (case qs_List args of Some a \<Rightarrow> runQueueList E a D | None \<Rightarrow>
     (case qs_Failed args of
        Some a \<Rightarrow> runQueueList E \<lparr>ql_Status = ''failed'', ql_Limit = qf_Limit a, ql_ConfigPath = qf_ConfigPath a\<rparr> D
      | None \<Rightarrow>
     (case qs_Retry args of Some a \<Rightarrow> runQueueRetry E a D | None \<Rightarrow>
     (case qs_Clear args of Some a \<Rightarrow> runQueueClear E a D | None \<Rightarrow>
       (2, say ''missing queue subcommand'', D)))))"


section \<open>Scan results\<close>

record ScanResultsCmd = sl_Library :: string sl_Status :: string sl_Limit :: int sl_ConfigPath :: string
record ScanClearCmd = sx_Library :: string sx_Yes :: bool sx_ConfigPath :: string

definition not_found :: "string \<Rightarrow> printed" where
  "not_found ref = say (''library '' @ Quoted ref @ '' not found'')"

definition result_line :: "(int \<Rightarrow> string option) \<Rightarrow> ScanResult \<Rightarrow> string" where
  "result_line libNames r =
     tabbed [Itoa (sr_ID r), (case libNames (sr_LibraryID r) of Some name \<Rightarrow> name | None \<Rightarrow> Itoa (sr_LibraryID r)),
       sr_Status r, tr_ArtistName (sr_Track r), tr_TrackName (sr_Track r), sr_FilePath r, sr_Outdir r, sr_Filename r]"

text \<open>The library filter with the names to show, or the exit of the command.\<close>

definition results_filter :: "cmd_env \<Rightarrow> ScanResultsCmd \<Rightarrow> db \<Rightarrow> printed + int option \<times> (int \<Rightarrow> string option)" where
  "results_filter E args d =
     (if TrimSpace (sl_Library args) \<noteq> ''''
      then (case resolveLibrary (ce_io E) (sl_Library args) d of
              Inl e \<Rightarrow> Inl (if errors_Is e SqlErrNoRows then not_found (sl_Library args) else Silent)
            | Inr v \<Rightarrow> Inr (Some (lib_ID v), [lib_ID v \<mapsto> lib_Name v]))
      else (case LibList (ce_io E 0) d of
              Inl e \<Rightarrow> Inl Silent
            | Inr libs \<Rightarrow> Inr (None, fold (\<lambda>v m. m(lib_ID v \<mapsto> lib_Name v)) libs Map.empty)))"

definition runScanResults :: "cmd_env \<Rightarrow> ScanResultsCmd \<Rightarrow> disk \<Rightarrow> int \<times> printed \<times> disk" where
  "runScanResults E args D =
     (case validateScanStatus (sl_Status args) of Some e \<Rightarrow> (2, say (Error e), D)
      | None \<Rightarrow>
        with_db E (sl_ConfigPath args) (\<lambda>d.
          case results_filter E args d of
            Inl out \<Rightarrow> (1, out, d)
          | Inr (libraryID, libNames) \<Rightarrow>
             (case ScanList (ce_io E 2) \<lparr>sf_LibraryID = libraryID, sf_Status = sl_Status args, sf_Limit = sl_Limit args\<rparr> d of
                Inl e \<Rightarrow> (1, Silent, d)
              | Inr results \<Rightarrow>
                 flush E (tabbed [''ID'', ''Library'', ''Status'', ''Artist'', ''Title'', ''FilePath'', ''OutDir'', ''Filename''] @
                   concat (map (result_line libNames) results)) d)) D)"

text \<open>
  The calls of the transaction: \<open>ce_io E 4 0\<close> is the error of BeginTx, \<open>ce_io E 4 1\<close> that of Commit. On
  every error in between the deferred Rollback restores the tables.
\<close>

definition scan_clear_tx :: "cmd_env \<Rightarrow> int \<Rightarrow> db \<Rightarrow> (int \<times> int \<times> int) res \<times> db" where
  "scan_clear_tx E i d =
     (case ce_io E 4 0 of Some e \<Rightarrow> (Inl e, d) | None \<Rightarrow>
     (case CancelByLibraryTx (ce_io E 5) (ce_dbt E) i d of
        (Inl e, _) \<Rightarrow> (Inl e, d)
      | (Inr (qDel, qUpd), d1) \<Rightarrow>
         (case ClearByLibraryTx (ce_io E 6) (ce_dbt E) i d1 of
            (Inl e, _) \<Rightarrow> (Inl e, d)
          | (Inr deleted, d2) \<Rightarrow>
             (case ce_io E 4 1 of Some e \<Rightarrow> (Inl e, d) | None \<Rightarrow> (Inr (deleted, qDel, qUpd), d2)))))"

definition scan_clear_count :: "cmd_env \<Rightarrow> int \<Rightarrow> db \<Rightarrow> (int \<times> int \<times> int) res" where
  "scan_clear_count E i d =
     (case CountByLibrary (ce_io E 2) i d of Inl e \<Rightarrow> Inl e
      | Inr n \<Rightarrow> (case CountCancelByLibrary (ce_io E 3) i d of Inl e \<Rightarrow> Inl e | Inr (qDel, qUpd) \<Rightarrow> Inr (n, qDel, qUpd)))"

definition would_clear :: "int \<times> int \<times> int \<Rightarrow> Library \<Rightarrow> string" where
  "would_clear c v = (case c of (n, qDel, qUpd) \<Rightarrow>
     ''would delete '' @ Itoa n @ '' scan_results rows and cancel '' @ Itoa qDel @ '' / update '' @ Itoa qUpd @
     '' work_queue rows for library '' @ Quoted (lib_Name v) @ '' (id='' @ Itoa (lib_ID v) @ ''); pass --yes to confirm'')"

definition cleared :: "int \<times> int \<times> int \<Rightarrow> Library \<Rightarrow> string" where
  "cleared c v = (case c of (n, qDel, qUpd) \<Rightarrow>
     ''deleted '' @ Itoa n @ '' scan_results rows and canceled '' @ Itoa qDel @ '' / updated '' @ Itoa qUpd @
     '' work_queue rows for library '' @ Quoted (lib_Name v) @ '' (id='' @ Itoa (lib_ID v) @ '')'')"

definition scan_clear_body :: "cmd_env \<Rightarrow> ScanClearCmd \<Rightarrow> db \<Rightarrow> int \<times> printed \<times> db" where
  "scan_clear_body E args d =
     (case resolveLibrary (ce_io E) (sx_Library args) d of
        Inl e \<Rightarrow> (1, if errors_Is e SqlErrNoRows then not_found (sx_Library args) else Silent, d)
      | Inr v \<Rightarrow>
         (if \<not> sx_Yes args
          then (case scan_clear_count E (lib_ID v) d of Inl e \<Rightarrow> (1, Silent, d) | Inr c \<Rightarrow> (0, say (would_clear c v), d))
          else (case scan_clear_tx E (lib_ID v) d of
                  (Inl e, d') \<Rightarrow> (1, Silent, d')
                | (Inr c, d') \<Rightarrow> (0, say (cleared c v), d'))))"

definition runScanClear :: "cmd_env \<Rightarrow> ScanClearCmd \<Rightarrow> disk \<Rightarrow> int \<times> printed \<times> disk" where
  "runScanClear E args = with_db E (sx_ConfigPath args) (scan_clear_body E args)"


section \<open>The databases stay well-formed\<close>

lemma with_db_wf:
  assumes "disk_wf D" "\<And>d. db_wf d \<Longrightarrow> db_wf (snd (snd (f d)))"
  shows "disk_wf (snd (snd (with_db E p f D)))"
proof (cases "LoadConfig (ce_os E) p")
  case (Inl e)
  with assms(1) show ?thesis by (simp add: with_db_def)
next
  case (Inr cfg)
  obtain r D1 where o: "db_Open (ce_open E) (dc_Path (cf_DB cfg)) D = (r, D1)" by (cases "db_Open (ce_open E) (dc_Path (cf_DB cfg)) D")
  have D1: "disk_wf D1" by (rule db_Open_wf [OF assms(1) o])
  show ?thesis
  proof (cases r)
    case (Inl e)
    with Inr o D1 show ?thesis by (simp add: with_db_def)
  next
    case r: (Inr d)
    then have "d = tables_at D (dc_Path (cf_DB cfg))" using db_Open_content [OF o] by blast
    then have "db_wf (snd (snd (f d)))" by (intro assms(2)) (simp add: disk_wf_tables assms(1))
    with Inr o r D1 show ?thesis by (cases "f d") (simp add: with_db_def disk_wf_upd)
  qed
qed

text \<open>A command that leaves the rows alone on an exit code of its own leaves them alone on that of its prologue.\<close>

lemma with_db_rows:
  assumes "with_db E p f D = (code, out, D')"
    and "\<And>d out d'. f d = (code, out, d') \<Longrightarrow> d' = d"
  shows "tables_at D' q = tables_at D q"
proof (cases "LoadConfig (ce_os E) p")
  case (Inl e)
  with assms(1) show ?thesis by (simp add: with_db_def)
next
  case (Inr cfg)
  obtain r D1 where o: "db_Open (ce_open E) (dc_Path (cf_DB cfg)) D = (r, D1)" by (cases "db_Open (ce_open E) (dc_Path (cf_DB cfg)) D")
  note c = db_Open_content [OF o]
  show ?thesis
  proof (cases r)
    case (Inl e)
    with Inr o c assms(1) show ?thesis by (simp add: with_db_def)
  next
    case r: (Inr d)
    with Inr o assms(1) obtain d' where f: "f d = (code, out, d')" "D' = D1(dc_Path (cf_DB cfg) \<mapsto> d')"
      by (auto simp: with_db_def split: prod.splits)
    with assms(2) [OF f(1)] c r show ?thesis by simp
  qed
qed

lemma wf_snd: "db_wf (snd x) \<Longrightarrow> x = (a, b) \<Longrightarrow> db_wf b"
  by simp

lemma CreateKey_wf: "db_wf d \<Longrightarrow> db_wf (snd (CreateKey kdf (NewService (sql_store io) rnd now) name scopes d))"
  unfolding CreateKey_def NewService_def sql_store_def
  by (auto simp: Let_def split: sum.splits prod.splits intro: SQLCreate_wf [THEN wf_snd, rotated])

lemma RevokeKey_wf: "db_wf d \<Longrightarrow> db_wf (snd (RevokeKey kdf (NewService (sql_store io) rnd now) raw d))"
  unfolding RevokeKey_def NewService_def sql_store_def
  by (auto simp: Let_def split: sum.splits intro: wf_intros)

lemma ClearByLibraryTx_wf [wf_intros]: "db_wf d \<Longrightarrow> db_wf (snd (ClearByLibraryTx io dbt lib d))"
  by (auto simp: ClearByLibraryTx_def Let_def intro!: db_wf_drv db_wf_sr_delete)

lemmas op_wf = LibAdd_wf [THEN wf_snd, rotated] LibUpdate_wf [THEN wf_snd, rotated] LibRemove_wf [THEN wf_snd, rotated]
  CreateKey_wf [THEN wf_snd, rotated] RevokeKey_wf [THEN wf_snd, rotated] Retry_wf [THEN wf_snd, rotated]
  ClearDone_wf [THEN wf_snd, rotated] CancelByLibraryTx_wf [THEN wf_snd, rotated] ClearByLibraryTx_wf [THEN wf_snd, rotated]

text \<open>The case distinctions of a command, as rules for the tables it leaves.\<close>

lemma wf_option: "(x = None \<Longrightarrow> db_wf (snd (snd a))) \<Longrightarrow> (\<And>y. x = Some y \<Longrightarrow> db_wf (snd (snd (f y)))) \<Longrightarrow>
    db_wf (snd (snd (case x of None \<Rightarrow> a | Some y \<Rightarrow> f y)))"
  by (cases x) auto

lemma wf_sum: "(\<And>y. x = Inl y \<Longrightarrow> db_wf (snd (snd (f y)))) \<Longrightarrow> (\<And>y. x = Inr y \<Longrightarrow> db_wf (snd (snd (g y)))) \<Longrightarrow>
    db_wf (snd (snd (case x of Inl y \<Rightarrow> f y | Inr y \<Rightarrow> g y)))"
  by (cases x) auto

lemma wf_prod: "(\<And>r d. x = (r, d) \<Longrightarrow> db_wf (snd (snd (f r d)))) \<Longrightarrow> db_wf (snd (snd (case x of (r, d) \<Rightarrow> f r d)))"
  by (cases x) auto

lemma wf_if: "(b \<Longrightarrow> db_wf (snd (snd x))) \<Longrightarrow> (\<not> b \<Longrightarrow> db_wf (snd (snd y))) \<Longrightarrow> db_wf (snd (snd (if b then x else y)))"
  by simp

lemma wf_exit: "db_wf d \<Longrightarrow> db_wf (snd (snd (code, out, d)))"
  by simp

lemmas cmd_wf = wf_option wf_sum wf_prod wf_if wf_exit

lemma library_body_wf: "db_wf d \<Longrightarrow> db_wf (snd (snd (library_body E args d)))"
  unfolding library_body_def Let_def by (intro cmd_wf) (assumption | erule op_wf)+

lemma keys_body_wf: "db_wf d \<Longrightarrow> db_wf (snd (snd (keys_body E args d)))"
  unfolding keys_body_def Let_def by (intro cmd_wf) (assumption | erule op_wf)+

lemma scan_clear_tx_wf: "scan_clear_tx E i d = (r, d') \<Longrightarrow> db_wf d \<Longrightarrow> db_wf d'"
  by (auto simp: scan_clear_tx_def split: option.splits sum.splits prod.splits dest!: op_wf)

lemma scan_clear_body_wf: "db_wf d \<Longrightarrow> db_wf (snd (snd (scan_clear_body E args d)))"
  unfolding scan_clear_body_def by (intro cmd_wf) (assumption | erule scan_clear_tx_wf)+

lemma flush_disk [simp]: "snd (snd (flush E text d)) = d"
  by (simp add: flush_def split: option.split)

lemma runLibrary_wf: "disk_wf D \<Longrightarrow> disk_wf (snd (snd (runLibrary E args D)))"
  unfolding runLibrary_def by (erule with_db_wf) (rule library_body_wf)

lemma runKeys_wf: "disk_wf D \<Longrightarrow> disk_wf (snd (snd (runKeys E args D)))"
  unfolding runKeys_def by (erule with_db_wf) (rule keys_body_wf)

lemma runScanClear_wf: "disk_wf D \<Longrightarrow> disk_wf (snd (snd (runScanClear E args D)))"
  unfolding runScanClear_def by (erule with_db_wf) (rule scan_clear_body_wf)

lemma runScanResults_wf: "disk_wf D \<Longrightarrow> disk_wf (snd (snd (runScanResults E args D)))"
  by (auto simp: runScanResults_def intro!: with_db_wf wf_sum wf_prod wf_exit split: option.split)

lemma runQueueList_wf: "disk_wf D \<Longrightarrow> disk_wf (snd (snd (runQueueList E args D)))"
  by (auto simp: runQueueList_def Let_def intro!: with_db_wf wf_sum split: option.split)

lemma runQueueRetry_wf: "disk_wf D \<Longrightarrow> disk_wf (snd (snd (runQueueRetry E args D)))"
  unfolding runQueueRetry_def by (erule with_db_wf) (intro cmd_wf; erule op_wf; assumption)

lemma runQueueClear_wf: "disk_wf D \<Longrightarrow> disk_wf (snd (snd (runQueueClear E args D)))"
  by (auto simp: runQueueClear_def intro!: with_db_wf wf_if wf_sum wf_prod wf_exit dest!: op_wf)

lemma runQueueCmd_wf: "disk_wf D \<Longrightarrow> disk_wf (snd (snd (runQueueCmd E args D)))"
  by (simp add: runQueueCmd_def runQueueList_wf runQueueRetry_wf runQueueClear_wf split: option.split)


section \<open>Resolving never guesses\<close>

text \<open>The libraries that a reference can mean: those of that name and the one of that id.\<close>

definition denoted :: "db \<Rightarrow> string \<Rightarrow> lib_row set" where
  "denoted d ref =
     {r \<in> set (libraries d). lb_name r = TrimSpace ref \<or> Atoi (TrimSpace ref) = Inr (lb_id r)}"

lemma distinct_two:
  assumes "distinct (a # b # c)" shows "set (a # b # c) \<noteq> {r}"
proof
  assume e: "set (a # b # c) = {r}"
  have "a \<in> set (a # b # c)" "b \<in> set (a # b # c)" by simp_all
  then have "a = b" unfolding e by simp
  with assms show False by simp
qed

definition named :: "db \<Rightarrow> string \<Rightarrow> lib_row set" where
  "named d name = {r \<in> set (libraries d). lb_name r = TrimSpace name}"

lemma GetByName_cases:
  assumes "db_wf d" "TrimSpace name \<noteq> ''''"
  obtains (none) "named d name = {}"
        "GetByName no_faults name d = Inl (Errorf ''library: get by name: '' (Sen SqlErrNoRows) '''')"
    | (one) r where "named d name = {r}" "GetByName no_faults name d = Inr (row_library r)"
    | (many) "named d name \<noteq> {}" "\<forall>r. named d name \<noteq> {r}"
        "\<exists>p. GetByName no_faults name d = Inl (Errorf p (Sen ErrAmbiguousLibraryName) '''')"
proof -
  let ?f = "filter (\<lambda>r. lb_name r = TrimSpace name) (libraries d)"
  have N: "named d name = set ?f" by (simp add: named_def)
  have "distinct (libraries d)"
    using assms(1) ids_ok_distinct [of lb_id] by (auto simp: db_wf_def wf_libraries_def distinct_map)
  then have dist: "distinct ?f" by simp
  consider "?f = []" | r where "?f = [r]" | a b c where "?f = a # b # c" by (cases ?f; cases "tl ?f") auto
  then show ?thesis
  proof cases
    case 1
    with assms(2) show ?thesis by (intro none) (simp_all add: N GetByName_def Let_def)
  next
    case (2 r)
    with assms(2) show ?thesis by (intro one [of r]) (simp_all add: N GetByName_def Let_def)
  next
    case (3 a b c)
    with assms(2) dist distinct_two [OF dist [unfolded 3]] show ?thesis by (intro many) (simp_all add: N GetByName_def Let_def)
  qed
qed

lemma LibGet_cases:
  assumes "db_wf d"
  obtains (none) "\<forall>r\<in>set (libraries d). lb_id r \<noteq> i" "LibGet no_faults 0 i d = Inl (Errorf ''library: get: '' (Sen SqlErrNoRows) '''')"
    | (one) r where "r \<in> set (libraries d)" "lb_id r = i" "LibGet no_faults 0 i d = Inr (row_library r)"
proof (cases "\<exists>r\<in>set (libraries d). lb_id r = i")
  case True
  then obtain r where r: "r \<in> set (libraries d)" "lb_id r = i" by blast
  have "find (\<lambda>r. lb_id r = i) (libraries d) = Some r"
    using assms find_unique [OF ids_ok_distinct r(1)] r(2) by (auto simp: db_wf_def wf_libraries_def)
  with r one show ?thesis by (simp add: LibGet_def query_row_def)
next
  case False
  then have "find (\<lambda>r. lb_id r = i) (libraries d) = None" by (simp add: find_none)
  with False none show ?thesis by (simp add: LibGet_def query_row_def)
qed

text \<open>
  A library reference on the command line is never resolved by guessing: it yields a library exactly
  when that is the only one it can mean, as a name or as a number, and the error says "no such
  library" exactly when it can mean none.
\<close>
theorem resolveLibrary_never_guesses:
  assumes "db_wf d" and "TrimSpace ref \<noteq> ''''"
  shows "(\<forall>v. resolveLibrary (\<lambda>_. no_faults) ref d = Inr v \<longleftrightarrow> (\<exists>r. denoted d ref = {r} \<and> v = row_library r)) \<and>
    (\<forall>e. resolveLibrary (\<lambda>_. no_faults) ref d = Inl e \<longrightarrow> (errors_Is e SqlErrNoRows \<longleftrightarrow> denoted d ref = {}))"
proof (cases "Atoi (TrimSpace ref)")
  case (Inl e)
  then have D: "denoted d ref = named d (TrimSpace ref)"
    by (simp add: denoted_def named_def TrimSpace_idem)
  have R: "resolveLibrary (\<lambda>_. no_faults) ref d = GetByName no_faults (TrimSpace ref) d"
    using assms(2) Inl by (simp add: resolveLibrary_def Let_def)
  from assms(2) have ne: "TrimSpace (TrimSpace ref) \<noteq> ''''" by (simp add: TrimSpace_idem)
  show ?thesis unfolding D R by (cases rule: GetByName_cases [OF assms(1) ne]) auto
next
  case (Inr i)
  let ?N = "named d (TrimSpace ref)"
  have D: "denoted d ref = ?N \<union> {r \<in> set (libraries d). lb_id r = i}"
    using Inr by (auto simp: denoted_def named_def TrimSpace_idem)
  have inj: "r = r'" if "r \<in> set (libraries d)" "r' \<in> set (libraries d)" "lb_id r = lb_id r'" for r r'
    using assms(1) that by (auto simp: db_wf_def wf_libraries_def dest: ids_ok_inj)
  from assms(2) have ne: "TrimSpace (TrimSpace ref) \<noteq> ''''" by (simp add: TrimSpace_idem)
  show ?thesis
  proof (cases rule: LibGet_cases [OF assms(1), of i])
    case none: 1
    then have "denoted d ref = ?N" using D by auto
    then show ?thesis
      using none(2) assms(2) Inr by (cases rule: GetByName_cases [OF assms(1) ne]) (auto simp: resolveLibrary_def Let_def)
  next
    case id: (2 r)
    then have Dr: "denoted d ref = insert r ?N" using D inj by auto
    show ?thesis
    proof (cases rule: GetByName_cases [OF assms(1) ne])
      case 1
      with Dr id(3) assms(2) Inr show ?thesis by (auto simp add: resolveLibrary_def Let_def)
    next
      case nm: (2 r')
      then have "r' \<in> set (libraries d)" by (auto simp: named_def)
      with inj id nm Dr assms(2) Inr show ?thesis
        by (cases "r = r'") (auto simp: resolveLibrary_def Let_def row_library_def)
    next
      case many: 3
      then have "\<forall>x. denoted d ref \<noteq> {x}" unfolding Dr by blast
      with many(3) Dr id(3) assms(2) Inr show ?thesis by (auto simp: resolveLibrary_def Let_def)
    qed
  qed
qed


section \<open>Clearing a library\<close>

lemma LoadConfig_path: "LoadConfig E p = Inr cfg \<Longrightarrow> dc_Path (cf_DB cfg) \<noteq> ''''"
  by (auto simp: LoadConfig_def finish_load_def Let_def split: if_splits option.splits prod.splits)

lemma with_db_ok:
  assumes "LoadConfig (ce_os E) p = Inr cfg" "ce_open E = no_faults"
    "f (tables_at D (dc_Path (cf_DB cfg))) = (code, out, d')"
  shows "with_db E p f D = (code, out, D(dc_Path (cf_DB cfg) \<mapsto> d'))"
  using assms LoadConfig_path [OF assms(1)] by (simp add: with_db_def db_Open_no_faults)

lemma cancel_counts:
  assumes "db_wf d" "all_readable d"
  obtains a b d' where "CountCancelByLibrary no_faults lib d = Inr (a, b)"
    "cancelByLibrary no_faults dbt lib False d = (Inr (a, b), d')" "scan_results d' = scan_results d"
proof -
  have readable: "\<forall>(i, c)\<in>set (cancel_candidates d lib). c \<noteq> PathsCorrupt"
    using candidates_live [OF assms, of lib] by (auto simp: live_candidates_def)
  let ?t = "tally (verdicts d lib (cancel_candidates d lib))"
  have c: "CountCancelByLibrary no_faults lib d = Inr (fst ?t, snd ?t)"
    by (simp add: CountCancelByLibrary_def cancelByLibrary_def cancel_loop_dry [OF readable] del: no_faults_app)
  obtain d' where l: "cancel_loop no_faults dbt lib False 6 (cancel_candidates d lib) 0 0 d = (Inr (fst ?t, snd ?t), d')"
    "scan_results d' = scan_results d"
    using cancel_loop_judges [OF assms(1) candidates_live [OF assms, of lib], of dbt lib 6 0 0] by auto
  then show ?thesis by (intro that [OF c, of d']) (simp_all add: cancelByLibrary_def del: no_faults_app)
qed

lemma scan_clear_agrees:
  assumes "db_wf d" "all_readable d" "ce_io E = (\<lambda>_. no_faults)"
  obtains a b d' where
    "scan_clear_count E i d = Inr (sql_count (\<lambda>r. sc_library_id r = i) (scan_results d), a, b)"
    "scan_clear_tx E i d = (Inr (sql_count (\<lambda>r. sc_library_id r = i) (scan_results d), a, b), d')"
    "scan_results d' = filter (\<lambda>r. sc_library_id r \<noteq> i) (scan_results d)"
proof -
  obtain a b d1 where c: "CountCancelByLibrary no_faults i d = Inr (a, b)"
    "cancelByLibrary no_faults (ce_dbt E) i False d = (Inr (a, b), d1)" "scan_results d1 = scan_results d"
    by (rule cancel_counts [OF assms(1,2)])
  show ?thesis
    by (rule that [of a b "sr_delete (ce_dbt E) (\<lambda>r. sc_library_id r = i) d1"])
      (simp_all add: scan_clear_count_def scan_clear_tx_def CountByLibrary_def CancelByLibraryTx_def ClearByLibraryTx_def
        c assms(3) sr_delete_frame sql_delete_def sr_delete_def Let_def)
qed


text \<open>
  C34. The dry run of \<open>scan clear\<close> tells what the run with --yes then does: on a readable database
  without driver errors both succeed, print the same three counts, and the run removes exactly the
  library's scan results, as many as was said; the dry run changes no row, and neither touches another
  database.
\<close>
theorem scan_clear_keeps_its_promise:
  assumes "disk_wf D" and "LoadConfig (ce_os E) (sx_ConfigPath args) = Inr cfg" and "d = tables_at D (dc_Path (cf_DB cfg))"
    and "all_readable d" and "ce_open E = no_faults" and "ce_io E = (\<lambda>_. no_faults)"
    and "resolveLibrary (\<lambda>_. no_faults) (sx_Library args) d = Inr v"
  shows "\<exists>n a b D0 D1. runScanClear E (args\<lparr>sx_Yes := False\<rparr>) D = (0, say (would_clear (n, a, b) v), D0) \<and>
    runScanClear E (args\<lparr>sx_Yes := True\<rparr>) D = (0, say (cleared (n, a, b) v), D1) \<and>
    (\<forall>p. tables_at D0 p = tables_at D p) \<and> (\<forall>p. p \<noteq> dc_Path (cf_DB cfg) \<longrightarrow> D1 p = D p) \<and>
    scan_results (tables_at D1 (dc_Path (cf_DB cfg))) = filter (\<lambda>r. sc_library_id r \<noteq> lib_ID v) (scan_results d) \<and>
    n = int (length (scan_results d)) - int (length (scan_results (tables_at D1 (dc_Path (cf_DB cfg)))))"
proof -
  have wf: "db_wf d" by (simp add: assms(1,3) disk_wf_tables)
  let ?n = "sql_count (\<lambda>r. sc_library_id r = lib_ID v) (scan_results d)"
  obtain a b d' where c: "scan_clear_count E (lib_ID v) d = Inr (?n, a, b)"
    "scan_clear_tx E (lib_ID v) d = (Inr (?n, a, b), d')"
    "scan_results d' = filter (\<lambda>r. sc_library_id r \<noteq> lib_ID v) (scan_results d)"
    by (rule scan_clear_agrees [OF wf assms(4,6)])
  have dry: "scan_clear_body E (args\<lparr>sx_Yes := False\<rparr>) d = (0, say (would_clear (?n, a, b) v), d)"
    and run: "scan_clear_body E (args\<lparr>sx_Yes := True\<rparr>) d = (0, say (cleared (?n, a, b) v), d')"
    using assms(6,7) c by (simp_all add: scan_clear_body_def)
  have count: "?n = int (length (scan_results d)) - int (length (scan_results d'))"
    using sum_length_filter_compl [of "\<lambda>r. sc_library_id r = lib_ID v" "scan_results d"] by (simp add: sql_count_def c(3))
  have path: "sx_ConfigPath (args\<lparr>sx_Yes := y\<rparr>) = sx_ConfigPath args" for y by simp
  from count c(3) have "(\<forall>p. tables_at (D(dc_Path (cf_DB cfg) \<mapsto> d)) p = tables_at D p) \<and>
      (\<forall>p. p \<noteq> dc_Path (cf_DB cfg) \<longrightarrow> (D(dc_Path (cf_DB cfg) \<mapsto> d')) p = D p) \<and>
      scan_results (tables_at (D(dc_Path (cf_DB cfg) \<mapsto> d')) (dc_Path (cf_DB cfg))) =
        filter (\<lambda>r. sc_library_id r \<noteq> lib_ID v) (scan_results d) \<and>
      ?n = int (length (scan_results d)) - int (length (scan_results (tables_at (D(dc_Path (cf_DB cfg) \<mapsto> d')) (dc_Path (cf_DB cfg)))))"
    by (simp add: assms(3))
  with with_db_ok [where f = "scan_clear_body E (args\<lparr>sx_Yes := False\<rparr>)", OF assms(2,5) dry [unfolded assms(3)]]
    with_db_ok [where f = "scan_clear_body E (args\<lparr>sx_Yes := True\<rparr>)", OF assms(2,5) run [unfolded assms(3)]]
  show ?thesis
    unfolding runScanClear_def path assms(3) [symmetric]
    by - (rule exI [of _ ?n], rule exI [of _ a], rule exI [of _ b], rule exI [of _ "D(dc_Path (cf_DB cfg) \<mapsto> d)"],
        rule exI [of _ "D(dc_Path (cf_DB cfg) \<mapsto> d')"], intro conjI, (assumption | elim conjE, assumption)+)
qed

text \<open>
  \<open>scan clear\<close> and \<open>queue retry\<close> do all or nothing: whatever error the configuration, the database or
  one of its calls meets, a nonzero exit code means that no row of any database has changed, and a
  dry run never changes one.
\<close>
theorem maintenance_is_all_or_nothing:
  "(case runScanClear E args D of (code, out, D') \<Rightarrow> code = 0 \<and> sx_Yes args \<or> tables_at D' p = tables_at D p) \<and>
   (case runQueueRetry E rargs D of (code, out, D') \<Rightarrow> code = 0 \<or> tables_at D' p = tables_at D p)"
proof (intro conjI)
  obtain code out D' where run: "runScanClear E args D = (code, out, D')" by (cases "runScanClear E args D")
  have "d' = d" if "scan_clear_body E args d = (code, out, d')" "code \<noteq> 0 \<or> \<not> sx_Yes args" for d out d'
    using that by (auto simp: scan_clear_body_def scan_clear_tx_def split: sum.splits if_splits option.splits prod.splits)
  then have "tables_at D' p = tables_at D p" if "code \<noteq> 0 \<or> \<not> sx_Yes args"
    using with_db_rows [OF run [unfolded runScanClear_def]] that by blast
  with run show "case runScanClear E args D of (code, out, D') \<Rightarrow> code = 0 \<and> sx_Yes args \<or> tables_at D' p = tables_at D p"
    by auto
  have "d' = d" if "Retry (ce_io E 0) (ce_now E) (ce_dbt E) (qr_ID rargs) d = (Inl e, d')" for d d' e
    using Retry_atomic [of "ce_io E 0" "ce_now E" "ce_dbt E" "qr_ID rargs"] that by (simp add: atomic_def)
  then show "case runQueueRetry E rargs D of (code, out, D') \<Rightarrow> code = 0 \<or> tables_at D' p = tables_at D p"
    unfolding runQueueRetry_def by (auto intro!: with_db_rows [of E "qr_ConfigPath rargs"] split: sum.splits prod.splits)
qed


section \<open>Concrete runs\<close>

text \<open>Library 2 is called "1".\<close>

definition named_libraries :: db where
  "named_libraries = empty_db\<lparr>libraries :=
     [\<lparr>lb_id = 1, lb_path = ''/m'', lb_name = ''music'', lb_created_at = 0, lb_updated_at = 0\<rparr>,
      \<lparr>lb_id = 2, lb_path = ''/n'', lb_name = ''1'', lb_created_at = 0, lb_updated_at = 0\<rparr>], lib_seq := 2\<rparr>"

theorem resolveLibrary_never_guesses_witness:
  "(\<forall>v. resolveLibrary (\<lambda>_. no_faults) ''1'' named_libraries \<noteq> Inr v) \<and>
   resolveLibrary (\<lambda>_. no_faults) '' 2 '' named_libraries = Inr (row_library (libraries named_libraries ! 1))"
proof -
  have wf: "db_wf named_libraries"
    by (simp add: wf_defs named_libraries_def empty_db_def ids_ok_def sr_ids_def)
  have t: "TrimSpace ''1'' = ''1''" "TrimSpace '' 2 '' = ''2''" "Atoi ''1'' = Inr 1" "Atoi ''2'' = Inr 2" by code_simp+
  have "denoted named_libraries ''1'' = set (libraries named_libraries)"
    and "denoted named_libraries '' 2 '' = {libraries named_libraries ! 1}"
    by (auto simp: denoted_def t named_libraries_def empty_db_def)
  moreover have "set (libraries named_libraries) \<noteq> {r}" for r
  proof -
    have two: "libraries named_libraries = libraries named_libraries ! 0 # libraries named_libraries ! 1 # []"
      by (simp add: named_libraries_def)
    show ?thesis by (subst two, rule distinct_two) (simp add: named_libraries_def)
  qed
  moreover have "TrimSpace ''1'' \<noteq> ''''" "TrimSpace '' 2 '' \<noteq> ''''" by (simp_all add: t)
  note one = resolveLibrary_never_guesses [OF wf this(1), THEN conjunct1] and two = resolveLibrary_never_guesses [OF wf this(2), THEN conjunct1]
  ultimately show ?thesis by (simp only: one two) blast
qed

definition demo_cmd :: cmd_env where
  "demo_cmd = \<lparr>ce_os = sample_env, ce_format = demo_format, ce_open = no_faults, ce_io = (\<lambda>_. no_faults),
     ce_now = 0, ce_dbt = 0, ce_kdf = plain_kdf, ce_rand = zero_rand, ce_flush = None\<rparr>"

theorem scan_clear_keeps_its_promise_witness:
  "\<exists>cfg D0 D1 n a b v. LoadConfig sample_env '''' = Inr cfg \<and>
     (let D = [dc_Path (cf_DB cfg) \<mapsto> both_enqueued]; args = \<lparr>sx_Library = ''2'', sx_Yes = False, sx_ConfigPath = ''''\<rparr> in
      runScanClear demo_cmd args D = (0, say (would_clear (n, a, b) v), D0) \<and>
      runScanClear demo_cmd (args\<lparr>sx_Yes := True\<rparr>) D = (0, say (cleared (n, a, b) v), D1))"
proof -
  obtain cfg where cfg: "LoadConfig sample_env '''' = Inr cfg"
    using sample_env_loads by (cases "LoadConfig sample_env ''''") auto
  let ?D = "[dc_Path (cf_DB cfg) \<mapsto> both_enqueued]"
  have "is_ok (resolveLibrary (\<lambda>_. no_faults) ''2'' both_enqueued)" by code_simp
  then obtain v where v: "resolveLibrary (\<lambda>_. no_faults) ''2'' both_enqueued = Inr v"
    by (cases "resolveLibrary (\<lambda>_. no_faults) ''2'' both_enqueued") auto
  have wf: "disk_wf ?D" by (simp add: disk_wf_def db_wf_both_enqueued)
  have d: "both_enqueued = tables_at ?D (dc_Path (cf_DB cfg))" by (simp add: tables_at_def)
  let ?args = "\<lparr>sx_Library = ''2'', sx_Yes = False, sx_ConfigPath = ''''\<rparr>"
  have E: "LoadConfig (ce_os demo_cmd) (sx_ConfigPath ?args) = Inr cfg" "ce_open demo_cmd = no_faults" "ce_io demo_cmd = (\<lambda>_. no_faults)"
    "resolveLibrary (\<lambda>_. no_faults) (sx_Library ?args) both_enqueued = Inr v" "?args\<lparr>sx_Yes := False\<rparr> = ?args"
    by (simp_all add: demo_cmd_def cfg v)
  from scan_clear_keeps_its_promise [OF wf E(1) d readable_both_enqueued E(2,3,4)] cfg
  show ?thesis unfolding Let_def E(5) by blast
qed

end
