(* ===== verification/Lyrics_Cache.thy ===== *)
theory Lyrics_Cache
  imports Work_Queue_Inv
begin

text \<open>
  The lyrics cache of \<open>internal/cache/cache.go\<close>: the two lookups and the upsert over the table
  \<open>lyrics_cache\<close>, the contract of a keyed store that the exact lookup and the upsert satisfy, and
  the choice the fallback lookup makes among the albums of a song.
\<close>

section \<open>Operations\<close>

definition cache_key :: "unicode_env \<Rightarrow> string \<Rightarrow> string \<Rightarrow> string \<Rightarrow> string \<times> string \<times> string" where
  "cache_key u artist title album = (NormalizeKey u artist, NormalizeKey u title, NormalizeKey u album)"

text \<open>Driver call: 0 the SELECT.\<close>

definition LookupExact :: "unicode_env \<Rightarrow> io \<Rightarrow> string \<Rightarrow> string \<Rightarrow> string \<Rightarrow> db \<Rightarrow> string res" where
  "LookupExact u io artist title album d =
     (case query_row io 0 (map_option lc_lyrics
             (find (\<lambda>r. lc_key r = cache_key u artist title album) (lyrics_cache d))) of
        Inl e \<Rightarrow>
          (if errors_Is e SqlErrNoRows then Inl (Sen SqlErrNoRows)
           else Inl (Errorf ''cache: lookup exact: '' e ''''))
      | Inr lyrics \<Rightarrow> Inr lyrics)"

text \<open>ORDER BY updated_at DESC, id DESC among the rows of the artist and title.\<close>

definition newest_first :: "cache_row \<Rightarrow> int \<times> int" where
  "newest_first r = (- lc_updated_at r, - lc_id r)"

definition same_song :: "unicode_env \<Rightarrow> string \<Rightarrow> string \<Rightarrow> cache_row \<Rightarrow> bool" where
  "same_song u artist title r \<longleftrightarrow>
     lc_artist r = NormalizeKey u artist \<and> lc_title r = NormalizeKey u title"

definition LookupFallback :: "unicode_env \<Rightarrow> io \<Rightarrow> string \<Rightarrow> string \<Rightarrow> db \<Rightarrow> string res" where
  "LookupFallback u io artist title d =
     (case query_row io 0 (map_option lc_lyrics
             (first_row (order_by newest_first (filter (same_song u artist title) (lyrics_cache d))))) of
        Inl e \<Rightarrow>
          (if errors_Is e SqlErrNoRows then Inl (Sen SqlErrNoRows)
           else Inl (Errorf ''cache: lookup fallback: '' e ''''))
      | Inr lyrics \<Rightarrow> Inr lyrics)"

text \<open>
  INSERT ... ON CONFLICT DO UPDATE SET lyrics; the trigger stamps an updated row. Driver call: 0.
\<close>

definition CacheStore ::
  "unicode_env \<Rightarrow> io \<Rightarrow> int \<Rightarrow> string \<Rightarrow> string \<Rightarrow> string \<Rightarrow> string \<Rightarrow> db \<Rightarrow> unit res \<times> db" where
  "CacheStore u io dbt artist title album lyrics d =
     drv io 0 ''cache: store: '' d
       (let k = cache_key u artist title album
        in if \<exists>r\<in>set (lyrics_cache d). lc_key r = k
           then (Inr (), d\<lparr>lyrics_cache := sql_update (\<lambda>r. lc_key r = k)
                             (\<lambda>r. r\<lparr>lc_lyrics := lyrics, lc_updated_at := dbt\<rparr>) (lyrics_cache d)\<rparr>)
           else (Inr (), d\<lparr>lyrics_cache := lyrics_cache d @
                             [\<lparr>lc_id = lc_seq d + 1, lc_artist = fst k, lc_title = fst (snd k),
                               lc_album = snd (snd k), lc_lyrics = lyrics,
                               lc_created_at = dbt, lc_updated_at = dbt\<rparr>],
                           lc_seq := lc_seq d + 1\<rparr>))"

lemma CacheStore_wf [wf_intros]: "db_wf d \<Longrightarrow> db_wf (snd (CacheStore u io dbt a t al l d))"
proof -
  assume wf: "db_wf d"
  let ?k = "cache_key u a t al"
  have ids: "ids_ok lc_id (lc_seq d) (lyrics_cache d)" and keys: "distinct (map lc_key (lyrics_cache d))"
    using wf by (simp_all add: db_wf_def wf_cache_def)
  let ?f = "\<lambda>r. r\<lparr>lc_lyrics := l, lc_updated_at := dbt\<rparr>"
  have "map lc_key (sql_update (\<lambda>r. lc_key r = ?k) ?f (lyrics_cache d)) = map lc_key (lyrics_cache d)"
    by (rule map_sql_update) (simp add: lc_key_def)
  moreover have "ids_ok lc_id (lc_seq d) (sql_update (\<lambda>r. lc_key r = ?k) ?f (lyrics_cache d))"
    by (rule ids_ok_update [OF ids]) simp
  moreover have "ids_ok lc_id (lc_seq d + 1) (lyrics_cache d @ [\<lparr>lc_id = lc_seq d + 1, lc_artist = fst ?k,
      lc_title = fst (snd ?k), lc_album = snd (snd ?k), lc_lyrics = l, lc_created_at = dbt, lc_updated_at = dbt\<rparr>])"
    by (rule ids_ok_snoc [OF ids]) simp
  ultimately show ?thesis
    using wf keys
    by (auto simp: CacheStore_def snd_drv Let_def wf_defs sr_ids_def lc_key_def split: option.splits)
qed

section \<open>The contract of a keyed store\<close>

text \<open>
  A store of values under keys, which it compares in a normal form: an insertion changes the lookup
  at the normal form of its key and nowhere else.
\<close>

locale keyed_store =
  fixes norm :: "'k \<Rightarrow> 'n"
    and lookup :: "'s \<Rightarrow> 'n \<Rightarrow> 'v option"
    and insert_at :: "'k \<Rightarrow> 'v \<Rightarrow> 's \<Rightarrow> 's"
    and inv :: "'s \<Rightarrow> bool"
  assumes insert_inv: "inv s \<Longrightarrow> inv (insert_at k v s)"
    and lookup_insert: "inv s \<Longrightarrow> lookup (insert_at k v s) = (lookup s)(norm k \<mapsto> v)"
begin

lemma lookup_inserts:
  "inv s \<Longrightarrow> lookup (fold (\<lambda>(k, v). insert_at k v) kvs s) =
     lookup s ++ map_of (rev (map (\<lambda>(k, v). (norm k, v)) kvs))"
proof (induction kvs arbitrary: s)
  case Nil
  then show ?case by simp
next
  case (Cons kv kvs)
  obtain k v where kv: "kv = (k, v)" by (cases kv)
  have "lookup (fold (\<lambda>(k, v). insert_at k v) kvs (insert_at k v s)) =
      lookup (insert_at k v s) ++ map_of (rev (map (\<lambda>(k, v). (norm k, v)) kvs))"
    using Cons insert_inv by blast
  also have "\<dots> = lookup s ++ map_of (rev (map (\<lambda>(k, v). (norm k, v)) ((k, v) # kvs)))"
    using Cons.prems by (simp add: lookup_insert map_add_def fun_eq_iff split: option.splits)
  finally show ?case by (simp add: kv)
qed

lemma inserts_inv: "inv s \<Longrightarrow> inv (fold (\<lambda>(k, v). insert_at k v) kvs s)"
  by (induction kvs arbitrary: s) (auto intro: insert_inv)

end

definition cache_lookup :: "db \<Rightarrow> string \<times> string \<times> string \<Rightarrow> string option" where
  "cache_lookup d k = map_option lc_lyrics (find (\<lambda>r. lc_key r = k) (lyrics_cache d))"

lemma cache_lookup_store:
  assumes "CacheStore u io dbt a t al l d = (Inr (), d')"
  shows "cache_lookup d' = (cache_lookup d)(cache_key u a t al \<mapsto> l)"
proof (rule ext)
  fix k
  let ?k = "cache_key u a t al"
  let ?f = "\<lambda>r. r\<lparr>lc_lyrics := l, lc_updated_at := dbt\<rparr>"
  show "cache_lookup d' k = ((cache_lookup d)(?k \<mapsto> l)) k"
  proof (cases "\<exists>r\<in>set (lyrics_cache d). lc_key r = ?k")
    case True
    with assms have d': "lyrics_cache d' = sql_update (\<lambda>r. lc_key r = ?k) ?f (lyrics_cache d)"
      by (auto simp: CacheStore_def drv_ok Let_def)
    have f: "find (\<lambda>r. lc_key r = k) (sql_update (\<lambda>r. lc_key r = ?k) ?f xs) =
        map_option (\<lambda>r. if lc_key r = ?k then ?f r else r) (find (\<lambda>r. lc_key r = k) xs)" for xs
      unfolding sql_update_def by (induction xs) (auto simp: lc_key_def)
    show ?thesis
    proof (cases "find (\<lambda>r. lc_key r = k) (lyrics_cache d)")
      case None
      with True have "k \<noteq> ?k" by (auto simp: find_none)
      with None show ?thesis by (simp add: cache_lookup_def d' f)
    next
      case (Some r)
      then have "lc_key r = k" by (auto dest: find_in_set)
      with Some show ?thesis by (simp add: cache_lookup_def d' f)
    qed
  next
    case False
    with assms have d': "lyrics_cache d' = lyrics_cache d @ [\<lparr>lc_id = lc_seq d + 1, lc_artist = fst ?k,
      lc_title = fst (snd ?k), lc_album = snd (snd ?k), lc_lyrics = l, lc_created_at = dbt, lc_updated_at = dbt\<rparr>]"
      by (auto simp: CacheStore_def drv_ok Let_def)
    have app: "find Q (xs @ [x]) = (case find Q xs of None \<Rightarrow> if Q x then Some x else None | Some y \<Rightarrow> Some y)"
      for Q and xs :: "cache_row list" and x
      by (induction xs) auto
    from False have "find (\<lambda>r. lc_key r = ?k) (lyrics_cache d) = None"
      by (auto simp: find_none)
    then show ?thesis
      by (auto simp: cache_lookup_def d' app lc_key_def split: option.splits)
  qed
qed

text \<open>One call of \<open>Store\<close>, at the instant \<open>dbt\<close>.\<close>

type_synonym cache_call = "int \<times> string \<times> string \<times> string"

definition call_key :: "unicode_env \<Rightarrow> cache_call \<Rightarrow> string \<times> string \<times> string" where
  "call_key u c = (case c of (dbt, a, t, al) \<Rightarrow> cache_key u a t al)"

definition cache_insert :: "unicode_env \<Rightarrow> cache_call \<Rightarrow> string \<Rightarrow> db \<Rightarrow> db" where
  "cache_insert u c l d = (case c of (dbt, a, t, al) \<Rightarrow> snd (CacheStore u no_faults dbt a t al l d))"

lemma CacheStore_no_faults: "fst (CacheStore u no_faults dbt a t al l d) = Inr ()"
  by (simp add: CacheStore_def Let_def)

interpretation cache: keyed_store "call_key u" cache_lookup "cache_insert u" db_wf for u
proof
  fix s :: db and c :: cache_call and l :: string
  assume wf: "db_wf s"
  obtain dbt a t al where c: "c = (dbt, a, t, al)" by (cases c) auto
  have "CacheStore u no_faults dbt a t al l s = (Inr (), cache_insert u c l s)"
    using CacheStore_no_faults [of u dbt a t al l s]
    by (cases "CacheStore u no_faults dbt a t al l s") (simp add: c cache_insert_def)
  from cache_lookup_store [OF this]
  show "cache_lookup (cache_insert u c l s) = (cache_lookup s)(call_key u c \<mapsto> l)"
    by (simp add: c call_key_def)
  show "db_wf (cache_insert u c l s)"
    using CacheStore_wf [OF wf] by (simp add: c cache_insert_def)
qed

lemma LookupExact_cache:
  "LookupExact u no_faults a t al d =
     (case cache_lookup d (cache_key u a t al) of None \<Rightarrow> Inl (Sen SqlErrNoRows) | Some l \<Rightarrow> Inr l)"
  by (simp add: LookupExact_def cache_lookup_def query_row_def split: option.splits)

text \<open>
  The cache is the map of its stores: after any sequence of Store calls on an empty database,
  LookupExact returns the text of the last call whose artist, title and album normalize to the
  same key as the ones asked for, and \<open>sql.ErrNoRows\<close> when there was none.
\<close>
theorem LookupExact_returns_last_store:
  "LookupExact u no_faults artist title album (fold (\<lambda>(c, l). cache_insert u c l) calls empty_db) =
     (case map_of (rev (map (\<lambda>(c, l). (call_key u c, l)) calls)) (cache_key u artist title album) of
        None \<Rightarrow> Inl (Sen SqlErrNoRows) | Some l \<Rightarrow> Inr l)"
proof -
  have "cache_lookup empty_db = Map.empty"
    by (simp add: fun_eq_iff cache_lookup_def empty_db_def)
  then show ?thesis
    using cache.lookup_inserts [OF db_wf_empty, of u calls] by (simp add: LookupExact_cache)
qed

definition fallback_row :: "unicode_env \<Rightarrow> string \<Rightarrow> string \<Rightarrow> db \<Rightarrow> cache_row option" where
  "fallback_row u artist title d =
     first_row (order_by newest_first (filter (same_song u artist title) (lyrics_cache d)))"

lemma LookupFallback_row:
  "LookupFallback u no_faults artist title d =
     (case fallback_row u artist title d of None \<Rightarrow> Inl (Sen SqlErrNoRows) | Some r \<Rightarrow> Inr (lc_lyrics r))"
  by (simp add: LookupFallback_def fallback_row_def query_row_def split: option.splits)

text \<open>
  LookupFallback ignores the album: it returns the text of the row of the song that was updated
  last, the larger id deciding between rows of the same second, and \<open>sql.ErrNoRows\<close> when the song
  has no row.
\<close>
theorem LookupFallback_returns_newest:
  "case LookupFallback u no_faults artist title d of
     Inl e \<Rightarrow> e = Sen SqlErrNoRows \<and> filter (same_song u artist title) (lyrics_cache d) = []
   | Inr l \<Rightarrow> \<exists>r. r \<in> set (lyrics_cache d) \<and> same_song u artist title r \<and> lc_lyrics r = l \<and>
       list_all (\<lambda>x. (lc_updated_at x, lc_id x) \<le> (lc_updated_at r, lc_id r))
         (filter (same_song u artist title) (lyrics_cache d))"
proof (cases "fallback_row u artist title d")
  case None
  then show ?thesis
    by (simp add: LookupFallback_row) (simp add: fallback_row_def first_row_none)
next
  case (Some r)
  have "(lc_updated_at x, lc_id x) \<le> (lc_updated_at r, lc_id r)"
    if "newest_first r \<le> newest_first x" for x
    using that by (auto simp: newest_first_def)
  with first_row_order_by [OF Some [unfolded fallback_row_def]] Some show ?thesis
    by (auto simp: LookupFallback_row list_all_iff)
qed

lemma stored_rows:
  assumes "CacheStore u io dbt artist title album lyrics d = (Inr (), d')" and "r \<in> set (lyrics_cache d')"
  shows "lc_updated_at r = dbt \<and> lc_lyrics r = lyrics \<or>
         r \<in> set (lyrics_cache d) \<and> lc_key r \<noteq> cache_key u artist title album"
  using assms by (auto simp: CacheStore_def drv_ok Let_def set_sql_update split: if_splits)

text \<open>
  After a successful Store the text is found by both lookups under every spelling of the key,
  provided the database clock stands later than the last update of the song's other albums.
\<close>
theorem stored_lyrics_are_found:
  assumes "db_wf d" and "CacheStore u io dbt artist title album lyrics d = (Inr (), d')"
    and "\<forall>r\<in>set (lyrics_cache d). same_song u artist title r \<longrightarrow>
           lc_updated_at r < dbt \<or> lc_key r = cache_key u artist title album"
    and "NormalizeKey u artist' = NormalizeKey u artist" and "NormalizeKey u title' = NormalizeKey u title"
    and "NormalizeKey u album' = NormalizeKey u album"
  shows "LookupExact u no_faults artist' title' album' d' = Inr lyrics \<and>
         LookupFallback u no_faults artist' title' d' = Inr lyrics"
proof
  show "LookupExact u no_faults artist' title' album' d' = Inr lyrics"
    using cache_lookup_store [OF assms(2)] assms(4-6) by (simp add: LookupExact_cache cache_key_def)
  let ?k = "cache_key u artist title album"
  have rows: "lc_updated_at r = dbt \<and> lc_lyrics r = lyrics \<or> lc_updated_at r < dbt \<and> lc_key r \<noteq> ?k"
    if "r \<in> set (lyrics_cache d')" "same_song u artist title r" for r
    using stored_rows [OF assms(2) that(1)] that(2) assms(3) by blast
  have song: "same_song u artist' title' = same_song u artist title"
    using assms(4,5) by (simp add: same_song_def [abs_def])
  have "cache_lookup d' ?k = Some lyrics"
    by (simp add: cache_lookup_store [OF assms(2)])
  then obtain r where r: "r \<in> set (lyrics_cache d')" "lc_key r = ?k"
    by (auto simp: cache_lookup_def dest: find_in_set)
  then have rs: "same_song u artist title r" by (simp add: same_song_def lc_key_def cache_key_def)
  show "LookupFallback u no_faults artist' title' d' = Inr lyrics"
  proof (cases "fallback_row u artist' title' d'")
    case None
    with r rs show ?thesis
      by (auto simp: song fallback_row_def first_row_none filter_empty_conv)
  next
    case (Some x)
    from first_row_order_by [OF Some [unfolded fallback_row_def song]] r rs
    have x: "x \<in> set (lyrics_cache d')" "same_song u artist title x" "newest_first x \<le> newest_first r"
      by auto
    with rows [OF r(1) rs] r(2) rows [OF x(1,2)] have "lc_lyrics x = lyrics"
      by (auto simp: newest_first_def)
    with Some show ?thesis by (simp add: LookupFallback_row)
  qed
qed

definition one_album :: db where
  "one_album = snd (CacheStore ascii_env no_faults 5 ''Adele'' ''Hello'' ''25'' ''old'' empty_db)"

theorem stored_lyrics_are_found_witness:
  "\<exists>d'. CacheStore ascii_env no_faults 6 ''ADELE'' ''Hello'' ''Live'' ''new'' one_album = (Inr (), d') \<and>
     LookupExact ascii_env no_faults ''Adele'' '' hello'' ''live'' d' = Inr ''new'' \<and>
     LookupFallback ascii_env no_faults ''Adele'' '' hello'' d' = Inr ''new''"
proof -
  have wf: "db_wf one_album"
    unfolding one_album_def by (intro CacheStore_wf db_wf_empty)
  obtain d' where e: "CacheStore ascii_env no_faults 6 ''ADELE'' ''Hello'' ''Live'' ''new'' one_album = (Inr (), d')"
    using CacheStore_no_faults [of ascii_env 6 "''ADELE''" "''Hello''" "''Live''" "''new''" one_album]
    by (cases "CacheStore ascii_env no_faults 6 ''ADELE'' ''Hello'' ''Live'' ''new'' one_album") auto
  have "\<forall>r\<in>set (lyrics_cache one_album). lc_updated_at r < 6"
    by code_simp
  then have clock: "\<forall>r\<in>set (lyrics_cache one_album). same_song ascii_env ''ADELE'' ''Hello'' r \<longrightarrow>
      lc_updated_at r < 6 \<or> lc_key r = cache_key ascii_env ''ADELE'' ''Hello'' ''Live''"
    by blast
  have "NormalizeKey ascii_env ''Adele'' = NormalizeKey ascii_env ''ADELE''"
    "NormalizeKey ascii_env '' hello'' = NormalizeKey ascii_env ''Hello''"
    "NormalizeKey ascii_env ''live'' = NormalizeKey ascii_env ''Live''"
    by code_simp+
  from stored_lyrics_are_found [OF wf e clock this] e show ?thesis by blast
qed

end
