(* ===== verification/Scan_Enqueuer.thy ===== *)
theory Scan_Enqueuer
  imports Scan_Repo Lyrics_Cache Queue_Claims Go_Paths
begin

text \<open>
  The bridge from scan results to the work queue, \<open>internal/scan/enqueuer.go\<close>: the interfaces it
  calls, the loop over the pending results of a library, and its contract, proved against the laws
  of the interfaces and then instantiated with the scan repository, the cache and the durable queue.
\<close>

section \<open>The enqueuer\<close>

text \<open>
  The dependencies as functions on the state they share. The number they take first tells the calls
  of one run apart, so that each can meet its own clock and its own driver errors.
\<close>

record 's PendingResultStore =
  prs_ListPending :: "nat \<Rightarrow> int \<Rightarrow> 's \<Rightarrow> ScanResult list res"
  prs_SetStatus :: "nat \<Rightarrow> int list \<Rightarrow> string \<Rightarrow> 's \<Rightarrow> unit res \<times> 's"

type_synonym 's lookup_fn = "nat \<Rightarrow> string \<Rightarrow> string \<Rightarrow> 's \<Rightarrow> string res"
type_synonym 's enqueue_fn = "nat \<Rightarrow> Inputs \<Rightarrow> int \<Rightarrow> 's \<Rightarrow> WorkItem res \<times> 's"

record 's Enqueuer =
  er_Results :: "'s PendingResultStore option"
  er_Cache :: "'s lookup_fn option"
  er_Queue :: "'s enqueue_fn option"
  er_Priority :: int

definition scanInputs :: "ScanResult \<Rightarrow> Inputs res" where
  "scanInputs res =
     (let outdir = (if sr_Outdir res = '''' \<and> sr_FilePath res \<noteq> '''' then Dir (sr_FilePath res)
                    else sr_Outdir res);
          base = Base (sr_FilePath res);
          filename = (if sr_Filename res = '''' \<and> sr_FilePath res \<noteq> ''''
                      then TrimSuffix base (Ext base) @ ''.lrc'' else sr_Filename res)
      in if outdir = '''' \<and> filename = '''' \<and> sr_FilePath res = ''''
         then Inl (New ''invalid scan result: missing file path and output destination'')
         else Inr \<lparr>in_Track = sr_Track res, in_Outdir = outdir, in_Filename = filename,
                   in_SourcePath = sr_FilePath res,
                   in_OutputPaths = [\<lparr>op_Outdir = outdir, op_Filename = filename\<rparr>],
                   in_ScanResultID = sr_ID res\<rparr>)"

text \<open>Undo the reservation of a result and return the error that made it necessary.\<close>

definition restore_pending ::
  "'s PendingResultStore \<Rightarrow> nat \<Rightarrow> int \<Rightarrow> string \<Rightarrow> goerr \<Rightarrow> 's \<Rightarrow> unit res \<times> 's" where
  "restore_pending results k i pre e s =
     (case prs_SetStatus results k [i] ''pending'' s of
        (Inl re, s') \<Rightarrow> (Inl (Errorf2 pre e ''; restore pending: '' re), s')
      | (Inr _, s') \<Rightarrow> (Inl (Errorf pre e ''''), s'))"

text \<open>
  One round of the loop: \<open>None\<close> to go on with the next result, \<open>Some e\<close> to return \<open>e\<close>. The calls of the
  round with number \<open>k\<close> have the numbers \<open>k\<close> to \<open>k + 3\<close>.
\<close>

definition enqueue_round ::
  "'s PendingResultStore \<Rightarrow> 's lookup_fn \<Rightarrow> 's enqueue_fn \<Rightarrow> int \<Rightarrow> nat \<Rightarrow> ScanResult \<Rightarrow> 's \<Rightarrow> unit res \<times> 's" where
  "enqueue_round results cache queue priority k res s =
     (let i = sr_ID res
      in case cache k (tr_ArtistName (sr_Track res)) (tr_TrackName (sr_Track res)) s of
           Inr _ \<Rightarrow>
             (case prs_SetStatus results (k + 1) [i] ''done'' s of
                (Inl e, s1) \<Rightarrow> (Inl (Errorf (''scan: mark cache hit done '' @ Itoa i @ '': '') e ''''), s1)
              | (Inr _, s1) \<Rightarrow> (Inr (), s1))
         | Inl e \<Rightarrow>
             (if \<not> errors_Is e SqlErrNoRows
              then (Inl (Errorf (''scan: cache lookup '' @ Itoa i @ '': '') e ''''), s)
              else case prs_SetStatus results (k + 1) [i] ''processing'' s of
                (Inl e, s1) \<Rightarrow> (Inl (Errorf (''scan: reserve result '' @ Itoa i @ '': '') e ''''), s1)
              | (Inr _, s1) \<Rightarrow>
                  (case scanInputs res of
                     Inl e \<Rightarrow>
                       restore_pending results (k + 3) i (''scan: build inputs for result '' @ Itoa i @ '': '') e s1
                   | Inr inputs \<Rightarrow>
                       (case queue (k + 2) inputs priority s1 of
                          (Inl e, s2) \<Rightarrow>
                            restore_pending results (k + 3) i (''scan: enqueue result '' @ Itoa i @ '': '') e s2
                        | (Inr _, s2) \<Rightarrow> (Inr (), s2)))))"

fun enqueue_loop ::
  "(nat \<Rightarrow> goerr option) \<Rightarrow> 's PendingResultStore \<Rightarrow> 's lookup_fn \<Rightarrow> 's enqueue_fn \<Rightarrow> int \<Rightarrow> nat \<Rightarrow>
   ScanResult list \<Rightarrow> 's \<Rightarrow> unit res \<times> 's"
where
  "enqueue_loop ctxErr results cache queue priority k [] s = (Inr (), s)"
| "enqueue_loop ctxErr results cache queue priority k (res # rest) s =
     (case ctxErr k of
        Some e \<Rightarrow> (Inl e, s)
      | None \<Rightarrow>
        (case enqueue_round results cache queue priority k res s of
           (Inl e, s') \<Rightarrow> (Inl e, s')
         | (Inr _, s') \<Rightarrow> enqueue_loop ctxErr results cache queue priority (k + 4) rest s'))"

text \<open>\<open>ctxErr k\<close> is what \<open>ctx.Err()\<close> returns before the round \<open>k\<close>, and \<open>ctxErr 0\<close> at the start.\<close>

definition EnqueuePending :: "'s Enqueuer \<Rightarrow> (nat \<Rightarrow> goerr option) \<Rightarrow> int \<Rightarrow> 's \<Rightarrow> unit res \<times> 's" where
  "EnqueuePending e ctxErr libraryID s =
     (case er_Results e of None \<Rightarrow> (Inl (New ''scan: enqueuer results dependency is nil''), s)
      | Some results \<Rightarrow>
     (case er_Cache e of None \<Rightarrow> (Inl (New ''scan: enqueuer cache dependency is nil''), s)
      | Some cache \<Rightarrow>
     (case er_Queue e of None \<Rightarrow> (Inl (New ''scan: enqueuer queue dependency is nil''), s)
      | Some queue \<Rightarrow>
     (case ctxErr 0 of Some err \<Rightarrow> (Inl err, s)
      | None \<Rightarrow>
     (case prs_ListPending results 0 libraryID s of
        Inl err \<Rightarrow> (Inl (Errorf ''scan: list pending for enqueue: '' err ''''), s)
      | Inr rs \<Rightarrow> enqueue_loop ctxErr results cache queue (er_Priority e) 1 rs s)))))"

definition OnScanComplete :: "'s Enqueuer \<Rightarrow> (nat \<Rightarrow> goerr option) \<Rightarrow> Library \<Rightarrow> ScanResult list \<Rightarrow> 's \<Rightarrow> unit res \<times> 's" where
  "OnScanComplete e ctxErr lib found s = EnqueuePending e ctxErr (lib_ID lib) s"

lemma scanInputs_id: "scanInputs res = Inr inputs \<Longrightarrow> in_ScanResultID inputs = sr_ID res \<and> in_Track inputs = sr_Track res"
  by (auto simp: scanInputs_def Let_def split: if_splits)

section \<open>The contract, over the laws of the interfaces\<close>

text \<open>
  What the enqueuer relies on: the status of every result, the set of results that are linked to
  queued work, and whether the cache knows a song are views of the shared state, and each operation
  changes them as its name says or, failing, not at all.
\<close>

locale enqueuer_env =
  fixes results :: "'s PendingResultStore"
    and cache :: "'s lookup_fn"
    and queue :: "'s enqueue_fn"
    and status :: "'s \<Rightarrow> int \<Rightarrow> string option"
    and queued :: "'s \<Rightarrow> int set"
    and hit :: "'s \<Rightarrow> string \<Rightarrow> string \<Rightarrow> bool"
    and inv :: "'s \<Rightarrow> bool"
  assumes list_ok: "inv s \<Longrightarrow> prs_ListPending results k lib s = Inr rs \<Longrightarrow>
      distinct (map sr_ID rs) \<and> (\<forall>r\<in>set rs. status s (sr_ID r) = Some ''pending'' \<and> 0 < sr_ID r)"
    and set_ok: "inv s \<Longrightarrow> st \<in> {''pending'', ''processing'', ''done''} \<Longrightarrow>
      prs_SetStatus results k [i] st s = (Inr x, s') \<Longrightarrow>
      inv s' \<and> status s' = (status s)(i \<mapsto> st) \<and> queued s' = queued s \<and> hit s' = hit s"
    and set_err: "inv s \<Longrightarrow> prs_SetStatus results k [i] st s = (Inl e, s') \<Longrightarrow> s' = s"
    and lookup_ok: "cache k a t s = Inr l \<Longrightarrow> hit s a t"
    and lookup_err: "cache k a t s = Inl e \<Longrightarrow> errors_Is e SqlErrNoRows \<Longrightarrow> \<not> hit s a t"
    and enqueue_ok: "inv s \<Longrightarrow> 0 < in_ScanResultID inputs \<Longrightarrow> queue k inputs p s = (Inr item, s') \<Longrightarrow>
      inv s' \<and> status s' = status s \<and> queued s' = insert (in_ScanResultID inputs) (queued s) \<and> hit s' = hit s"
    and enqueue_err: "inv s \<Longrightarrow> queue k inputs p s = (Inl e, s') \<Longrightarrow> s' = s"
begin

text \<open>Where one result stands: untouched, answered by the cache, or handed to the queue.\<close>

definition handled :: "'s \<Rightarrow> ScanResult \<Rightarrow> bool" where
  "handled s r \<longleftrightarrow>
     (if hit s (tr_ArtistName (sr_Track r)) (tr_TrackName (sr_Track r)) then status s (sr_ID r) = Some ''done''
      else status s (sr_ID r) = Some ''processing'' \<and> sr_ID r \<in> queued s)"

definition frame :: "int \<Rightarrow> 's \<Rightarrow> 's \<Rightarrow> bool" where
  "frame i s s' \<longleftrightarrow> inv s' \<and> hit s' = hit s \<and> queued s \<subseteq> queued s' \<and> (\<forall>j. j \<noteq> i \<longrightarrow> status s' j = status s j)"

lemma round_ok:
  assumes "inv s" "0 < sr_ID r" and "enqueue_round results cache queue p k r s = (Inr (), s')"
  shows "handled s' r \<and> frame (sr_ID r) s s'"
proof (cases "cache k (tr_ArtistName (sr_Track r)) (tr_TrackName (sr_Track r)) s")
  case (Inr l)
  with assms(3) obtain x where "prs_SetStatus results (k + 1) [sr_ID r] ''done'' s = (Inr x, s')"
    by (auto simp: enqueue_round_def Let_def split: prod.splits sum.splits)
  from set_ok [OF assms(1) _ this] lookup_ok [OF Inr] show ?thesis
    by (simp add: handled_def frame_def)
next
  case (Inl e)
  with assms(3) have nf: "errors_Is e SqlErrNoRows"
    by (auto simp: enqueue_round_def Let_def split: if_splits)
  with Inl assms(3) obtain x s1 inputs item where
    res: "prs_SetStatus results (k + 1) [sr_ID r] ''processing'' s = (Inr x, s1)"
    and inp: "scanInputs r = Inr inputs"
    and enq: "queue (k + 2) inputs p s1 = (Inr item, s')"
    by (auto simp: enqueue_round_def Let_def restore_pending_def split: prod.splits sum.splits)
  have s1: "inv s1 \<and> status s1 = (status s)(sr_ID r \<mapsto> ''processing'') \<and> queued s1 = queued s \<and> hit s1 = hit s"
    using set_ok [OF assms(1) _ res] by simp
  have "0 < in_ScanResultID inputs"
    using scanInputs_id [OF inp] assms(2) by simp
  from enqueue_ok [OF _ this enq] s1 scanInputs_id [OF inp] lookup_err [OF Inl nf] show ?thesis
    by (auto simp: handled_def frame_def)
qed

lemma round_err:
  assumes "inv s" "status s (sr_ID r) = Some ''pending''"
    and "enqueue_round results cache queue p k r s = (Inl e, s')"
  shows "frame (sr_ID r) s s' \<and> (status s' (sr_ID r) = Some ''pending'' \<or> (\<exists>pre a q b. e = Errorf2 pre a q b))"
proof -
  have same: "frame (sr_ID r) s s" using assms(1) by (simp add: frame_def)
  have undone: ?thesis if p: "prs_SetStatus results (k + 1) [sr_ID r] ''processing'' s = (Inr x, s1)"
    and rest: "restore_pending results (k + 3) (sr_ID r) pre err s1 = (Inl e, s')" for x s1 pre err
  proof -
    have s1: "inv s1 \<and> status s1 = (status s)(sr_ID r \<mapsto> ''processing'') \<and> queued s1 = queued s \<and> hit s1 = hit s"
      using set_ok [OF assms(1) _ p] by simp
    show ?thesis
    proof (cases "prs_SetStatus results (k + 3) [sr_ID r] ''pending'' s1")
      case (Pair res s2)
      show ?thesis
      proof (cases res)
        case (Inl re)
        with Pair rest set_err [of s1 "k + 3" "sr_ID r" "''pending''"] s1 show ?thesis
          by (auto simp: restore_pending_def frame_def)
      next
        case (Inr y)
        with Pair rest set_ok [of s1 "''pending''" "k + 3" "sr_ID r"] s1 show ?thesis
          by (auto simp: restore_pending_def frame_def)
      qed
    qed
  qed
  show ?thesis
  proof (cases "cache k (tr_ArtistName (sr_Track r)) (tr_TrackName (sr_Track r)) s")
    case (Inr l)
    with assms same show ?thesis
      by (auto simp: enqueue_round_def Let_def split: prod.splits sum.splits dest!: set_err [OF assms(1)])
  next
    case (Inl err)
    show ?thesis
    proof (cases "errors_Is err SqlErrNoRows")
      case False
      with Inl assms same show ?thesis by (auto simp: enqueue_round_def Let_def)
    next
      case True
      show ?thesis
      proof (cases "prs_SetStatus results (k + 1) [sr_ID r] ''processing'' s")
        case (Pair res s1)
        show ?thesis
        proof (cases res)
          case (Inl re)
          with Pair True \<open>cache k _ _ s = Inl err\<close> assms same show ?thesis
            by (auto simp: enqueue_round_def Let_def dest!: set_err [OF assms(1)])
        next
          case (Inr y)
          then have p: "prs_SetStatus results (k + 1) [sr_ID r] ''processing'' s = (Inr y, s1)"
            using Pair by simp
          have inv1: "inv s1" using set_ok [OF assms(1) _ p] by simp
          show ?thesis
          proof (cases "scanInputs r")
            case (Inl ierr)
            with p True \<open>cache k _ _ s = Inl err\<close> assms(3) show ?thesis
              by (auto simp: enqueue_round_def Let_def intro!: undone [OF p])
          next
            case (Inr inputs)
            show ?thesis
            proof (cases "queue (k + 2) inputs p s1")
              case q: (Pair qres s2)
              from q Inr p True \<open>cache k _ _ s = Inl err\<close> assms(3) obtain qerr where
                qr: "qres = Inl qerr"
                and rest: "restore_pending results (k + 3) (sr_ID r)
                   (''scan: enqueue result '' @ Itoa (sr_ID r) @ '': '') qerr s2 = (Inl e, s')"
                by (auto simp: enqueue_round_def Let_def split: sum.splits)
              have "s2 = s1"
                using enqueue_err [OF inv1] q qr by blast
              with rest undone [OF p] show ?thesis by simp
            qed
          qed
        qed
      qed
    qed
  qed
qed

lemma handled_frame: "handled s r \<Longrightarrow> frame i s s' \<Longrightarrow> i \<noteq> sr_ID r \<Longrightarrow> handled s' r"
  by (auto simp: handled_def frame_def)

text \<open>A loop that ends well has handled every result.\<close>

lemma loop_ok:
  "inv s \<Longrightarrow> distinct (map sr_ID rs) \<Longrightarrow> \<forall>r\<in>set rs. 0 < sr_ID r \<Longrightarrow>
   enqueue_loop ctxErr results cache queue p k rs s = (Inr (), s') \<Longrightarrow>
   (\<forall>r\<in>set rs. handled s' r) \<and> inv s' \<and> hit s' = hit s \<and> queued s \<subseteq> queued s' \<and>
   (\<forall>j. j \<notin> sr_ID ` set rs \<longrightarrow> status s' j = status s j)"
proof (induction rs arbitrary: k s)
  case Nil
  then show ?case by simp
next
  case (Cons r rs)
  from Cons.prems(4) obtain s1 where one: "enqueue_round results cache queue p k r s = (Inr (), s1)"
    and rest: "enqueue_loop ctxErr results cache queue p (k + 4) rs s1 = (Inr (), s')"
    by (auto split: option.splits prod.splits sum.splits)
  from round_ok [OF Cons.prems(1) _ one] Cons.prems(3)
  have r: "handled s1 r" "frame (sr_ID r) s s1" by auto
  then have "inv s1" by (simp add: frame_def)
  from Cons.IH [OF this _ _ rest] Cons.prems(2,3)
  have IH: "(\<forall>r\<in>set rs. handled s' r) \<and> inv s' \<and> hit s' = hit s1 \<and> queued s1 \<subseteq> queued s' \<and>
      (\<forall>j. j \<notin> sr_ID ` set rs \<longrightarrow> status s' j = status s1 j)"
    by simp
  have "sr_ID r \<notin> sr_ID ` set rs"
    using Cons.prems(2) by simp
  with IH r(1) have "handled s' r"
    by (auto simp: handled_def)
  with IH r(2) show ?case by (auto simp: frame_def)
qed

text \<open>
  A loop that returns an error leaves every result handled or pending, unless undoing a reservation
  failed too, which the error then says.
\<close>

definition undo_failed :: "goerr \<Rightarrow> bool" where
  "undo_failed e \<longleftrightarrow> (case e of Errorf2 _ _ _ _ \<Rightarrow> True | _ \<Rightarrow> False)"

lemma loop_err:
  "inv s \<Longrightarrow> distinct (map sr_ID rs) \<Longrightarrow> \<forall>r\<in>set rs. 0 < sr_ID r \<and> status s (sr_ID r) = Some ''pending'' \<Longrightarrow>
   enqueue_loop ctxErr results cache queue p k rs s = (Inl e, s') \<Longrightarrow> \<not> undo_failed e \<Longrightarrow>
   (\<forall>r\<in>set rs. handled s' r \<or> status s' (sr_ID r) = Some ''pending'') \<and> inv s' \<and> hit s' = hit s \<and>
   queued s \<subseteq> queued s' \<and> (\<forall>j. j \<notin> sr_ID ` set rs \<longrightarrow> status s' j = status s j)"
proof (induction rs arbitrary: k s)
  case Nil
  then show ?case by simp
next
  case (Cons r rs)
  have new: "sr_ID r \<notin> sr_ID ` set rs"
    using Cons.prems(2) by simp
  show ?case
  proof (cases "ctxErr k")
    case (Some err)
    with Cons.prems show ?thesis by auto
  next
    case None
    show ?thesis
    proof (cases "enqueue_round results cache queue p k r s")
      case (Pair res s1)
      show ?thesis
      proof (cases res)
        case (Inl err)
        with Pair None Cons.prems(4) have eq: "err = e" "s1 = s'" by auto
        with Pair Inl round_err [OF Cons.prems(1), of r p k e s'] Cons.prems(3,5)
        have fr: "frame (sr_ID r) s s'" "status s' (sr_ID r) = Some ''pending''"
          by (auto simp: undo_failed_def)
        have "status s' (sr_ID x) = Some ''pending''" if "x \<in> set rs" for x
        proof -
          have "sr_ID x \<noteq> sr_ID r" using new that by (metis image_eqI)
          with fr(1) Cons.prems(3) that show ?thesis by (simp add: frame_def)
        qed
        with fr show ?thesis by (auto simp: frame_def)
      next
        case (Inr u)
        then have one: "enqueue_round results cache queue p k r s = (Inr (), s1)"
          using Pair by simp
        with None Cons.prems(4) have rest: "enqueue_loop ctxErr results cache queue p (k + 4) rs s1 = (Inl e, s')"
          by simp
        have r: "handled s1 r" "frame (sr_ID r) s s1"
          using round_ok [OF Cons.prems(1) _ one] Cons.prems(3) by auto
        have "status s1 (sr_ID x) = Some ''pending''" if "x \<in> set rs" for x
        proof -
          have "sr_ID x \<noteq> sr_ID r" using new that by (metis image_eqI)
          with r(2) Cons.prems(3) that show ?thesis by (simp add: frame_def)
        qed
        with Cons.IH [OF _ _ _ rest Cons.prems(5)] Cons.prems(2,3) r(2)
        have IH: "(\<forall>r\<in>set rs. handled s' r \<or> status s' (sr_ID r) = Some ''pending'') \<and> inv s' \<and> hit s' = hit s1 \<and>
            queued s1 \<subseteq> queued s' \<and> (\<forall>j. j \<notin> sr_ID ` set rs \<longrightarrow> status s' j = status s1 j)"
          by (simp add: frame_def)
        with new r(1) have "handled s' r" by (auto simp: handled_def)
        with IH r(2) show ?thesis by (auto simp: frame_def)
      qed
    qed
  qed
qed

end

section \<open>The environment of the program\<close>

text \<open>
  The interfaces over the database. Every call has its own driver errors and its own
  instants of the queue's clock and of the database's. A driver never
  reports a failure as \<open>sql.ErrNoRows\<close>, which \<open>database/sql\<close> reserves for an empty answer;
  \<open>honest_io\<close> drops such errors from an arbitrary one.
\<close>

definition honest :: "io \<Rightarrow> bool" where
  "honest io \<longleftrightarrow> (\<forall>k. opt_where (\<lambda>e. errors_Is e SqlErrNoRows) (io k) \<longrightarrow> False)"

definition honest_io :: "io \<Rightarrow> io" where
  "honest_io io k =
     (case io k of None \<Rightarrow> None | Some e \<Rightarrow> if errors_Is e SqlErrNoRows then None else Some e)"

lemma honest_io_id: "honest io \<Longrightarrow> honest_io io = io"
  by (rule ext) (auto simp: honest_def honest_io_def opt_where_def split: option.splits)

lemma honest_no_faults [simp]: "honest no_faults"
  by (simp add: honest_def opt_where_def)

definition db_results :: "(nat \<Rightarrow> io) \<Rightarrow> db PendingResultStore" where
  "db_results ios =
     \<lparr>prs_ListPending = (\<lambda>k. ListPendingByLibrary (honest_io (ios k))),
      prs_SetStatus = (\<lambda>k. SetStatus (honest_io (ios k)))\<rparr>"

definition db_cache :: "unicode_env \<Rightarrow> (nat \<Rightarrow> io) \<Rightarrow> db lookup_fn" where
  "db_cache u ios k = LookupFallback u (honest_io (ios k))"

definition db_queue :: "unicode_env \<Rightarrow> (nat \<Rightarrow> io) \<Rightarrow> (nat \<Rightarrow> int \<times> int) \<Rightarrow> db enqueue_fn" where
  "db_queue u ios clocks k inputs p =
     Enqueue u (honest_io (ios k)) (fst (clocks k)) (snd (clocks k)) inputs p"

definition db_enqueuer :: "unicode_env \<Rightarrow> (nat \<Rightarrow> io) \<Rightarrow> (nat \<Rightarrow> int \<times> int) \<Rightarrow> int \<Rightarrow> db Enqueuer" where
  "db_enqueuer u ios clocks p =
     \<lparr>er_Results = Some (db_results ios), er_Cache = Some (db_cache u ios),
      er_Queue = Some (db_queue u ios clocks), er_Priority = p\<rparr>"

definition result_status :: "db \<Rightarrow> int \<Rightarrow> string option" where
  "result_status d i = map_option (\<lambda>r. status_text (sc_status r)) (find (\<lambda>r. sc_id r = i) (scan_results d))"

definition linked_ids :: "db \<Rightarrow> int set" where
  "linked_ids d = snd ` set (junction d)"

definition cache_hit :: "unicode_env \<Rightarrow> db \<Rightarrow> string \<Rightarrow> string \<Rightarrow> bool" where
  "cache_hit u d a t \<longleftrightarrow> (\<exists>r\<in>set (lyrics_cache d). same_song u a t r)"

lemma ListPending_rows:
  assumes "db_wf d" "ListPendingByLibrary io lib d = Inr rs"
  shows "rs = map row_result (filter (\<lambda>r. sc_library_id r = lib \<and> sc_status r = Pending) (scan_results d))"
  using assms(2) scan_rows_in_order [OF assms(1)]
  by (auto simp: ListPendingByLibrary_def scan_listing_def split: option.splits)

lemma find_sc_id:
  "db_wf d \<Longrightarrow> r \<in> set (scan_results d) \<Longrightarrow> find (\<lambda>x. sc_id x = sc_id r) (scan_results d) = Some r"
  by (rule find_unique) (auto simp: db_wf_def wf_scan_def dest: ids_ok_distinct)

lemma pending_rows_ok:
  assumes "db_wf d" "ListPendingByLibrary io lib d = Inr rs"
  shows "distinct (map sr_ID rs) \<and> (\<forall>r\<in>set rs. result_status d (sr_ID r) = Some ''pending'' \<and> 0 < sr_ID r)"
proof -
  have ids: "ids_ok sc_id (sr_seq d) (scan_results d)"
    using assms(1) by (simp add: db_wf_def wf_scan_def)
  have "distinct (map sr_ID rs)"
    using ids_ok_distinct [OF ids]
    by (simp add: ListPending_rows [OF assms] comp_def row_result_def distinct_map_filter)
  then show ?thesis
    using ids by (auto simp: ListPending_rows [OF assms] row_result_def result_status_def find_sc_id [OF assms(1)] ids_ok_def)
qed

lemma SetStatus_one_ok:
  assumes "SetStatus io [i] st d = (Inr x, d')" "st = status_text s"
  shows "d' = sr_update (\<lambda>r. sc_id r = i) (\<lambda>r. r\<lparr>sc_status := s\<rparr>) d \<and> (\<exists>r\<in>set (scan_results d). sc_id r = i)"
  using assms by (auto simp: SetStatus_def drv_ok sql_count_zero split: sum.splits option.splits if_splits)

lemma SetStatus_atomic: "atomic (SetStatus io ids st)"
  unfolding atomic_def SetStatus_def by (auto dest!: drv_Inl split: sum.splits option.splits if_splits)

lemma result_status_update:
  assumes "\<exists>r\<in>set (scan_results d). sc_id r = i"
  shows "result_status (sr_update (\<lambda>r. sc_id r = i) (\<lambda>r. r\<lparr>sc_status := s\<rparr>) d) = (result_status d)(i \<mapsto> status_text s)"
proof (rule ext)
  fix j
  have f: "find (\<lambda>r. sc_id r = j) (scan_results (sr_update (\<lambda>r. sc_id r = i) (\<lambda>r. r\<lparr>sc_status := s\<rparr>) d)) =
      map_option (\<lambda>r. if sc_id r = i then r\<lparr>sc_status := s\<rparr> else r) (find (\<lambda>r. sc_id r = j) (scan_results d))"
    by (simp add: sr_update_def find_map_upd)
  show "result_status (sr_update (\<lambda>r. sc_id r = i) (\<lambda>r. r\<lparr>sc_status := s\<rparr>) d) j =
      ((result_status d)(i \<mapsto> status_text s)) j"
  proof (cases "find (\<lambda>r. sc_id r = j) (scan_results d)")
    case None
    with assms have "j \<noteq> i" by (auto simp: find_none)
    with None f show ?thesis by (simp add: result_status_def)
  next
    case (Some r)
    then have "sc_id r = j" by (auto dest: find_in_set)
    with Some f show ?thesis by (simp add: result_status_def)
  qed
qed

lemma LookupFallback_hit: "LookupFallback u io a t d = Inr l \<Longrightarrow> cache_hit u d a t"
  by (auto simp: LookupFallback_def query_row_def cache_hit_def dest!: first_row_order_by
      split: option.splits if_splits sum.splits)

lemma LookupFallback_miss:
  assumes "LookupFallback u (honest_io io) a t d = Inl e" "errors_Is e SqlErrNoRows"
  shows "\<not> cache_hit u d a t"
proof (cases "first_row (order_by newest_first (filter (same_song u a t) (lyrics_cache d)))")
  case None
  then have "filter (same_song u a t) (lyrics_cache d) = []"
    by (simp add: first_row_none)
  then show ?thesis
    by (auto simp: cache_hit_def filter_empty_conv)
next
  case (Some r)
  with assms show ?thesis
    by (auto simp: LookupFallback_def query_row_def honest_io_def split: option.splits if_splits)
qed

lemma wq_upsert_cache: "wq_upsert rf dbt exc d = Inr (row, d1) \<Longrightarrow> lyrics_cache d1 = lyrics_cache d"
  by (auto simp: wq_upsert_def Let_def split: option.splits if_splits)

lemma Enqueue_cache:
  assumes "Enqueue u io now dbt inputs p d = (Inr item, d')"
  shows "lyrics_cache d' = lyrics_cache d"
  using assms
  by (auto simp: Enqueue_def Let_def drv_ok wq_link_def split: sum.splits if_splits dest!: wq_upsert_cache)

interpretation db_env: enqueuer_env "db_results ios" "db_cache u ios" "db_queue u ios clocks"
  result_status linked_ids "cache_hit u" db_wf for u ios clocks
proof
  fix s s' :: db and k i lib p and rs :: "ScanResult list" and st a t l :: string and x :: unit
    and e :: goerr and inputs and item
  show "distinct (map sr_ID rs) \<and> (\<forall>r\<in>set rs. result_status s (sr_ID r) = Some ''pending'' \<and> 0 < sr_ID r)"
    if "db_wf s" "prs_ListPending (db_results ios) k lib s = Inr rs"
    using that by (intro pending_rows_ok) (auto simp: db_results_def)
  show "db_wf s' \<and> result_status s' = (result_status s)(i \<mapsto> st) \<and> linked_ids s' = linked_ids s \<and>
      cache_hit u s' = cache_hit u s"
    if wf: "db_wf s" and st: "st \<in> {''pending'', ''processing'', ''done''}"
      and set: "prs_SetStatus (db_results ios) k [i] st s = (Inr x, s')"
  proof -
    obtain st' where st': "st = status_text st'"
      using st by (metis empty_iff insert_iff status_text.simps(1-3))
    have set': "SetStatus (honest_io (ios k)) [i] st s = (Inr x, s')"
      using set by (simp add: db_results_def)
    have "db_wf s'"
      using SetStatus_wf [OF wf, of "honest_io (ios k)" "[i]" st] set' by simp
    moreover have s': "s' = sr_update (\<lambda>r. sc_id r = i) (\<lambda>r. r\<lparr>sc_status := st'\<rparr>) s"
      "\<exists>r\<in>set (scan_results s). sc_id r = i"
      using SetStatus_one_ok [OF set' st'] by auto
    moreover have "result_status s' = (result_status s)(i \<mapsto> st)"
      using result_status_update [OF s'(2)] s'(1) st' by simp
    moreover have "linked_ids s' = linked_ids s" "cache_hit u s' = cache_hit u s"
      by (simp_all add: s'(1) linked_ids_def cache_hit_def [abs_def])
    ultimately show ?thesis by blast
  qed
  show "s' = s" if "prs_SetStatus (db_results ios) k [i] st s = (Inl e, s')"
    using that SetStatus_atomic [of "honest_io (ios k)" "[i]" st] by (auto simp: db_results_def atomic_def)
  show "cache_hit u s a t" if "db_cache u ios k a t s = Inr l"
    using that by (auto simp: db_cache_def intro: LookupFallback_hit)
  show "\<not> cache_hit u s a t" if "db_cache u ios k a t s = Inl e" "errors_Is e SqlErrNoRows"
    using that by (auto simp: db_cache_def dest: LookupFallback_miss)
  show "s' = s" if "db_queue u ios clocks k inputs p s = (Inl e, s')"
    using that Enqueue_atomic [of u "honest_io (ios k)" "fst (clocks k)" "snd (clocks k)" inputs p]
    by (auto simp: db_queue_def atomic_def)
  show "db_wf s' \<and> result_status s' = result_status s \<and>
      linked_ids s' = insert (in_ScanResultID inputs) (linked_ids s) \<and> cache_hit u s' = cache_hit u s"
    if wf: "db_wf s" and pos: "0 < in_ScanResultID inputs" and enq: "db_queue u ios clocks k inputs p s = (Inr item, s')"
  proof -
    note enq' = enq [unfolded db_queue_def]
    note eff = Enqueue_effect [OF wf enq']
    have "db_wf s'"
      using Enqueue_wf [OF wf, of u "honest_io (ios k)" "fst (clocks k)" "snd (clocks k)" inputs p] enq' by simp
    with eff(4,5) pos Enqueue_cache [OF enq'] show ?thesis
      by (simp add: result_status_def [abs_def] linked_ids_def cache_hit_def [abs_def])
  qed
qed

section \<open>What a scan's results become\<close>

definition pending_in :: "db \<Rightarrow> int \<Rightarrow> sr_row \<Rightarrow> bool" where
  "pending_in d lib r \<longleftrightarrow> r \<in> set (scan_results d) \<and> sc_library_id r = lib \<and> sc_status r = Pending"

text \<open>The fate of a result that was handled: answered by the cache, or linked to queued work.\<close>

definition settled :: "unicode_env \<Rightarrow> db \<Rightarrow> db \<Rightarrow> sr_row \<Rightarrow> bool" where
  "settled u d d' r \<longleftrightarrow>
     (if cache_hit u d (sc_artist r) (sc_title r) then result_status d' (sc_id r) = Some ''done''
      else result_status d' (sc_id r) = Some ''processing'' \<and> sc_id r \<in> linked_ids d')"

lemma EnqueuePending_db:
  assumes "db_wf d" "ctxErr 0 = None"
    and "EnqueuePending (db_enqueuer u ios clocks p) ctxErr lib d = (res, d')"
  shows "(\<exists>e. res = Inl e \<and> d' = d) \<or>
     (\<exists>rs. distinct (map sr_ID rs) \<and> (\<forall>r\<in>set rs. result_status d (sr_ID r) = Some ''pending'' \<and> 0 < sr_ID r) \<and>
        rs = map row_result (filter (\<lambda>r. sc_library_id r = lib \<and> sc_status r = Pending) (scan_results d)) \<and>
        enqueue_loop ctxErr (db_results ios) (db_cache u ios) (db_queue u ios clocks) p 1 rs d = (res, d'))"
proof (cases "ListPendingByLibrary (honest_io (ios 0)) lib d")
  case (Inl e)
  with assms(2,3) show ?thesis
    by (auto simp: EnqueuePending_def db_enqueuer_def db_results_def)
next
  case (Inr rs)
  with assms(2,3) pending_rows_ok [OF assms(1) Inr] ListPending_rows [OF assms(1) Inr] show ?thesis
    by (auto simp: EnqueuePending_def db_enqueuer_def db_results_def)
qed

lemma row_result_simps:
  "sr_ID (row_result r) = sc_id r" "tr_ArtistName (sr_Track (row_result r)) = sc_artist r"
  "tr_TrackName (sr_Track (row_result r)) = sc_title r"
  by (simp_all add: row_result_def)

lemma handled_row:
  assumes "db_env.handled u s (row_result r)" and "cache_hit u s = cache_hit u d"
  shows "settled u d s r"
  using assms by (simp add: db_env.handled_def settled_def row_result_simps split: if_splits)

lemma enqueue_settles:
  assumes "db_wf d" and "EnqueuePending (db_enqueuer u ios clocks p) ctxErr lib d = (Inr (), d')"
  shows "(\<forall>r. pending_in d lib r \<longrightarrow> settled u d d' r) \<and>
         (\<forall>r\<in>set (scan_results d). \<not> pending_in d lib r \<longrightarrow>
            result_status d' (sc_id r) = result_status d (sc_id r)) \<and>
         linked_ids d \<subseteq> linked_ids d'"
proof -
  from assms(2) have ctx: "ctxErr 0 = None"
    by (auto simp: EnqueuePending_def db_enqueuer_def split: option.splits)
  from EnqueuePending_db [OF assms(1) ctx assms(2)] obtain rs where
    rs: "distinct (map sr_ID rs)" "\<forall>r\<in>set rs. 0 < sr_ID r"
      "rs = map row_result (filter (\<lambda>r. sc_library_id r = lib \<and> sc_status r = Pending) (scan_results d))"
    and loop: "enqueue_loop ctxErr (db_results ios) (db_cache u ios) (db_queue u ios clocks) p 1 rs d = (Inr (), d')"
    by auto
  note ok = db_env.loop_ok [OF assms(1) rs(1,2) loop]
  have "settled u d d' r" if "pending_in d lib r" for r
  proof (rule handled_row)
    have "row_result r \<in> set rs" using that by (auto simp: pending_in_def rs(3))
    then show "db_env.handled u d' (row_result r)" using ok by blast
    show "cache_hit u d' = cache_hit u d" using ok by blast
  qed
  moreover have "result_status d' (sc_id r) = result_status d (sc_id r)"
    if "r \<in> set (scan_results d)" "\<not> pending_in d lib r" for r
  proof -
    have "sc_id r \<notin> sr_ID ` set rs"
    proof
      assume "sc_id r \<in> sr_ID ` set rs"
      then obtain y where y: "y \<in> set rs" "sr_ID y = sc_id r" by (metis imageE)
      from y(1) obtain x where x: "x \<in> set (scan_results d)" "sc_library_id x = lib" "sc_status x = Pending"
        "y = row_result x"
        unfolding rs(3) by auto
      with y(2) have "sc_id x = sc_id r" by (simp add: row_result_simps)
      with x(1) that(1) have "x = r" by (metis assms(1) find_sc_id option.inject)
      with x(1-3) that show False by (simp add: pending_in_def)
    qed
    with ok show ?thesis by simp
  qed
  ultimately show ?thesis using ok by blast
qed

text \<open>
  C23. EnqueuePending settles every pending result of its library when it returns without an error: a
  result whose song the cache knows is done, whatever the reason it was pending again, and every
  other result is processing and linked to a row of the queue. The status of all other results is
  unchanged and no link is lost.
\<close>
theorem EnqueuePending_settles_all:
  assumes "db_wf d" and "EnqueuePending (db_enqueuer u ios clocks p) ctxErr lib d = (Inr (), d')"
  shows "(\<forall>r. pending_in d lib r \<longrightarrow> settled u d d' r) \<and>
         (\<forall>r\<in>set (scan_results d). \<not> pending_in d lib r \<longrightarrow>
            result_status d' (sc_id r) = result_status d (sc_id r)) \<and>
         linked_ids d \<subseteq> linked_ids d'"
  using enqueue_settles [OF assms] .

text \<open>
  EnqueuePending that stops with an error leaves every pending result of the library settled or
  still pending: nothing is left reserved without a queue row, unless undoing a reservation failed as
  well, which the error reports.
\<close>
theorem EnqueuePending_error_keeps_results:
  assumes "db_wf d" and "EnqueuePending (db_enqueuer u ios clocks p) ctxErr lib d = (Inl e, d')"
    and "\<forall>pre a mid b. e \<noteq> Errorf2 pre a mid b"
  shows "\<forall>r. pending_in d lib r \<longrightarrow> settled u d d' r \<or> result_status d' (sc_id r) = Some ''pending''"
proof (cases "ctxErr 0")
  case (Some err)
  with assms(2) have "d' = d"
    by (auto simp: EnqueuePending_def db_enqueuer_def)
  then show ?thesis
    by (auto simp: pending_in_def result_status_def find_sc_id [OF assms(1)])
next
  case None
  have noundo: "\<not> db_env.undo_failed e"
    using assms(3) by (auto simp: db_env.undo_failed_def split: goerr.splits)
  from EnqueuePending_db [OF assms(1) None assms(2)] show ?thesis
  proof
    assume "\<exists>e'. Inl e = Inl e' \<and> d' = d"
    then show ?thesis
      by (auto simp: pending_in_def result_status_def find_sc_id [OF assms(1)])
  next
    assume "\<exists>rs. distinct (map sr_ID rs) \<and> (\<forall>r\<in>set rs. result_status d (sr_ID r) = Some ''pending'' \<and> 0 < sr_ID r) \<and>
        rs = map row_result (filter (\<lambda>r. sc_library_id r = lib \<and> sc_status r = Pending) (scan_results d)) \<and>
        enqueue_loop ctxErr (db_results ios) (db_cache u ios) (db_queue u ios clocks) p 1 rs d = (Inl e, d')"
    then obtain rs where
      rs: "distinct (map sr_ID rs)" "\<forall>r\<in>set rs. 0 < sr_ID r \<and> result_status d (sr_ID r) = Some ''pending''"
      "rs = map row_result (filter (\<lambda>r. sc_library_id r = lib \<and> sc_status r = Pending) (scan_results d))"
      and loop: "enqueue_loop ctxErr (db_results ios) (db_cache u ios) (db_queue u ios clocks) p 1 rs d = (Inl e, d')"
      by auto
    note err = db_env.loop_err [OF assms(1) rs(1,2) loop noundo]
    show ?thesis
    proof (intro allI impI)
      fix r
      assume r: "pending_in d lib r"
      then have "row_result r \<in> set rs" by (auto simp: pending_in_def rs(3))
      with err have "db_env.handled u d' (row_result r) \<or> result_status d' (sr_ID (row_result r)) = Some ''pending''"
        and "cache_hit u d' = cache_hit u d"
        by blast+
      with handled_row [of u d' r d] show "settled u d d' r \<or> result_status d' (sc_id r) = Some ''pending''"
        by (auto simp: row_result_simps)
    qed
  qed
qed

definition scanned_two :: db where
  "scanned_two = snd (CacheStore ascii_env no_faults 0 ''Adele'' ''Hello'' ''25'' ''cached''
     (snd (Upsert no_faults 0 1 [found_file ''/m/a.mp3'' ''Hello'', found_file ''/m/b.mp3'' ''Skyfall'']
        \<lparr>uo_ForceStatus = False\<rparr> one_library)))"

lemma db_wf_scanned_two: "db_wf scanned_two"
  unfolding scanned_two_def by (intro CacheStore_wf Upsert_wf db_wf_one_library)

definition quiet_enqueuer :: "db Enqueuer" where
  "quiet_enqueuer = db_enqueuer ascii_env (\<lambda>_. no_faults) (\<lambda>_. (0, 0)) 0"

theorem EnqueuePending_settles_all_witness:
  "\<exists>d'. EnqueuePending quiet_enqueuer (\<lambda>_. None) 1 scanned_two = (Inr (), d') \<and>
     (\<forall>r. pending_in scanned_two 1 r \<longrightarrow> settled ascii_env scanned_two d' r) \<and>
     map sc_status (scan_results scanned_two) = [Pending, Pending] \<and>
     map sc_status (scan_results d') = [Done, Processing]"
proof -
  have ok: "is_ok (fst (EnqueuePending quiet_enqueuer (\<lambda>_. None) 1 scanned_two))"
    and st: "map sc_status (scan_results scanned_two) = [Pending, Pending]"
      "map sc_status (scan_results (snd (EnqueuePending quiet_enqueuer (\<lambda>_. None) 1 scanned_two))) = [Done, Processing]"
    by code_simp+
  from ok obtain d' where e: "EnqueuePending quiet_enqueuer (\<lambda>_. None) 1 scanned_two = (Inr (), d')"
    by (auto dest: is_okE)
  from EnqueuePending_settles_all [OF db_wf_scanned_two e [unfolded quiet_enqueuer_def]] e st show ?thesis
    by auto
qed

theorem EnqueuePending_error_keeps_results_witness:
  "\<exists>d'. EnqueuePending quiet_enqueuer (\<lambda>k. if k = 5 then Some (Sen CtxCanceled) else None) 1 scanned_two =
       (Inl (Sen CtxCanceled), d') \<and>
     (\<forall>r. pending_in scanned_two 1 r \<longrightarrow>
        settled ascii_env scanned_two d' r \<or> result_status d' (sc_id r) = Some ''pending'')"
proof -
  let ?ctx = "\<lambda>k. if k = 5 then Some (Sen CtxCanceled) else None"
  have "fst (EnqueuePending quiet_enqueuer (\<lambda>k. if k = 5 then Some (Sen CtxCanceled) else None) 1 scanned_two) =
      Inl (Sen CtxCanceled)"
    by code_simp
  then obtain d' where e: "EnqueuePending quiet_enqueuer ?ctx 1 scanned_two = (Inl (Sen CtxCanceled), d')"
    by (metis prod.collapse)
  from EnqueuePending_error_keeps_results [OF db_wf_scanned_two e [unfolded quiet_enqueuer_def]] e show ?thesis
    by blast
qed

section \<open>What every run preserves\<close>

text \<open>A property of the state that SetStatus and Enqueue keep survives every run, with or without an error.\<close>

lemma EnqueuePending_preserves:
  fixes P :: "'s \<Rightarrow> bool"
  assumes set: "\<And>k ids st s r s'. prs_SetStatus results k ids st s = (r, s') \<Longrightarrow> P s \<Longrightarrow> P s'"
    and enq: "\<And>k inputs s r s'. queue k inputs p s = (r, s') \<Longrightarrow> P s \<Longrightarrow> P s'"
    and er: "er_Results e = Some results" "er_Queue e = Some queue" "er_Priority e = p"
    and "P s" "EnqueuePending e ctxErr lib s = (r, s')"
  shows "P s'"
proof -
  have undo: "P s'" if "restore_pending results k i pre er s = (r, s')" "P s" for k i pre er s r s'
    using that by (auto simp: restore_pending_def split: prod.splits sum.splits dest: set)
  have round: "P s'" if "enqueue_round results cache queue p k res s = (r, s')" "P s" for cache k res s r s'
    using that
    by (auto simp: enqueue_round_def Let_def split: prod.splits sum.splits if_splits dest: set enq undo)
  have loop: "P s'" if "enqueue_loop ctxErr results cache queue p k rs s = (r, s')" "P s" for cache k rs s r s'
    using that
  proof (induction rs arbitrary: k s)
    case (Cons x rs)
    obtain r1 s1 where one: "enqueue_round results cache queue p k x s = (r1, s1)" by fastforce
    from round [OF this Cons.prems(2)] Cons one show ?case by (auto split: option.splits sum.splits)
  qed simp
  from assms(6,7) show ?thesis
    by (auto simp: EnqueuePending_def er split: option.splits sum.splits dest: loop)
qed

lemma prs_SetStatus_wf: "prs_SetStatus (db_results ios) k ids st d = (r, d') \<Longrightarrow> db_wf d \<Longrightarrow> db_wf d'"
  using SetStatus_wf [of d "honest_io (ios k)" ids st] by (simp add: db_results_def)

lemma db_queue_wf: "db_queue u ios clocks k inputs p d = (r, d') \<Longrightarrow> db_wf d \<Longrightarrow> db_wf d'"
  using Enqueue_wf [of d u "honest_io (ios k)" "fst (clocks k)" "snd (clocks k)" inputs p] by (simp add: db_queue_def)

lemma db_enqueuer_simps:
  "er_Results (db_enqueuer u ios clocks p) = Some (db_results ios)"
  "er_Queue (db_enqueuer u ios clocks p) = Some (db_queue u ios clocks)"
  "er_Priority (db_enqueuer u ios clocks p) = p"
  by (simp_all add: db_enqueuer_def)

lemma EnqueuePending_wf [wf_intros]:
  assumes "db_wf d"
  shows "db_wf (snd (EnqueuePending (db_enqueuer u ios clocks p) ctxErr lib d))"
  by (rule EnqueuePending_preserves [where P = db_wf, OF _ _ db_enqueuer_simps assms prod.collapse [symmetric]])
    (auto dest: prs_SetStatus_wf db_queue_wf)

text \<open>The identity of the scan results: their ids, libraries and paths.\<close>

definition result_keys :: "db \<Rightarrow> (int \<times> int \<times> string) list" where
  "result_keys d = map (\<lambda>r. (sc_id r, sc_library_id r, sc_file_path r)) (scan_results d)"

lemma set_status_loop_keys: "set_status_loop io k st ids d = Inr d' \<Longrightarrow> result_keys d' = result_keys d"
proof (induction ids arbitrary: k d)
  case (Cons i ids)
  have "result_keys (sr_update (\<lambda>r. sc_id r = i) (\<lambda>r. r\<lparr>sc_status := st\<rparr>) d) = result_keys d"
    by (simp add: result_keys_def sr_update_def map_sql_update)
  with Cons show ?case by (auto split: option.splits if_splits)
qed simp

lemma SetStatus_keys: "SetStatus io ids st d = (r, d') \<Longrightarrow> result_keys d' = result_keys d"
  by (auto simp: SetStatus_def drv_def split: if_splits option.splits sum.splits dest: set_status_loop_keys)

lemma db_queue_keys:
  assumes "db_queue u ios clocks k inputs p d = (r, d')" "db_wf d"
  shows "result_keys d' = result_keys d"
proof (cases r)
  case (Inl e)
  then have "d' = d" using db_env.enqueue_err [OF assms(2), of u ios clocks k inputs p e d'] assms(1) by simp
  then show ?thesis by simp
next
  case (Inr item)
  with Enqueue_effect(4) [OF assms(2)] assms(1) show ?thesis by (simp add: db_queue_def result_keys_def)
qed

lemma prs_SetStatus_keys: "prs_SetStatus (db_results ios) k ids st d = (r, d') \<Longrightarrow> result_keys d' = result_keys d"
  by (auto simp: db_results_def dest: SetStatus_keys)

lemma EnqueuePending_keys:
  assumes "db_wf d" "EnqueuePending (db_enqueuer u ios clocks p) ctxErr lib d = (r, d')"
  shows "result_keys d' = result_keys d"
proof -
  have "db_wf d' \<and> result_keys d' = result_keys d"
    by (rule EnqueuePending_preserves [where P = "\<lambda>s. db_wf s \<and> result_keys s = result_keys d", OF _ _ db_enqueuer_simps _ assms(2)])
      (use assms(1) in \<open>auto dest: prs_SetStatus_wf db_queue_wf prs_SetStatus_keys db_queue_keys\<close>)
  then show ?thesis by simp
qed

end
