(* ===== verification/Db_Steps.thy ===== *)
theory Db_Steps
  imports Commands_DB Scan_Enqueuer
begin

text \<open>
  The database as a state machine: a step is one operation of the program on it, with any arguments,
  clocks and driver errors, whoever calls it. The one connection that \<open>db.Open\<close> allows makes every
  operation atomic, so that an execution of worker, scheduler, HTTP handlers and commands is a sequence
  of such steps in some order. The invariants below hold in every state that any order can reach.
\<close>

section \<open>The steps\<close>

inductive db_step :: "unicode_env \<Rightarrow> db \<Rightarrow> db \<Rightarrow> bool" for u where
  enqueue: "db_step u d (snd (Enqueue u io now dbt inputs priority d))"
| dequeue: "db_step u d (snd (Dequeue io now dbt d))"
| complete: "db_step u d (snd (Complete io now dbt i d))"
| release: "db_step u d (snd (Release io dbt i d))"
| fail: "db_step u d (snd (Fail q io now dbt i cause d))"
| cleanup: "db_step u d (snd (Cleanup u io inputs d))"
| retry: "db_step u d (snd (Retry io now dbt i d))"
| clear_done: "db_step u d (snd (ClearDone io d))"
| cancel_library: "db_step u d (snd (CancelByLibrary io dbt lib d))"
| scan_clear: "db_step u d (snd (scan_clear_tx E lib d))"
| cache_store: "db_step u d (snd (CacheStore u io dbt a t al l d))"
| upsert: "db_step u d (snd (Upsert io dbt lib results opts d))"
| set_status: "db_step u d (snd (SetStatus io ids st d))"
| clear_library: "db_step u d (snd (ClearByLibrary io dbt lib d))"
| lib_add: "db_step u d (snd (LibAdd io dbt path name d))"
| lib_update: "db_step u d (snd (LibUpdate io dbt i path name d))"
| lib_remove: "db_step u d (snd (LibRemove io dbt i d))"
| key_create: "db_step u d (snd (SQLCreate io key d))"
| key_ensure: "db_step u d (snd (CreateIfNotExists io key d))"
| key_revoke: "db_step u d (snd (SQLRevokeByHash io h t d))"

lemma scan_clear_wf: "db_wf d \<Longrightarrow> db_wf (snd (scan_clear_tx E i d))"
  using scan_clear_tx_wf [of E i d] by (cases "scan_clear_tx E i d") simp

lemma db_step_wf: "db_step u d d' \<Longrightarrow> db_wf d \<Longrightarrow> db_wf d'"
  by (induction rule: db_step.induct) (intro wf_intros scan_clear_wf; assumption)+

lemma db_steps_wf: "(db_step u)\<^sup>*\<^sup>* d d' \<Longrightarrow> db_wf d \<Longrightarrow> db_wf d'"
  by (induction rule: rtranclp_induct) (auto intro: db_step_wf)

section \<open>What a step does to the rows of the queue\<close>

text \<open>The transitions of a row's status.\<close>

definition edges :: "(status \<times> status) set" where
  "edges = {(Pending, Processing), (Failed, Processing), (Processing, Done), (Processing, Failed), (Processing, Pending),
     (Failed, Pending)}"

definition row_next :: "wq_row \<Rightarrow> wq_row \<Rightarrow> bool" where
  "row_next r r' \<longleftrightarrow> wq_id r' = wq_id r \<and> wq_key r' = wq_key r \<and>
     (wq_status r' = wq_status r \<or> (wq_status r, wq_status r') \<in> edges) \<and>
     (wq_status r = Done \<longrightarrow> wq_completed_at r' = wq_completed_at r) \<and>
     (wq_output_paths r \<noteq> PathsCorrupt \<longrightarrow> wq_output_paths r' \<noteq> PathsCorrupt)"

text \<open>Every row of the new state comes from a row of the old one, or is new and pending.\<close>

definition advances :: "db \<Rightarrow> db \<Rightarrow> bool" where
  "advances d d' \<longleftrightarrow> wq_seq d \<le> wq_seq d' \<and>
     (\<forall>r'\<in>set (work_queue d'). (\<exists>r\<in>set (work_queue d). row_next r r') \<or> wq_seq d < wq_id r' \<and> wq_status r' = Pending \<and>
        wq_output_paths r' \<noteq> PathsCorrupt)"

lemma row_next_refl [simp]: "row_next r r"
  by (simp add: row_next_def)

lemma advances_same: "work_queue d' = work_queue d \<Longrightarrow> wq_seq d' = wq_seq d \<Longrightarrow> advances d d'"
  unfolding advances_def by (metis order_refl row_next_refl)

lemma advances_refl [simp]: "advances d d"
  by (rule advances_same) simp_all

lemma advances_sub: "set (work_queue d') \<subseteq> set (work_queue d) \<Longrightarrow> wq_seq d' = wq_seq d \<Longrightarrow> advances d d'"
  unfolding advances_def by (metis order_refl row_next_refl subsetD)

lemma advances_update:
  assumes "\<And>r. r \<in> set (work_queue d) \<Longrightarrow> P r \<Longrightarrow> row_next r ((f r)\<lparr>wq_updated_at := dbt\<rparr>)"
  shows "advances d (wq_update dbt P f d)"
  using assms by (fastforce simp: advances_def wq_update_def sql_update_def)

lemma advances_drv: "advances d (snd r) \<Longrightarrow> advances d d' \<Longrightarrow> advances d (snd (drv io k pre d' r))"
  by (simp add: drv_def split: option.split)

lemma advances_frame: "advances d d1 \<Longrightarrow> work_queue d2 = work_queue d1 \<Longrightarrow> wq_seq d2 = wq_seq d1 \<Longrightarrow> advances d d2"
  by (simp add: advances_def)

text \<open>Steps within a step: what changes neither the rows' keys and status nor the sequence.\<close>

definition row_keeps :: "wq_row \<Rightarrow> wq_row \<Rightarrow> bool" where
  "row_keeps r r' \<longleftrightarrow> wq_id r' = wq_id r \<and> wq_key r' = wq_key r \<and> wq_status r' = wq_status r \<and>
     wq_completed_at r' = wq_completed_at r \<and> (wq_output_paths r \<noteq> PathsCorrupt \<longrightarrow> wq_output_paths r' \<noteq> PathsCorrupt)"

definition keeps :: "db \<Rightarrow> db \<Rightarrow> bool" where
  "keeps d d' \<longleftrightarrow> wq_seq d' = wq_seq d \<and> (\<forall>r'\<in>set (work_queue d'). \<exists>r\<in>set (work_queue d). row_keeps r r')"

lemma keeps_refl [simp]: "keeps d d"
  by (auto simp: keeps_def row_keeps_def)

lemma keeps_trans: "keeps d d' \<Longrightarrow> keeps d' d'' \<Longrightarrow> keeps d d''"
  unfolding keeps_def row_keeps_def by metis

lemma keeps_advances: "keeps d d' \<Longrightarrow> advances d d'"
  unfolding keeps_def advances_def row_keeps_def row_next_def by (metis order_refl)

lemma keeps_update: "(\<And>r. P r \<Longrightarrow> row_keeps r ((f r)\<lparr>wq_updated_at := dbt\<rparr>)) \<Longrightarrow> keeps d (wq_update dbt P f d)"
  by (auto simp: keeps_def wq_update_def sql_update_def row_keeps_def)

lemma keeps_delete: "keeps d (wq_delete P d)"
  by (auto simp: keeps_def row_keeps_def set_sql_delete)

lemma keeps_sr_delete: "keeps d (sr_delete dbt P d)"
  by (auto simp: keeps_def sr_delete_rows row_keeps_def wq_key_def)

lemma keeps_drv: "keeps d (snd r) \<Longrightarrow> keeps d d' \<Longrightarrow> keeps d (snd (drv io k pre d' r))"
  by (simp add: drv_def split: option.split)


section \<open>Every operation advances\<close>

lemma excluded_status [simp]: "wq_status (excluded_row u inputs p ts dbt i) = Pending" "wq_id (excluded_row u inputs p ts dbt i) = i"
  "wq_output_paths (excluded_row u inputs p ts dbt i) \<noteq> PathsCorrupt"
  by (simp_all add: excluded_row_def marshal_readable)

lemma conflict_row_next: "wq_key exc = wq_key old \<Longrightarrow> wq_output_paths exc \<noteq> PathsCorrupt \<Longrightarrow> row_next old ((conflict_row b old exc)\<lparr>wq_updated_at := t\<rparr>)"
  by (cases "wq_status old") (auto simp: row_next_def conflict_row_def Let_def wq_key_def)

lemma wq_upsert_advances:
  assumes "db_wf d" "wq_upsert b dbt exc d = Inr (row, d1)" "wq_id exc = wq_seq d + 1" "wq_status exc = Pending"
    "wq_output_paths exc \<noteq> PathsCorrupt"
  shows "advances d d1"
proof (cases "find (\<lambda>r. wq_key r = wq_key exc) (work_queue d)")
  case None
  with assms have "d1 = d\<lparr>work_queue := work_queue d @ [exc], wq_seq := wq_id exc\<rparr>"
    by (auto simp: wq_upsert_def split: if_splits)
  with assms(3-5) show ?thesis by (auto simp: advances_def intro: row_next_refl)
next
  case (Some old)
  then have old: "old \<in> set (work_queue d)" "wq_key exc = wq_key old" by (auto dest: find_in_set)
  from Some assms(2) have d1: "d1 = wq_update dbt (\<lambda>r. wq_id r = wq_id old) (\<lambda>_. conflict_row b old exc) d"
    by (auto simp: wq_upsert_def Let_def split: if_splits)
  show ?thesis
    unfolding d1 using wq_id_inj [OF assms(1)] old conflict_row_next [OF old(2) assms(5)]
    by (intro advances_update) (metis old(1))
qed

lemma wq_link_frame: "wq_link w s d = Inr d' \<Longrightarrow> work_queue d' = work_queue d \<and> wq_seq d' = wq_seq d"
  by (auto simp: wq_link_def split: if_splits)

lemma Enqueue_advances: "db_wf d \<Longrightarrow> advances d (snd (Enqueue u io now dbt inputs p d))"
proof -
  assume wf: "db_wf d"
  let ?exc = "excluded_row u inputs p (formatTime now) dbt (wq_seq d + 1)"
  have up: "advances d d1" if "wq_upsert (p \<ge> PriorityWebhook) dbt ?exc d = Inr (row, d1)" for row d1
    by (rule wq_upsert_advances [OF wf that]) (simp_all add: marshal_readable)
  have "advances d d2" if "wq_upsert (p \<ge> PriorityWebhook) dbt ?exc d = Inr (row, d1)" "wq_link w s d1 = Inr d2" for row d1 d2 w s
    using advances_frame [OF up [OF that(1)]] wq_link_frame [OF that(2)] by simp
  with up show ?thesis unfolding Enqueue_def Let_def by (auto intro!: advances_drv split: sum.split)
qed

lemma Dequeue_advances: "db_wf d \<Longrightarrow> advances d (snd (Dequeue io now dbt d))"
proof -
  assume wf: "db_wf d"
  have "advances d (wq_update dbt (\<lambda>x. wq_id x = wq_id r) (\<lambda>x. x\<lparr>wq_status := Processing\<rparr>) d)"
    if "dequeue_pick ts d = Some r" for ts r
  proof (rule advances_update)
    fix x assume "x \<in> set (work_queue d)" "wq_id x = wq_id r"
    with dequeue_pick_ready [OF that] wq_id_inj [OF wf] have "retryable x" by (metis ready_def)
    then show "row_next x (x\<lparr>wq_status := Processing, wq_updated_at := dbt\<rparr>)"
      by (auto simp: row_next_def edges_def wq_key_def retryable_def)
  qed
  then show ?thesis
    by (auto simp: Dequeue_def Let_def query_row_ok split: sum.split)
qed

lemma claim_ends:
  "(\<And>r. wq_status (f r) \<noteq> Processing \<and> wq_id (f r) = wq_id r \<and> wq_key (f r) = wq_key r \<and>
     wq_output_paths (f r) = wq_output_paths r) \<Longrightarrow>
   advances d (wq_update dbt (in_processing i) f d)"
proof (rule advances_update)
  fix r assume "\<And>r. wq_status (f r) \<noteq> Processing \<and> wq_id (f r) = wq_id r \<and> wq_key (f r) = wq_key r \<and>
     wq_output_paths (f r) = wq_output_paths r" "in_processing i r"
  then show "row_next r ((f r)\<lparr>wq_updated_at := dbt\<rparr>)"
    by (cases "wq_status (f r)") (auto simp: row_next_def edges_def in_processing_def wq_key_def)
qed

lemma Complete_advances: "advances d (snd (Complete io now dbt i d))"
proof -
  let ?d1 = "wq_update dbt (in_processing i) (\<lambda>r. r\<lparr>wq_status := Done, wq_completed_at := Some (formatTime now), wq_last_error := ''''\<rparr>) d"
  have "advances d ?d1" by (rule claim_ends) (simp add: wq_key_def)
  then have "advances d (sr_update P f ?d1)" for P f by (rule advances_frame) simp_all
  then show ?thesis unfolding Complete_def Let_def by (auto intro!: advances_drv split: sum.split)
qed

lemma Release_advances: "advances d (snd (Release io dbt i d))"
  unfolding Release_def Let_def by (intro advances_drv advances_refl) (simp add: claim_ends wq_key_def)

lemma Fail_advances: "advances d (snd (Fail q io now dbt i cause d))"
  unfolding Fail_def Let_def by (auto intro!: advances_drv claim_ends simp: wq_key_def split: sum.split)

lemma Cleanup_advances: "advances d (snd (Cleanup u io inputs d))"
  unfolding Cleanup_def Let_def by (intro advances_drv advances_refl) (simp_all add: keeps_delete keeps_advances)

lemma Retry_advances: "advances d (snd (Retry io now dbt i d))"
proof -
  let ?d1 = "wq_update dbt (\<lambda>r. wq_id r = i \<and> wq_status r = Failed)
    (\<lambda>r. r\<lparr>wq_status := Pending, wq_attempts := 0, wq_next_attempt_at := formatTime now, wq_last_error := ''''\<rparr>) d"
  have "advances d ?d1" by (rule advances_update) (simp add: row_next_def edges_def wq_key_def)
  then have "advances d (sr_update P f ?d1)" for P f by (rule advances_frame) simp_all
  then show ?thesis unfolding Retry_def Let_def by (auto intro!: advances_drv split: sum.split)
qed

lemma ClearDone_advances: "advances d (snd (ClearDone io d))"
  unfolding ClearDone_def Let_def by (intro advances_drv advances_refl) (simp_all add: keeps_delete keeps_advances)


lemma cancel_loop_keeps: "keeps d (snd (cancel_loop io dbt lib dry k cs del upd d))"
proof (induction cs arbitrary: k del upd d dry)
  case Nil
  show ?case by simp
next
  case (Cons c cs)
  have "keeps d (wq_update dbt P (\<lambda>r. r\<lparr>wq_output_paths := PathsJSON x\<rparr>) d)" for P x
    by (rule keeps_update) (simp add: row_keeps_def wq_key_def)
  note here = keeps_trans [OF this Cons.IH] keeps_trans [OF keeps_delete Cons.IH]
  show ?case by (cases c) (auto simp: Let_def intro!: keeps_drv Cons.IH intro: here split: sum.split)
qed

lemma cancelByLibrary_keeps: "keeps d (snd (cancelByLibrary io dbt lib dry d))"
  unfolding cancelByLibrary_def by (intro keeps_drv keeps_refl cancel_loop_keeps)

lemma CancelByLibrary_keeps: "keeps d (snd (CancelByLibrary io dbt lib d))"
  using cancelByLibrary_keeps [of d io dbt lib False]
  unfolding CancelByLibrary_def by (auto intro!: keeps_drv split: prod.split sum.split)

lemma scan_clear_keeps: "keeps d (snd (scan_clear_tx E lib d))"
proof -
  have "keeps d d2" if "CancelByLibraryTx io dbt lib d = (r, d1)" "ClearByLibraryTx io' dbt lib d1 = (r', d2)" for io io' dbt r d1 r' d2
  proof (rule keeps_trans [of _ d1])
    show "keeps d d1" using cancelByLibrary_keeps [of d io dbt lib False] that(1) by (simp add: CancelByLibraryTx_def)
    show "keeps d1 d2"
      using that(2) keeps_sr_delete [of d1] by (auto simp: ClearByLibraryTx_def Let_def drv_def split: option.splits)
  qed
  then show ?thesis by (auto simp: scan_clear_tx_def split: option.split sum.split prod.split)
qed

lemma ClearByLibrary_keeps: "keeps d (snd (ClearByLibrary io dbt lib d))"
  unfolding ClearByLibrary_def Let_def by (intro keeps_drv keeps_refl) (simp_all add: keeps_sr_delete)

lemma LibRemove_keeps: "keeps d (snd (LibRemove io dbt i d))"
proof -
  have "keeps d (lib_delete dbt P d)" for P
    using keeps_sr_delete [of d dbt] by (simp add: lib_delete_def Let_def keeps_def)
  then show ?thesis unfolding LibRemove_def Let_def by (auto intro!: keeps_drv)
qed

text \<open>The operations on the other tables.\<close>

definition same_queue :: "db \<Rightarrow> db \<Rightarrow> bool" where
  "same_queue d d' \<longleftrightarrow> work_queue d' = work_queue d \<and> wq_seq d' = wq_seq d"

lemma same_queue_refl [simp]: "same_queue d d"
  by (simp add: same_queue_def)

lemma same_queue_drv: "same_queue d (snd r) \<Longrightarrow> same_queue d d' \<Longrightarrow> same_queue d (snd (drv io k pre d' r))"
  by (simp add: drv_def split: option.split)

lemma CacheStore_queue_same: "same_queue d (snd (CacheStore u io dbt a t al l d))"
  unfolding CacheStore_def Let_def by (auto intro!: same_queue_drv) (simp_all add: same_queue_def)

lemma upsert_one_queue: "upsert_one force dbt lib res d = Inr d' \<Longrightarrow> same_queue d d'"
  by (auto simp: upsert_one_def same_queue_def Let_def split: option.splits if_splits)

lemma upsert_loop_queue: "upsert_loop io n force dbt lib rs d = Inr d' \<Longrightarrow> same_queue d d'"
  by (induction rs arbitrary: n d) (auto simp: Let_def split: option.splits sum.splits dest!: upsert_one_queue simp: same_queue_def)

lemma Upsert_queue: "same_queue d (snd (Upsert io dbt lib results opts d))"
  unfolding Upsert_def Let_def
  by (auto intro!: same_queue_drv split: sum.split dest: upsert_loop_queue)

lemma set_status_loop_queue: "set_status_loop io k st ids d = Inr d' \<Longrightarrow> same_queue d d'"
  by (induction ids arbitrary: k d) (auto simp: same_queue_def split: option.splits if_splits)

lemma SetStatus_queue: "same_queue d (snd (SetStatus io ids st d))"
  unfolding SetStatus_def by (auto intro!: same_queue_drv split: option.split sum.split dest: set_status_loop_queue)

lemma LibAdd_queue: "same_queue d (snd (LibAdd io dbt path name d))"
  unfolding LibAdd_def Let_def by (auto intro!: same_queue_drv split: sum.split) (simp_all add: same_queue_def)

lemma LibUpdate_queue: "same_queue d (snd (LibUpdate io dbt i path name d))"
  unfolding LibUpdate_def Let_def by (auto intro!: same_queue_drv split: sum.split) (simp_all add: same_queue_def)

lemma SQLCreate_queue: "same_queue d (snd (SQLCreate io key d))"
  unfolding SQLCreate_def by (auto intro!: same_queue_drv) (simp_all add: same_queue_def)

lemma CreateIfNotExists_queue: "same_queue d (snd (CreateIfNotExists io key d))"
  unfolding CreateIfNotExists_def Let_def by (auto intro!: same_queue_drv) (simp_all add: same_queue_def)

lemma SQLRevokeByHash_queue: "same_queue d (snd (SQLRevokeByHash io h t d))"
  unfolding SQLRevokeByHash_def by (auto intro!: same_queue_drv split: sum.split) (simp_all add: same_queue_def)

lemma same_queue_advances: "same_queue d d' \<Longrightarrow> advances d d'"
  by (simp add: same_queue_def advances_same)

lemmas op_advances = Enqueue_advances Dequeue_advances Complete_advances Release_advances Fail_advances Cleanup_advances
  Retry_advances ClearDone_advances CancelByLibrary_keeps [THEN keeps_advances] scan_clear_keeps [THEN keeps_advances]
  CacheStore_queue_same [THEN same_queue_advances] Upsert_queue [THEN same_queue_advances]
  SetStatus_queue [THEN same_queue_advances] ClearByLibrary_keeps [THEN keeps_advances]
  LibAdd_queue [THEN same_queue_advances] LibUpdate_queue [THEN same_queue_advances] LibRemove_keeps [THEN keeps_advances]
  SQLCreate_queue [THEN same_queue_advances] CreateIfNotExists_queue [THEN same_queue_advances]
  SQLRevokeByHash_queue [THEN same_queue_advances]

lemma db_step_advances: "db_step u d d' \<Longrightarrow> db_wf d \<Longrightarrow> advances d d'"
  by (induction rule: db_step.induct) (intro op_advances; assumption)+


section \<open>What holds in every execution\<close>

lemma advances_readable: "advances d d' \<Longrightarrow> all_readable d \<Longrightarrow> all_readable d'"
  unfolding advances_def all_readable_def readable_def row_next_def by metis

lemma db_step_ok: "db_step u d d' \<Longrightarrow> queue_ok d \<Longrightarrow> queue_ok d'"
  using db_step_wf db_step_advances advances_readable by (metis queue_ok_def)

lemma db_steps_ok: "(db_step u)\<^sup>*\<^sup>* d d' \<Longrightarrow> queue_ok d \<Longrightarrow> queue_ok d'"
  by (induction rule: rtranclp_induct) (auto intro: db_step_ok)

lemma queue_ok_empty: "queue_ok empty_db"
proof -
  have "work_queue empty_db = []" by (simp add: empty_db_def)
  then show ?thesis by (simp add: queue_ok_def all_readable_def db_wf_empty)
qed

lemma row_nextE:
  assumes "db_wf d" "advances d d'" "row_of d i = Some r" "row_of d' i = Some r'"
  shows "row_next r r'"
proof -
  note r = row_of_mem [OF assms(3)] and r' = row_of_mem [OF assms(4)]
  have seq: "wq_id r \<le> wq_seq d" if "r \<in> set (work_queue d)" for r
    using assms(1) that by (auto simp: db_wf_def wf_queue_def ids_ok_def)
  from assms(2) r' consider r0 where "r0 \<in> set (work_queue d)" "row_next r0 r'" | "wq_seq d < wq_id r'"
    unfolding advances_def by blast
  then show ?thesis
  proof cases
    case 1
    then have "r0 = r" using wq_id_inj [OF assms(1), of r0 r] r r' by (simp add: row_next_def)
    with 1 show ?thesis by simp
  next
    case 2
    with seq r r' show ?thesis by force
  qed
qed

text \<open>
  C6. In every execution from the empty database, whatever the order in which worker, scheduler, HTTP
  handlers and commands interleave their operations and whichever of them fail, the database satisfies
  every constraint of its schema and of the program, every row of the queue can be read back, and a step moves a row of the queue only along an
  edge of its life cycle: a pending or failed row is claimed, a claimed one becomes done, fails or is
  given back, a failed one is put back to pending. Its song stays the same.
\<close>
theorem executions_respect_the_life_cycle:
  assumes "(db_step u)\<^sup>*\<^sup>* empty_db d" and "db_step u d d'"
  shows "queue_ok d \<and> queue_ok d' \<and> (\<forall>i r r'. row_of d i = Some r \<longrightarrow> row_of d' i = Some r' \<longrightarrow>
    wq_key r' = wq_key r \<and> (wq_status r' = wq_status r \<or> (wq_status r, wq_status r') \<in> edges))"
proof -
  from db_steps_ok [OF assms(1) queue_ok_empty] have ok: "queue_ok d" .
  then have wf: "db_wf d" by (simp add: queue_ok_def)
  note nxt = row_nextE [OF wf db_step_advances [OF assms(2) wf], unfolded row_next_def]
  show ?thesis
  proof (intro conjI allI impI)
    fix i r r' assume "row_of d i = Some r" "row_of d' i = Some r'"
    from nxt [OF this] show "wq_key r' = wq_key r" "wq_status r' = wq_status r \<or> (wq_status r, wq_status r') \<in> edges"
      by blast+
  qed (rule ok db_step_ok [OF assms(2) ok])+
qed

text \<open>What a done row stays, and an id that is gone stays.\<close>

definition row_fixed :: "int \<Rightarrow> (wq_row \<Rightarrow> bool) \<Rightarrow> db \<Rightarrow> bool" where
  "row_fixed i P d \<longleftrightarrow> i \<le> wq_seq d \<and> (\<forall>r\<in>set (work_queue d). wq_id r = i \<longrightarrow> P r)"

lemma row_fixed_advances:
  assumes "advances d d'" "row_fixed i P d" "\<And>r r'. P r \<Longrightarrow> row_next r r' \<Longrightarrow> P r'"
  shows "row_fixed i P d'"
  unfolding row_fixed_def
proof (intro conjI ballI impI)
  show "i \<le> wq_seq d'" using assms(1,2) by (simp add: advances_def row_fixed_def)
  fix r' assume r': "r' \<in> set (work_queue d')" "wq_id r' = i"
  with assms(1,2) obtain r where r: "r \<in> set (work_queue d)" "row_next r r'"
    by (fastforce simp: advances_def row_fixed_def)
  moreover from this r' have "wq_id r = i" by (simp add: row_next_def)
  ultimately have "P r" using assms(2) by (simp add: row_fixed_def)
  then show "P r'" using r(2) by (rule assms(3))
qed

lemma row_fixed_steps:
  assumes "(db_step u)\<^sup>*\<^sup>* d d'" "db_wf d" "row_fixed i P d" "\<And>r r'. P r \<Longrightarrow> row_next r r' \<Longrightarrow> P r'"
  shows "row_fixed i P d'"
  using assms(1-3)
proof (induction rule: rtranclp_induct)
  case (step d1 d2)
  from db_steps_wf [OF step.hyps(1) step.prems(1)] have "advances d1 d2" by (rule db_step_advances [OF step.hyps(2)])
  moreover from step have "row_fixed i P d1" by blast
  ultimately show ?case by (rule row_fixed_advances) (rule assms(4))
qed

text \<open>
  C7. Done is final and ids are never reused: however an execution goes on after a row is done, the row
  of that id is the same song, still done, with the same completion time, until it is deleted; and once
  it is deleted, no later row has its id.
\<close>
theorem done_is_final:
  assumes "db_wf d" and "row_of d i = Some r" and "wq_status r = Done" and "(db_step u)\<^sup>*\<^sup>* d d1" and "(db_step u)\<^sup>*\<^sup>* d1 d2"
  shows "(\<forall>r'. row_of d2 i = Some r' \<longrightarrow>
      wq_status r' = Done \<and> wq_key r' = wq_key r \<and> wq_completed_at r' = wq_completed_at r) \<and>
    (row_of d1 i = None \<longrightarrow> row_of d2 i = None)"
proof -
  let ?P = "\<lambda>r'. wq_status r' = Done \<and> wq_key r' = wq_key r \<and> wq_completed_at r' = wq_completed_at r"
  note r = row_of_mem [OF assms(2)]
  have s: "i \<le> wq_seq d" using r assms(1) by (auto simp: db_wf_def wf_queue_def ids_ok_def)
  have "r' = r" if "r' \<in> set (work_queue d)" "wq_id r' = i" for r' using wq_id_inj [OF assms(1), of r' r] r that by simp
  with s assms(3) have "row_fixed i ?P d" by (auto simp: row_fixed_def)
  from row_fixed_steps [OF rtranclp_trans [OF assms(4,5)] assms(1) this] have "row_fixed i ?P d2"
    by (auto simp: row_next_def edges_def)
  then have final: "\<forall>r'. row_of d2 i = Some r' \<longrightarrow> ?P r'" using row_of_mem by (fastforce simp: row_fixed_def)
  have wf1: "db_wf d1" by (rule db_steps_wf [OF assms(4,1)])
  have "row_fixed i (\<lambda>_. True) d1" using row_fixed_steps [OF assms(4,1), of i "\<lambda>_. True"] s by (simp add: row_fixed_def)
  then have "i \<le> wq_seq d1" by (simp add: row_fixed_def)
  then have "row_of d2 i = None" if "row_of d1 i = None"
    using row_fixed_steps [OF assms(5) wf1, of i "\<lambda>_. False"] that by (auto simp: row_fixed_def row_of_None)
  with final show ?thesis by blast
qed


section \<open>An execution\<close>

definition claimed_db :: db where "claimed_db = snd (Dequeue no_faults 0 0 one_pending)"
definition done_db :: db where "done_db = snd (Complete no_faults 0 0 1 claimed_db)"

lemma sample_status:
  "map_option wq_status (row_of one_pending 1) = Some Pending"
  "map_option wq_status (row_of claimed_db 1) = Some Processing"
  "map_option wq_status (row_of done_db 1) = Some Done"
  "row_of (snd (ClearDone no_faults done_db)) 1 = None"
  by code_simp+

theorem executions_respect_the_life_cycle_witness:
  "queue_ok one_pending \<and> queue_ok claimed_db \<and> (Pending, Processing) \<in> edges"
proof -
  have reach: "(db_step ascii_env)\<^sup>*\<^sup>* empty_db one_pending"
    unfolding one_pending_def by (rule r_into_rtranclp) (rule db_step.enqueue)
  have step: "db_step ascii_env one_pending claimed_db"
    unfolding claimed_db_def by (rule db_step.dequeue)
  from sample_status(1,2) obtain r r' where r: "row_of one_pending 1 = Some r" "wq_status r = Pending"
    "row_of claimed_db 1 = Some r'" "wq_status r' = Processing" by auto
  from executions_respect_the_life_cycle [OF reach step] r show ?thesis by fastforce
qed

theorem done_is_final_witness:
  "\<exists>r. row_of done_db 1 = Some r \<and> wq_status r = Done \<and>
     row_of (snd (Enqueue ascii_env no_faults 0 0 (sample_inputs ''Adele'' ''Hello'' ''x'') 0 (snd (ClearDone no_faults done_db)))) 1 = None"
proof -
  have wf: "db_wf done_db" unfolding done_db_def claimed_db_def by (intro Complete_wf Dequeue_wf db_wf_one_pending)
  from sample_status(3) obtain r where r: "row_of done_db 1 = Some r" "wq_status r = Done" by auto
  let ?d1 = "snd (ClearDone no_faults done_db)"
  have "(db_step ascii_env)\<^sup>*\<^sup>* done_db ?d1" by (rule r_into_rtranclp) (rule db_step.clear_done)
  moreover have "(db_step ascii_env)\<^sup>*\<^sup>* ?d1 (snd (Enqueue ascii_env no_faults 0 0 (sample_inputs ''Adele'' ''Hello'' ''x'') 0 ?d1))"
    by (rule r_into_rtranclp) (rule db_step.enqueue)
  ultimately show ?thesis using done_is_final [OF wf r] sample_status(4) r by blast
qed

end
