(* ===== verification/Go_Csv.thy ===== *)
theory Go_Csv
  imports Go_Strings
begin

text \<open>
  The parts of \<open>encoding/csv\<close> and \<open>bufio\<close> that the program uses, with their default settings: the
  first record of a CSV text, one CSV line, and the lines of a text file. A record that the writer
  prints is the record that the reader reads, unless a field holds a line break.
\<close>

definition quote :: char where "quote = CHR 0x22"
definition comma :: char where "comma = CHR 0x2C"
definition NL :: char where "NL = CHR 0x0A"
definition CR :: char where "CR = CHR 0x0D"

lemma csv_chars [simp]:
  "quote \<noteq> comma" "comma \<noteq> quote" "quote \<noteq> NL" "NL \<noteq> quote" "comma \<noteq> NL" "NL \<noteq> comma"
  "CR \<noteq> NL" "NL \<noteq> CR" "CR \<noteq> quote" "quote \<noteq> CR" "CR \<noteq> comma" "comma \<noteq> CR"
  by (simp_all add: quote_def comma_def NL_def CR_def)

section \<open>Reading\<close>

text \<open>
  The lines of the text, each with its line feed if it has one. \<open>readLine\<close> turns a final CR LF into
  LF, and drops a CR that stands right before the end of the text.
\<close>

fun raw_lines :: "string \<Rightarrow> string list" where
  "raw_lines [] = []"
| "raw_lines (c # s) =
     (if c = NL then [c] # raw_lines s
      else case raw_lines s of [] \<Rightarrow> [[c]] | l # ls \<Rightarrow> (c # l) # ls)"

definition norm_line :: "string \<Rightarrow> string" where
  "norm_line l =
     (if HasSuffix l [CR, NL] then take (length l - 2) l @ [NL]
      else if HasSuffix l [CR] then take (length l - 1) l
      else l)"

definition csv_lines :: "string \<Rightarrow> string list" where
  "csv_lines s = map norm_line (raw_lines s)"

definition strip_NL :: "string \<Rightarrow> string" where
  "strip_NL l = TrimSuffix l [NL]"

lemma Cut_length: "Cut c s = Some (p, rest) \<Longrightarrow> length rest < length s"
  by (induction s arbitrary: p rest) (auto split: if_splits)

text \<open>
  \<open>readRecord\<close> after the first line is read: \<open>None\<close> is one of its parse errors. A quoted field may
  run over several lines.
\<close>

function (sequential) read_field :: "string \<Rightarrow> string list \<Rightarrow> string list option"
  and read_quoted :: "string \<Rightarrow> string list \<Rightarrow> string \<Rightarrow> string list option" where
  "read_field line ls =
     (if line = [] \<or> hd line \<noteq> quote
      then (case Cut comma line of
              Some (f, rest) \<Rightarrow> if quote \<in> set f then None else map_option (Cons f) (read_field rest ls)
            | None \<Rightarrow> if quote \<in> set (strip_NL line) then None else Some [strip_NL line])
      else read_quoted (tl line) ls [])"
| "read_quoted line ls acc =
     (case Cut quote line of
        Some (p, rest) \<Rightarrow>
          (if rest \<noteq> [] \<and> hd rest = quote then read_quoted (tl rest) ls (acc @ p @ [quote])
           else if rest \<noteq> [] \<and> hd rest = comma then map_option (Cons (acc @ p)) (read_field (tl rest) ls)
           else if rest = [] \<or> rest = [NL] then Some [acc @ p]
           else None)
      | None \<Rightarrow>
          (if line = [] then None
           else case ls of [] \<Rightarrow> read_quoted [] [] (acc @ line)
             | l # ls' \<Rightarrow> read_quoted l ls' (acc @ line)))"
  by pat_completeness auto

termination
  by (relation "measure (\<lambda>x. case x of Inl (line, ls) \<Rightarrow> length line + (\<Sum>l\<leftarrow>ls. Suc (length l))
      | Inr (line, ls, acc) \<Rightarrow> length line + (\<Sum>l\<leftarrow>ls. Suc (length l)))")
    (auto dest!: Cut_length simp: length_greater_0_conv [symmetric] simp del: length_greater_0_conv)

declare read_field.simps [simp del] read_quoted.simps [simp del]

text \<open>\<open>Reader.Read\<close> on a fresh reader: empty lines are skipped, no line left is \<open>io.EOF\<close>.\<close>

definition csv_Read :: "string \<Rightarrow> string list option" where
  "csv_Read s =
     (case dropWhile (\<lambda>l. l = [] \<or> l = [NL]) (csv_lines s) of
        [] \<Rightarrow> None
      | l # ls \<Rightarrow> read_field l ls)"

section \<open>Writing\<close>

definition needs_quotes :: "string \<Rightarrow> bool" where
  "needs_quotes f \<longleftrightarrow>
     (if f = [] then False
      else if f = [CHR 0x5C, CHR 0x2E] then True
      else list_ex (\<lambda>c. c = NL \<or> c = CR \<or> c = quote \<or> c = comma) f \<or> lead_space f \<noteq> 0)"

definition double_quotes :: "string \<Rightarrow> string" where
  "double_quotes f = concat (map (\<lambda>c. if c = quote then [quote, quote] else [c]) f)"

definition csv_field :: "string \<Rightarrow> string" where
  "csv_field f = (if needs_quotes f then [quote] @ double_quotes f @ [quote] else f)"

text \<open>\<open>Writer.Write\<close>: one record, with its line feed.\<close>

definition csv_Write :: "string list \<Rightarrow> string" where
  "csv_Write fs = JoinStr (map csv_field fs) [comma] @ [NL]"

section \<open>Lines of a text file\<close>

text \<open>
  \<open>bufio.Scanner\<close> with \<open>bufio.ScanLines\<close>: the lines without their line feed and one CR before it. The
  buffer holds 64 KiB; a line that fills it without its line feed is \<open>bufio.ErrTooLong\<close>.
\<close>

definition drop_CR :: "string \<Rightarrow> string" where
  "drop_CR l = TrimSuffix l [CR]"

definition ErrTooLong :: goerr where
  "ErrTooLong = New ''bufio.Scanner: token too long''"

definition maxTokenSize :: nat where "maxTokenSize = 65536"

fun scan_lines :: "string list \<Rightarrow> string list \<times> goerr option" where
  "scan_lines [] = ([], None)"
| "scan_lines (l # ls) =
     (if maxTokenSize \<le> length (strip_NL l) then ([], Some ErrTooLong)
      else case scan_lines ls of (r, e) \<Rightarrow> (drop_CR (strip_NL l) # r, e))"

definition ScanLines :: "string \<Rightarrow> string list \<times> goerr option" where
  "ScanLines s = scan_lines (raw_lines s)"

section \<open>What is written is what is read\<close>

lemma strip_NL_snoc [simp]: "strip_NL (s @ [NL]) = s"
  by (simp add: strip_NL_def TrimSuffix_def HasSuffix_def)

lemma raw_lines_line: "NL \<notin> set s \<Longrightarrow> raw_lines (s @ NL # rest) = (s @ [NL]) # raw_lines rest"
  by (induction s) auto

lemma norm_line_plain: "CR \<notin> set l \<Longrightarrow> norm_line l = l"
  by (auto simp: norm_line_def HasSuffix_def dest: in_set_dropD)
    (metis in_set_dropD list.set_intros(1))+

lemma Cut_split: "c \<notin> set p \<Longrightarrow> Cut c (p @ c # s) = Some (p, s)"
  by (induction p) auto

lemma Cut_none: "c \<notin> set p \<Longrightarrow> Cut c p = None"
  by (induction p) auto

text \<open>Reading the rest of a quoted field up to its closing quote.\<close>

lemma read_quoted_text:
  assumes "rest = [] \<or> hd rest \<noteq> quote"
  shows "read_quoted (double_quotes f @ quote # rest) ls acc = read_quoted (quote # rest) ls (acc @ f)"
proof -
  have one: "read_quoted (p @ double_quotes f @ quote # rest) ls acc = read_quoted (quote # rest) ls (acc @ p @ f)"
    if "quote \<notin> set p" for p
    using that
  proof (induction f arbitrary: p acc)
    case Nil
    have "read_quoted (p @ quote # rest) ls acc = read_quoted (quote # rest) ls (acc @ p)"
      using assms Nil Cut_split [of quote p rest] Cut_split [of quote "[]" rest]
      by (cases "rest = []") (simp_all add: read_quoted.simps [of "p @ quote # rest"] read_quoted.simps [of "quote # rest"]
          read_quoted.simps [of "p @ [quote]"] read_quoted.simps [of "[quote]"])
    then show ?case by (simp add: double_quotes_def)
  next
    case (Cons c f)
    show ?case
    proof (cases "c = quote")
      case True
      have "read_quoted (p @ quote # quote # double_quotes f @ quote # rest) ls acc =
          read_quoted (double_quotes f @ quote # rest) ls (acc @ p @ [quote])"
        using Cut_split [OF Cons.prems, of "quote # double_quotes f @ quote # rest"]
        by (simp add: read_quoted.simps [of "p @ quote # quote # double_quotes f @ quote # rest"])
      with Cons.IH [of "[]"] True show ?thesis by (simp add: double_quotes_def)
    next
      case False
      with Cons.IH [of "p @ [c]" acc] Cons.prems show ?thesis by (simp add: double_quotes_def)
    qed
  qed
  from one [of "[]"] show ?thesis by simp
qed

lemma read_quoted_last: "nl = [] \<or> nl = [NL] \<Longrightarrow> read_quoted (quote # nl) ls acc = Some [acc]"
  using Cut_split [of quote "[]" nl] by (auto simp: read_quoted.simps [of "quote # nl"])

lemma read_quoted_next: "read_quoted (quote # comma # rest) ls acc = map_option (Cons acc) (read_field rest ls)"
  using Cut_split [of quote "[]" "comma # rest"] by (simp add: read_quoted.simps [of "quote # comma # rest"])

lemma plain_field: "\<not> needs_quotes f \<Longrightarrow> quote \<notin> set f \<and> comma \<notin> set f \<and> NL \<notin> set f"
  by (auto simp: needs_quotes_def list_ex_iff split: if_splits)

lemma read_field_quoted: "read_field (quote # rest) ls = read_quoted rest ls []"
  by (simp add: read_field.simps [of "quote # rest"])

lemma read_field_next: "read_field (csv_field f @ comma # rest) ls = map_option (Cons f) (read_field rest ls)"
proof (cases "needs_quotes f")
  case True
  then show ?thesis
    using read_quoted_text [of "comma # rest" f ls "[]"]
    by (simp add: csv_field_def read_field_quoted read_quoted_next)
next
  case False
  note p = plain_field [OF False]
  then have "f @ comma # rest \<noteq> []" "hd (f @ comma # rest) \<noteq> quote" by (cases f; auto)+
  with p Cut_split [of comma f rest] False show ?thesis
    by (simp add: csv_field_def read_field.simps [of "f @ comma # rest"])
qed

lemma read_field_last:
  assumes "nl = [] \<or> nl = [NL]"
  shows "read_field (csv_field f @ nl) ls = Some [f]"
proof (cases "needs_quotes f")
  case True
  have "nl = [] \<or> hd nl \<noteq> quote" using assms by auto
  from True read_quoted_text [OF this, of f ls "[]"] read_quoted_last [OF assms] show ?thesis
    by (simp add: csv_field_def read_field_quoted)
next
  case False
  note p = plain_field [OF False]
  then have "f @ nl = [] \<or> hd (f @ nl) \<noteq> quote" using assms by (cases f) auto
  moreover have "strip_NL (f @ nl) = f"
    using assms p by (auto simp: strip_NL_def TrimSuffix_def HasSuffix_def) (metis in_set_dropD list.set_intros(1))
  ultimately show ?thesis
    using p assms Cut_none [of comma "f @ nl"] False
    by (auto simp: csv_field_def read_field.simps [of "f @ nl"])
qed

lemma read_written:
  "fs \<noteq> [] \<Longrightarrow> nl = [] \<or> nl = [NL] \<Longrightarrow> read_field (JoinStr (map csv_field fs) [comma] @ nl) ls = Some fs"
proof (induction fs rule: induct_list012)
  case (3 f g fs)
  have "JoinStr (map csv_field (f # g # fs)) [comma] @ nl =
      csv_field f @ comma # (JoinStr (map csv_field (g # fs)) [comma] @ nl)" by simp
  with 3(2,4) show ?case by (simp only: read_field_next) simp
qed (simp_all add: read_field_last)

definition one_line :: "string \<Rightarrow> bool" where
  "one_line f \<longleftrightarrow> NL \<notin> set f \<and> CR \<notin> set f"

lemma set_double_quotes: "set (double_quotes f) = set f"
  by (auto simp: double_quotes_def split: if_splits)

lemma set_csv_field: "c \<in> set (csv_field f) \<Longrightarrow> c = quote \<or> c \<in> set f"
  by (auto simp: csv_field_def set_double_quotes split: if_splits)

lemma set_JoinStr: "c \<in> set (JoinStr ps [sep]) \<Longrightarrow> c = sep \<or> (\<exists>p\<in>set ps. c \<in> set p)"
  by (induction ps "[sep]" rule: JoinStr.induct) auto

text \<open>The text of a record of one-line fields is one line, and reads back as the record.\<close>

definition record_text :: "string list \<Rightarrow> string" where
  "record_text fs = JoinStr (map csv_field fs) [comma]"

lemma csv_Write_text: "csv_Write fs = record_text fs @ [NL]"
  by (simp add: csv_Write_def record_text_def)

lemma one_line_record: "list_all one_line fs \<Longrightarrow> one_line (record_text fs)"
  by (fastforce simp: one_line_def record_text_def list_all_iff dest: set_JoinStr set_csv_field)

lemma record_text_nonempty: "1 < length fs \<Longrightarrow> record_text fs \<noteq> []"
  by (cases fs rule: remdups_adj.cases) (simp_all add: record_text_def)

lemma raw_lines_one: "s \<noteq> [] \<Longrightarrow> NL \<notin> set s \<Longrightarrow> raw_lines s = [s]"
proof (induction s)
  case (Cons c s)
  then show ?case by (cases s) auto
qed simp

lemma csv_Read_record:
  assumes "1 < length fs" "list_all one_line fs" "nl = [] \<or> nl = [NL]"
  shows "csv_Read (record_text fs @ nl) = Some fs"
proof -
  have t: "record_text fs \<noteq> []" "NL \<notin> set (record_text fs)" "CR \<notin> set (record_text fs)"
    using record_text_nonempty [OF assms(1)] one_line_record [OF assms(2)] by (auto simp: one_line_def)
  then have "raw_lines (record_text fs @ nl) = [record_text fs @ nl]"
    using assms(3) raw_lines_line [of "record_text fs" "[]"] raw_lines_one [of "record_text fs"] by auto
  moreover have "norm_line (record_text fs @ nl) = record_text fs @ nl"
    using t assms(3) by (intro norm_line_plain) auto
  moreover have "record_text fs @ nl \<noteq> [NL]" using t by (cases "record_text fs") auto
  ultimately have "dropWhile (\<lambda>l. l = [] \<or> l = [NL]) (csv_lines (record_text fs @ nl)) = [record_text fs @ nl]"
    using t by (simp add: csv_lines_def)
  then show ?thesis
    using assms(1,3) read_written [of fs nl "[]"] by (cases fs) (auto simp: csv_Read_def record_text_def)
qed

text \<open>A file of written records has the texts of the records as its lines.\<close>

lemma ScanLines_written:
  assumes "\<And>fs. fs \<in> set recs \<Longrightarrow> list_all one_line fs \<and> length (record_text fs) < maxTokenSize"
  shows "ScanLines (concat (map csv_Write recs)) = (map record_text recs, None)"
  using assms
proof (induction recs)
  case (Cons fs recs)
  have t: "NL \<notin> set (record_text fs)" "CR \<notin> set (record_text fs)" "length (record_text fs) < maxTokenSize"
    using Cons.prems [of fs] one_line_record [of fs] by (simp_all add: one_line_def [of "record_text fs"])
  from t(2) have "drop_CR (record_text fs) = record_text fs"
    by (auto simp: drop_CR_def TrimSuffix_def HasSuffix_def) (metis in_set_dropD list.set_intros(1))
  moreover have "ScanLines (concat (map csv_Write recs)) = (map record_text recs, None)"
    using Cons by simp
  ultimately show ?case
    using t raw_lines_line [OF t(1)] by (simp add: ScanLines_def csv_Write_text [of fs])
qed (simp add: ScanLines_def)

end
