(* ===== verification/Input_Queue.thy ===== *)
theory Input_Queue
  imports Models
begin

text \<open>
  The in-memory FIFO queue of \<open>internal/queue\<close> that the one-shot fetch path uses. The queue is a
  slice; the model is the list of its items, and an operation with a pointer receiver returns the
  new queue. The locale \<open>fifo\<close> is the interface the fetch loop relies on.
\<close>

record InputsQueue =
  iq_Queue :: "Inputs list"

definition NewInputsQueue :: InputsQueue where
  "NewInputsQueue = \<lparr>iq_Queue = []\<rparr>"

definition Len :: "InputsQueue \<Rightarrow> int" where
  "Len q = int (length (iq_Queue q))"

definition Empty :: "InputsQueue \<Rightarrow> bool" where
  "Empty q \<longleftrightarrow> length (iq_Queue q) = 0"

definition NextItem :: "InputsQueue \<Rightarrow> Inputs res" where
  "NextItem q = (if Empty q then Inl (New ''queue is empty'') else Inr (iq_Queue q ! 0))"

definition Pop :: "InputsQueue \<Rightarrow> Inputs res \<times> InputsQueue" where
  "Pop q =
     (if Empty q then (Inl (New ''queue is empty''), q)
      else (let tmp = iq_Queue q ! 0;
                cleared = (iq_Queue q)[0 := zero_Inputs]
            in (Inr tmp, q\<lparr>iq_Queue := drop 1 cleared\<rparr>)))"

definition Push :: "Inputs \<Rightarrow> InputsQueue \<Rightarrow> InputsQueue" where
  "Push i q = q\<lparr>iq_Queue := iq_Queue q @ [i]\<rparr>"

section \<open>The interface\<close>

text \<open>
  What a client of a FIFO queue uses: its contents as a list, oldest first, and the effect of each
  operation on that list.
\<close>

locale fifo =
  fixes contents :: "'q \<Rightarrow> 'a list"
    and mk :: 'q
    and empty :: "'q \<Rightarrow> bool"
    and nxt :: "'q \<Rightarrow> 'a res"
    and pop :: "'q \<Rightarrow> 'a res \<times> 'q"
    and push :: "'a \<Rightarrow> 'q \<Rightarrow> 'q"
  assumes contents_mk: "contents mk = []"
    and empty_iff: "empty q \<longleftrightarrow> contents q = []"
    and nxt_nonempty: "contents q = x # xs \<Longrightarrow> nxt q = Inr x"
    and nxt_empty: "contents q = [] \<Longrightarrow> \<exists>e. nxt q = Inl e"
    and pop_nonempty: "contents q = x # xs \<Longrightarrow> \<exists>q'. pop q = (Inr x, q') \<and> contents q' = xs"
    and pop_empty: "contents q = [] \<Longrightarrow> \<exists>e. pop q = (Inl e, q)"
    and contents_push: "contents (push x q) = contents q @ [x]"
begin

text \<open>Popping until the queue is empty returns the items in the order they were pushed.\<close>

primrec pops :: "nat \<Rightarrow> 'q \<Rightarrow> 'a list \<times> 'q" where
  "pops 0 q = ([], q)"
| "pops (Suc n) q =
     (case pop q of (Inl e, q') \<Rightarrow> ([], q') | (Inr x, q') \<Rightarrow> (let (xs, q'') = pops n q' in (x # xs, q'')))"

lemma contents_fold_push: "contents (fold push xs q) = contents q @ xs"
  by (induction xs arbitrary: q) (simp_all add: contents_push)

lemma pops_all:
  "length (contents q) \<le> n \<Longrightarrow> fst (pops n q) = contents q \<and> contents (snd (pops n q)) = []"
proof (induction n arbitrary: q)
  case 0
  then show ?case by simp
next
  case (Suc n)
  show ?case
  proof (cases "contents q")
    case Nil
    then obtain e where "pop q = (Inl e, q)" using pop_empty by blast
    with Nil show ?thesis by simp
  next
    case (Cons x xs)
    then obtain q' where q': "pop q = (Inr x, q')" "contents q' = xs" using pop_nonempty by blast
    with Suc.prems Cons have "length (contents q') \<le> n" by simp
    from Suc.IH [OF this] q' Cons show ?thesis by (simp add: case_prod_beta Let_def)
  qed
qed

lemma fifo_order: "fst (pops (length xs) (fold push xs mk)) = xs"
  using pops_all [of "fold push xs mk" "length xs"]
  by (simp add: contents_fold_push contents_mk)

lemma nxt_pop: "nxt q = Inr x \<Longrightarrow> \<exists>q'. pop q = (Inr x, q') \<and> contents q = x # contents q'"
  by (cases "contents q") (use nxt_empty nxt_nonempty pop_nonempty in fastforce)+

end

interpretation iq: fifo iq_Queue NewInputsQueue Empty NextItem Pop Push
  by unfold_locales
    (auto simp: NewInputsQueue_def Empty_def NextItem_def Pop_def Push_def Let_def)

section \<open>Properties\<close>

fun PopAll :: "nat \<Rightarrow> InputsQueue \<Rightarrow> Inputs list" where
  "PopAll 0 q = []"
| "PopAll (Suc n) q = (case Pop q of (Inl e, q') \<Rightarrow> [] | (Inr x, q') \<Rightarrow> x # PopAll n q')"

lemma PopAll_pops: "PopAll n q = fst (iq.pops n q)"
  by (induction n arbitrary: q) (auto split: prod.splits sum.splits)

text \<open>
  First in, first out: pushing any items onto a new queue and popping as often returns exactly
  those items in the order they were pushed.
\<close>
theorem queue_is_fifo: "PopAll (length xs) (fold Push xs NewInputsQueue) = xs"
  unfolding PopAll_pops by (rule iq.fifo_order)

end
