(* ===== verification/Scanner.thy ===== *)
theory Scanner
  imports Go_Csv Input_Queue Go_Paths "HOL-Library.Multiset" "HOL-Library.Char_ord" "HOL-Library.List_Lexorder" "HOL-Library.Product_Lexorder"
begin

text \<open>
  Package \<open>internal/scanner\<close>: the recursive scan of a library for audio files without lyrics, and the
  input modes of \<open>fetch\<close> (a directory, a text file, pairs on the command line). The file system is a
  view that stays fixed during a scan; \<open>tag.ReadFrom\<close>, which belongs to a third-party package, is a
  function of that view.
\<close>

section \<open>Input from text\<close>

definition AssertInput :: "string \<Rightarrow> Track option" where
  "AssertInput s =
     (case csv_Read s of None \<Rightarrow> None
      | Some fs \<Rightarrow>
         if length fs \<noteq> 2 then None
         else Some (zero_Track\<lparr>tr_ArtistName := TrimSpace (fs ! 0), tr_TrackName := TrimSpace (fs ! 1)\<rparr>))"

fun GetSongMulti :: "string list \<Rightarrow> string \<Rightarrow> InputsQueue \<Rightarrow> InputsQueue" where
  "GetSongMulti [] savePath songs = songs"
| "GetSongMulti (s # ss) savePath songs =
     (case AssertInput s of
        None \<Rightarrow> GetSongMulti ss savePath songs
      | Some track \<Rightarrow> GetSongMulti ss savePath
          (Push (zero_Inputs\<lparr>in_Track := track, in_Outdir := savePath, in_Filename := ''''\<rparr>) songs))"

section \<open>The file system as the scan sees it\<close>

text \<open>
  The entries of a directory as \<open>os.ReadDir\<close> reports them, \<open>os.Stat\<close> with the answer of \<open>IsDir\<close>,
  \<open>os.Open\<close> with the bytes that can be read and the error after them, and the artist and title that
  \<open>tag.ReadFrom\<close> finds in an opened file.
\<close>

record DirEntry =
  de_Name :: string
  de_IsDir :: bool

record fs_view =
  vw_ReadDir :: "string \<Rightarrow> DirEntry list res"
  vw_Stat :: "string \<Rightarrow> bool res"
  vw_Open :: "string \<Rightarrow> (string \<times> goerr option) res"
  vw_Tags :: "string \<Rightarrow> (string \<times> string) res"

record ScanOptions =
  sn_Update :: bool
  sn_Upgrade :: bool
  sn_MaxDepth :: int
  sn_BFS :: bool

definition supportedFileTypes :: "string list" where
  "supportedFileTypes = [''.mp3'', ''.m4a'', ''.m4b'', ''.m4p'', ''.alac'', ''.flac'', ''.ogg'', ''.dsf'']"

text \<open>Go's zero \<open>time.Time\<close>, in nanoseconds from the Unix epoch.\<close>

definition zero_time :: int where "zero_time = - 62135596800 * 10 ^ 9"

text \<open>
  The order of \<open>sort.Slice\<close>: directories before files, or after them with \<open>BFS\<close>, and by name within
  both. Names are unique in a directory, so that any sorting algorithm gives this order.
\<close>

definition sort_entries :: "bool \<Rightarrow> DirEntry list \<Rightarrow> DirEntry list" where
  "sort_entries bfs files = order_by (\<lambda>e. (de_IsDir e = bfs, de_Name e)) files"

section \<open>The scan\<close>

text \<open>The body of the loop for a file: the result it appends, if it appends one.\<close>

definition scan_file :: "unicode_env \<Rightarrow> fs_view \<Rightarrow> ScanOptions \<Rightarrow> string \<Rightarrow> DirEntry \<Rightarrow> ScanResult option" where
  "scan_file u vw opts dir file =
     (let ext = ToLower u (Ext (de_Name file)) in
      if ext = ''.lrc'' \<or> ext = ''.txt'' then None
      else
       (let stem = TrimSuffix (de_Name file) (Ext (de_Name file));
            lrcExists = is_ok (vw_Stat vw (JoinPath [dir, stem @ ''.lrc'']));
            txtExists = is_ok (vw_Stat vw (JoinPath [dir, stem @ ''.txt'']))
        in if lrcExists \<and> \<not> sn_Update opts then None
           else if txtExists \<and> \<not> sn_Upgrade opts \<and> \<not> sn_Update opts \<and> \<not> lrcExists then None
           else if ext \<notin> set supportedFileTypes then None
           else (case vw_Open vw (JoinPath [dir, de_Name file]) of
                   Inl e \<Rightarrow> None
                 | Inr _ \<Rightarrow>
                    (case vw_Tags vw (JoinPath [dir, de_Name file]) of
                       Inl e \<Rightarrow> None
                     | Inr (artist, title) \<Rightarrow>
                        Some \<lparr>sr_ID = 0, sr_LibraryID = 0, sr_FilePath = JoinPath [dir, de_Name file],
                          sr_Track = zero_Track\<lparr>tr_ArtistName := artist, tr_TrackName := title\<rparr>,
                          sr_Outdir = dir, sr_Filename = stem @ ''.lrc'', sr_Status = ''pending'',
                          sr_CreatedAt = zero_time\<rparr>))))"

text \<open>
  \<open>ctx k\<close> is what the \<open>k\<close>-th call of \<open>ctx.Err()\<close> returns. The result of both functions is the error,
  the results so far, and the number of calls made.
\<close>

function (sequential) scanDir ::
  "(nat \<Rightarrow> goerr option) \<Rightarrow> unicode_env \<Rightarrow> fs_view \<Rightarrow> ScanOptions \<Rightarrow> string \<Rightarrow> int \<Rightarrow> ScanResult list \<Rightarrow> nat
    \<Rightarrow> goerr option \<times> ScanResult list \<times> nat"
  and scan_entries ::
  "(nat \<Rightarrow> goerr option) \<Rightarrow> unicode_env \<Rightarrow> fs_view \<Rightarrow> ScanOptions \<Rightarrow> string \<Rightarrow> int \<Rightarrow> DirEntry list \<Rightarrow> ScanResult list \<Rightarrow> nat
    \<Rightarrow> goerr option \<times> ScanResult list \<times> nat"
where
  "scanDir ctx u vw opts dir depth results k =
     (case ctx k of
        Some e \<Rightarrow> (Some e, results, k + 1)
      | None \<Rightarrow>
         (case vw_ReadDir vw dir of
            Inl e \<Rightarrow> (Some (Errorf (''reading directory '' @ dir @ '': '') e ''''), results, k + 1)
          | Inr files \<Rightarrow> scan_entries ctx u vw opts dir depth (sort_entries (sn_BFS opts) files) results (k + 1)))"
| "scan_entries ctx u vw opts dir depth [] results k = (None, results, k)"
| "scan_entries ctx u vw opts dir depth (file # files) results k =
     (case ctx k of
        Some e \<Rightarrow> (Some e, results, k + 1)
      | None \<Rightarrow>
         (if de_IsDir file then
            (if depth < sn_MaxDepth opts then
               (case scanDir ctx u vw opts (JoinPath [dir, de_Name file]) (depth + 1) results (k + 1) of
                  (Some e, results', k') \<Rightarrow> (Some e, results', k')
                | (None, results', k') \<Rightarrow> scan_entries ctx u vw opts dir depth files results' k')
             else scan_entries ctx u vw opts dir depth files results (k + 1))
          else
            (case scan_file u vw opts dir file of
               None \<Rightarrow> scan_entries ctx u vw opts dir depth files results (k + 1)
             | Some res \<Rightarrow> scan_entries ctx u vw opts dir depth files (results @ [res]) (k + 1))))"
  by pat_completeness auto

termination
  by (relation "inv_image (less_than <*lex*> less_than)
      (\<lambda>x. case x of Inl (ctx, u, vw, opts, dir, depth, results, k) \<Rightarrow>
             (2 * nat (sn_MaxDepth opts - depth) + 1, 0)
         | Inr (ctx, u, vw, opts, dir, depth, files, results, k) \<Rightarrow>
             (2 * nat (sn_MaxDepth opts - depth), length files))")
    auto

declare scanDir.simps [simp del] scan_entries.simps [simp del]

definition ScanLibrary ::
  "(nat \<Rightarrow> goerr option) \<Rightarrow> unicode_env \<Rightarrow> fs_view \<Rightarrow> string \<Rightarrow> ScanOptions \<Rightarrow> ScanResult list res"
where
  "ScanLibrary ctx u vw base opts =
     (let opts = (if sn_MaxDepth opts < 0 then opts\<lparr>sn_MaxDepth := 0\<rparr> else opts)
      in case scanDir ctx u vw opts base 0 [] 0 of
           (Some e, results, k) \<Rightarrow> Inl e
         | (None, results, k) \<Rightarrow> Inr results)"

section \<open>The input modes\<close>

definition GetSongText :: "fs_view \<Rightarrow> string \<Rightarrow> string \<Rightarrow> InputsQueue \<Rightarrow> unit res \<times> InputsQueue" where
  "GetSongText vw textFn savePath songs =
     (case vw_Open vw textFn of
        Inl e \<Rightarrow> (Inl (Errorf (''opening text file '' @ textFn @ '': '') e ''''), songs)
      | Inr (text, readErr) \<Rightarrow>
         (case ScanLines text of (songList, e) \<Rightarrow>
            (case (if e \<noteq> None then e else readErr) of
               Some e \<Rightarrow> (Inl (Errorf (''reading text file '' @ textFn @ '': '') e ''''), songs)
             | None \<Rightarrow> (Inr (), GetSongMulti songList savePath songs))))"

definition result_inputs :: "ScanResult \<Rightarrow> Inputs" where
  "result_inputs res = zero_Inputs\<lparr>in_Track := sr_Track res, in_Outdir := sr_Outdir res,
     in_Filename := sr_Filename res, in_SourcePath := sr_FilePath res\<rparr>"

definition GetSongDir ::
  "unicode_env \<Rightarrow> fs_view \<Rightarrow> string \<Rightarrow> InputsQueue \<Rightarrow> bool \<Rightarrow> bool \<Rightarrow> int \<Rightarrow> int \<Rightarrow> bool \<Rightarrow> unit res \<times> InputsQueue"
where
  "GetSongDir u vw dir songs update upgrade limit depth bfs =
     (case ScanLibrary (\<lambda>_. None) u vw dir
             \<lparr>sn_Update = update, sn_Upgrade = upgrade, sn_MaxDepth = i64 (limit - depth), sn_BFS = bfs\<rparr> of
        Inl e \<Rightarrow> (Inl e, songs)
      | Inr results \<Rightarrow> (Inr (), fold (\<lambda>res. Push (result_inputs res)) results songs))"

definition ParseInput ::
  "unicode_env \<Rightarrow> fs_view \<Rightarrow> string list \<Rightarrow> string \<Rightarrow> bool \<Rightarrow> bool \<Rightarrow> int \<Rightarrow> bool \<Rightarrow> InputsQueue \<Rightarrow> string res \<times> InputsQueue"
where
  "ParseInput u vw songs outdir update upgrade depth bfs inputs =
     (let cli = (Inr ''cli'', GetSongMulti songs outdir inputs) in
      if length songs = 1
      then (case vw_Stat vw (songs ! 0) of
              Inr isDir \<Rightarrow>
                (if \<not> isDir
                 then (case GetSongText vw (songs ! 0) outdir inputs of
                         (Inl e, q) \<Rightarrow> (Inl e, q) | (Inr _, q) \<Rightarrow> (Inr ''text'', q))
                 else (case GetSongDir u vw (songs ! 0) inputs update upgrade depth 0 bfs of
                         (Inl e, q) \<Rightarrow> (Inl e, q) | (Inr _, q) \<Rightarrow> (Inr ''dir'', q)))
            | Inl e \<Rightarrow>
                (if \<not> errors_Is e OsErrNotExist
                 then (Inl (Errorf (''checking input path '' @ songs ! 0 @ '': '') e ''''), inputs)
                 else cli))
      else cli)"

section \<open>What a scan finds\<close>

text \<open>
  The directories at most \<open>n\<close> levels below a directory, and what a file must be to be taken: of a
  supported type, readable with tags, and without lyrics that the options leave alone.
\<close>

inductive in_tree :: "fs_view \<Rightarrow> string \<Rightarrow> nat \<Rightarrow> string \<Rightarrow> bool" for vw where
  here: "in_tree vw dir n dir"
| below: "vw_ReadDir vw dir = Inr files \<Longrightarrow> e \<in> set files \<Longrightarrow> de_IsDir e \<Longrightarrow>
    in_tree vw (JoinPath [dir, de_Name e]) n d \<Longrightarrow> in_tree vw dir (Suc n) d"

inductive_cases in_tree_0: "in_tree vw dir 0 d"
inductive_simps in_tree_Suc: "in_tree vw dir (Suc n) d"

definition sibling :: "fs_view \<Rightarrow> string \<Rightarrow> DirEntry \<Rightarrow> string \<Rightarrow> bool" where
  "sibling vw dir file ext \<longleftrightarrow>
     is_ok (vw_Stat vw (JoinPath [dir, TrimSuffix (de_Name file) (Ext (de_Name file)) @ ext]))"

definition eligible :: "unicode_env \<Rightarrow> fs_view \<Rightarrow> ScanOptions \<Rightarrow> string \<Rightarrow> DirEntry \<Rightarrow> bool" where
  "eligible u vw opts dir file \<longleftrightarrow>
     ToLower u (Ext (de_Name file)) \<in> set supportedFileTypes \<and>
     is_ok (vw_Open vw (JoinPath [dir, de_Name file])) \<and>
     (sn_Update opts \<or>
      (\<not> sibling vw dir file ''.lrc'' \<and> (sn_Upgrade opts \<or> \<not> sibling vw dir file ''.txt'')))"

lemma scan_file_iff:
  "scan_file u vw opts dir file = Some res \<longleftrightarrow>
     eligible u vw opts dir file \<and>
     (\<exists>artist title. vw_Tags vw (JoinPath [dir, de_Name file]) = Inr (artist, title) \<and>
        res = \<lparr>sr_ID = 0, sr_LibraryID = 0, sr_FilePath = JoinPath [dir, de_Name file],
          sr_Track = zero_Track\<lparr>tr_ArtistName := artist, tr_TrackName := title\<rparr>, sr_Outdir = dir,
          sr_Filename = TrimSuffix (de_Name file) (Ext (de_Name file)) @ ''.lrc'', sr_Status = ''pending'',
          sr_CreatedAt = zero_time\<rparr>)"
proof -
  have t: "''.lrc'' \<notin> set supportedFileTypes" "''.txt'' \<notin> set supportedFileTypes"
    by (simp_all add: supportedFileTypes_def)
  show ?thesis
  proof (cases "ToLower u (Ext (de_Name file)) \<in> set supportedFileTypes")
    case False
    then show ?thesis by (simp add: scan_file_def eligible_def Let_def)
  next
    case True
    with t have "ToLower u (Ext (de_Name file)) \<noteq> ''.lrc''" "ToLower u (Ext (de_Name file)) \<noteq> ''.txt''" by auto
    with True show ?thesis
      by (cases "vw_Open vw (JoinPath [dir, de_Name file])"; cases "vw_Tags vw (JoinPath [dir, de_Name file])")
        (auto simp: scan_file_def eligible_def sibling_def Let_def)
  qed
qed

text \<open>The results of a complete scan as one expression, and the readability of its directories.\<close>

definition entry_results ::
  "unicode_env \<Rightarrow> fs_view \<Rightarrow> ScanOptions \<Rightarrow> string \<Rightarrow> (string \<Rightarrow> ScanResult list) \<Rightarrow> DirEntry \<Rightarrow> ScanResult list"
where
  "entry_results u vw opts dir sub e =
     (if de_IsDir e then sub (JoinPath [dir, de_Name e])
      else case scan_file u vw opts dir e of None \<Rightarrow> [] | Some r \<Rightarrow> [r])"

definition dir_entries :: "fs_view \<Rightarrow> bool \<Rightarrow> string \<Rightarrow> DirEntry list" where
  "dir_entries vw bfs dir = (case vw_ReadDir vw dir of Inl _ \<Rightarrow> [] | Inr files \<Rightarrow> sort_entries bfs files)"

primrec walk :: "unicode_env \<Rightarrow> fs_view \<Rightarrow> ScanOptions \<Rightarrow> nat \<Rightarrow> string \<Rightarrow> ScanResult list" where
  "walk u vw opts 0 dir =
     concat (map (entry_results u vw opts dir (\<lambda>_. [])) (dir_entries vw (sn_BFS opts) dir))"
| "walk u vw opts (Suc n) dir =
     concat (map (entry_results u vw opts dir (walk u vw opts n)) (dir_entries vw (sn_BFS opts) dir))"

primrec readable :: "fs_view \<Rightarrow> nat \<Rightarrow> string \<Rightarrow> bool" where
  "readable vw 0 dir = is_ok (vw_ReadDir vw dir)"
| "readable vw (Suc n) dir =
     (case vw_ReadDir vw dir of Inl _ \<Rightarrow> False
      | Inr files \<Rightarrow> (\<forall>e\<in>set files. de_IsDir e \<longrightarrow> readable vw n (JoinPath [dir, de_Name e])))"

lemma set_sort_entries [simp]: "set (sort_entries bfs files) = set files"
  by (simp add: sort_entries_def table_simps)

lemma mset_sort_entries: "mset (sort_entries bfs files) = mset files"
  by (simp add: sort_entries_def order_by_def)

text \<open>The scan below a directory, for the depth that is left.\<close>

definition sub_walk :: "unicode_env \<Rightarrow> fs_view \<Rightarrow> ScanOptions \<Rightarrow> int \<Rightarrow> string \<Rightarrow> ScanResult list" where
  "sub_walk u vw opts depth =
     (if depth < sn_MaxDepth opts then walk u vw opts (nat (sn_MaxDepth opts - depth - 1)) else (\<lambda>_. []))"

definition sub_readable :: "fs_view \<Rightarrow> ScanOptions \<Rightarrow> int \<Rightarrow> string \<Rightarrow> bool" where
  "sub_readable vw opts depth dir \<longleftrightarrow>
     depth < sn_MaxDepth opts \<longrightarrow> readable vw (nat (sn_MaxDepth opts - depth - 1)) dir"

lemma walk_step:
  "walk u vw opts (nat (sn_MaxDepth opts - depth)) dir =
     concat (map (entry_results u vw opts dir (sub_walk u vw opts depth)) (dir_entries vw (sn_BFS opts) dir))"
  "readable vw (nat (sn_MaxDepth opts - depth)) dir \<longleftrightarrow>
     is_ok (vw_ReadDir vw dir) \<and>
     (\<forall>e\<in>set (dir_entries vw (sn_BFS opts) dir). de_IsDir e \<longrightarrow> sub_readable vw opts depth (JoinPath [dir, de_Name e]))"
proof -
  have "nat (sn_MaxDepth opts - depth) = (if depth < sn_MaxDepth opts then Suc (nat (sn_MaxDepth opts - depth - 1)) else 0)"
    by auto
  then show "walk u vw opts (nat (sn_MaxDepth opts - depth)) dir =
     concat (map (entry_results u vw opts dir (sub_walk u vw opts depth)) (dir_entries vw (sn_BFS opts) dir))"
    "readable vw (nat (sn_MaxDepth opts - depth)) dir \<longleftrightarrow>
     is_ok (vw_ReadDir vw dir) \<and>
     (\<forall>e\<in>set (dir_entries vw (sn_BFS opts) dir). de_IsDir e \<longrightarrow> sub_readable vw opts depth (JoinPath [dir, de_Name e]))"
    by (auto simp: sub_walk_def sub_readable_def dir_entries_def split: sum.splits)
qed

lemma scan_is_walk:
  "scanDir ctx u vw opts dir depth results k = (None, r, k') \<Longrightarrow>
     readable vw (nat (sn_MaxDepth opts - depth)) dir \<and> r = results @ walk u vw opts (nat (sn_MaxDepth opts - depth)) dir"
  "scan_entries ctx u vw opts dir depth files results k = (None, r, k') \<Longrightarrow>
     (\<forall>e\<in>set files. de_IsDir e \<longrightarrow> sub_readable vw opts depth (JoinPath [dir, de_Name e])) \<and>
     r = results @ concat (map (entry_results u vw opts dir (sub_walk u vw opts depth)) files)"
proof (induction ctx u vw opts dir depth results k and ctx u vw opts dir depth files results k
    arbitrary: r k' and r k' rule: scanDir_scan_entries.induct)
  case (1 ctx u vw opts dir depth results k)
  from 1(2) obtain files where f: "ctx k = None" "vw_ReadDir vw dir = Inr files"
    "scan_entries ctx u vw opts dir depth (sort_entries (sn_BFS opts) files) results (k + 1) = (None, r, k')"
    by (auto simp: scanDir.simps [of ctx u vw opts dir] split: option.splits sum.splits)
  from 1(1) [OF f] f show ?case unfolding walk_step by (simp add: dir_entries_def)
next
  case (2 ctx u vw opts dir depth results k)
  then show ?case by (simp add: scan_entries.simps)
next
  case (3 ctx u vw opts dir depth ent files results k)
  have c: "ctx k = None" using 3(6) by (auto simp: scan_entries.simps split: option.splits)
  show ?case
  proof (cases "de_IsDir ent \<and> depth < sn_MaxDepth opts")
    case True
    with 3(6) c obtain r1 k1 where d: "scanDir ctx u vw opts (JoinPath [dir, de_Name ent]) (depth + 1) results (k + 1) = (None, r1, k1)"
      "scan_entries ctx u vw opts dir depth files r1 k1 = (None, r, k')"
      by (auto simp: scan_entries.simps split: option.splits prod.splits)
    have n: "sn_MaxDepth opts - (depth + 1) = sn_MaxDepth opts - depth - 1" by simp
    from 3(1) [OF c _ _ d(1)] 3(2) [OF c _ _ d(1) [symmetric] refl refl d(2)] True show ?thesis
      by (simp add: entry_results_def sub_walk_def sub_readable_def n)
  next
    case False
    show ?thesis
    proof (cases "de_IsDir ent")
      case True
      with False 3(6) c have "scan_entries ctx u vw opts dir depth files results (k + 1) = (None, r, k')"
        by (simp add: scan_entries.simps)
      from 3(3) [OF c True _ this] False True show ?thesis
        by (simp add: entry_results_def sub_walk_def sub_readable_def)
    next
      case f: False
      with 3 c show ?thesis
        by (auto simp: scan_entries.simps entry_results_def split: option.splits)
    qed
  qed
qed

lemma scan_succeeds:
  "(\<And>i. ctx i = None) \<Longrightarrow> readable vw (nat (sn_MaxDepth opts - depth)) dir \<Longrightarrow>
     \<exists>r k'. scanDir ctx u vw opts dir depth results k = (None, r, k')"
  "(\<And>i. ctx i = None) \<Longrightarrow> (\<forall>e\<in>set files. de_IsDir e \<longrightarrow> sub_readable vw opts depth (JoinPath [dir, de_Name e])) \<Longrightarrow>
     \<exists>r k'. scan_entries ctx u vw opts dir depth files results k = (None, r, k')"
proof (induction ctx u vw opts dir depth results k and ctx u vw opts dir depth files results k
    rule: scanDir_scan_entries.induct)
  case (1 ctx u vw opts dir depth results k)
  from 1(3) obtain files where f: "vw_ReadDir vw dir = Inr files"
    unfolding walk_step by (cases "vw_ReadDir vw dir") auto
  have "\<exists>r k'. scan_entries ctx u vw opts dir depth (sort_entries (sn_BFS opts) files) results (k + 1) = (None, r, k')"
    using 1(3) f unfolding walk_step by (intro 1(1) [OF 1(2) f 1(2)]) (simp_all add: dir_entries_def)
  with f 1(2) [of k] show ?case by (simp add: scanDir.simps [of ctx u vw opts dir])
next
  case (2 ctx u vw opts dir depth results k)
  then show ?case by (simp add: scan_entries.simps)
next
  case (3 ctx u vw opts dir depth ent files results k)
  note c = 3(6) and ck = 3(6) [of k]
  have rest: "\<forall>e\<in>set files. de_IsDir e \<longrightarrow> sub_readable vw opts depth (JoinPath [dir, de_Name e])" using 3(7) by simp
  show ?case
  proof (cases "de_IsDir ent \<and> depth < sn_MaxDepth opts")
    case True
    have n: "sn_MaxDepth opts - (depth + 1) = sn_MaxDepth opts - depth - 1" by simp
    have "readable vw (nat (sn_MaxDepth opts - (depth + 1))) (JoinPath [dir, de_Name ent])"
      using 3(7) True unfolding n by (simp add: sub_readable_def)
    with 3(1) [OF ck] True c obtain r1 k1 where
      d: "scanDir ctx u vw opts (JoinPath [dir, de_Name ent]) (depth + 1) results (k + 1) = (None, r1, k1)" by blast
    from 3(2) [OF ck _ _ d [symmetric] refl refl c rest] True d ck show ?thesis
      by (simp add: scan_entries.simps(2))
  next
    case False
    show ?thesis
    proof (cases "de_IsDir ent")
      case True
      with 3(3) [OF ck True _ c rest] False ck show ?thesis by (simp add: scan_entries.simps(2))
    next
      case f: False
      with 3(4) [OF ck f _ c rest] 3(5) [OF ck f _ c rest] ck show ?thesis
        by (simp add: scan_entries.simps(2) split: option.splits)
    qed
  qed
qed

text \<open>Which results a walk has, and that the order of the entries does not change their multiset.\<close>

lemma set_dir_entries: "e \<in> set (dir_entries vw bfs dir) \<longleftrightarrow> (\<exists>files. vw_ReadDir vw dir = Inr files \<and> e \<in> set files)"
  by (cases "vw_ReadDir vw dir") (auto simp: dir_entries_def)

lemma in_tree_0_iff: "in_tree vw dir 0 d \<longleftrightarrow> d = dir"
  by (auto intro: here elim: in_tree_0)

lemma entry_members:
  "res \<in> set (entry_results u vw opts dir sub e) \<longleftrightarrow>
     (de_IsDir e \<and> res \<in> set (sub (JoinPath [dir, de_Name e]))) \<or> (\<not> de_IsDir e \<and> scan_file u vw opts dir e = Some res)"
  by (cases "scan_file u vw opts dir e") (auto simp: entry_results_def)

lemma entries_members:
  "res \<in> set (concat (map (entry_results u vw opts dir sub) (dir_entries vw bfs dir))) \<longleftrightarrow>
     (\<exists>files e. vw_ReadDir vw dir = Inr files \<and> e \<in> set files \<and>
        ((de_IsDir e \<and> res \<in> set (sub (JoinPath [dir, de_Name e]))) \<or> (\<not> de_IsDir e \<and> scan_file u vw opts dir e = Some res)))"
proof -
  have "res \<in> set (concat (map f es)) \<longleftrightarrow> (\<exists>e. e \<in> set es \<and> res \<in> set (f e))" for f :: "DirEntry \<Rightarrow> ScanResult list" and es
    by auto
  from this [of "entry_results u vw opts dir sub" "dir_entries vw bfs dir"] show ?thesis
    unfolding set_dir_entries entry_members by blast
qed

lemma walk_members:
  "res \<in> set (walk u vw opts n dir) \<longleftrightarrow>
     (\<exists>d files e. in_tree vw dir n d \<and> vw_ReadDir vw d = Inr files \<and> e \<in> set files \<and> \<not> de_IsDir e \<and>
        scan_file u vw opts d e = Some res)"
proof (induction n arbitrary: dir)
  case 0
  show ?case by (simp only: walk.simps entries_members in_tree_0_iff) auto
next
  case (Suc n)
  show ?case unfolding walk.simps entries_members Suc.IH in_tree_Suc by blast
qed

lemma mset_concat_perm:
  assumes "mset xs = mset ys" "\<And>x. x \<in> set xs \<Longrightarrow> mset (f x) = mset (g x)"
  shows "mset (concat (map f xs)) = mset (concat (map g ys))"
proof -
  have "mset (concat (map f xs)) = (\<Sum>x\<in>#mset xs. mset (f x))" for f :: "'a \<Rightarrow> 'b list" and xs
    by (induction xs) auto
  moreover have "(\<Sum>x\<in>#mset xs. mset (f x)) = (\<Sum>x\<in>#mset xs. mset (g x))"
    using assms(2) by (intro arg_cong [of _ _ sum_mset] image_mset_cong) simp
  ultimately show ?thesis by (simp add: assms(1))
qed

lemma mset_dir_entries: "mset (dir_entries vw b dir) = mset (dir_entries vw b' dir)"
  by (simp add: dir_entries_def mset_sort_entries split: sum.splits)

lemma scan_file_bfs: "scan_file u vw (opts\<lparr>sn_BFS := b\<rparr>) = scan_file u vw opts"
  by (intro ext) (simp add: scan_file_def Let_def)

lemma walk_bfs: "mset (walk u vw (opts\<lparr>sn_BFS := b\<rparr>) n dir) = mset (walk u vw opts n dir)"
proof (induction n arbitrary: dir)
  case 0
  show ?case
    unfolding walk.simps by (rule mset_concat_perm) (simp_all add: entry_results_def scan_file_bfs mset_dir_entries [of vw b dir "sn_BFS opts"])
next
  case (Suc n)
  show ?case
    unfolding walk.simps by (rule mset_concat_perm)
      (simp_all add: entry_results_def scan_file_bfs Suc.IH mset_dir_entries [of vw b dir "sn_BFS opts"])
qed

lemma ScanLibrary_ok:
  "ScanLibrary ctx u vw base opts = Inr rs \<Longrightarrow>
     readable vw (nat (sn_MaxDepth opts)) base \<and>
     rs = walk u vw (if sn_MaxDepth opts < 0 then opts\<lparr>sn_MaxDepth := 0\<rparr> else opts) (nat (sn_MaxDepth opts)) base"
  by (cases "sn_MaxDepth opts < 0")
    (auto simp: ScanLibrary_def Let_def split: prod.splits option.splits if_splits dest!: scan_is_walk(1))

lemma ScanLibrary_total:
  assumes "readable vw (nat (sn_MaxDepth opts)) base"
  shows "\<exists>rs. ScanLibrary (\<lambda>_. None) u vw base opts = Inr rs"
proof -
  let ?o = "if sn_MaxDepth opts < 0 then opts\<lparr>sn_MaxDepth := 0\<rparr> else opts"
  have "readable vw (nat (sn_MaxDepth ?o - 0)) base"
    by (cases "sn_MaxDepth opts < 0") (use assms in simp_all)
  from scan_succeeds(1) [OF refl this, of u "[]" 0] show ?thesis by (auto simp: ScanLibrary_def Let_def)
qed

lemma scan_file_depth: "scan_file u vw (opts\<lparr>sn_MaxDepth := m\<rparr>) = scan_file u vw opts"
  by (intro ext) (simp add: scan_file_def Let_def)

text \<open>
  C25. A scan that succeeds has read every directory at most MaxDepth levels below the root (a negative
  MaxDepth is 0), and its results are exactly the eligible files with tags in them: the supported audio
  files that can be opened and have, unless update asks for them anyway, no .lrc beside them and, unless
  upgrade does, no .txt either. A result carries the file's path, its directory, the name of its
  lyrics file and the status pending. A scan that no cancellation meets fails only if it cannot read a directory.
\<close>
theorem ScanLibrary_finds_exactly:
  "case ScanLibrary ctx u vw base opts of
     Inr rs \<Rightarrow> (\<forall>d. in_tree vw base (nat (sn_MaxDepth opts)) d \<longrightarrow> is_ok (vw_ReadDir vw d)) \<and>
       set rs = {res. \<exists>d files e artist title.
         in_tree vw base (nat (sn_MaxDepth opts)) d \<and> vw_ReadDir vw d = Inr files \<and> e \<in> set files \<and> \<not> de_IsDir e \<and>
         eligible u vw opts d e \<and> vw_Tags vw (JoinPath [d, de_Name e]) = Inr (artist, title) \<and>
         res = \<lparr>sr_ID = 0, sr_LibraryID = 0, sr_FilePath = JoinPath [d, de_Name e],
           sr_Track = zero_Track\<lparr>tr_ArtistName := artist, tr_TrackName := title\<rparr>, sr_Outdir = d,
           sr_Filename = TrimSuffix (de_Name e) (Ext (de_Name e)) @ ''.lrc'', sr_Status = ''pending'',
           sr_CreatedAt = zero_time\<rparr>}
   | Inl _ \<Rightarrow> (\<exists>k. ctx k \<noteq> None) \<or>
       (\<exists>d. in_tree vw base (nat (sn_MaxDepth opts)) d \<and> \<not> is_ok (vw_ReadDir vw d))"
proof -
  have tree: "readable vw n dir \<longleftrightarrow> (\<forall>d. in_tree vw dir n d \<longrightarrow> is_ok (vw_ReadDir vw d))" for n dir
  proof (induction n arbitrary: dir)
    case 0
    show ?case by (simp add: in_tree_0_iff)
  next
    case (Suc n)
    show ?case by (cases "vw_ReadDir vw dir") (auto simp: in_tree_Suc Suc.IH)
  qed
  show ?thesis
  proof (cases "ScanLibrary ctx u vw base opts")
    case (Inl e)
    have "(\<exists>k. ctx k \<noteq> None) \<or> \<not> readable vw (nat (sn_MaxDepth opts)) base"
      using Inl ScanLibrary_total [of vw opts base u] by (metis ext sum.distinct(1))
    with Inl tree show ?thesis by simp
  next
    case (Inr rs)
    let ?o = "if sn_MaxDepth opts < 0 then opts\<lparr>sn_MaxDepth := 0\<rparr> else opts"
    from ScanLibrary_ok [OF Inr] have "readable vw (nat (sn_MaxDepth opts)) base"
      and rs: "rs = walk u vw ?o (nat (sn_MaxDepth opts)) base" by auto
    moreover have "scan_file u vw ?o = scan_file u vw opts" by (simp add: scan_file_depth)
    then have "res \<in> set rs \<longleftrightarrow> (\<exists>d files e. in_tree vw base (nat (sn_MaxDepth opts)) d \<and>
        vw_ReadDir vw d = Inr files \<and> e \<in> set files \<and> \<not> de_IsDir e \<and> scan_file u vw opts d e = Some res)" for res
      unfolding rs walk_members by simp
    note found = this [unfolded scan_file_iff]
    ultimately show ?thesis unfolding Inr tree by (simp only: sum.case) (rule conjI, blast, rule set_eqI, unfold mem_Collect_eq found, blast)
  qed
qed

text \<open>
  C26. The BFS option changes the order of the results only: with it and without it a scan fails or
  succeeds alike, and a success has the same results, each as often.
\<close>
theorem BFS_only_reorders:
  "case (ScanLibrary (\<lambda>_. None) u vw base opts, ScanLibrary (\<lambda>_. None) u vw base (opts\<lparr>sn_BFS := bfs\<rparr>)) of
     (Inr rs, Inr rs') \<Rightarrow> mset rs = mset rs'
   | (Inl _, Inl _) \<Rightarrow> True
   | _ \<Rightarrow> False"
proof -
  have "opts\<lparr>sn_BFS := bfs, sn_MaxDepth := 0\<rparr> = (opts\<lparr>sn_MaxDepth := 0\<rparr>)\<lparr>sn_BFS := bfs\<rparr>"
    by simp
  then have "mset (walk u vw (opts\<lparr>sn_BFS := bfs, sn_MaxDepth := 0\<rparr>) n d) = mset (walk u vw (opts\<lparr>sn_MaxDepth := 0\<rparr>) n d)" for n d
    by (metis walk_bfs)
  with ScanLibrary_ok [of "\<lambda>_. None" u vw base opts] ScanLibrary_ok [of "\<lambda>_. None" u vw base "opts\<lparr>sn_BFS := bfs\<rparr>"]
    ScanLibrary_total [of vw opts base u] ScanLibrary_total [of vw "opts\<lparr>sn_BFS := bfs\<rparr>" base u]
  show ?thesis
    by (cases "ScanLibrary (\<lambda>_. None) u vw base opts"; cases "ScanLibrary (\<lambda>_. None) u vw base (opts\<lparr>sn_BFS := bfs\<rparr>)")
      (auto simp: walk_bfs simp del: walk.simps split: if_splits)
qed

section \<open>Pairs from text\<close>

text \<open>What \<open>AssertInput\<close> makes of a record that \<open>csv.Writer\<close> wrote, with or without its line feed.\<close>

lemma AssertInput_record:
  assumes "one_line artist" "one_line title" "nl = [] \<or> nl = [NL]"
  shows "AssertInput (record_text [artist, title] @ nl) =
    Some (zero_Track\<lparr>tr_ArtistName := TrimSpace artist, tr_TrackName := TrimSpace title\<rparr>)"
  using csv_Read_record [of "[artist, title]" nl] assms by (simp add: AssertInput_def)

lemma GetSongMulti_queue:
  "iq_Queue (GetSongMulti ss savePath q) = iq_Queue q @
     concat (map (\<lambda>s. case AssertInput s of None \<Rightarrow> []
       | Some t \<Rightarrow> [zero_Inputs\<lparr>in_Track := t, in_Outdir := savePath, in_Filename := ''''\<rparr>]) ss)"
  by (induction ss arbitrary: q) (auto simp: Push_def split: option.splits)

section \<open>A small tree\<close>

text \<open>Directories \<open>/m/a/b\<close> and \<open>/m/c\<close> with one tagged song each.\<close>

definition sample_view :: fs_view where
  "sample_view =
     (let d = (\<lambda>n. \<lparr>de_Name = n, de_IsDir = True\<rparr>); f = (\<lambda>n. \<lparr>de_Name = n, de_IsDir = False\<rparr>) in
      \<lparr>vw_ReadDir = (\<lambda>p. if p = ''/m'' then Inr [d ''a'', d ''c'', f ''x.MP3'', f ''y.flac'', f ''y.lrc'']
           else if p = ''/m/a'' then Inr [d ''b''] else if p = ''/m/a/b'' then Inr [f ''s.ogg'']
           else if p = ''/m/c'' then Inr [f ''t.ogg''] else Inl (Sen OsErrNotExist)),
       vw_Stat = (\<lambda>p. if p = ''/m/y.lrc'' then Inr False else Inl (Sen OsErrNotExist)),
       vw_Open = (\<lambda>p. Inr ('''', None)), vw_Tags = (\<lambda>p. Inr (''Artist'', p))\<rparr>)"

definition sample_options :: "bool \<Rightarrow> ScanOptions" where
  "sample_options bfs = \<lparr>sn_Update = False, sn_Upgrade = False, sn_MaxDepth = 5, sn_BFS = bfs\<rparr>"

text \<open>
  With BFS the files of a directory come before its subdirectories, but the scan still finishes one
  subdirectory before the next: the song two levels down precedes the song one level down.
\<close>

lemma sample_scans:
  "map_sum id (map sr_FilePath) (ScanLibrary (\<lambda>_. None) ascii_env sample_view ''/m'' (sample_options False)) =
     Inr [''/m/a/b/s.ogg'', ''/m/c/t.ogg'', ''/m/x.MP3'']"
  "map_sum id (map sr_FilePath) (ScanLibrary (\<lambda>_. None) ascii_env sample_view ''/m'' (sample_options True)) =
     Inr [''/m/x.MP3'', ''/m/a/b/s.ogg'', ''/m/c/t.ogg'']"
  by code_simp+


theorem ScanLibrary_finds_exactly_witness:
  "\<exists>rs. ScanLibrary (\<lambda>_. None) ascii_env sample_view ''/m'' (sample_options False) = Inr rs \<and>
     map sr_FilePath rs = [''/m/a/b/s.ogg'', ''/m/c/t.ogg'', ''/m/x.MP3''] \<and> is_ok (vw_ReadDir sample_view ''/m'')"
proof -
  from sample_scans(1) obtain rs where rs: "ScanLibrary (\<lambda>_. None) ascii_env sample_view ''/m'' (sample_options False) = Inr rs"
    and files: "map sr_FilePath rs = [''/m/a/b/s.ogg'', ''/m/c/t.ogg'', ''/m/x.MP3'']"
    by (cases "ScanLibrary (\<lambda>_. None) ascii_env sample_view ''/m'' (sample_options False)") simp_all
  note found = ScanLibrary_finds_exactly [where ctx = "\<lambda>_. None" and u = ascii_env and vw = sample_view and base = "''/m''"
        and opts = "sample_options False", unfolded rs sum.case, THEN conjunct1]
  have "is_ok (vw_ReadDir sample_view ''/m'')" by (rule mp [OF spec [OF found] in_tree.here])
  with rs files show ?thesis by (intro exI [of _ rs] conjI)
qed

end
