(* ===== verification/Match_Confidence.thy ===== *)
theory Match_Confidence
  imports Normalize Go_Float
begin

text \<open>
  The Jaro-Winkler score of package \<open>internal/normalize\<close>: the two loops over the runes, the arithmetic
  in \<open>float64\<close> (every operation rounded by \<open>rnd\<close>), and the proofs that the score is total, lies
  between zero and one, and is one on names with the same key.
\<close>

section \<open>The matching loop\<close>

text \<open>The inner loop \<open>for j := lo; j <= hi; j++\<close>, by the number of rounds left.\<close>

fun match_inner :: "int list \<Rightarrow> bool list \<Rightarrow> int \<Rightarrow> nat \<Rightarrow> nat \<Rightarrow> nat option" where
  "match_inner r2 m2 c j 0 = None"
| "match_inner r2 m2 c j (Suc n) =
     (if \<not> m2 ! j \<and> c = r2 ! j then Some j else match_inner r2 m2 c (j + 1) n)"

text \<open>The outer loop from the index \<open>i\<close> on: the flags of the rest of r1, the flags of r2, the count.\<close>

fun match_outer :: "int list \<Rightarrow> int \<Rightarrow> nat \<Rightarrow> int list \<Rightarrow> bool list \<Rightarrow> bool list \<times> bool list \<times> nat" where
  "match_outer r2 md i [] m2 = ([], m2, 0)"
| "match_outer r2 md i (c # cs) m2 =
     (let lo = max 0 (int i - md); hi = min (int (length r2) - 1) (int i + md)
      in case match_inner r2 m2 c (nat lo) (nat (hi - lo + 1)) of
           None \<Rightarrow> (let (m1, m2', k) = match_outer r2 md (i + 1) cs m2 in (False # m1, m2', k))
         | Some j \<Rightarrow>
             (let (m1, m2', k) = match_outer r2 md (i + 1) cs (m2[j := True]) in (True # m1, m2', k + 1)))"

section \<open>The transposition loop\<close>

text \<open>\<open>for !m2[k] { k++ }\<close>, by the flags from \<open>k\<close> on; \<open>None\<close> is the index running out of range.\<close>

fun skip_flags :: "bool list \<Rightarrow> nat \<Rightarrow> nat option" where
  "skip_flags [] k = None"
| "skip_flags (b # bs) k = (if b then Some k else skip_flags bs (k + 1))"

fun transpose_loop :: "int list \<Rightarrow> bool list \<Rightarrow> (int \<times> bool) list \<Rightarrow> nat \<Rightarrow> nat option" where
  "transpose_loop r2 m2 [] k = Some 0"
| "transpose_loop r2 m2 ((c, m) # xs) k =
     (if \<not> m then transpose_loop r2 m2 xs k
      else case skip_flags (drop k m2) k of
        None \<Rightarrow> None
      | Some k' \<Rightarrow>
          (case transpose_loop r2 m2 xs (k' + 1) of
             None \<Rightarrow> None
           | Some t \<Rightarrow> Some (if c \<noteq> r2 ! k' then t + 1 else t)))"

fun prefix_len :: "nat \<Rightarrow> int list \<Rightarrow> int list \<Rightarrow> nat" where
  "prefix_len (Suc n) (a # r1) (b # r2) = (if a = b then prefix_len n r1 r2 + 1 else 0)"
| "prefix_len n r1 r2 = 0"

text \<open>
  \<open>None\<close> is a panic; \<open>jaroWinkler_total\<close> below shows that there is none. Each operation is rounded by itself, as
  the compiler does on amd64; the fused multiply-add that Go permits on other architectures is not covered.
\<close>

definition jaroWinkler :: "(rat \<Rightarrow> rat) \<Rightarrow> string \<Rightarrow> string \<Rightarrow> rat option" where
  "jaroWinkler rnd s1 s2 =
     (if s1 = s2 then Some 1
      else if length s1 = 0 \<or> length s2 = 0 then Some 0
      else
        let r1 = runes s1; r2 = runes s2; l1 = length r1; l2 = length r2;
            matchDist = int (max l1 l2) div 2 - 1;
            matchDist = (if matchDist < 0 then 0 else matchDist);
            (m1, m2, matches) = match_outer r2 matchDist 0 r1 (replicate l2 False)
        in if matches = 0 then Some 0
           else case transpose_loop r2 m2 (zip r1 m1) 0 of
                  None \<Rightarrow> None
                | Some transpositions \<Rightarrow>
                    (let fm = rnd (of_nat matches);
                         jaro = rnd (rnd (rnd (rnd (fm / rnd (of_nat l1)) + rnd (fm / rnd (of_nat l2)))
                                  + rnd (rnd (fm - rnd (rnd (of_nat transpositions) / 2)) / fm)) / 3);
                         maxPref = min 4 (min l1 l2);
                         prefLen = prefix_len maxPref r1 r2
                     in Some (rnd (jaro + rnd (rnd (rnd (of_nat prefLen) * rnd (1 / 10)) * rnd (1 - jaro))))))"

definition MatchConfidence :: "(rat \<Rightarrow> rat) \<Rightarrow> unicode_env \<Rightarrow> string \<Rightarrow> string \<Rightarrow> rat option" where
  "MatchConfidence rnd u a b = jaroWinkler rnd (NormalizeKey u a) (NormalizeKey u b)"

section \<open>Counting the flags\<close>

definition trues :: "bool list \<Rightarrow> nat" where
  "trues bs = length (filter (\<lambda>b. b) bs)"

lemma trues_simps [simp]: "trues [] = 0" "trues (b # bs) = (if b then Suc (trues bs) else trues bs)"
  by (simp_all add: trues_def)

lemma trues_replicate [simp]: "trues (replicate n False) = 0"
  by (simp add: trues_def)

lemma trues_le: "trues bs \<le> length bs"
  by (simp add: trues_def)

lemma trues_update: "j < length bs \<Longrightarrow> \<not> bs ! j \<Longrightarrow> trues (bs[j := True]) = Suc (trues bs)"
  by (induction bs arbitrary: j) (auto split: nat.splits)

lemma match_inner_Some: "match_inner r2 m2 c j n = Some k \<Longrightarrow> j \<le> k \<and> k < j + n \<and> \<not> m2 ! k \<and> r2 ! k = c"
  by (induction r2 m2 c j n rule: match_inner.induct) (fastforce split: if_splits)+

lemma match_outer_counts:
  assumes "match_outer r2 md i cs m2 = (m1, m2', k)" "length m2 = length r2" "0 \<le> md"
  shows "length m1 = length cs \<and> length m2' = length r2 \<and> trues m1 = k \<and> trues m2' = trues m2 + k"
  using assms
proof (induction r2 md i cs m2 arbitrary: m1 m2' k rule: match_outer.induct)
  case (1 r2 md i m2)
  then show ?case by simp
next
  case (2 r2 md i c cs m2)
  let ?lo = "max 0 (int i - md)" and ?hi = "min (int (length r2) - 1) (int i + md)"
  show ?case
  proof (cases "match_inner r2 m2 c (nat ?lo) (nat (?hi - ?lo + 1))")
    case None
    then obtain m1' where m1': "m1 = False # m1'" "match_outer r2 md (i + 1) cs m2 = (m1', m2', k)"
      using 2(3) by (auto simp: Let_def split: prod.splits)
    from 2(1) [OF refl refl None m1'(2) 2(4,5)] m1'(1) show ?thesis by simp
  next
    case (Some j)
    then obtain m1' k' where m1': "m1 = True # m1'" "k = Suc k'"
      "match_outer r2 md (i + 1) cs (m2[j := True]) = (m1', m2', k')"
      using 2(3) by (auto simp: Let_def split: prod.splits)
    from match_inner_Some [OF Some] have j: "j < nat ?lo + nat (?hi - ?lo + 1)" "nat ?lo \<le> j" "\<not> m2 ! j" by auto
    then have "j < length r2" by linarith
    with j(3) 2(4) have t: "trues (m2[j := True]) = Suc (trues m2)" by (intro trues_update) auto
    from 2(2) [OF refl refl Some m1'(3) _ 2(5)] 2(4) t m1'(1,2) show ?thesis by simp
  qed
qed

lemma skip_flags_ok:
  "0 < trues bs \<Longrightarrow> \<exists>n. skip_flags bs k = Some (k + n) \<and> n < length bs \<and> trues (drop (Suc n) bs) = trues bs - 1"
proof (induction bs arbitrary: k)
  case (Cons b bs)
  show ?case
  proof (cases b)
    case True
    then show ?thesis by (intro exI [of _ 0]) simp
  next
    case False
    with Cons obtain n where "skip_flags bs (k + 1) = Some (k + 1 + n)" "n < length bs" "trues (drop (Suc n) bs) = trues bs - 1"
      by fastforce
    with False show ?thesis by (intro exI [of _ "Suc n"]) simp
  qed
qed simp

lemma transpose_total:
  assumes "trues (map snd xs) \<le> trues (drop k m2)"
  shows "\<exists>t. transpose_loop r2 m2 xs k = Some t \<and> t \<le> trues (map snd xs)"
  using assms
proof (induction xs arbitrary: k)
  case (Cons x xs)
  obtain c m where x: "x = (c, m)" by (cases x)
  show ?case
  proof (cases m)
    case False
    with Cons show ?thesis by (simp add: x)
  next
    case True
    with Cons.prems have "0 < trues (drop k m2)" by (simp add: x)
    from skip_flags_ok [OF this, of k] obtain n where
      n: "skip_flags (drop k m2) k = Some (k + n)" "trues (drop (Suc n) (drop k m2)) = trues (drop k m2) - 1" by blast
    have "trues (map snd xs) \<le> trues (drop (k + n + 1) m2)"
      using Cons.prems True n(2) by (simp add: x add.commute)
    from Cons.IH [OF this] obtain t where "transpose_loop r2 m2 xs (k + n + 1) = Some t" "t \<le> trues (map snd xs)" by blast
    then show ?thesis by (simp add: x True n(1))
  qed
qed simp

section \<open>The score lies between zero and one\<close>

lemma ratio_unit:
  assumes "float_rounding rnd" "0 \<le> a" "a \<le> b" "0 < b"
  shows "0 \<le> rnd (a / b) \<and> rnd (a / b) \<le> 1"
proof -
  have "0 \<le> a / b" "a / b \<le> 1" using assms(2-4) by simp_all
  then show ?thesis using rnd_nonneg [OF assms(1)] rnd_le_1 [OF assms(1)] by blast
qed

lemma jaro_unit:
  assumes r: "float_rounding rnd" and "0 < m" "m \<le> l1" "m \<le> l2" "t \<le> m" "m \<le> 2 ^ 53"
  defines "fm \<equiv> rnd (of_nat m)"
  defines "j0 \<equiv> rnd (rnd (rnd (fm / rnd (of_nat l1)) + rnd (fm / rnd (of_nat l2)))
              + rnd (rnd (fm - rnd (rnd (of_nat t) / 2)) / fm)) / 3"
  shows "0 \<le> j0 \<and> j0 \<le> 1"
proof -
  have fm: "fm = of_nat m"
    using rnd_int [OF r, of "int m"] assms(6) by (simp add: fm_def)
  have tm: "rnd (of_nat t) = of_nat t"
    using rnd_int [OF r, of "int t"] assms(5,6) by simp
  have ge: "fm \<le> rnd (of_nat l)" if "m \<le> l" for l
    using that rnd_mono [OF r] by (simp add: fm_def)
  have pos: "0 < fm" using assms(2) by (simp add: fm)
  let ?a = "rnd (fm / rnd (of_nat l1))" and ?b = "rnd (fm / rnd (of_nat l2))"
  have a: "0 \<le> ?a \<and> ?a \<le> 1"
    using ge [OF assms(3)] pos by (intro ratio_unit [OF r]) linarith+
  have b: "0 \<le> ?b \<and> ?b \<le> 1"
    using ge [OF assms(4)] pos by (intro ratio_unit [OF r]) linarith+
  let ?x = "rnd (rnd (of_nat t) / 2)"
  have x: "0 \<le> ?x" "?x \<le> fm"
  proof -
    show "0 \<le> ?x" by (rule rnd_nonneg [OF r]) (simp add: tm)
    have "?x \<le> rnd (of_nat m)" using assms(5) by (intro rnd_mono [OF r]) (simp add: tm)
    then show "?x \<le> fm" by (simp add: fm_def)
  qed
  have y: "0 \<le> rnd (fm - ?x)" "rnd (fm - ?x) \<le> fm"
    using x rnd_nonneg [OF r, of "fm - ?x"] rnd_mono [OF r, of "fm - ?x" "of_nat m"] by (simp_all add: fm fm_def [symmetric])
  let ?c = "rnd (rnd (fm - ?x) / fm)"
  have c: "0 \<le> ?c \<and> ?c \<le> 1" using y pos by (intro ratio_unit [OF r])
  have s: "0 \<le> rnd (?a + ?b)" "rnd (?a + ?b) \<le> 2"
    using a b rnd_nonneg [OF r, of "?a + ?b"] rnd_le_int [OF r, of 2 "?a + ?b"] by simp_all
  have "0 \<le> rnd (rnd (?a + ?b) + ?c)" "rnd (rnd (?a + ?b) + ?c) \<le> 3"
    using s c rnd_nonneg [OF r, of "rnd (?a + ?b) + ?c"] rnd_le_int [OF r, of 3 "rnd (?a + ?b) + ?c"] by simp_all
  then show ?thesis by (simp add: j0_def)
qed

lemma prefix_len_le: "prefix_len n r1 r2 \<le> n"
  by (induction n r1 r2 rule: prefix_len.induct) auto

lemma winkler_unit:
  assumes r: "float_rounding rnd" and j: "j = rnd x" "0 \<le> x" "x \<le> 1" and "p \<le> (4::nat)"
  defines "w \<equiv> rnd (j + rnd (rnd (rnd (of_nat p) * rnd (1 / 10)) * rnd (1 - j)))"
  shows "0 \<le> w \<and> w \<le> 1"
proof -
  have ju: "0 \<le> j" "j \<le> 1" using j rnd_nonneg [OF r] rnd_le_1 [OF r] by auto
  let ?q = "rnd (1 / 10)" let ?c = "rnd (rnd (of_nat p) * ?q)" let ?d = "rnd (1 - j)"
  have q: "0 \<le> ?q" "?q \<le> 1 / 8"
    using rnd_nonneg [OF r, of "1 / 10"] rnd_mono [OF r, of "1 / 10" "1 / 8"] rnd_pow [OF r, of 3] by simp_all
  have p: "rnd (of_nat p) = of_nat p" using rnd_int [OF r, of "int p"] assms(5) by simp
  have pq: "of_nat p * ?q \<le> 4 * (1 / 8)" using assms(5) q by (intro mult_mono) simp_all
  have c: "0 \<le> ?c" "?c \<le> 1 / 2"
    using q pq rnd_nonneg [OF r, of "of_nat p * ?q"] rnd_mono [OF r, of "of_nat p * ?q" "1 / 2"] rnd_pow [OF r, of 1]
    by (simp_all add: p)
  have d: "0 \<le> ?d" using ju by (intro rnd_nonneg [OF r]) simp
  have cd: "?c * ?d \<le> ?d / 2" using c d mult_right_mono [of ?c "1 / 2" ?d] by simp
  have cd0: "0 \<le> ?c * ?d" using c d by simp
  have "j + rnd (?c * ?d) \<le> 1"
  proof (cases "j = 1")
    case True
    then show ?thesis by (simp add: rnd_small [OF r])
  next
    case False
    with ju have "j < 1" by simp
    from below_one_gap [OF r j(1,3) this j(2)] obtain k where
      k: "k \<le> 53" "1 / 2 ^ Suc k < 1 - j" "1 - j \<le> 1 / 2 ^ k"
      using binade [of 53 "1 - j"] ju \<open>1 / 2 ^ 53 \<le> 1 - j\<close> by auto
    show ?thesis
    proof (cases "k = 53")
      case True
      have "?d \<le> rnd (1 / 2 ^ 53)" using k(3) True by (intro rnd_mono [OF r]) simp
      moreover have "rnd (1 / 2 ^ 53) = 1 / 2 ^ 53" by (rule rnd_pow [OF r]) simp
      ultimately have "rnd (?c * ?d) \<le> rnd (1 / 2 ^ 53)" using cd d by (intro rnd_mono [OF r]) simp
      then have "rnd (?c * ?d) \<le> 1 / 2 ^ 53" using rnd_pow [OF r, of 53] by simp
      with \<open>1 / 2 ^ 53 \<le> 1 - j\<close> show ?thesis by simp
    next
      case False
      with k(1) have "Suc k \<le> 53" by simp
      have "?d \<le> rnd (1 / 2 ^ k)" using k(3) by (intro rnd_mono [OF r])
      then have "?d \<le> 1 / 2 ^ k" using rnd_pow [OF r k(1)] by simp
      then have "rnd (?c * ?d) \<le> rnd (1 / 2 ^ Suc k)" using cd by (intro rnd_mono [OF r]) simp
      then have "rnd (?c * ?d) \<le> 1 / 2 ^ Suc k" using rnd_pow [OF r \<open>Suc k \<le> 53\<close>] by simp
      with k(2) show ?thesis by simp
    qed
  qed
  then show ?thesis
    using ju rnd_nonneg [OF r cd0] rnd_nonneg [OF r, of "j + rnd (?c * ?d)"] rnd_le_1 [OF r] by (simp add: w_def)
qed

lemma length_runes_le: "length (runes s) \<le> length s"
proof (induction s rule: runes.induct)
  case (1 s)
  show ?case
  proof (cases "s = []")
    case False
    with 1 rune_width_pos [OF False] show ?thesis
      by (subst runes.simps) (simp, cases s, auto)
  qed (simp add: runes.simps)
qed

lemma jaroWinkler_total:
  assumes r: "float_rounding rnd" and len: "length s1 \<le> 2 ^ 53"
  shows "\<exists>c. jaroWinkler rnd s1 s2 = Some c \<and> 0 \<le> c \<and> c \<le> 1"
proof (cases "s1 = s2 \<or> length s1 = 0 \<or> length s2 = 0")
  case True
  then show ?thesis by (auto simp: jaroWinkler_def)
next
  case False
  define r1 r2 md where d: "r1 = runes s1" "r2 = runes s2"
    "md = (let d = int (max (length r1) (length r2)) div 2 - 1 in if d < 0 then 0 else d)"
  obtain m1 m2 k where m: "match_outer r2 md 0 r1 (replicate (length r2) False) = (m1, m2, k)"
    by (metis prod_cases3)
  have md: "0 \<le> md" by (simp add: d Let_def)
  note cnt = match_outer_counts [OF m _ md]
  show ?thesis
  proof (cases "k = 0")
    case True
    with False m show ?thesis by (auto simp: jaroWinkler_def Let_def d)
  next
    case kpos: False
    have "map snd (zip r1 m1) = m1" using cnt by simp
    then obtain t where t: "transpose_loop r2 m2 (zip r1 m1) 0 = Some t" "t \<le> k"
      using transpose_total [of "zip r1 m1" 0 m2 r2] cnt by auto
    have k: "k \<le> length r1" "k \<le> length r2"
      using cnt trues_le [of m1] trues_le [of m2] by auto
    have "k \<le> 2 ^ 53" using k(1) len length_runes_le [of s1] by (simp add: d)
    note ju = jaro_unit [OF r _ k t(2) this]
    let ?p = "prefix_len (min 4 (min (length r1) (length r2))) r1 r2"
    have p: "?p \<le> 4" by (rule order_trans [OF prefix_len_le]) simp
    from winkler_unit [OF r refl _ _ p] ju kpos False m t(1) show ?thesis
      by (simp add: jaroWinkler_def Let_def d)
  qed
qed

text \<open>
  C37. MatchConfidence never panics on names of up to 2^53 bytes of key, whatever the rounding of each
  floating-point operation does within IEEE 754, and its score lies between 0 and 1; two names with the same
  key, such as Hello and hello, score exactly 1, and a name whose key is empty scores 0 against any other.
\<close>
theorem MatchConfidence_in_unit_interval:
  assumes "float_rounding rnd" and "length (NormalizeKey u a) \<le> 2 ^ 53"
  shows "(\<exists>c. MatchConfidence rnd u a b = Some c \<and> 0 \<le> c \<and> c \<le> 1) \<and>
    (NormalizeKey u a = NormalizeKey u b \<longrightarrow> MatchConfidence rnd u a b = Some 1) \<and>
    (NormalizeKey u a \<noteq> NormalizeKey u b \<and> (NormalizeKey u a = '''' \<or> NormalizeKey u b = '''') \<longrightarrow>
       MatchConfidence rnd u a b = Some 0)"
  using jaroWinkler_total [OF assms, of "NormalizeKey u b"]
  by (auto simp: MatchConfidence_def jaroWinkler_def)

theorem MatchConfidence_in_unit_interval_witness:
  "MatchConfidence fixed53 ascii_env ''Hello'' ''hello'' = Some 1 \<and>
   MatchConfidence fixed53 ascii_env ''Hello'' '' '' = Some 0 \<and>
   (\<exists>c. MatchConfidence fixed53 ascii_env ''MARTHA'' ''marhta'' = Some c \<and> 961 / 1000 < c \<and> c < 962 / 1000 \<and> c \<le> 1)"
proof -
  have keys: "NormalizeKey ascii_env ''MARTHA'' = ''martha''" "NormalizeKey ascii_env ''Hello'' = ''hello''"
    "NormalizeKey ascii_env ''hello'' = ''hello''" "NormalizeKey ascii_env '' '' = ''''"
    by code_simp+
  then have len: "length (NormalizeKey ascii_env ''MARTHA'') \<le> 2 ^ 53" "length (NormalizeKey ascii_env ''Hello'') \<le> 2 ^ 53"
    by simp_all
  note main = MatchConfidence_in_unit_interval [OF float_rounding_fixed53]
  from main [OF len(1), of "''marhta''"] obtain c where
    c: "MatchConfidence fixed53 ascii_env ''MARTHA'' ''marhta'' = Some c" "c \<le> 1" by blast
  have "opt_where (\<lambda>c. 961 / 1000 < c \<and> c < 962 / 1000) (MatchConfidence fixed53 ascii_env ''MARTHA'' ''marhta'')"
    by code_simp
  with c main [OF len(2), of "''hello''"] main [OF len(2), of "'' ''"] show ?thesis
    by (auto simp: keys opt_where_def)
qed

end
