(* ===== verification/Verification.thy ===== *)
theory Verification
  imports Models Match_Confidence
begin

text \<open>
  Package \<open>internal/verification\<close>: the text of a song, the token overlap between a transcript and that
  text, the decision of the verifier, and the values its constructor accepts. Running ffmpeg and
  talking to the transcription service are the functions of the record \<open>SttEnv\<close>.
\<close>

section \<open>Text and tokens\<close>

fun join_lines :: "string \<Rightarrow> Lines list \<Rightarrow> string" where
  "join_lines b [] = b"
| "join_lines b (l # ls) =
     (let t = TrimSpace (li_Text l)
      in if t \<noteq> '''' then join_lines ((if length b > 0 then b @ '' '' else b) @ t) ls else join_lines b ls)"

definition SongText :: "Song \<Rightarrow> string" where
  "SongText song =
     (let b = join_lines '''' (so_Subtitles song)
      in if length (so_Subtitles song) > 0 \<and> length b > 0 then b else TrimSpace (so_LyricsBody song))"

text \<open>\<open>strings.FieldsFunc\<close>: the maximal runs of runes that do not satisfy the predicate.\<close>

function fields_func :: "(int \<Rightarrow> bool) \<Rightarrow> string \<Rightarrow> string \<Rightarrow> string list" where
  "fields_func sep cur s =
     (if s = [] then (if cur = [] then [] else [cur])
      else let w = rune_width s; r = fst (decode_rune s)
           in if sep r then (if cur = [] then [] else [cur]) @ fields_func sep [] (drop w s)
              else fields_func sep (cur @ take w s) (drop w s))"
  by pat_completeness auto
termination
  by (relation "measure (\<lambda>(sep, cur, s). length s)") (auto simp: rune_width_pos)

declare fields_func.simps [simp del]

text \<open>The keys of the map, each once.\<close>

definition tokenSet :: "unicode_env \<Rightarrow> string \<Rightarrow> string list" where
  "tokenSet u s =
     remdups (filter (\<lambda>f. f \<noteq> '''') (fields_func (\<lambda>r. \<not> u_word_rune u r) '''' (NormalizeKey u s)))"

definition Similarity :: "(rat \<Rightarrow> rat) \<Rightarrow> unicode_env \<Rightarrow> string \<Rightarrow> string \<Rightarrow> rat" where
  "Similarity rnd u transcript lyrics =
     (let transcriptTokens = tokenSet u transcript; lyricsTokens = tokenSet u lyrics
      in if length transcriptTokens = 0 \<or> length lyricsTokens = 0 then 0
         else (let matches = length (filter (\<lambda>t. t \<in> set lyricsTokens) transcriptTokens)
               in rnd (rnd (of_nat matches) / rnd (of_nat (length transcriptTokens)))))"

section \<open>The verifier\<close>

record VerifyResult =
  vr_Accepted :: bool
  vr_Similarity :: rat
  vr_Transcript :: string

record HTTPVerifier =
  hv_baseURL :: string
  hv_sampleDurationSeconds :: int
  hv_minSimilarity :: float64
  hv_ffmpegPath :: string

text \<open>Sampling a file (the path of the sample), transcribing the sample, and removing it.\<close>

record 's SttEnv =
  stt_sample :: "HTTPVerifier \<Rightarrow> string \<Rightarrow> 's \<Rightarrow> string res \<times> 's"
  stt_transcribe :: "HTTPVerifier \<Rightarrow> string \<Rightarrow> 's \<Rightarrow> string res \<times> 's"
  stt_remove :: "string \<Rightarrow> 's \<Rightarrow> 's"

definition minSampleDurationSeconds :: int where "minSampleDurationSeconds = 30"
definition maxSampleDurationSeconds :: int where "maxSampleDurationSeconds = 60"

definition clampSampleDuration :: "int \<Rightarrow> int" where
  "clampSampleDuration d =
     (if d < minSampleDurationSeconds then minSampleDurationSeconds
      else if d > maxSampleDurationSeconds then maxSampleDurationSeconds
      else d)"

definition ffmpegSampleArgs :: "string \<Rightarrow> string \<Rightarrow> int \<Rightarrow> string list" where
  "ffmpegSampleArgs audioPath samplePath d =
     [''-nostdin'', ''-hide_banner'', ''-loglevel'', ''error'', ''-y'', ''-i'', audioPath, ''-t'', Itoa d,
      ''-vn'', ''-ac'', ''1'', ''-ar'', ''16000'', samplePath]"

definition TrimRightSlash :: "string \<Rightarrow> string" where
  "TrimRightSlash s = rev (dropWhile (\<lambda>c. c = CHR 0x2F) (rev s))"

definition transcriptionURL :: "HTTPVerifier \<Rightarrow> string" where
  "transcriptionURL v =
     (let baseURL = TrimRightSlash (hv_baseURL v)
      in if HasSuffix baseURL ''/v1/audio/transcriptions'' then baseURL
         else if HasSuffix baseURL ''/v1'' then baseURL @ ''/audio/transcriptions''
         else baseURL @ ''/v1/audio/transcriptions'')"

text \<open>\<open>parse\<close> is \<open>url.ParseRequestURI\<close>, \<open>look\<close> is \<open>exec.LookPath\<close>.\<close>

definition NewHTTPVerifier ::
  "(rat \<Rightarrow> rat) \<Rightarrow> (string \<Rightarrow> goerr option) \<Rightarrow> (string \<Rightarrow> string res) \<Rightarrow> string \<Rightarrow> int \<Rightarrow> float64 \<Rightarrow> string \<Rightarrow> HTTPVerifier res"
where
  "NewHTTPVerifier rnd parse look baseURL0 duration minSimilarity ffmpegPath0 =
     (let baseURL = TrimSpace baseURL0
      in if baseURL = '''' then Inl (New ''verification: whisper_url must not be empty'')
         else case parse baseURL of Some e \<Rightarrow> Inl (Errorf ''verification: invalid whisper_url: '' e '''')
         | None \<Rightarrow>
           (let minSim = (if f_le minSimilarity (Fin 0) \<or> f_lt (Fin 1) minSimilarity
                          then Fin (rnd (35 / 100)) else minSimilarity);
                trimmed = TrimSpace ffmpegPath0;
                ffmpegPath = (if trimmed = '''' then ''ffmpeg'' else trimmed)
            in case look ffmpegPath of
                 Inl e \<Rightarrow> Inl (Errorf (''verification: ffmpeg unavailable at '' @ Quoted ffmpegPath @ '': '') e '''')
               | Inr resolved \<Rightarrow>
                   Inr \<lparr>hv_baseURL = TrimRightSlash baseURL,
                        hv_sampleDurationSeconds = clampSampleDuration duration,
                        hv_minSimilarity = minSim, hv_ffmpegPath = resolved\<rparr>))"

definition Verify ::
  "(rat \<Rightarrow> rat) \<Rightarrow> unicode_env \<Rightarrow> 's SttEnv \<Rightarrow> HTTPVerifier \<Rightarrow> string \<Rightarrow> Song \<Rightarrow> 's \<Rightarrow> VerifyResult res \<times> 's"
where
  "Verify rnd u stt v audioPath song s =
     (if TrimSpace audioPath = '''' then (Inl (New ''verification: audio path is empty''), s)
      else let lyrics = SongText song
      in if lyrics = '''' then (Inl (New ''verification: lyrics text is empty''), s)
      else case stt_sample stt v audioPath s of
             (Inl e, s1) \<Rightarrow> (Inl e, s1)
           | (Inr samplePath, s1) \<Rightarrow>
             (case stt_transcribe stt v samplePath s1 of
                (Inl e, s2) \<Rightarrow> (Inl e, stt_remove stt samplePath s2)
              | (Inr transcript, s2) \<Rightarrow>
                  (let similarity = Similarity rnd u transcript lyrics
                   in (Inr \<lparr>vr_Accepted = f_le (hv_minSimilarity v) (Fin similarity),
                            vr_Similarity = similarity, vr_Transcript = transcript\<rparr>,
                       stt_remove stt samplePath s2))))"

section \<open>Facts\<close>

lemma clamp_range: "30 \<le> clampSampleDuration d \<and> clampSampleDuration d \<le> 60"
  by (simp add: clampSampleDuration_def minSampleDurationSeconds_def maxSampleDurationSeconds_def)

lemma filter_length_eq: "length (filter P xs) = length xs \<longleftrightarrow> (\<forall>x\<in>set xs. P x)"
  by (metis filter_True filter_id_conv length_filter_less less_irrefl)

text \<open>A ratio of counts up to 2^53 is rounded to zero or one only when it is zero or one.\<close>

lemma ratio_rounding:
  assumes r: "float_rounding rnd" and "m \<le> n" "0 < n" "n \<le> (2::nat) ^ 53"
  defines "q \<equiv> rnd (rnd (of_nat m) / rnd (of_nat n))"
  shows "0 \<le> q \<and> q \<le> 1 \<and> (q = 1 \<longleftrightarrow> m = n) \<and> (q = 0 \<longleftrightarrow> m = 0)"
proof -
  have int: "rnd (of_nat k) = of_nat k" if "k \<le> n" for k
    using rnd_int [OF r, of "int k"] that assms(4) by simp
  have N: "(of_nat n :: rat) \<le> 2 ^ 53" using assms(4) by (metis of_nat_le_iff of_nat_numeral of_nat_power)
  have n0: "(0::rat) < of_nat n" using assms(3) by simp
  have q: "q = rnd (of_nat m / of_nat n)" using int assms(2) by (simp add: q_def)
  have u: "0 \<le> q" "q \<le> 1"
    using assms(2) n0 by (auto simp: q intro!: rnd_nonneg [OF r] rnd_le_1 [OF r])
  have lt: "q < 1" if "m < n"
  proof -
    have "(of_nat m :: rat) + 1 \<le> of_nat n" using that by (metis Suc_eq_plus1 Suc_leI of_nat_1 of_nat_add of_nat_le_iff)
    then have "of_nat m / of_nat n \<le> 1 - 1 / (of_nat n :: rat)" using n0 by (simp add: field_simps)
    also have "\<dots> \<le> 1 - 1 / 2 ^ 53" using N n0 by (simp add: field_simps)
    finally have "q \<le> rnd (of_int (2 ^ 53 - 1) / 2 ^ 53)" unfolding q by (intro rnd_mono [OF r]) (simp add: field_simps)
    also have "\<dots> = of_int (2 ^ 53 - 1) / 2 ^ 53" by (rule rnd_dyadic [OF r]) simp_all
    also have "\<dots> < 1" by simp
    finally show ?thesis .
  qed
  have gt: "0 < q" if "0 < m"
  proof -
    have "1 / 2 ^ 53 \<le> 1 / (of_nat n :: rat)" using N n0 by (simp add: field_simps)
    also have "\<dots> \<le> of_nat m / of_nat n" using that n0 by (simp add: divide_right_mono)
    finally have "rnd (1 / 2 ^ 53) \<le> q" unfolding q by (rule rnd_mono [OF r])
    moreover have "rnd (1 / 2 ^ 53) = 1 / 2 ^ 53" by (rule rnd_pow [OF r]) simp
    ultimately show ?thesis by simp
  qed
  have "q = 1" if "m = n" using that n0 by (simp add: q rnd_small [OF r])
  moreover have "q = 0" if "m = 0" using that by (simp add: q rnd_small [OF r])
  ultimately show ?thesis using u lt gt assms(2) by (metis le_neq_implies_less less_irrefl neq0_conv)
qed

text \<open>
  Similarity measures which of the distinct transcript tokens occur in the lyrics: it lies between
  0 and 1, it is 1 exactly when there are tokens and all of them occur, and 0 exactly when none does,
  in floating point and not only in exact arithmetic.
\<close>
theorem Similarity_is_overlap:
  assumes "float_rounding rnd" and "length (tokenSet u transcript) \<le> 2 ^ 53"
  shows "0 \<le> Similarity rnd u transcript lyrics \<and> Similarity rnd u transcript lyrics \<le> 1 \<and>
    (Similarity rnd u transcript lyrics = 1 \<longleftrightarrow>
       tokenSet u transcript \<noteq> [] \<and> set (tokenSet u transcript) \<subseteq> set (tokenSet u lyrics)) \<and>
    (Similarity rnd u transcript lyrics = 0 \<longleftrightarrow>
       set (tokenSet u transcript) \<inter> set (tokenSet u lyrics) = {})"
proof (cases "tokenSet u transcript = [] \<or> tokenSet u lyrics = []")
  case True
  then show ?thesis by (auto simp: Similarity_def Let_def)
next
  case False
  let ?t = "tokenSet u transcript" and ?l = "tokenSet u lyrics"
  let ?m = "length (filter (\<lambda>t. t \<in> set ?l) ?t)"
  have s: "Similarity rnd u transcript lyrics = rnd (rnd (of_nat ?m) / rnd (of_nat (length ?t)))"
    using False by (simp add: Similarity_def Let_def)
  have "?m \<le> length ?t" "0 < length ?t" using False by simp_all
  from ratio_rounding [OF assms(1) this assms(2)] show ?thesis
    unfolding s using False by (auto simp: filter_length_eq filter_empty_conv)
qed

theorem Similarity_is_overlap_witness:
  "Similarity fixed53 ascii_env ''hey hey Jude'' ''Hey Jude, do not make it bad'' = 1 \<and>
   Similarity fixed53 ascii_env ''something else'' ''Hey Jude'' = 0"
proof -
  have t: "tokenSet ascii_env ''hey hey Jude'' = [''hey'', ''jude'']"
    "tokenSet ascii_env ''something else'' = [''something'', ''else'']"
    "tokenSet ascii_env ''Hey Jude, do not make it bad'' = [''hey'', ''jude'', ''do'', ''not'', ''make'', ''it'', ''bad'']"
    "tokenSet ascii_env ''Hey Jude'' = [''hey'', ''jude'']"
    by code_simp+
  have "length (tokenSet ascii_env ''hey hey Jude'') \<le> 2 ^ 53" "length (tokenSet ascii_env ''something else'') \<le> 2 ^ 53"
    by (simp_all add: t)
  from Similarity_is_overlap [OF float_rounding_fixed53 this(1), of "''Hey Jude, do not make it bad''"]
    Similarity_is_overlap [OF float_rounding_fixed53 this(2), of "''Hey Jude''"]
  show ?thesis unfolding t by simp
qed

end
