(* ===== verification/Providers.thy ===== *)
theory Providers
  imports Models
begin

text \<open>
  Package \<open>internal/providers\<close>: named wrappers around a lyrics fetcher, and the choice of the
  configured one among the candidates. A fetcher is a function on the state it works in. A candidate of
  the variadic parameter may be nil.
\<close>

type_synonym 's fetch_fn = "Track \<Rightarrow> 's \<Rightarrow> Song res \<times> 's"

definition Musixmatch :: string where "Musixmatch = ''musixmatch''"

record 's LyricsProvider =
  lp_name :: string
  lp_fetcher :: "'s fetch_fn"

definition NormalizeName :: "unicode_env \<Rightarrow> string \<Rightarrow> string" where
  "NormalizeName u name = ToLower u (TrimSpace name)"

definition NewProvider :: "unicode_env \<Rightarrow> string \<Rightarrow> 's fetch_fn \<Rightarrow> 's LyricsProvider" where
  "NewProvider u name fetcher = \<lparr>lp_name = NormalizeName u name, lp_fetcher = fetcher\<rparr>"

definition ProviderFindLyrics :: "'s LyricsProvider \<Rightarrow> 's fetch_fn" where
  "ProviderFindLyrics p = lp_fetcher p"

fun providerDisabled_loop :: "unicode_env \<Rightarrow> string \<Rightarrow> string list \<Rightarrow> bool" where
  "providerDisabled_loop u name [] = False"
| "providerDisabled_loop u name (v # vs) = (if NormalizeName u v = name then True else providerDisabled_loop u name vs)"

definition providerDisabled :: "unicode_env \<Rightarrow> string \<Rightarrow> string list \<Rightarrow> bool" where
  "providerDisabled u name disabled = providerDisabled_loop u (NormalizeName u name) disabled"

fun select_loop :: "unicode_env \<Rightarrow> string \<Rightarrow> 's LyricsProvider option list \<Rightarrow> 's LyricsProvider option" where
  "select_loop u primary [] = None"
| "select_loop u primary (None # cs) = select_loop u primary cs"
| "select_loop u primary (Some c # cs) =
     (if NormalizeName u (lp_name c) = primary then Some c else select_loop u primary cs)"

definition Select ::
  "unicode_env \<Rightarrow> string \<Rightarrow> string list \<Rightarrow> 's LyricsProvider option list \<Rightarrow> 's LyricsProvider res"
where
  "Select u primary0 disabled candidates =
     (let primary = NormalizeName u primary0;
          primary = (if primary = '''' then Musixmatch else primary)
      in if providerDisabled u primary disabled
         then Inl (New (''provider '' @ Quoted primary @ '' is disabled''))
         else case select_loop u primary candidates of
                Some c \<Rightarrow> Inr c
              | None \<Rightarrow> Inl (New (''unsupported lyrics provider '' @ Quoted primary)))"

section \<open>Facts\<close>

lemma NormalizeName_Musixmatch [simp]: "NormalizeName u Musixmatch = Musixmatch"
proof -
  have "TrimSpace ''musixmatch'' = ''musixmatch''"
    by (rule TrimSpace_id) (simp_all add: lead_space_def tail_space_def space_seqs_def)
  then show ?thesis
    by (simp add: NormalizeName_def Musixmatch_def ToLower_def is_ascii_def byte_def ascii_lower_def)
qed

lemma disabled_loop_iff: "providerDisabled_loop u n vs \<longleftrightarrow> (\<exists>v\<in>set vs. NormalizeName u v = n)"
  by (induction vs) auto

lemma select_loop_Some:
  "select_loop u p cs = Some c \<longleftrightarrow>
     (\<exists>i<length cs. cs ! i = Some c \<and> NormalizeName u (lp_name c) = p \<and>
        (\<forall>j<i. \<forall>c'. cs ! j = Some c' \<longrightarrow> NormalizeName u (lp_name c') \<noteq> p))"
proof (induction u p cs rule: select_loop.induct)
  case (2 u p cs)
  show ?case
    unfolding select_loop.simps 2 by (subst (2) Ex_less_Suc2 | simp add: Ex_less_Suc2 All_less_Suc2)+
next
  case (3 u p c' cs)
  show ?case
  proof (cases "NormalizeName u (lp_name c') = p")
    case True
    then show ?thesis by (auto simp: Ex_less_Suc2 All_less_Suc2)
  next
    case False
    with 3 show ?thesis by (simp add: Ex_less_Suc2 All_less_Suc2) metis
  qed
qed simp

end
