(* ===== verification/Worker.thy ===== *)
theory Worker
  imports Work_Queue Verification Providers
begin

text \<open>
  The queue worker of \<open>internal/worker/worker.go\<close>: its dependencies as functions on the state they
  share, the circuit breaker and the failure counter as fields of the worker, and every branch of
  \<open>RunOnce\<close> in the order of the code. \<open>ctxErr\<close> is what \<open>ctx.Err()\<close> returns in a state.
\<close>

section \<open>Dependencies and state\<close>

record 's QueueIf =
  qi_Dequeue :: "'s \<Rightarrow> WorkItem res \<times> 's"
  qi_Complete :: "int \<Rightarrow> 's \<Rightarrow> unit res \<times> 's"
  qi_Fail :: "int \<Rightarrow> goerr \<Rightarrow> 's \<Rightarrow> WorkItem res \<times> 's"
  qi_Release :: "int \<Rightarrow> 's \<Rightarrow> unit res \<times> 's"

record 's CacheIf =
  ca_LookupExact :: "string \<Rightarrow> string \<Rightarrow> string \<Rightarrow> 's \<Rightarrow> string res \<times> 's"
  ca_LookupFallback :: "string \<Rightarrow> string \<Rightarrow> 's \<Rightarrow> string res \<times> 's"
  ca_Store :: "string \<Rightarrow> string \<Rightarrow> string \<Rightarrow> string \<Rightarrow> 's \<Rightarrow> unit res \<times> 's"

type_synonym 's write_fn = "Song \<Rightarrow> string \<Rightarrow> string \<Rightarrow> 's \<Rightarrow> unit res \<times> 's"
type_synonym 's verify_fn = "string \<Rightarrow> Song \<Rightarrow> 's \<Rightarrow> VerifyResult res \<times> 's"

text \<open>The zero time of \<open>circuitOpenUntil\<close> is \<open>None\<close>.\<close>

record 's Worker =
  wk_queue :: "'s QueueIf"
  wk_cache :: "'s CacheIf"
  wk_fetcher :: "'s fetch_fn"
  wk_writer :: "'s write_fn"
  wk_verifier :: "'s verify_fn option"
  wk_verifyBelowConfidence :: float64
  wk_consecutiveFailures :: int
  wk_baseBackoff :: int
  wk_maxBackoff :: int
  wk_sleep :: "int \<Rightarrow> 's \<Rightarrow> 's"
  wk_now :: "'s \<Rightarrow> int"
  wk_circuitOpenDuration :: int
  wk_circuitOpenUntil :: "int option"

definition defaultCircuitOpenDuration :: int where
  "defaultCircuitOpenDuration = 30 * Minute"

text \<open>The clock and \<open>sleepCtx\<close> are the last two parameters.\<close>

definition NewWorker ::
  "(rat \<Rightarrow> rat) \<Rightarrow> 's QueueIf \<Rightarrow> 's CacheIf \<Rightarrow> 's fetch_fn \<Rightarrow> 's write_fn \<Rightarrow> ('s \<Rightarrow> int) \<Rightarrow> (int \<Rightarrow> 's \<Rightarrow> 's) \<Rightarrow> 's Worker"
where
  "NewWorker rnd q c fetcher writer now sleep =
     \<lparr>wk_queue = q, wk_cache = c, wk_fetcher = fetcher, wk_writer = writer, wk_verifier = None,
      wk_verifyBelowConfidence = Fin (rnd (85 / 100)), wk_consecutiveFailures = 0,
      wk_baseBackoff = DefaultBase, wk_maxBackoff = DefaultMax, wk_sleep = sleep, wk_now = now,
      wk_circuitOpenDuration = defaultCircuitOpenDuration, wk_circuitOpenUntil = None\<rparr>"

definition SetCircuitOpenDuration :: "int \<Rightarrow> 's Worker \<Rightarrow> 's Worker" where
  "SetCircuitOpenDuration d w = (if d > 0 then w\<lparr>wk_circuitOpenDuration := d\<rparr> else w)"

definition EnableVerification :: "'s verify_fn \<Rightarrow> float64 \<Rightarrow> 's Worker \<Rightarrow> 's Worker" where
  "EnableVerification verifier belowConfidence w =
     (let w = w\<lparr>wk_verifier := Some verifier\<rparr>
      in if f_lt (Fin 0) belowConfidence \<and> f_le belowConfidence (Fin 1)
         then w\<lparr>wk_verifyBelowConfidence := belowConfidence\<rparr> else w)"

section \<open>Songs as text\<close>

text \<open>
  \<open>json.Marshal\<close> and \<open>json.Unmarshal\<close> at the type \<open>models.Song\<close>, a parameter: \<open>sj_unmarshal\<close> is \<open>None\<close>
  when the text is not the JSON of a song.
\<close>

record song_codec =
  sj_marshal :: "Song \<Rightarrow> string res"
  sj_unmarshal :: "string \<Rightarrow> Song option"

definition encodeSong :: "song_codec \<Rightarrow> Song \<Rightarrow> string res" where
  "encodeSong j song =
     (case sj_marshal j song of
        Inl e \<Rightarrow> Inl (Errorf ''worker: encode song cache: '' e '''')
      | Inr b \<Rightarrow> Inr b)"

definition decodeSong :: "song_codec \<Rightarrow> string \<Rightarrow> Track \<Rightarrow> Song" where
  "decodeSong j s fallback =
     (let plain = zero_Song\<lparr>so_Track := fallback, so_LyricsBody := s\<rparr>
      in case sj_unmarshal j s of
           None \<Rightarrow> plain
         | Some song \<Rightarrow>
             (if tr_ArtistName (so_Track song) \<noteq> '''' \<or> tr_TrackName (so_Track song) \<noteq> ''''
              then song else plain))"

definition outputPaths :: "Inputs \<Rightarrow> OutputPath list" where
  "outputPaths inputs =
     (if length (in_OutputPaths inputs) > 0 then in_OutputPaths inputs
      else [\<lparr>op_Outdir = in_Outdir inputs, op_Filename = in_Filename inputs\<rparr>])"

definition Confidence :: "(rat \<Rightarrow> rat) \<Rightarrow> unicode_env \<Rightarrow> Track \<Rightarrow> Track \<Rightarrow> rat option" where
  "Confidence rnd u want got =
     (case MatchConfidence rnd u (tr_ArtistName want) (tr_ArtistName got) of None \<Rightarrow> None
      | Some artistScore \<Rightarrow>
        (case MatchConfidence rnd u (tr_TrackName want) (tr_TrackName got) of None \<Rightarrow> None
         | Some titleScore \<Rightarrow> Some (rnd (rnd (artistScore + titleScore) / 2))))"

section \<open>The steps of a round\<close>

text \<open>The song of a track and whether the cache had it.\<close>

definition song :: "song_codec \<Rightarrow> 's Worker \<Rightarrow> Track \<Rightarrow> 's \<Rightarrow> (Song \<times> bool) res \<times> 's" where
  "song j w track s =
     (case ca_LookupExact (wk_cache w) (tr_ArtistName track) (tr_TrackName track) (tr_AlbumName track) s of
        (Inr cached, s1) \<Rightarrow> (Inr (decodeSong j cached track, True), s1)
      | (Inl e, s1) \<Rightarrow>
        (if \<not> errors_Is e SqlErrNoRows then (Inl (Errorf ''worker: lookup exact cache: '' e ''''), s1)
         else case ca_LookupFallback (wk_cache w) (tr_ArtistName track) (tr_TrackName track) s1 of
           (Inr cached, s2) \<Rightarrow> (Inr (decodeSong j cached track, True), s2)
         | (Inl e, s2) \<Rightarrow>
           (if \<not> errors_Is e SqlErrNoRows then (Inl (Errorf ''worker: lookup fallback cache: '' e ''''), s2)
            else case wk_fetcher w track s2 of
              (Inl e, s3) \<Rightarrow> (Inl (Errorf ''worker: find lyrics: '' e ''''), s3)
            | (Inr found, s3) \<Rightarrow> (Inr (found, False), s3))))"

text \<open>The text of \<open>%.3f\<close>.\<close>

definition fmt_3f :: "rat \<Rightarrow> string" where
  "fmt_3f x =
     (let n = thousandths \<bar>x\<bar>; f = n mod 1000;
          frac = (if f < 10 then ''00'' else if f < 100 then ''0'' else '''') @ Itoa f
      in (if x < 0 then ''-'' else '''') @ Itoa (n div 1000) @ ''.'' @ frac)"

definition verify :: "'s Worker \<Rightarrow> WorkItem \<Rightarrow> Song \<Rightarrow> rat \<Rightarrow> 's \<Rightarrow> unit res \<times> 's" where
  "verify w item sg confidence s =
     (case wk_verifier w of None \<Rightarrow> (Inr (), s)
      | Some verifier \<Rightarrow>
        (if in_SourcePath (wi_Inputs item) = '''' \<or> f_le (wk_verifyBelowConfidence w) (Fin confidence)
         then (Inr (), s)
         else case verifier (in_SourcePath (wi_Inputs item)) sg s of
           (Inl e, s1) \<Rightarrow> (Inl (Errorf ''worker: verify lyrics: '' e ''''), s1)
         | (Inr r, s1) \<Rightarrow>
             (if \<not> vr_Accepted r
              then (Inl (New (''worker: verification rejected lyrics: similarity '' @ fmt_3f (vr_Similarity r))), s1)
              else (Inr (), s1))))"

definition store :: "song_codec \<Rightarrow> 's Worker \<Rightarrow> Track \<Rightarrow> Song \<Rightarrow> 's \<Rightarrow> unit res \<times> 's" where
  "store j w track sg s =
     (case encodeSong j sg of Inl e \<Rightarrow> (Inl e, s)
      | Inr encoded \<Rightarrow>
        (case ca_Store (wk_cache w) (tr_ArtistName track) (tr_TrackName track) (tr_AlbumName track) encoded s of
           (Inl e, s1) \<Rightarrow> (Inl (Errorf ''worker: store cache: '' e ''''), s1)
         | (Inr _, s1) \<Rightarrow> (Inr (), s1)))"

text \<open>\<open>None\<close>: not a rate-limit signal. \<open>Some r\<close>: tripped, with the outcome \<open>r\<close> of the release.\<close>

definition tripCircuitIfRateLimited ::
  "'s Worker \<Rightarrow> WorkItem \<Rightarrow> goerr \<Rightarrow> 's \<Rightarrow> unit res option \<times> 's Worker \<times> 's"
where
  "tripCircuitIfRateLimited w item err s =
     (if \<not> errors_Is err ErrRateLimited \<and> \<not> errors_Is err ErrUnauthorized then (None, w, s)
      else let w1 = w\<lparr>wk_circuitOpenUntil := Some (wk_now w s + wk_circuitOpenDuration w)\<rparr>
      in case qi_Release (wk_queue w) (wi_ID item) s of
           (Inl e, s1) \<Rightarrow>
             (Some (Inl (Errorf (''worker: release item '' @ Itoa (wi_ID item) @ '' after circuit open: '') e '''')), w1, s1)
         | (Inr _, s1) \<Rightarrow> (Some (Inr ()), w1, s1))"

definition fail_item :: "'s Worker \<Rightarrow> WorkItem \<Rightarrow> goerr \<Rightarrow> 's \<Rightarrow> unit res \<times> 's Worker \<times> 's" where
  "fail_item w item cause s =
     (let w1 = w\<lparr>wk_consecutiveFailures := wk_consecutiveFailures w + 1\<rparr>
      in case qi_Fail (wk_queue w) (wi_ID item) cause s of
           (Inl e, s1) \<Rightarrow>
             (Inl (Errorf (''worker: fail item '' @ Itoa (wi_ID item) @ '' after '' @ Error cause @ '': '') e ''''), w1, s1)
         | (Inr _, s1) \<Rightarrow> (Inr (), w1, s1))"

fun write_outputs :: "'s write_fn \<Rightarrow> WorkItem \<Rightarrow> Song \<Rightarrow> OutputPath list \<Rightarrow> 's \<Rightarrow> unit res \<times> 's" where
  "write_outputs writer item sg [] s = (Inr (), s)"
| "write_outputs writer item sg (p # ps) s =
     (case writer sg (op_Filename p) (op_Outdir p) s of
        (Inl e, s1) \<Rightarrow>
          (Inl (Errorf (''worker: write item '' @ Itoa (wi_ID item) @ '' output '' @ op_Outdir p @ ''/'' @
                        op_Filename p @ '': '') e ''''), s1)
      | (Inr _, s1) \<Rightarrow> write_outputs writer item sg ps s1)"

text \<open>The end of a round: Complete, or count and record its failure.\<close>

definition complete_item :: "'s Worker \<Rightarrow> WorkItem \<Rightarrow> 's \<Rightarrow> unit res \<times> 's Worker \<times> 's" where
  "complete_item w item s =
     (let i = Itoa (wi_ID item) in
      case qi_Complete (wk_queue w) (wi_ID item) s of
        (Inr _, s1) \<Rightarrow> (Inr (), w\<lparr>wk_consecutiveFailures := 0\<rparr>, s1)
      | (Inl e, s1) \<Rightarrow>
        (let cause = Errorf (''worker: complete item '' @ i @ '': '') e '''';
             w1 = w\<lparr>wk_consecutiveFailures := wk_consecutiveFailures w + 1\<rparr>
         in case qi_Fail (wk_queue w) (wi_ID item) cause s1 of
              (Inl e2, s2) \<Rightarrow>
                (Inl (Errorf (''worker: complete item '' @ i @ '' and mark failed: '') (Join cause e2) ''''), w1, s2)
            | (Inr _, s2) \<Rightarrow>
                (Inl (Errorf (''worker: complete item '' @ i @ '' (marked failed): '') cause ''''), w1, s2)))"

text \<open>
  What happens to a claimed item. The run-time panic of \<open>Confidence\<close> would end the process; it is
  written as an error of its own and cannot happen (\<open>jaroWinkler_total\<close>).
\<close>

definition index_panic :: goerr where
  "index_panic = New ''runtime error: index out of range''"

definition process_item ::
  "(rat \<Rightarrow> rat) \<Rightarrow> unicode_env \<Rightarrow> song_codec \<Rightarrow> 's Worker \<Rightarrow> WorkItem \<Rightarrow> 's \<Rightarrow> unit res \<times> 's Worker \<times> 's"
where
  "process_item rnd u j w item s =
     (let track = in_Track (wi_Inputs item) in
      case song j w track s of
        (Inl e, s1) \<Rightarrow>
          (case tripCircuitIfRateLimited w item e s1 of
             (Some (Inl re), w2, s2) \<Rightarrow> (Inl re, w2, s2)
           | (Some (Inr _), w2, s2) \<Rightarrow> (Inl (Sen ErrQueueEmpty), w2, s2)
           | (None, w2, s2) \<Rightarrow> fail_item w2 item e s2)
      | (Inr (sg, cacheHit), s1) \<Rightarrow>
        (case Confidence rnd u track (so_Track sg) of
           None \<Rightarrow> (Inl index_panic, w, s1)
         | Some confidence \<Rightarrow>
           (let (r2, s2) = (if cacheHit then (Inr (), s1) else verify w item sg confidence s1) in
            case r2 of Inl e \<Rightarrow> fail_item w item e s2 | Inr _ \<Rightarrow>
           (let (r3, s3) = (if cacheHit then (Inr (), s2) else store j w track sg s2) in
            case r3 of Inl e \<Rightarrow> fail_item w item e s3 | Inr _ \<Rightarrow>
           (case write_outputs (wk_writer w) item sg (outputPaths (wi_Inputs item)) s3 of
              (Inl e, s4) \<Rightarrow> fail_item w item e s4
            | (Inr _, s4) \<Rightarrow> complete_item w item s4)))))"

definition RunOnce ::
  "(rat \<Rightarrow> rat) \<Rightarrow> unicode_env \<Rightarrow> song_codec \<Rightarrow> ('s \<Rightarrow> goerr option) \<Rightarrow> 's Worker \<Rightarrow> 's \<Rightarrow> unit res \<times> 's Worker \<times> 's"
where
  "RunOnce rnd u j ctxErr w s =
     (case ctxErr s of Some e \<Rightarrow> (Inl e, w, s)
      | None \<Rightarrow>
        (if (case wk_circuitOpenUntil w of None \<Rightarrow> False | Some t \<Rightarrow> wk_now w s < t)
         then (Inl (Sen ErrQueueEmpty), w, s)
         else let w1 = w\<lparr>wk_circuitOpenUntil := None\<rparr>
         in case qi_Dequeue (wk_queue w1) s of
              (Inl e, s1) \<Rightarrow>
                (if errors_Is e SqlErrNoRows then (Inl (Sen ErrQueueEmpty), w1, s1)
                 else (Inl (Errorf ''worker: dequeue: '' e ''''), w1, s1))
            | (Inr item, s1) \<Rightarrow> process_item rnd u j w1 item s1))"

section \<open>The loop\<close>

text \<open>\<open>errors.Is\<close> against one of the two context errors.\<close>

definition is_ctx_error :: "goerr \<Rightarrow> bool" where
  "is_ctx_error e \<longleftrightarrow> errors_Is e CtxCanceled \<or> errors_Is e CtxDeadlineExceeded"

text \<open>One turn of the loop: \<open>Inl\<close> the value to return, \<open>Inr\<close> the worker and state to go on with.\<close>

definition run_turn ::
  "(rat \<Rightarrow> rat) \<Rightarrow> unicode_env \<Rightarrow> song_codec \<Rightarrow> ('s \<Rightarrow> goerr option) \<Rightarrow> ('s \<Rightarrow> unit res \<times> 's) option \<Rightarrow>
   's Worker \<Rightarrow> 's \<Rightarrow> (unit res \<times> 's Worker \<times> 's) + ('s Worker \<times> 's)"
where
  "run_turn rnd u j ctxErr pause w s =
     (let delay = Geometric (wk_consecutiveFailures w) (wk_baseBackoff w) (wk_maxBackoff w);
          s0 = (if wk_consecutiveFailures w > 0 then wk_sleep w delay s else s)
      in if wk_consecutiveFailures w > 0 \<and> ctxErr s0 \<noteq> None then Inl (Inr (), w, s0)
         else case RunOnce rnd u j ctxErr w s0 of
           (Inl e, w1, s1) \<Rightarrow>
             (if errors_Is e ErrQueueEmpty then Inl (Inr (), w1, s1)
              else if ctxErr s1 \<noteq> None \<and> is_ctx_error e then Inl (Inr (), w1, s1)
              else Inl (Inl e, w1, s1))
         | (Inr _, w1, s1) \<Rightarrow>
             (if ctxErr s1 \<noteq> None then Inl (Inr (), w1, s1)
              else if wk_consecutiveFailures w1 > 0 then Inr (w1, s1)
              else case pause of None \<Rightarrow> Inr (w1, s1)
                   | Some p \<Rightarrow>
                     (case p s1 of
                        (Inl e, s2) \<Rightarrow> (if is_ctx_error e then Inl (Inr (), w1, s2) else Inl (Inl e, w1, s2))
                      | (Inr _, s2) \<Rightarrow> Inr (w1, s2))))"

text \<open>\<open>None\<close>: the loop does not return.\<close>

partial_function (option) run_loop ::
  "(rat \<Rightarrow> rat) \<Rightarrow> unicode_env \<Rightarrow> song_codec \<Rightarrow> ('s \<Rightarrow> goerr option) \<Rightarrow> ('s \<Rightarrow> unit res \<times> 's) option \<Rightarrow>
   's Worker \<Rightarrow> 's \<Rightarrow> (unit res \<times> 's Worker \<times> 's) option"
where
  [code]: "run_loop rnd u j ctxErr pause w s =
     (case run_turn rnd u j ctxErr pause w s of
        Inl r \<Rightarrow> Some r
      | Inr (w1, s1) \<Rightarrow> run_loop rnd u j ctxErr pause w1 s1)"

definition RunWorker ::
  "(rat \<Rightarrow> rat) \<Rightarrow> unicode_env \<Rightarrow> song_codec \<Rightarrow> ('s \<Rightarrow> goerr option) \<Rightarrow> 's Worker \<Rightarrow> 's \<Rightarrow> (unit res \<times> 's Worker \<times> 's) option"
where
  "RunWorker rnd u j ctxErr = run_loop rnd u j ctxErr None"

text \<open>
  \<open>wait\<close> is the timer of the interval: it returns the error of the context if that ended first.
\<close>

definition RunPaced ::
  "(rat \<Rightarrow> rat) \<Rightarrow> unicode_env \<Rightarrow> song_codec \<Rightarrow> ('s \<Rightarrow> goerr option) \<Rightarrow> (int \<Rightarrow> 's \<Rightarrow> unit res \<times> 's) \<Rightarrow> int \<Rightarrow>
   's Worker \<Rightarrow> 's \<Rightarrow> (unit res \<times> 's Worker \<times> 's) option"
where
  "RunPaced rnd u j ctxErr wait interval =
     run_loop rnd u j ctxErr (Some (\<lambda>s. if interval \<le> 0 then (Inr (), s) else wait interval s))"

end
