(* ===== verification/Worker_Contract.thy ===== *)
theory Worker_Contract
  imports Worker
begin

text \<open>
  The contract of the worker, over the laws of the interfaces it calls: first what every call keeps is kept
  by a round; then what one round does to the rows of the queue, and what has been published when a row
  becomes done.
\<close>

section \<open>What every call keeps\<close>

text \<open>
  The dependencies are those of \<open>w0\<close>; \<open>inv\<close> is kept by every call of one of them. Nothing is asked of what
  else happens to the state at a call, so the calls may also be those of a worker that does not run alone.
\<close>

locale worker_calls =
  fixes w0 :: "'s Worker"
    and inv :: "'s \<Rightarrow> bool"
  assumes deq_inv: "inv s \<Longrightarrow> qi_Dequeue (wk_queue w0) s = (x1, s') \<Longrightarrow> inv s'"
    and complete_inv: "inv s \<Longrightarrow> qi_Complete (wk_queue w0) i s = (xs, s') \<Longrightarrow> inv s'"
    and fail_inv: "inv s \<Longrightarrow> qi_Fail (wk_queue w0) i c s = (x1, s') \<Longrightarrow> inv s'"
    and release_inv: "inv s \<Longrightarrow> qi_Release (wk_queue w0) i s = (xs, s') \<Longrightarrow> inv s'"
    and exact_inv: "inv s \<Longrightarrow> ca_LookupExact (wk_cache w0) a t al s = (r, s') \<Longrightarrow> inv s'"
    and fallback_inv: "inv s \<Longrightarrow> ca_LookupFallback (wk_cache w0) a t s = (r, s') \<Longrightarrow> inv s'"
    and store_inv: "inv s \<Longrightarrow> ca_Store (wk_cache w0) a t al l s = (xs, s') \<Longrightarrow> inv s'"
    and fetch_inv: "inv s \<Longrightarrow> wk_fetcher w0 tr s = (f, s') \<Longrightarrow> inv s'"
    and verify_inv: "inv s \<Longrightarrow> wk_verifier w0 = Some v \<Longrightarrow> v p sg s = (vr, s') \<Longrightarrow> inv s'"
    and write_inv: "inv s \<Longrightarrow> wk_writer w0 sg fn dir s = (xs, s') \<Longrightarrow> inv s'"
begin

text \<open>The worker's dependencies never change; its counters do.\<close>

definition same_deps :: "'s Worker \<Rightarrow> bool" where
  "same_deps w \<longleftrightarrow> wk_queue w = wk_queue w0 \<and> wk_cache w = wk_cache w0 \<and> wk_fetcher w = wk_fetcher w0 \<and>
     wk_writer w = wk_writer w0 \<and> wk_verifier w = wk_verifier w0"

lemma same_deps_counters [simp]:
  "same_deps (w\<lparr>wk_consecutiveFailures := n\<rparr>) = same_deps w" "same_deps (w\<lparr>wk_circuitOpenUntil := t\<rparr>) = same_deps w"
  by (simp_all add: same_deps_def)

lemma song_inv: "same_deps w \<Longrightarrow> inv s \<Longrightarrow> song j w track s = (r, s') \<Longrightarrow> inv s'"
  by (auto simp: song_def same_deps_def split: prod.splits sum.splits if_splits
      dest!: exact_inv [rotated] fallback_inv [rotated] fetch_inv [rotated])

lemma verify_item_inv: "same_deps w \<Longrightarrow> inv s \<Longrightarrow> verify w item sg c s = (r, s') \<Longrightarrow> inv s'"
  by (auto simp: verify_def same_deps_def split: prod.splits sum.splits if_splits option.splits
      dest!: verify_inv [rotated 2])

lemma store_song_inv: "same_deps w \<Longrightarrow> inv s \<Longrightarrow> store j w tr sg s = (r, s') \<Longrightarrow> inv s'"
  by (auto simp: store_def same_deps_def split: prod.splits sum.splits dest!: store_inv [rotated])

lemma write_outputs_inv: "inv s \<Longrightarrow> write_outputs (wk_writer w0) item sg ps s = (r, s') \<Longrightarrow> inv s'"
proof (induction ps arbitrary: s)
  case (Cons p ps)
  obtain x s1 where w: "wk_writer w0 sg (op_Filename p) (op_Outdir p) s = (x, s1)" by fastforce
  from write_inv [OF Cons.prems(1) this] Cons.prems(2) Cons.IH [of s1] w show ?case
    by (cases x) auto
qed simp

lemma fail_item_inv: "same_deps w \<Longrightarrow> inv s \<Longrightarrow> fail_item w item e s = (r, w', s') \<Longrightarrow> inv s' \<and> same_deps w'"
  by (auto simp: fail_item_def Let_def same_deps_def split: prod.splits sum.splits dest!: fail_inv [rotated])

lemma complete_item_inv: "same_deps w \<Longrightarrow> inv s \<Longrightarrow> complete_item w item s = (r, w', s') \<Longrightarrow> inv s' \<and> same_deps w'"
  by (auto simp: complete_item_def Let_def same_deps_def split: prod.splits sum.splits
      dest!: complete_inv [rotated] fail_inv [rotated])

lemma trip_inv:
  "same_deps w \<Longrightarrow> inv s \<Longrightarrow> tripCircuitIfRateLimited w item e s = (x, w', s') \<Longrightarrow> inv s' \<and> same_deps w'"
  by (auto simp: tripCircuitIfRateLimited_def Let_def same_deps_def split: prod.splits sum.splits if_splits
      dest!: release_inv [rotated])

lemma process_inv:
  assumes d: "same_deps w" and i: "inv s" and p: "process_item rnd u j w item s = (r, w', s')"
  shows "inv s' \<and> same_deps w'"
proof -
  have wd: "wk_writer w = wk_writer w0" using d by (simp add: same_deps_def)
  obtain rs s1 where so: "song j w (in_Track (wi_Inputs item)) s = (rs, s1)" by fastforce
  note s1 = song_inv [OF d i so]
  show ?thesis
  proof (cases rs)
    case (Inl e)
    obtain x w2 s2 where t: "tripCircuitIfRateLimited w item e s1 = (x, w2, s2)" by (metis prod_cases3)
    from trip_inv [OF d s1 t] p so Inl t show ?thesis
      by (auto simp: process_item_def Let_def split: option.splits sum.splits dest: fail_item_inv)
  next
    case (Inr sh)
    obtain sg hit where sh: "sh = (sg, hit)" by fastforce
    note p2 = p [unfolded process_item_def Let_def so prod.case Inr sh sum.case]
    show ?thesis
    proof (cases "Confidence rnd u (in_Track (wi_Inputs item)) (so_Track sg)")
      case None
      with p2 s1 d show ?thesis by simp
    next
      case (Some c)
      obtain r2 s2 where v: "(if hit then (Inr (), s1) else verify w item sg c s1) = (r2, s2)" by fastforce
      have s2: "inv s2" using v s1 verify_item_inv [OF d s1] by (auto split: if_splits)
      obtain r3 s3 where st: "(if hit then (Inr (), s2) else store j w (in_Track (wi_Inputs item)) sg s2) = (r3, s3)" by fastforce
      have s3: "inv s3" using st s2 store_song_inv [OF d s2] by (auto split: if_splits)
      obtain r4 s4 where wr: "write_outputs (wk_writer w0) item sg (outputPaths (wi_Inputs item)) s3 = (r4, s4)" by fastforce
      note s4 = write_outputs_inv [OF s3 wr]
      from p2 show ?thesis
        unfolding Some option.case v prod.case st wd wr
        by (cases r2; cases r3; cases r4) (auto dest: fail_item_inv [OF d s2] fail_item_inv [OF d s3] fail_item_inv [OF d s4]
            complete_item_inv [OF d s4])
    qed
  qed
qed

lemma RunOnce_inv:
  assumes d: "same_deps w" and i: "inv s" and run: "RunOnce rnd u j ctxErr w s = (r, w', s')"
  shows "inv s' \<and> same_deps w'"
proof -
  have "same_deps (w\<lparr>wk_circuitOpenUntil := None\<rparr>)" using d by simp
  note process = process_inv [OF this]
  have "qi_Dequeue (wk_queue w) s = (x, s1) \<Longrightarrow> inv s1" for x s1
    using deq_inv [OF i] d by (simp add: same_deps_def)
  with run i d process show ?thesis
    by (auto simp: RunOnce_def Let_def split: option.splits prod.splits sum.splits if_splits)
qed

end

section \<open>The laws of the queue and the writer\<close>

text \<open>
  \<open>row\<close> shows the rows of the queue and \<open>st\<close> the status of a row, \<open>pub\<close> whether a song stands at an output.
  Dequeue moves a retryable row to processing; Complete, Fail and Release move a processing row on or,
  failing, leave every row alone, except that a failing Release may have done its work; the cache, the
  fetcher, the writer and the verifier leave the queue alone.
\<close>

locale worker_env = worker_calls w0 inv for w0 :: "'s Worker" and inv :: "'s \<Rightarrow> bool" +
  fixes row :: "'s \<Rightarrow> int \<Rightarrow> 'r option"
    and st :: "'r \<Rightarrow> status"
    and pub :: "'s \<Rightarrow> Song \<Rightarrow> string \<Rightarrow> string \<Rightarrow> bool"
  assumes deq_ok: "inv s \<Longrightarrow> qi_Dequeue (wk_queue w0) s = (Inr item, s') \<Longrightarrow>
      (\<exists>x y. row s (wi_ID item) = Some x \<and> (st x = Pending \<or> st x = Failed) \<and> row s' = (row s)(wi_ID item \<mapsto> y) \<and> st y = Processing)"
    and deq_err: "inv s \<Longrightarrow> qi_Dequeue (wk_queue w0) s = (Inl e, s') \<Longrightarrow> row s' = row s"
    and complete_ok: "inv s \<Longrightarrow> qi_Complete (wk_queue w0) i s = (Inr x, s') \<Longrightarrow>
      (\<exists>y. row s' = (row s)(i \<mapsto> y) \<and> st y = Done) \<and> pub s' = pub s"
    and complete_err: "inv s \<Longrightarrow> qi_Complete (wk_queue w0) i s = (Inl e, s') \<Longrightarrow> row s' = row s"
    and fail_ok: "inv s \<Longrightarrow> qi_Fail (wk_queue w0) i c s = (Inr it, s') \<Longrightarrow> \<exists>y. row s' = (row s)(i \<mapsto> y) \<and> st y = Failed"
    and fail_err: "inv s \<Longrightarrow> qi_Fail (wk_queue w0) i c s = (Inl e, s') \<Longrightarrow> row s' = row s"
    and release_ok: "inv s \<Longrightarrow> qi_Release (wk_queue w0) i s = (Inr x, s') \<Longrightarrow> \<exists>y. row s' = (row s)(i \<mapsto> y) \<and> st y = Pending"
    and release_err: "inv s \<Longrightarrow> qi_Release (wk_queue w0) i s = (Inl e, s') \<Longrightarrow>
      row s' = row s \<or> (\<exists>y. row s' = (row s)(i \<mapsto> y) \<and> st y = Pending)"
    and exact_frame: "inv s \<Longrightarrow> ca_LookupExact (wk_cache w0) a t al s = (r, s') \<Longrightarrow> row s' = row s"
    and fallback_frame: "inv s \<Longrightarrow> ca_LookupFallback (wk_cache w0) a t s = (r, s') \<Longrightarrow> row s' = row s"
    and store_frame: "inv s \<Longrightarrow> ca_Store (wk_cache w0) a t al l s = (xs, s') \<Longrightarrow> row s' = row s"
    and fetch_frame: "inv s \<Longrightarrow> wk_fetcher w0 tr s = (f, s') \<Longrightarrow> row s' = row s"
    and verify_frame: "inv s \<Longrightarrow> wk_verifier w0 = Some v \<Longrightarrow> v p sg s = (vr, s') \<Longrightarrow> row s' = row s"
    and write_frame: "inv s \<Longrightarrow> wk_writer w0 sg fn dir s = (xs, s') \<Longrightarrow> row s' = row s"
    and write_pub: "inv s \<Longrightarrow> wk_writer w0 sg fn dir s = (Inr y, s') \<Longrightarrow> pub s' sg fn dir"
begin

text \<open>Of the rows only that of \<open>i\<close> may differ; it has the status \<open>x\<close>.\<close>

definition moved :: "'s \<Rightarrow> 's \<Rightarrow> int \<Rightarrow> status \<Rightarrow> bool" where
  "moved s s' i x \<longleftrightarrow> (\<exists>y. row s' = (row s)(i \<mapsto> y) \<and> st y = x)"

lemma moved_on: "moved s s1 i x \<Longrightarrow> moved s1 s2 i y \<Longrightarrow> moved s s2 i y"
  unfolding moved_def by (metis fun_upd_upd)

lemma moved_same: "moved s s1 i x \<Longrightarrow> row s2 = row s1 \<Longrightarrow> moved s s2 i x"
  by (simp add: moved_def)

lemma lookup_frames:
  "inv s \<Longrightarrow> ca_LookupExact (wk_cache w0) a t al s = (r, s') \<Longrightarrow> inv s' \<and> row s' = row s"
  "inv s \<Longrightarrow> ca_LookupFallback (wk_cache w0) a t s = (r, s') \<Longrightarrow> inv s' \<and> row s' = row s"
  by (auto dest: exact_inv exact_frame fallback_inv fallback_frame)

lemma song_frame: "same_deps w \<Longrightarrow> inv s \<Longrightarrow> song j w track s = (r, s') \<Longrightarrow> row s' = row s"
  by (auto simp: song_def same_deps_def split: prod.splits sum.splits if_splits
      dest!: lookup_frames [rotated] fetch_frame [rotated])

lemma verify_item_frame: "same_deps w \<Longrightarrow> inv s \<Longrightarrow> verify w item sg c s = (r, s') \<Longrightarrow> row s' = row s"
  by (auto simp: verify_def same_deps_def split: prod.splits sum.splits if_splits option.splits
      dest!: verify_frame [rotated 2])

lemma store_song_frame: "same_deps w \<Longrightarrow> inv s \<Longrightarrow> store j w tr sg s = (r, s') \<Longrightarrow> row s' = row s"
  by (auto simp: store_def same_deps_def split: prod.splits sum.splits dest!: store_frame [rotated])

lemma write_outputs_frame:
  "inv s \<Longrightarrow> write_outputs (wk_writer w0) item sg ps s = (r, s') \<Longrightarrow> row s' = row s"
proof (induction ps arbitrary: s)
  case (Cons p ps)
  obtain x s1 where w: "wk_writer w0 sg (op_Filename p) (op_Outdir p) s = (x, s1)" by fastforce
  from write_frame [OF Cons.prems(1) this] write_inv [OF Cons.prems(1) this] Cons.prems(2) Cons.IH [of s1] w show ?case
    by (cases x) auto
qed simp

lemma write_outputs_last:
  "inv s \<Longrightarrow> ps \<noteq> [] \<Longrightarrow> write_outputs (wk_writer w0) item sg ps s = (Inr z, s') \<Longrightarrow>
   pub s' sg (op_Filename (last ps)) (op_Outdir (last ps))"
proof (induction ps arbitrary: s)
  case (Cons p ps)
  then obtain y s1 where w: "wk_writer w0 sg (op_Filename p) (op_Outdir p) s = (Inr y, s1)"
    and rest: "write_outputs (wk_writer w0) item sg ps s1 = (Inr z, s')"
    by (auto split: prod.splits sum.splits)
  from write_inv [OF Cons.prems(1) w] write_pub [OF Cons.prems(1) w] rest Cons.IH [of s1] show ?case
    by (cases ps) auto
qed simp

section \<open>The outcomes of a round\<close>

text \<open>
  \<open>sc\<close> is the state after the claim: the song is the one that the cache or the network gives then for the
  track of the item, and it stands at the last output of the item.
\<close>

definition published :: "song_codec \<Rightarrow> 's \<Rightarrow> WorkItem \<Rightarrow> 's \<Rightarrow> bool" where
  "published j sc item s' \<longleftrightarrow>
     (\<exists>sg hit s1 p. song j w0 (in_Track (wi_Inputs item)) sc = (Inr (sg, hit), s1) \<and>
        p = last (outputPaths (wi_Inputs item)) \<and> pub s' sg (op_Filename p) (op_Outdir p))"

definition outcome :: "song_codec \<Rightarrow> WorkItem \<Rightarrow> 's \<Rightarrow> 's Worker \<Rightarrow> 's \<Rightarrow> unit res \<Rightarrow> 's Worker \<Rightarrow> 's \<Rightarrow> bool" where
  "outcome j item sc w s r w' s' \<longleftrightarrow>
     (r = Inr () \<and> moved s s' (wi_ID item) Done \<and> published j sc item s' \<and> wk_consecutiveFailures w' = 0) \<or>
     (moved s s' (wi_ID item) Failed \<and> wk_consecutiveFailures w' = wk_consecutiveFailures w + 1) \<or>
     (moved s s' (wi_ID item) Pending \<and> wk_circuitOpenUntil w' \<noteq> None \<and>
        wk_consecutiveFailures w' = wk_consecutiveFailures w \<and> r \<noteq> Inr ()) \<or>
     (moved s s' (wi_ID item) Processing \<and> r \<noteq> Inr () \<and> r \<noteq> Inl (Sen ErrQueueEmpty))"

lemma outputPaths_nonempty [simp]: "outputPaths inputs \<noteq> []"
  by (simp add: outputPaths_def)

lemma fail_outcome:
  assumes "same_deps w" "inv s" "moved s0 s (wi_ID item) Processing" "fail_item w item e s = (r, w', s')"
  shows "outcome j item sc w s0 r w' s'"
proof -
  obtain x s1 where f: "qi_Fail (wk_queue w0) (wi_ID item) e s = (x, s1)" by fastforce
  show ?thesis
  proof (cases x)
    case (Inl e')
    with f moved_same [OF assms(3) fail_err [OF assms(2)]] assms show ?thesis
      by (auto simp: fail_item_def same_deps_def outcome_def Let_def)
  next
    case (Inr it)
    have "moved s s1 (wi_ID item) Failed" using fail_ok [OF assms(2) f [unfolded Inr]] by (simp add: moved_def)
    with f Inr moved_on [OF assms(3)] assms show ?thesis
      by (auto simp: fail_item_def same_deps_def outcome_def Let_def)
  qed
qed

lemma complete_outcome:
  assumes "same_deps w" "inv s" "moved s0 s (wi_ID item) Processing" "published j sc item s"
    and "complete_item w item s = (r, w', s')"
  shows "outcome j item sc w s0 r w' s'"
proof -
  obtain x s1 where c: "qi_Complete (wk_queue w0) (wi_ID item) s = (x, s1)" by fastforce
  show ?thesis
  proof (cases x)
    case (Inr y)
    from complete_ok [OF assms(2) c [unfolded Inr]] have m: "moved s s1 (wi_ID item) Done" "pub s1 = pub s"
      by (auto simp: moved_def)
    with c Inr moved_on [OF assms(3) m(1)] assms show ?thesis
      by (auto simp: complete_item_def same_deps_def outcome_def published_def Let_def)
  next
    case (Inl e)
    note s1 = complete_inv [OF assms(2) c] moved_same [OF assms(3) complete_err [OF assms(2) c [unfolded Inl]]]
    obtain cause where f: "complete_item w item s =
        (case qi_Fail (wk_queue w) (wi_ID item) cause s1 of
           (Inl e2, s2) \<Rightarrow>
             (Inl (Errorf (''worker: complete item '' @ Itoa (wi_ID item) @ '' and mark failed: '') (Join cause e2) ''''),
              w\<lparr>wk_consecutiveFailures := wk_consecutiveFailures w + 1\<rparr>, s2)
         | (Inr _, s2) \<Rightarrow>
             (Inl (Errorf (''worker: complete item '' @ Itoa (wi_ID item) @ '' (marked failed): '') cause ''''),
              w\<lparr>wk_consecutiveFailures := wk_consecutiveFailures w + 1\<rparr>, s2))"
      using c Inl assms(1) by (simp add: complete_item_def same_deps_def Let_def)
    obtain y s2 where q: "qi_Fail (wk_queue w0) (wi_ID item) cause s1 = (y, s2)" by fastforce
    show ?thesis
    proof (cases y)
      case (Inl e2)
      with assms(1,5) f q moved_same [OF s1(2) fail_err [OF s1(1)]] show ?thesis
        by (auto simp: same_deps_def outcome_def)
    next
      case (Inr it)
      have "moved s1 s2 (wi_ID item) Failed" using fail_ok [OF s1(1) q [unfolded Inr]] by (simp add: moved_def)
      with assms(1,5) f q Inr moved_on [OF s1(2)] show ?thesis by (auto simp: same_deps_def outcome_def)
    qed
  qed
qed

lemma trip_outcome:
  assumes "same_deps w" "inv s" "moved s0 s (wi_ID item) Processing"
    and "tripCircuitIfRateLimited w item e s = (Some re, w', s')"
  shows "outcome j item sc w s0 (case re of Inl e \<Rightarrow> Inl e | Inr _ \<Rightarrow> Inl (Sen ErrQueueEmpty)) w' s'"
proof -
  obtain x s1 where f: "qi_Release (wk_queue w0) (wi_ID item) s = (x, s1)" by fastforce
  have run: "w' = w\<lparr>wk_circuitOpenUntil := Some (wk_now w s + wk_circuitOpenDuration w)\<rparr>" "s' = s1"
    "is_ok re \<longleftrightarrow> is_ok x" "re \<noteq> Inl (Sen ErrQueueEmpty)"
    using assms(1,4) f by (auto simp: tripCircuitIfRateLimited_def same_deps_def Let_def is_ok_def split: if_splits sum.splits)
  show ?thesis
  proof (cases x)
    case (Inl e')
    from release_err [OF assms(2) f [unfolded Inl]] have "moved s0 s1 (wi_ID item) Processing \<or> moved s0 s1 (wi_ID item) Pending"
      using moved_same [OF assms(3)] moved_on [OF assms(3)] unfolding moved_def by blast
    with run Inl show ?thesis by (cases re) (auto simp: outcome_def is_ok_def)
  next
    case (Inr it)
    from release_ok [OF assms(2) f [unfolded Inr]] have "moved s0 s1 (wi_ID item) Pending"
      using moved_on [OF assms(3)] unfolding moved_def by blast
    with run Inr show ?thesis by (cases re) (auto simp: outcome_def is_ok_def)
  qed
qed

lemma trip_none: "tripCircuitIfRateLimited w item e s = (None, w', s') \<Longrightarrow> w' = w \<and> s' = s"
  by (auto simp: tripCircuitIfRateLimited_def Let_def split: if_splits prod.splits sum.splits)

lemma song_same: "same_deps w \<Longrightarrow> song j w track s = song j w0 track s"
  by (simp add: song_def same_deps_def split: prod.split sum.split)

lemma process_outcome:
  assumes d: "same_deps w" and i: "inv s" and m: "moved s0 s (wi_ID item) Processing"
    and p: "process_item rnd u j w item s = (r, w', s')"
  shows "outcome j item s w s0 r w' s'"
proof -
  obtain rs s1 where so: "song j w (in_Track (wi_Inputs item)) s = (rs, s1)" by fastforce
  note s1 = song_inv [OF d i so] moved_same [OF m song_frame [OF d i so]]
  note p1 = p [unfolded process_item_def Let_def so prod.case]
  show ?thesis
  proof (cases rs)
    case (Inl e)
    obtain tr w2 s2 where t: "tripCircuitIfRateLimited w item e s1 = (tr, w2, s2)" by (metis prod_cases3)
    show ?thesis
    proof (cases tr)
      case None
      with t trip_none have "w2 = w" "s2 = s1" by metis+
      with p1 Inl t None fail_outcome [OF d s1] show ?thesis by simp
    next
      case (Some re)
      with p1 Inl t trip_outcome [OF d s1, of e re w2 s2] show ?thesis by (cases re) auto
    qed
  next
    case (Inr sh)
    obtain sg hit where sh: "sh = (sg, hit)" by fastforce
    note p2 = p1 [unfolded Inr sh sum.case prod.case]
    show ?thesis
    proof (cases "Confidence rnd u (in_Track (wi_Inputs item)) (so_Track sg)")
      case None
      with p2 s1 show ?thesis by (auto simp: outcome_def index_panic_def)
    next
      case (Some c)
      note p3 = p2 [unfolded Some option.case]
      obtain r2 s2 where v: "(if hit then (Inr (), s1) else verify w item sg c s1) = (r2, s2)" by fastforce
      have "inv s2 \<and> row s2 = row s1"
        using v s1 verify_item_frame [OF d s1(1)] verify_item_inv [OF d s1(1)] by (auto split: if_splits)
      then have s2: "inv s2" "moved s0 s2 (wi_ID item) Processing" using moved_same [OF s1(2)] by auto
      note p4 = p3 [unfolded v prod.case]
      show ?thesis
      proof (cases r2)
        case (Inl e)
        with p4 fail_outcome [OF d s2] show ?thesis by simp
      next
        case r2: (Inr x2)
        obtain r3 s3 where st: "(if hit then (Inr (), s2) else store j w (in_Track (wi_Inputs item)) sg s2) = (r3, s3)"
          by fastforce
        have "inv s3 \<and> row s3 = row s2"
          using st s2 store_song_frame [OF d s2(1)] store_song_inv [OF d s2(1)] by (auto split: if_splits)
        then have s3: "inv s3" "moved s0 s3 (wi_ID item) Processing" using moved_same [OF s2(2)] by auto
        note p5 = p4 [unfolded r2 sum.case st prod.case]
        show ?thesis
        proof (cases r3)
          case (Inl e)
          with p5 fail_outcome [OF d s3] show ?thesis by simp
        next
          case r3: (Inr x3)
          obtain r4 s4 where wr: "write_outputs (wk_writer w0) item sg (outputPaths (wi_Inputs item)) s3 = (r4, s4)" by fastforce
          have wd: "wk_writer w = wk_writer w0" using d by (simp add: same_deps_def)
          note s4 = write_outputs_inv [OF s3(1) wr] moved_same [OF s3(2) write_outputs_frame [OF s3(1) wr]]
          note p6 = p5 [unfolded r3 sum.case wd wr prod.case]
          show ?thesis
          proof (cases r4)
            case (Inl e)
            with p6 fail_outcome [OF d s4] show ?thesis by simp
          next
            case (Inr x4)
            have ps: "published j s item s4"
              using write_outputs_last [OF s3(1) _ wr [unfolded Inr]] so [unfolded Inr sh song_same [OF d]] \<open>rs = Inr sh\<close> sh
              unfolding published_def by auto
            from p6 Inr have "complete_item w item s4 = (r, w', s')" by simp
            with complete_outcome [OF d s4 ps] show ?thesis by blast
          qed
        qed
      qed
    qed
  qed
qed

text \<open>
  One round: nothing was claimed and no row changed, or the item that Dequeue gave met one of its outcomes,
  and no other row changed.
\<close>

lemma RunOnce_contract:
  assumes d: "same_deps w" and i: "inv s" and run: "RunOnce rnd u j ctxErr w s = (r, w', s')"
  shows "(row s' = row s \<and> r \<noteq> Inr () \<and> wk_consecutiveFailures w' = wk_consecutiveFailures w) \<or>
     (\<exists>item sc. qi_Dequeue (wk_queue w0) s = (Inr item, sc) \<and>
        outcome j item sc (w\<lparr>wk_circuitOpenUntil := None\<rparr>) s r w' s')"
proof (cases "ctxErr s = None \<and> \<not> (case wk_circuitOpenUntil w of None \<Rightarrow> False | Some t \<Rightarrow> wk_now w s < t)")
  case False
  with run i d show ?thesis by (auto simp: RunOnce_def split: option.splits if_splits)
next
  case True
  let ?w1 = "w\<lparr>wk_circuitOpenUntil := None\<rparr>"
  have d1: "same_deps ?w1" using d by simp
  obtain x s1 where q: "qi_Dequeue (wk_queue w0) s = (x, s1)" by fastforce
  have q': "qi_Dequeue (wk_queue ?w1) s = (x, s1)" using q d by (simp add: same_deps_def)
  have run1: "RunOnce rnd u j ctxErr w s =
      (case x of Inl e \<Rightarrow> (if errors_Is e SqlErrNoRows then (Inl (Sen ErrQueueEmpty), ?w1, s1)
                  else (Inl (Errorf ''worker: dequeue: '' e ''''), ?w1, s1))
       | Inr item \<Rightarrow> process_item rnd u j ?w1 item s1)"
    using True unfolding RunOnce_def Let_def q' by (cases x) auto
  show ?thesis
  proof (cases x)
    case (Inl e)
    with q have "row s1 = row s" using deq_err [OF i] by simp
    with run [unfolded run1] Inl show ?thesis by (auto split: if_splits)
  next
    case (Inr item)
    from deq_ok [OF i q [unfolded Inr]] have m: "moved s s1 (wi_ID item) Processing" by (auto simp: moved_def)
    from run [unfolded run1] Inr have "process_item rnd u j ?w1 item s1 = (r, w', s')" by simp
    from process_outcome [OF d1 deq_inv [OF i q] m this] q Inr show ?thesis by blast
  qed
qed

end

end
