(* ===== verification/Files.thy ===== *)
theory Files
  imports Go_Paths
begin

text \<open>
  The file system as the code sees it: the contents of the regular files by cleaned path, and the
  system calls of package \<open>os\<close> on it. \<open>io k\<close> is the error that the \<open>k\<close>-th call of an operation meets,
  if it meets one; a call that fails leaves the files alone. Permissions, directories and symbolic
  links are not in the state: what they make a call return is an error of \<open>io\<close>.
\<close>

type_synonym files = "string \<Rightarrow> string option"

definition file_at :: "files \<Rightarrow> string \<Rightarrow> string option" where
  "file_at fs path = fs (Clean path)"

definition put_file :: "string \<Rightarrow> string option \<Rightarrow> files \<Rightarrow> files" where
  "put_file path content fs = fs(Clean path := content)"

text \<open>\<open>os.Remove\<close>: \<open>os.ErrNotExist\<close> without a file.\<close>

definition os_Remove :: "io \<Rightarrow> nat \<Rightarrow> string \<Rightarrow> files \<Rightarrow> unit res \<times> files" where
  "os_Remove io k path fs =
     (case io k of Some e \<Rightarrow> (Inl e, fs)
      | None \<Rightarrow> (if file_at fs path = None then (Inl (Sen OsErrNotExist), fs)
                 else (Inr (), put_file path None fs)))"

text \<open>\<open>os.Rename\<close> replaces a file at the new path.\<close>

definition os_Rename :: "io \<Rightarrow> nat \<Rightarrow> string \<Rightarrow> string \<Rightarrow> files \<Rightarrow> unit res \<times> files" where
  "os_Rename io k old new fs =
     (case io k of Some e \<Rightarrow> (Inl e, fs)
      | None \<Rightarrow> (case file_at fs old of
            None \<Rightarrow> (Inl (Sen OsErrNotExist), fs)
          | Some c \<Rightarrow> (Inr (), put_file new (Some c) (put_file old None fs))))"

text \<open>
  \<open>os.CreateTemp(dir, pattern)\<close> with the pattern split at its last star: it refuses a separator in the
  pattern, takes the system's directory for an empty one, and tries random names until one is free
  (10000 times at most). The result is the path of the empty file.
\<close>

definition temp_path :: "string \<Rightarrow> string \<Rightarrow> string \<Rightarrow> string \<Rightarrow> string" where
  "temp_path dir pre r suf = (if last dir = slash then dir else dir @ [slash]) @ pre @ r @ suf"

fun create_temp_loop :: "(nat \<Rightarrow> string) \<Rightarrow> string \<Rightarrow> string \<Rightarrow> string \<Rightarrow> files \<Rightarrow> nat \<Rightarrow> nat \<Rightarrow> string option" where
  "create_temp_loop rand dir pre suf fs k 0 = None"
| "create_temp_loop rand dir pre suf fs k (Suc n) =
     (if file_at fs (temp_path dir pre (rand k) suf) = None then Some (temp_path dir pre (rand k) suf)
      else create_temp_loop rand dir pre suf fs (k + 1) n)"

definition os_CreateTemp ::
  "(nat \<Rightarrow> string) \<Rightarrow> string \<Rightarrow> io \<Rightarrow> nat \<Rightarrow> string \<Rightarrow> string \<Rightarrow> string \<Rightarrow> files \<Rightarrow> string res \<times> files"
where
  "os_CreateTemp rand tempdir io k dir pre suf fs =
     (if slash \<in> set (pre @ suf) then (Inl (New ''pattern contains path separator''), fs)
      else case io k of Some e \<Rightarrow> (Inl e, fs)
      | None \<Rightarrow>
         (case create_temp_loop rand (if dir = [] then tempdir else dir) pre suf fs 0 10000 of
            None \<Rightarrow> (Inl (New ''file exists''), fs)
          | Some p \<Rightarrow> (Inr p, put_file p (Some []) fs)))"

lemma file_at_put [simp]: "file_at (put_file p c fs) q = (if Clean p = Clean q then c else file_at fs q)"
  by (simp add: file_at_def put_file_def)

lemma create_temp_loop_free:
  "create_temp_loop rand dir pre suf fs k n = Some p \<Longrightarrow> file_at fs p = None \<and> (\<exists>r. p = temp_path dir pre r suf)"
  by (induction n arbitrary: k) (auto split: if_splits)

lemma os_CreateTemp_ok:
  "os_CreateTemp rand tempdir io k dir pre suf fs = (Inr p, fs') \<Longrightarrow>
   file_at fs p = None \<and> fs' = put_file p (Some []) fs \<and>
   (\<exists>r. p = temp_path (if dir = [] then tempdir else dir) pre r suf)"
  by (auto simp: os_CreateTemp_def split: if_splits option.splits dest!: create_temp_loop_free)

lemma os_CreateTemp_err: "os_CreateTemp rand tempdir io k dir pre suf fs = (Inl e, fs') \<Longrightarrow> fs' = fs"
  by (auto simp: os_CreateTemp_def split: if_splits option.splits)

end
