(* ===== verification/Lyrics_Writer.thy ===== *)
theory Lyrics_Writer
  imports Models Files Path_Facts
begin

text \<open>
  Package \<open>internal/lyrics\<close>: the file name derived from artist and title (\<open>slugify.go\<close>), the text of
  the .lrc and .txt files, and \<open>WriteLRC\<close> with its temporary file, rename and removal of the
  opposite sidecar (\<open>writer.go\<close>).
\<close>

section \<open>File names\<close>

definition dash :: char where "dash = CHR 0x2D"

text \<open>The character class of \<open>reForbidden\<close>.\<close>

definition forbidden_chars :: "char list" where
  "forbidden_chars = [CHR 0x5C, CHR 0x2F, CHR 0x3A, CHR 0x2A, CHR 0x3F, CHR 0x22, CHR 0x3C, CHR 0x3E, CHR 0x7C]"

text \<open>\<open>reMultiDash\<close>: every run of dashes becomes one.\<close>

fun collapse_dashes :: "string \<Rightarrow> string" where
  "collapse_dashes (a # b # s) =
     (if a = dash \<and> b = dash then collapse_dashes (b # s) else a # collapse_dashes (b # s))"
| "collapse_dashes s = s"

definition trim_chars :: "(char \<Rightarrow> bool) \<Rightarrow> string \<Rightarrow> string" where
  "trim_chars P s = rev (dropWhile P (rev (dropWhile P s)))"

definition is_edge :: "char \<Rightarrow> bool" where
  "is_edge c \<longleftrightarrow> c = dash \<or> c = CHR 0x5F"

definition Slugify :: "unicode_env \<Rightarrow> string \<Rightarrow> string" where
  "Slugify u s =
     (let s = u_NFKC u s;
          s = filter (\<lambda>c. c \<notin> set forbidden_chars) s;
          s = collapse_dashes s
      in trim_chars is_edge s)"

section \<open>The text of the files\<close>

text \<open>The verb \<open>%02d\<close>, and the bytes of the eighth note.\<close>

definition fmt02 :: "int \<Rightarrow> string" where
  "fmt02 n = (if 0 \<le> n \<and> n < 10 then CHR ''0'' # Itoa n else Itoa n)"

definition eighth_note :: string where "eighth_note = [CHR 0xE2, CHR 0x99, CHR 0xAA]"
definition newline :: string where "newline = [CHR 0x0A]"

definition synced_line :: "Lines \<Rightarrow> string" where
  "synced_line l =
     ''['' @ fmt02 (ti_Minutes (li_Time l)) @ '':'' @ fmt02 (ti_Seconds (li_Time l)) @ ''.'' @
     fmt02 (ti_Hundredths (li_Time l)) @ '']'' @ (if li_Text l = '''' then eighth_note else li_Text l)"

definition header_tags :: "Song \<Rightarrow> string list" where
  "header_tags song =
     (let t = so_Track song in
      [''[by:mxlrcgo-svc]'', ''[ar:'' @ tr_ArtistName t @ '']'', ''[ti:'' @ tr_TrackName t @ '']''] @
      (if tr_AlbumName t \<noteq> '''' then [''[al:'' @ tr_AlbumName t @ '']''] else []) @
      (if tr_TrackLength t \<noteq> 0
       then [''[length:'' @ fmt02 (quot (tr_TrackLength t) 60) @ '':'' @
               fmt02 (tr_TrackLength t - 60 * quot (tr_TrackLength t) 60) @ '']'']
       else []))"

text \<open>
  The content functions write pieces into the buffer: each piece has the prefix of the error its
  write would be returned under; the last call is the flush. \<open>Inl\<close> is such an error.
\<close>

fun write_pieces :: "io \<Rightarrow> nat \<Rightarrow> string \<Rightarrow> string list \<Rightarrow> string res \<times> nat" where
  "write_pieces io k pre [] = (Inr '''', k)"
| "write_pieces io k pre (p # ps) =
     (case io k of Some e \<Rightarrow> (Inl (Errorf pre e ''''), k + 1)
      | None \<Rightarrow> (case write_pieces io (k + 1) pre ps of
           (Inl e, k') \<Rightarrow> (Inl e, k')
         | (Inr t, k') \<Rightarrow> (Inr (p @ t), k')))"

definition write_flush :: "io \<Rightarrow> nat \<Rightarrow> string \<Rightarrow> string list \<Rightarrow> string \<Rightarrow> string res" where
  "write_flush io k wpre ps fpre =
     (case write_pieces io k wpre ps of
        (Inl e, _) \<Rightarrow> Inl e
      | (Inr t, k') \<Rightarrow> (case io k' of Some e \<Rightarrow> Inl (Errorf fpre e '''') | None \<Rightarrow> Inr t))"

definition writeSyncedLRC :: "io \<Rightarrow> nat \<Rightarrow> Song \<Rightarrow> string res" where
  "writeSyncedLRC io k song =
     write_flush io k ''writing synced line: '' (map (\<lambda>l. synced_line l @ newline) (so_Subtitles song))
       ''flushing synced lyrics: ''"

definition writeUnsyncedLRC :: "io \<Rightarrow> nat \<Rightarrow> Song \<Rightarrow> string res" where
  "writeUnsyncedLRC io k song =
     write_flush io k ''writing unsynced lyrics: '' [so_LyricsBody song] ''flushing unsynced lyrics: ''"

definition writeInstrumentalLRC :: "io \<Rightarrow> nat \<Rightarrow> string res" where
  "writeInstrumentalLRC io k =
     write_flush io k ''writing instrumental line: ''
       [''[00:00.00]'' @ eighth_note @ '' Instrumental '' @ eighth_note @ newline] ''flushing instrumental lyrics: ''"

section \<open>WriteLRC\<close>

datatype content = SyncedLyrics | UnsyncedLyrics | InstrumentalMark

text \<open>The eligibility gate; \<open>None\<close> is the default branch of the switch.\<close>

definition content_of :: "Song \<Rightarrow> content option" where
  "content_of song =
     (if so_Subtitles song \<noteq> [] then Some SyncedLyrics
      else if so_LyricsBody song \<noteq> '''' then Some UnsyncedLyrics
      else if tr_Instrumental (so_Track song) = 1 then Some InstrumentalMark
      else None)"

definition writeContent :: "io \<Rightarrow> nat \<Rightarrow> content \<Rightarrow> Song \<Rightarrow> string res" where
  "writeContent io k c song =
     (case c of SyncedLyrics \<Rightarrow> writeSyncedLRC io k song
      | UnsyncedLyrics \<Rightarrow> writeUnsyncedLRC io k song
      | InstrumentalMark \<Rightarrow> writeInstrumentalLRC io k)"

definition output_name :: "unicode_env \<Rightarrow> Song \<Rightarrow> bool \<Rightarrow> string \<Rightarrow> string" where
  "output_name u song writeTags filename =
     (let title = tr_ArtistName (so_Track song) @ '' - '' @ tr_TrackName (so_Track song)
      in if filename \<noteq> ''''
         then (if \<not> writeTags then TrimSuffix filename (Ext filename) @ ''.txt'' else filename)
         else if writeTags then Slugify u title @ ''.lrc''
         else Slugify u title @ ''.txt'')"

text \<open>The other format's file beside the output, if the output has one of the two extensions.\<close>

definition stale_path :: "string \<Rightarrow> string option" where
  "stale_path fp =
     (if Ext fp = ''.lrc'' then Some (TrimSuffix fp ''.lrc'' @ ''.txt'')
      else if Ext fp = ''.txt'' then Some (TrimSuffix fp ''.txt'' @ ''.lrc'')
      else None)"

text \<open>
  The deferred function on an error return: the temporary file is removed, and an error of that
  removal is dropped. (What a failed write has left in a temporary file that cannot be removed is
  not modelled: the file then counts as empty.)
\<close>

definition give_up :: "io \<Rightarrow> string \<Rightarrow> goerr \<Rightarrow> files \<Rightarrow> unit res \<times> files" where
  "give_up io tmpPath e fs = (Inl e, snd (os_Remove io 6 tmpPath fs))"

text \<open>
  System calls: 0 CreateTemp, 1 Close, 2 Chmod, 3 Remove of the existing file, 4 Rename, 5 Remove of
  the stale sidecar, 6 Remove of the temporary file; from 7 on the writes.
\<close>

definition WriteLRC ::
  "unicode_env \<Rightarrow> (nat \<Rightarrow> string) \<Rightarrow> string \<Rightarrow> io \<Rightarrow> Song \<Rightarrow> string \<Rightarrow> string \<Rightarrow> files \<Rightarrow> unit res \<times> files"
where
  "WriteLRC u rand tempdir io song filename outdir fs =
     (case content_of song of
        None \<Rightarrow> (Inl (New (''nothing to save for '' @ tr_ArtistName (so_Track song) @ '' - '' @
                          tr_TrackName (so_Track song))), fs)
      | Some c \<Rightarrow>
        (let writeTags = (c \<noteq> UnsyncedLyrics);
             fn = output_name u song writeTags filename;
             fp = JoinPath [outdir, fn];
             tags = (if writeTags then header_tags song else [])
         in case os_CreateTemp rand tempdir io 0 outdir (fn @ ''.'') ''.tmp'' fs of
              (Inl e, fs0) \<Rightarrow> (Inl (Errorf (''creating temp file in '' @ outdir @ '': '') e ''''), fs0)
            | (Inr tmpPath, fs0) \<Rightarrow>
              (case write_pieces io 7 ''writing tag: '' (map (\<lambda>t. t @ newline) tags) of
                 (Inl e, _) \<Rightarrow> give_up io tmpPath e fs0
               | (Inr head, k) \<Rightarrow>
              (case writeContent io k c song of
                 Inl e \<Rightarrow> give_up io tmpPath e fs0
               | Inr body \<Rightarrow>
                 (let fs1 = put_file tmpPath (Some (head @ body)) fs0 in
              (case io 1 of
                 Some e \<Rightarrow> give_up io tmpPath (Errorf (''closing '' @ tmpPath @ '': '') e '''') fs1
               | None \<Rightarrow>
              (case io 2 of
                 Some e \<Rightarrow> give_up io tmpPath (Errorf (''chmod '' @ tmpPath @ '': '') e '''') fs1
               | None \<Rightarrow>
              (case os_Remove io 3 fp fs1 of
                 (r3, fs2) \<Rightarrow>
                 (if (case r3 of Inl e \<Rightarrow> \<not> errors_Is e OsErrNotExist | Inr _ \<Rightarrow> False)
                  then give_up io tmpPath
                         (Errorf (''removing existing '' @ fp @ '': '') (projl r3) '''') fs2
                  else
              (case os_Rename io 4 tmpPath fp fs2 of
                 (Inl e, fs3) \<Rightarrow>
                   give_up io tmpPath (Errorf (''renaming '' @ tmpPath @ '' to '' @ fp @ '': '') e '''') fs3
               | (Inr _, fs3) \<Rightarrow>
                   (Inr (), (case stale_path fp of
                               None \<Rightarrow> fs3
                             | Some stale \<Rightarrow> snd (os_Remove io 5 stale fs3)))))))))))))"

section \<open>Slugs\<close>

lemma set_collapse: "set (collapse_dashes s) \<subseteq> set s"
  by (induction s rule: collapse_dashes.induct) auto

lemma set_trim: "set (trim_chars P s) \<subseteq> set s"
  unfolding trim_chars_def by (metis set_dropWhileD set_rev subsetI)

lemma collapse_head: "s \<noteq> [] \<Longrightarrow> collapse_dashes s \<noteq> [] \<and> hd (collapse_dashes s) = hd s"
  by (induction s rule: collapse_dashes.induct) auto

lemma collapse_idem: "collapse_dashes (collapse_dashes s) = collapse_dashes s"
proof (induction s rule: collapse_dashes.induct)
  case (1 a b s)
  show ?case
  proof (cases "a = dash \<and> b = dash")
    case False
    obtain x xs where x: "collapse_dashes (b # s) = x # xs" "x = b"
      using collapse_head [of "b # s"] by (cases "collapse_dashes (b # s)") auto
    from False 1(2) [OF False] show ?thesis by (auto simp: x)
  qed (use 1 in simp)
qed simp_all

text \<open>A string without two dashes in a row, as its sublists see it.\<close>

lemma no_pair_Cons:
  "(\<forall>xs ys. a # t \<noteq> xs @ dash # dash # ys) \<longleftrightarrow>
     (\<forall>ys. \<not> (a = dash \<and> t = dash # ys)) \<and> (\<forall>xs ys. t \<noteq> xs @ dash # dash # ys)"
  by (auto simp: Cons_eq_append_conv)

lemma collapsed_iff: "collapse_dashes s = s \<longleftrightarrow> (\<forall>xs ys. s \<noteq> xs @ dash # dash # ys)"
proof (induction s rule: collapse_dashes.induct)
  case (1 a b s)
  have len: "length (collapse_dashes t) \<le> length t" for t
    by (induction t rule: collapse_dashes.induct) auto
  show ?case
  proof (cases "a = dash \<and> b = dash")
    case True
    have "collapse_dashes (a # b # s) \<noteq> a # b # s"
      using len [of "b # s"] True by (auto dest!: arg_cong [of _ _ length])
    with True show ?thesis by (metis append_Nil)
  next
    case False
    with 1(2) [OF False] show ?thesis by (simp add: no_pair_Cons [of a] disj_commute) blast
  qed
qed (auto simp: append_eq_Cons_conv Cons_eq_append_conv)

lemma collapsed_infix: "collapse_dashes (xs @ s @ ys) = xs @ s @ ys \<Longrightarrow> collapse_dashes s = s"
  unfolding collapsed_iff by (metis append.assoc append_Cons)

lemma trim_infix: "\<exists>xs ys. s = xs @ trim_chars P s @ ys"
proof -
  let ?t = "dropWhile P s"
  have "s = takeWhile P s @ ?t" by simp
  moreover have "?t = rev (dropWhile P (rev ?t)) @ rev (takeWhile P (rev ?t))"
    by (metis rev_append rev_rev_ident takeWhile_dropWhile_id)
  ultimately show ?thesis unfolding trim_chars_def by metis
qed

lemma trim_idem: "trim_chars P (trim_chars P s) = trim_chars P s"
proof -
  let ?a = "dropWhile P s" let ?b = "dropWhile P (rev ?a)"
  have b: "dropWhile P ?b = ?b" by (rule dropWhile_idem)
  have "dropWhile P (rev ?b) = rev ?b"
  proof (cases "rev ?b = []")
    case True
    then show ?thesis by (metis dropWhile.simps(1))
  next
    case False
    have "?a = rev ?b @ rev (takeWhile P (rev ?a))"
      by (metis rev_append rev_rev_ident takeWhile_dropWhile_id)
    then have "hd (rev ?b) = hd ?a" using False by (metis hd_append2)
    moreover have "?a \<noteq> []" using False by (metis dropWhile.simps(1) rev.simps(1))
    ultimately show ?thesis unfolding dropWhile_eq_self_iff by (metis hd_dropWhile)
  qed
  then show ?thesis by (simp add: trim_chars_def b)
qed

text \<open>
  Slugify is a safe file name: it holds none of the nine forbidden characters, so no path
  separator, it has no two dashes in a row, and neither of its ends is a dash or an underscore.
\<close>
theorem Slugify_is_safe:
  "set (Slugify u s) \<inter> set forbidden_chars = {} \<and>
   (\<nexists>xs ys. Slugify u s = xs @ dash # dash # ys) \<and>
   trim_chars is_edge (Slugify u s) = Slugify u s"
proof -
  let ?f = "filter (\<lambda>c. c \<notin> set forbidden_chars) (u_NFKC u s)"
  have sl: "Slugify u s = trim_chars is_edge (collapse_dashes ?f)" by (simp add: Slugify_def Let_def)
  have "set (Slugify u s) \<subseteq> set ?f"
    unfolding sl by (rule subset_trans [OF set_trim set_collapse])
  then have "set (Slugify u s) \<inter> set forbidden_chars = {}" by auto
  moreover obtain xs ys where "collapse_dashes ?f = xs @ Slugify u s @ ys"
    unfolding sl using trim_infix by blast
  then have "collapse_dashes (Slugify u s) = Slugify u s"
    by (metis collapse_idem collapsed_infix)
  then have "\<nexists>xs ys. Slugify u s = xs @ dash # dash # ys" by (simp add: collapsed_iff)
  ultimately show ?thesis by (simp add: sl trim_idem)
qed

section \<open>What a write publishes\<close>

text \<open>The whole text of the output file.\<close>

definition lrc_text :: "content \<Rightarrow> Song \<Rightarrow> string" where
  "lrc_text c song =
     (case c of
        SyncedLyrics \<Rightarrow> concat (map (\<lambda>t. t @ newline) (header_tags song @ map synced_line (so_Subtitles song)))
      | UnsyncedLyrics \<Rightarrow> so_LyricsBody song
      | InstrumentalMark \<Rightarrow> concat (map (\<lambda>t. t @ newline)
          (header_tags song @ [''[00:00.00]'' @ eighth_note @ '' Instrumental '' @ eighth_note])))"

definition output_path :: "unicode_env \<Rightarrow> Song \<Rightarrow> string \<Rightarrow> string \<Rightarrow> content \<Rightarrow> string" where
  "output_path u song filename outdir c =
     JoinPath [outdir, output_name u song (c \<noteq> UnsyncedLyrics) filename]"

lemma write_pieces_ok: "write_pieces io k pre ps = (Inr t, k') \<Longrightarrow> t = concat ps"
  by (induction io k pre ps arbitrary: t k' rule: write_pieces.induct)
    (auto split: option.splits prod.splits sum.splits)

lemma writeContent_ok:
  assumes "writeContent io k c song = Inr body"
  shows "body = (case c of SyncedLyrics \<Rightarrow> concat (map (\<lambda>l. synced_line l @ newline) (so_Subtitles song))
      | UnsyncedLyrics \<Rightarrow> so_LyricsBody song
      | InstrumentalMark \<Rightarrow> ''[00:00.00]'' @ eighth_note @ '' Instrumental '' @ eighth_note @ newline)"
  using assms
  by (cases c) (auto simp: writeContent_def writeSyncedLRC_def writeUnsyncedLRC_def writeInstrumentalLRC_def
      write_flush_def split: prod.splits sum.splits option.splits dest!: write_pieces_ok)

lemma output_name_nonempty: "output_name u song t filename \<noteq> []"
  by (simp add: output_name_def Let_def)

lemma Clean_output_path: "Clean (output_path u song filename outdir c) = output_path u song filename outdir c"
  unfolding output_path_def using output_name_nonempty by (intro Clean_JoinPath) simp

lemma stale_of_clean:
  assumes "stale_path p = Some st" "Clean p = p"
  shows "Clean st = st \<and> st \<noteq> p"
proof -
  have d: "''.lrc'' = dot # ''lrc''" "''.txt'' = dot # ''txt''" by (simp_all add: dot_def)
  have s: "slash \<notin> set ''lrc''" "slash \<notin> set ''txt''" by (simp_all add: slash_def)
  consider (l) "Ext p = dot # ''lrc''" "st = TrimSuffix p (dot # ''lrc'') @ dot # ''txt''"
    | (t) "Ext p = dot # ''txt''" "st = TrimSuffix p (dot # ''txt'') @ dot # ''lrc''"
    using assms(1) by (auto simp: stale_path_def d split: if_splits)
  then show ?thesis
  proof cases
    case l
    from exchange_ext [OF assms(2) l(1) s(2)] l(2) show ?thesis by auto
  next
    case t
    from exchange_ext [OF assms(2) t(1) s(1)] t(2) show ?thesis by auto
  qed
qed

text \<open>The last steps of a write: from the closed temporary file to the result.\<close>

lemma os_Remove_cases:
  "os_Remove io k p fs = (r, fs') \<Longrightarrow>
   (\<exists>e. r = Inl e \<and> fs' = fs) \<or> (r = Inr () \<and> fs' = put_file p None fs)"
  by (auto simp: os_Remove_def split: option.splits if_splits)

lemma os_Rename_ok:
  "os_Rename io k p q fs = (Inr x, fs') \<Longrightarrow>
   \<exists>c. file_at fs p = Some c \<and> fs' = put_file q (Some c) (put_file p None fs)"
  by (auto simp: os_Rename_def split: option.splits)

lemma os_Rename_err: "os_Rename io k p q fs = (Inl e, fs') \<Longrightarrow> fs' = fs"
  by (auto simp: os_Rename_def split: option.splits)

lemma give_up_not_ok [simp]: "give_up io p e fs \<noteq> (Inr x, fs')"
  by (simp add: give_up_def)

lemma text_of_parts:
  assumes "write_pieces io 7 pre (map (\<lambda>t. t @ newline) (if c \<noteq> UnsyncedLyrics then header_tags song else [])) = (Inr head, k)"
    and "writeContent io k c song = Inr body"
  shows "head @ body = lrc_text c song"
  using write_pieces_ok [OF assms(1)] writeContent_ok [OF assms(2)]
  by (cases c) (simp_all add: lrc_text_def comp_def)

text \<open>A write that succeeds went through every step.\<close>

lemma WriteLRC_steps:
  assumes "WriteLRC u rand tempdir io song filename outdir fs = (Inr (), fs')"
  shows "\<exists>c tmp r3 fs2 fs3.
    content_of song = Some c \<and>
    os_CreateTemp rand tempdir io 0 outdir (output_name u song (c \<noteq> UnsyncedLyrics) filename @ ''.'') ''.tmp'' fs
      = (Inr tmp, put_file tmp (Some []) fs) \<and> file_at fs tmp = None \<and>
    os_Remove io 3 (output_path u song filename outdir c)
      (put_file tmp (Some (lrc_text c song)) (put_file tmp (Some []) fs)) = (r3, fs2) \<and>
    os_Rename io 4 tmp (output_path u song filename outdir c) fs2 = (Inr (), fs3) \<and>
    fs' = (case stale_path (output_path u song filename outdir c) of
             None \<Rightarrow> fs3 | Some stale \<Rightarrow> snd (os_Remove io 5 stale fs3))"
proof -
  from assms obtain c where c: "content_of song = Some c"
    by (auto simp: WriteLRC_def split: option.splits)
  let ?t = "c \<noteq> UnsyncedLyrics"
  let ?fn = "output_name u song ?t filename"
  let ?fp = "output_path u song filename outdir c"
  note run = assms [unfolded WriteLRC_def c option.case Let_def output_path_def [symmetric]]
  obtain tmp fs0 where t: "os_CreateTemp rand tempdir io 0 outdir (?fn @ ''.'') ''.tmp'' fs = (Inr tmp, fs0)"
    using run by (auto split: prod.splits sum.splits)
  from os_CreateTemp_ok [OF t] have fs0: "fs0 = put_file tmp (Some []) fs" "file_at fs tmp = None" by auto
  note run1 = run [unfolded t prod.case sum.case fs0(1)]
  obtain head k where h: "write_pieces io 7 ''writing tag: '' (map (\<lambda>t. t @ newline) (if ?t then header_tags song else [])) = (Inr head, k)"
    using run1 by (auto split: prod.splits sum.splits)
  note run2 = run1 [unfolded h prod.case sum.case]
  obtain body where b: "writeContent io k c song = Inr body"
    using run2 by (auto split: sum.splits)
  note run3 = run2 [unfolded b sum.case text_of_parts [OF h b]]
  obtain r3 fs2 where r: "os_Remove io 3 ?fp (put_file tmp (Some (lrc_text c song)) (put_file tmp (Some []) fs)) = (r3, fs2)"
    by fastforce
  note run4 = run3 [unfolded r prod.case]
  obtain fs3 where n: "os_Rename io 4 tmp ?fp fs2 = (Inr (), fs3)"
    using run4 by (auto split: prod.splits sum.splits option.splits if_splits)
  have "fs' = (case stale_path ?fp of None \<Rightarrow> fs3 | Some stale \<Rightarrow> snd (os_Remove io 5 stale fs3))"
    using run4 by (auto simp: n split: option.splits if_splits)
  with c t fs0 r n show ?thesis by blast
qed

lemma stale_removed:
  "snd (os_Remove io 5 st fs) = (if io 5 = None \<and> file_at fs st \<noteq> None then put_file st None fs else fs)"
  by (auto simp: os_Remove_def split: option.splits)

lemma WriteLRC_result:
  assumes "WriteLRC u rand tempdir io song filename outdir fs = (Inr (), fs')"
  shows "\<exists>c. content_of song = Some c \<and>
    (let fp = output_path u song filename outdir c
     in file_at fs' fp = Some (lrc_text c song) \<and>
        (\<forall>st. stale_path fp = Some st \<and> io 5 = None \<longrightarrow> file_at fs' st = None) \<and>
        (\<forall>q. Clean q \<noteq> fp \<and> stale_path fp \<noteq> Some (Clean q) \<longrightarrow> file_at fs' q = file_at fs q))"
proof -
  from WriteLRC_steps [OF assms] obtain c tmp r3 fs2 fs3 where
    c: "content_of song = Some c" and free: "file_at fs tmp = None"
    and rm: "os_Remove io 3 (output_path u song filename outdir c)
          (put_file tmp (Some (lrc_text c song)) (put_file tmp (Some []) fs)) = (r3, fs2)"
    and mv: "os_Rename io 4 tmp (output_path u song filename outdir c) fs2 = (Inr (), fs3)"
    and fs': "fs' = (case stale_path (output_path u song filename outdir c) of
             None \<Rightarrow> fs3 | Some stale \<Rightarrow> snd (os_Remove io 5 stale fs3))"
    by blast
  let ?fp = "output_path u song filename outdir c"
  note clean = Clean_output_path [of u song filename outdir c]
  from os_Rename_ok [OF mv] obtain x where
    x: "file_at fs2 tmp = Some x" "fs3 = put_file ?fp (Some x) (put_file tmp None fs2)" by blast
  have x': "x = lrc_text c song"
    using os_Remove_cases [OF rm] x(1) by (auto split: if_splits)
  have fs3: "file_at fs3 q = (if Clean q = ?fp then Some (lrc_text c song) else file_at fs q)" for q
    using os_Remove_cases [OF rm] free by (auto simp: x(2) x' clean file_at_def put_file_def)
  have st: "Clean st = st \<and> st \<noteq> ?fp" if "stale_path ?fp = Some st" for st
    using stale_of_clean [OF that clean] .
  have "file_at fs' ?fp = Some (lrc_text c song)"
    using fs3 [of ?fp] st by (auto simp: fs' clean stale_removed split: option.splits)
  moreover have "file_at fs' st = None" if "stale_path ?fp = Some st" "io 5 = None" for st
    using that by (auto simp: fs' stale_removed)
  moreover have "file_at fs' q = file_at fs q" if "Clean q \<noteq> ?fp" "stale_path ?fp \<noteq> Some (Clean q)" for q
    using that fs3 [of q] st by (auto simp: fs' stale_removed split: option.splits)
  ultimately show ?thesis using c by (auto simp: Let_def)
qed

lemma published_file:
  assumes "WriteLRC u rand tempdir io song filename outdir fs = (Inr (), fs')"
  shows "\<exists>c. content_of song = Some c \<and>
    file_at fs' (output_path u song filename outdir c) = Some (lrc_text c song)"
  using WriteLRC_result [OF assms] by (auto simp: Let_def)

text \<open>
  C35. When WriteLRC succeeds, the output path holds exactly the text of the song, the sidecar of the
  other format is gone unless its removal failed, and no other file has changed: the temporary file is
  gone too.
\<close>
theorem WriteLRC_publishes:
  assumes "WriteLRC u rand tempdir io song filename outdir fs = (Inr (), fs')"
  shows "\<exists>c. content_of song = Some c \<and>
    (let fp = output_path u song filename outdir c
     in file_at fs' fp = Some (lrc_text c song) \<and>
        (\<forall>st. stale_path fp = Some st \<and> io 5 = None \<longrightarrow> file_at fs' st = None) \<and>
        (\<forall>q. Clean q \<noteq> fp \<and> stale_path fp \<noteq> Some (Clean q) \<longrightarrow> file_at fs' q = file_at fs q))"
  using assms by (rule WriteLRC_result)

section \<open>What a failed write leaves\<close>

definition rename_error :: "goerr \<Rightarrow> bool" where
  "rename_error e \<longleftrightarrow> (\<exists>p re. e = Errorf (''renaming '' @ p) re '''')"

text \<open>The three stages at which the deferred removal of the temporary file runs.\<close>

lemma WriteLRC_failed:
  assumes "WriteLRC u rand tempdir io song filename outdir fs = (Inl e, fs')"
  shows "fs' = fs \<or> (\<exists>c tmp g t. content_of song = Some c \<and> file_at fs tmp = None \<and>
    fs' = snd (os_Remove io 6 tmp g) \<and>
    (g = put_file tmp (Some t) fs \<or>
     rename_error e \<and> g = put_file (output_path u song filename outdir c) None (put_file tmp (Some t) fs)))"
proof (cases "content_of song")
  case None
  with assms show ?thesis by (simp add: WriteLRC_def)
next
  case c: (Some c)
  let ?t = "c \<noteq> UnsyncedLyrics"
  let ?fn = "output_name u song ?t filename"
  let ?fp = "output_path u song filename outdir c"
  have put2: "put_file p y (put_file p x fs) = put_file p y fs" for p x y
    by (simp add: put_file_def)
  note run = assms [unfolded WriteLRC_def c option.case Let_def output_path_def [symmetric]]
  show ?thesis
  proof (cases "os_CreateTemp rand tempdir io 0 outdir (?fn @ ''.'') ''.tmp'' fs")
    case t: (Pair r0 fs0)
    show ?thesis
    proof (cases r0)
      case (Inl e0)
      with run t os_CreateTemp_err [of rand tempdir io 0 outdir "?fn @ ''.''" "''.tmp''" fs e0 fs0] show ?thesis
        by simp
    next
      case (Inr tmp)
      from os_CreateTemp_ok [of rand tempdir io 0 outdir "?fn @ ''.''" "''.tmp''" fs tmp fs0] t Inr
      have fs0: "fs0 = put_file tmp (Some []) fs" "file_at fs tmp = None" by auto
      have early: ?thesis if "fs' = snd (os_Remove io 6 tmp fs0)"
        using that c fs0 by blast
      have later: ?thesis if "fs' = snd (os_Remove io 6 tmp (put_file tmp (Some x) fs0))" for x
        using that c fs0(2) put2 unfolding fs0(1) by metis
      note run1 = run [unfolded t Inr prod.case sum.case]
      obtain rh k where h: "write_pieces io 7 ''writing tag: '' (map (\<lambda>t. t @ newline) (if ?t then header_tags song else [])) = (rh, k)"
        by fastforce
      show ?thesis
      proof (cases rh)
        case (Inl e1)
        with run1 h show ?thesis by (intro early) (simp add: give_up_def)
      next
        case rh: (Inr head)
        note run2 = run1 [unfolded h rh prod.case sum.case]
        show ?thesis
        proof (cases "writeContent io k c song")
          case (Inl e2)
          with run2 show ?thesis by (intro early) (simp add: give_up_def)
        next
          case (Inr body)
          let ?fs1 = "put_file tmp (Some (head @ body)) fs0"
          note run3 = run2 [unfolded Inr sum.case]
          obtain r3 fs2 where r3: "os_Remove io 3 ?fp ?fs1 = (r3, fs2)" by fastforce
          note run4 = run3 [unfolded r3 prod.case]
          show ?thesis
          proof (cases "io 1 = None \<and> io 2 = None \<and> \<not> (case r3 of Inl e \<Rightarrow> \<not> errors_Is e OsErrNotExist | Inr _ \<Rightarrow> False)")
            case False
            then have "fs' = snd (os_Remove io 6 tmp ?fs1)"
              using run4 os_Remove_cases [OF r3]
              by (auto simp: give_up_def split: option.splits sum.splits)
            then show ?thesis by (rule later)
          next
            case True
            obtain r4 fs3 where r4: "os_Rename io 4 tmp ?fp fs2 = (r4, fs3)" by fastforce
            from run4 True obtain e4 where e4: "r4 = Inl e4"
              "e = Errorf (''renaming '' @ tmp @ '' to '' @ ?fp @ '': '') e4 ''''" "fs' = snd (os_Remove io 6 tmp fs3)"
              by (cases r4) (auto simp: r4 give_up_def split: if_splits)
            have "fs3 = fs2" using os_Rename_err r4 e4(1) by metis
            moreover have "rename_error e" unfolding rename_error_def e4(2) by blast
            ultimately show ?thesis
              using os_Remove_cases [OF r3] e4(3) c fs0 later put2 by metis
          qed
        qed
      qed
    qed
  qed
qed

text \<open>
  C36. When WriteLRC fails no output is ever partial. Every file other than the temporary one is as it
  was before, with one exception: a rename that fails leaves the output path empty, because the old
  file was removed just before. The temporary file is gone if it could be removed.
\<close>
theorem WriteLRC_failure_is_not_partial:
  assumes "WriteLRC u rand tempdir io song filename outdir fs = (Inl e, fs')"
  shows "\<exists>tmp. (io 6 = None \<longrightarrow> file_at fs' tmp = file_at fs tmp) \<and>
    (\<forall>q. Clean q \<noteq> Clean tmp \<longrightarrow> file_at fs' q = file_at fs q \<or>
         (rename_error e \<and> file_at fs' q = None \<and>
          (\<exists>c. content_of song = Some c \<and> Clean q = output_path u song filename outdir c)))"
  using WriteLRC_failed [OF assms]
proof (elim disjE exE conjE)
  fix c tmp g t
  assume c: "content_of song = Some c" and free: "file_at fs tmp = None"
    and fs': "fs' = snd (os_Remove io 6 tmp g)" and g: "g = put_file tmp (Some t) fs"
  have "io 6 = None \<longrightarrow> file_at fs' tmp = file_at fs tmp" by (simp add: fs' g free os_Remove_def)
  moreover have "file_at fs' q = file_at fs q" if "Clean q \<noteq> Clean tmp" for q
    using that by (simp add: fs' g os_Remove_def split: option.splits)
  ultimately show ?thesis by (intro exI [of _ tmp]) auto
next
  fix c tmp g t
  assume c: "content_of song = Some c" and free: "file_at fs tmp = None"
    and fs': "fs' = snd (os_Remove io 6 tmp g)" and e: "rename_error e"
    and g: "g = put_file (output_path u song filename outdir c) None (put_file tmp (Some t) fs)"
  let ?fp = "output_path u song filename outdir c"
  have "io 6 = None \<longrightarrow> file_at fs' tmp = file_at fs tmp"
    using free by (auto simp: fs' g os_Remove_def split: option.splits)
  moreover have "file_at fs' q = (if Clean q = ?fp then None else file_at fs q)" if "Clean q \<noteq> Clean tmp" for q
    using that Clean_output_path [of u song filename outdir c]
    by (auto simp: fs' g os_Remove_def split: option.splits)
  ultimately show ?thesis using c e by (intro exI [of _ tmp]) auto
qed (intro exI, auto)

section \<open>Concrete writes\<close>

definition sample_song :: Song where
  "sample_song = zero_Song\<lparr>so_Track := zero_Track\<lparr>tr_ArtistName := ''AC/DC'', tr_TrackName := ''T.N.T.''\<rparr>,
     so_Subtitles := [\<lparr>li_Text = ''Oi'', li_Time = \<lparr>ti_Total = 0, ti_Minutes = 0, ti_Seconds = 7, ti_Hundredths = 5\<rparr>\<rparr>]\<rparr>"

definition sample_files :: files where
  "sample_files = Map.empty(''lyrics/ACDC - T.N.T..lrc'' := Some ''old'', ''lyrics/ACDC - T.N.T..txt'' := Some ''plain'')"

definition rename_fault :: io where
  "rename_fault k = (if k = 4 then Some (New ''permission denied'') else None)"

abbreviation sample_write :: "io \<Rightarrow> unit res \<times> files" where
  "sample_write io \<equiv> WriteLRC ascii_env (\<lambda>k. Itoa (int k)) ''/tmp'' io sample_song '''' ''lyrics'' sample_files"

text \<open>The second song loses its old lyrics: the rename failed after the old file was removed.\<close>

lemma sample_writes:
  "fst (sample_write no_faults) = Inr ()"
  "file_at (snd (sample_write no_faults)) ''lyrics/ACDC - T.N.T..txt'' = None"
  "\<not> is_ok (fst (sample_write rename_fault))"
  "file_at (snd (sample_write rename_fault)) ''lyrics/ACDC - T.N.T..lrc'' = None"
  by code_simp+

theorem WriteLRC_publishes_witness:
  "\<exists>fs'. sample_write no_faults = (Inr (), fs') \<and>
     file_at fs' ''lyrics/ACDC - T.N.T..lrc'' = Some (lrc_text SyncedLyrics sample_song)"
proof -
  obtain fs' where w: "sample_write no_faults = (Inr (), fs')"
    using sample_writes(1) by (cases "sample_write no_faults") auto
  have c: "content_of sample_song = Some SyncedLyrics" by code_simp
  have p: "output_path ascii_env sample_song '''' ''lyrics'' SyncedLyrics = ''lyrics/ACDC - T.N.T..lrc''"
    by code_simp
  from WriteLRC_publishes [OF w] have "file_at fs' ''lyrics/ACDC - T.N.T..lrc'' = Some (lrc_text SyncedLyrics sample_song)"
    by (simp add: c p Let_def)
  with w show ?thesis by blast
qed

theorem WriteLRC_failure_is_not_partial_witness:
  "\<exists>e fs'. sample_write rename_fault = (Inl e, fs') \<and> rename_error e \<and>
     file_at sample_files ''lyrics/ACDC - T.N.T..lrc'' = Some ''old'' \<and>
     file_at fs' ''lyrics/ACDC - T.N.T..lrc'' = None"
proof -
  obtain e fs' where w: "sample_write rename_fault = (Inl e, fs')"
    using sample_writes(3) by (cases "sample_write rename_fault"; cases "fst (sample_write rename_fault)") auto
  have lost: "file_at fs' ''lyrics/ACDC - T.N.T..lrc'' = None" using sample_writes(4) by (simp add: w)
  have old: "file_at sample_files ''lyrics/ACDC - T.N.T..lrc'' = Some ''old''" by code_simp
  from WriteLRC_failure_is_not_partial [OF w] obtain tmp where
    tmp: "rename_fault 6 = None \<longrightarrow> file_at fs' tmp = file_at sample_files tmp"
    and other: "Clean ''lyrics/ACDC - T.N.T..lrc'' \<noteq> Clean tmp \<longrightarrow>
        file_at fs' ''lyrics/ACDC - T.N.T..lrc'' = file_at sample_files ''lyrics/ACDC - T.N.T..lrc'' \<or> rename_error e"
    by metis
  have "rename_fault 6 = None" by (simp add: rename_fault_def)
  with tmp lost old have "Clean ''lyrics/ACDC - T.N.T..lrc'' \<noteq> Clean tmp" by (auto simp: file_at_def)
  with other lost old have "rename_error e" by auto
  with w lost old show ?thesis by blast
qed

end
