(* ===== verification/Service.thy ===== *)
theory Service
  imports Worker_Contract Queue_Claims Lyrics_Cache Lyrics_Writer
begin

text \<open>
  The running worker of \<open>serve\<close>: the worker of \<open>internal/worker\<close> on the durable queue, the cache and
  the file writer, with the network, the clocks and every driver and system-call error as functions
  of the number of the call. The contract of the worker is instantiated here.
\<close>

section \<open>The environment and the state\<close>

text \<open>
  \<open>se_elapse\<close> is the time that passes at a call, \<open>se_dbt\<close> what SQL's clock reads; \<open>se_fetch\<close> and
  \<open>se_verify\<close> are the answers of the network.
\<close>

record sys_env =
  se_io :: "nat \<Rightarrow> io"
  se_elapse :: "nat \<Rightarrow> int"
  se_dbt :: "nat \<Rightarrow> int"
  se_u :: unicode_env
  se_rnd :: "rat \<Rightarrow> rat"
  se_codec :: song_codec
  se_rand :: "nat \<Rightarrow> nat \<Rightarrow> string"
  se_tempdir :: string
  se_fetch :: "nat \<Rightarrow> Track \<Rightarrow> Song res"
  se_verify :: "(nat \<Rightarrow> string \<Rightarrow> Song \<Rightarrow> VerifyResult res) option"
  se_queue :: DBQueue
  se_open :: int

record sys =
  sy_db :: db
  sy_files :: files
  sy_now :: int
  sy_calls :: nat

definition tick :: "sys_env \<Rightarrow> sys \<Rightarrow> sys" where
  "tick E s = s\<lparr>sy_calls := sy_calls s + 1, sy_now := sy_now s + \<bar>se_elapse E (sy_calls s)\<bar>\<rparr>"

definition on_db :: "sys_env \<Rightarrow> (io \<Rightarrow> int \<Rightarrow> int \<Rightarrow> db \<Rightarrow> 'a res \<times> db) \<Rightarrow> sys \<Rightarrow> 'a res \<times> sys" where
  "on_db E f s =
     (case f (se_io E (sy_calls s)) (sy_now s) (se_dbt E (sy_calls s)) (sy_db s) of
        (r, d) \<Rightarrow> (r, (tick E s)\<lparr>sy_db := d\<rparr>))"

definition service_queue :: "sys_env \<Rightarrow> sys QueueIf" where
  "service_queue E =
     \<lparr>qi_Dequeue = on_db E Dequeue,
      qi_Complete = (\<lambda>i. on_db E (\<lambda>io now dbt. Complete io now dbt i)),
      qi_Fail = (\<lambda>i cause. on_db E (\<lambda>io now dbt. Fail (se_queue E) io now dbt i (Some cause))),
      qi_Release = (\<lambda>i. on_db E (\<lambda>io now dbt. Release io dbt i))\<rparr>"

definition service_cache :: "sys_env \<Rightarrow> sys CacheIf" where
  "service_cache E =
     \<lparr>ca_LookupExact = (\<lambda>a t al. on_db E (\<lambda>io now dbt d. (LookupExact (se_u E) io a t al d, d))),
      ca_LookupFallback = (\<lambda>a t. on_db E (\<lambda>io now dbt d. (LookupFallback (se_u E) io a t d, d))),
      ca_Store = (\<lambda>a t al l. on_db E (\<lambda>io now dbt. CacheStore (se_u E) io dbt a t al l))\<rparr>"

definition service_fetch :: "sys_env \<Rightarrow> sys fetch_fn" where
  "service_fetch E track s = (se_fetch E (sy_calls s) track, tick E s)"

definition service_write :: "sys_env \<Rightarrow> sys write_fn" where
  "service_write E sg fn dir s =
     (case WriteLRC (se_u E) (se_rand E (sy_calls s)) (se_tempdir E) (se_io E (sy_calls s)) sg fn dir (sy_files s) of
        (r, fs) \<Rightarrow> (r, (tick E s)\<lparr>sy_files := fs\<rparr>))"

definition service_verify :: "sys_env \<Rightarrow> sys verify_fn option" where
  "service_verify E =
     map_option (\<lambda>f path sg s. (f (sy_calls s) path sg, tick E s)) (se_verify E)"

text \<open>
  \<open>sleepCtx\<close>: the timer. When the context ends first, the clock stands earlier than here, and whoever slept
  looks at the context next.
\<close>

definition sleepCtx :: "int \<Rightarrow> sys \<Rightarrow> sys" where
  "sleepCtx d s = (if d \<le> 0 then s else s\<lparr>sy_now := sy_now s + d\<rparr>)"

lemma sleepCtx_simps [simp]:
  "sy_db (sleepCtx d s) = sy_db s" "sy_now (sleepCtx d s) = sy_now s + max 0 d"
  "sy_files (sleepCtx d s) = sy_files s" "sy_calls (sleepCtx d s) = sy_calls s"
  by (simp_all add: sleepCtx_def)

text \<open>The worker as \<open>runServe\<close> builds it, with the counters it has reached.\<close>

definition service_worker :: "sys_env \<Rightarrow> float64 \<Rightarrow> int \<Rightarrow> int option \<Rightarrow> sys Worker" where
  "service_worker E minConf failures until =
     (let w = NewWorker (se_rnd E) (service_queue E) (service_cache E) (service_fetch E) (service_write E)
                sy_now sleepCtx;
          w = SetCircuitOpenDuration (se_open E) w;
          w = (case service_verify E of None \<Rightarrow> w | Some v \<Rightarrow> EnableVerification v minConf w)
      in w\<lparr>wk_consecutiveFailures := failures, wk_circuitOpenUntil := until\<rparr>)"

lemma service_worker_deps [simp]:
  "wk_queue (service_worker E c n t) = service_queue E"
  "wk_cache (service_worker E c n t) = service_cache E"
  "wk_fetcher (service_worker E c n t) = service_fetch E"
  "wk_writer (service_worker E c n t) = service_write E"
  "wk_verifier (service_worker E c n t) = service_verify E"
  "wk_consecutiveFailures (service_worker E c n t) = n"
  "wk_circuitOpenUntil (service_worker E c n t) = t"
  "wk_now (service_worker E c n t) = sy_now"
  by (simp_all add: service_worker_def Let_def NewWorker_def SetCircuitOpenDuration_def EnableVerification_def
      split: option.splits)

section \<open>What the operations leave of the queue\<close>

lemma tick_db [simp]: "sy_db (tick E s) = sy_db s" "sy_files (tick E s) = sy_files s"
  by (simp_all add: tick_def)

lemma on_db_eq:
  "on_db E f s = (r, s') \<Longrightarrow>
   \<exists>d. f (se_io E (sy_calls s)) (sy_now s) (se_dbt E (sy_calls s)) (sy_db s) = (r, d) \<and>
       sy_db s' = d \<and> sy_files s' = sy_files s"
  by (auto simp: on_db_def split: prod.splits)

definition row_at :: "sys \<Rightarrow> int \<Rightarrow> wq_row option" where
  "row_at s = row_of (sy_db s)"

definition row_status :: "sys \<Rightarrow> int \<Rightarrow> status option" where
  "row_status s = status_of (sy_db s)"

definition sound :: "sys \<Rightarrow> bool" where
  "sound s \<longleftrightarrow> queue_ok (sy_db s)"

text \<open>A song stands at an output: the file is there with the song's text.\<close>

definition on_disk :: "sys_env \<Rightarrow> sys \<Rightarrow> Song \<Rightarrow> string \<Rightarrow> string \<Rightarrow> bool" where
  "on_disk E s sg fn dir \<longleftrightarrow>
     (\<exists>c. content_of sg = Some c \<and>
        file_at (sy_files s) (output_path (se_u E) sg fn dir c) = Some (lrc_text c sg))"

lemma readable_update:
  assumes "all_readable d" "\<And>r. wq_output_paths (f r) = wq_output_paths r"
  shows "all_readable (wq_update dbt P f d)"
  using assms by (simp add: all_readable_def wq_update_def ball_sql_update readable_def)

text \<open>Of the rows only that of \<open>i\<close> may differ, and it has the status \<open>x\<close>.\<close>

definition row_moved :: "db \<Rightarrow> db \<Rightarrow> int \<Rightarrow> status \<Rightarrow> bool" where
  "row_moved d d' i x \<longleftrightarrow> (\<exists>y. row_of d' = (row_of d)(i \<mapsto> y) \<and> wq_status y = x)"

lemma row_moved_status: "row_moved d d' i x \<Longrightarrow> status_of d' = (status_of d)(i \<mapsto> x)"
  by (auto simp: row_moved_def status_of_def [abs_def])

lemma row_update:
  assumes "\<And>r. wq_id (f r) = wq_id r" "\<And>r. wq_status (f r) = st" "status_of d i = Some Processing"
  shows "row_moved d (wq_update dbt (in_processing i) f d) i st"
proof -
  from assms(3) obtain r where r: "row_of d i = Some r" "wq_status r = Processing"
    by (auto simp: status_of_Some)
  have "row_of (wq_update dbt (in_processing i) f d) = (row_of d)(i \<mapsto> (f r)\<lparr>wq_updated_at := dbt\<rparr>)"
  proof
    show "row_of (wq_update dbt (in_processing i) f d) j = ((row_of d)(i \<mapsto> (f r)\<lparr>wq_updated_at := dbt\<rparr>)) j" for j
      using row_of_update_processing [of f, OF assms(1)] r by (cases "j = i") simp_all
  qed
  then show ?thesis using assms(2) by (auto simp: row_moved_def)
qed

lemma row_of_sr_update [simp]: "row_of (sr_update P f d) = row_of d"
  by (simp add: row_of_def [abs_def])

lemma Dequeue_sound:
  assumes "queue_ok d" "Dequeue io now dbt d = (r, d')"
  shows "queue_ok d' \<and>
    (case r of Inl e \<Rightarrow> d' = d
     | Inr item \<Rightarrow> (\<exists>x. dequeue_pick (formatTime now) d = Some x \<and> scanWorkItem (claimed x) = Inr item \<and> wi_ID item = wq_id x \<and>
         row_of d (wi_ID item) = Some x \<and> retryable x) \<and> row_moved d d' (wi_ID item) Processing \<and> lyrics_cache d' = lyrics_cache d)"
proof (cases r)
  case (Inl e)
  have "readable (claimed x)" if "dequeue_pick (formatTime now) d = Some x" for x
    using assms(1) dequeue_pick_ready [OF that]
    by (simp add: queue_ok_def all_readable_def readable_def claimed_def)
  then have "\<exists>item. scanWorkItem (claimed x) = Inr item" if "dequeue_pick (formatTime now) d = Some x" for x
    using that scanWorkItem_total by blast
  with assms Inl show ?thesis
    by (fastforce simp: Dequeue_def Let_def query_row_def claimed_def split: option.splits sum.splits if_splits)
next
  case (Inr item)
  with assms(2) obtain x where x: "dequeue_pick (formatTime now) d = Some x"
    "scanWorkItem (claimed x) = Inr item" "d' = wq_update dbt (\<lambda>y. wq_id y = wq_id x) claimed d"
    by (auto simp: Dequeue_ok)
  have mem: "x \<in> set (work_queue d)" "retryable x"
    using dequeue_pick_ready [OF x(1)] by (auto simp: ready_def)
  have wf: "db_wf d" using assms(1) by (simp add: queue_ok_def)
  have id: "wi_ID item = wq_id x" using scanWorkItem_fields [OF x(2)] by (simp add: claimed_def)
  have "row_of d (wq_id x) = Some x" using mem row_of_Some [OF wf] by simp
  moreover have "row_of d' = (row_of d)(wq_id x \<mapsto> x\<lparr>wq_status := Processing, wq_updated_at := dbt\<rparr>)"
    using row_of_claimed [OF wf mem(1)] by (auto simp: x(3))
  then have "row_moved d d' (wi_ID item) Processing" by (auto simp: row_moved_def id)
  moreover have "lyrics_cache d' = lyrics_cache d" by (simp add: x(3))
  moreover have "queue_ok d'"
    using Dequeue_wf [OF wf, of io now dbt] assms readable_claimed by (simp add: queue_ok_def x(3))
  ultimately show ?thesis using x(1,2) mem(2) by (simp add: Inr id)
qed

lemma Complete_sound:
  assumes "queue_ok d" "Complete io now dbt i d = (r, d')"
  shows "queue_ok d' \<and>
    (case r of Inl e \<Rightarrow> d' = d
     | Inr _ \<Rightarrow> status_of d i = Some Processing \<and> row_moved d d' i Done)"
proof (cases r)
  case (Inl e)
  with assms Complete_atomic [of io now dbt i] show ?thesis by (auto simp: atomic_def)
next
  case (Inr x)
  have wf: "db_wf d" using assms(1) by (simp add: queue_ok_def)
  from Complete_ok [of io now dbt i d d'] assms(2) Inr
  have n: "sql_count (in_processing i) (work_queue d) \<noteq> 0"
    and d': "d' = sr_update (\<lambda>s. (i, sc_id s) \<in> set (junction d) \<and> sc_status s \<noteq> Done) (\<lambda>s. s\<lparr>sc_status := Done\<rparr>)
            (wq_update dbt (in_processing i) (completed (formatTime now)) d)"
    by auto
  have st: "status_of d i = Some Processing"
    using n count_processing_nonzero [OF wf] by (simp add: status_of_Some)
  have "all_readable (wq_update dbt (in_processing i) (completed (formatTime now)) d)"
    using assms(1) by (intro readable_update) (auto simp: queue_ok_def completed_def)
  then have "all_readable d'" by (simp add: d' all_readable_def)
  moreover have "db_wf d'" using Complete_wf [OF wf, of io now dbt i] assms(2) by simp
  moreover have "row_moved d d' i Done"
    unfolding d' row_moved_def row_of_sr_update
    using row_update [OF _ _ st, of "completed (formatTime now)" Done dbt] by (simp add: completed_def row_moved_def)
  ultimately show ?thesis using st by (simp add: Inr queue_ok_def)
qed

lemma Fail_sound:
  assumes "queue_ok d" "Fail q io now dbt i c d = (r, d')"
  shows "queue_ok d' \<and> (case r of Inl e \<Rightarrow> d' = d
     | Inr _ \<Rightarrow> status_of d i = Some Processing \<and> row_moved d d' i Failed)"
proof (cases r)
  case (Inl e)
  with assms Fail_atomic [of q io now dbt i c] show ?thesis by (auto simp: atomic_def)
next
  case (Inr x)
  have wf: "db_wf d" using assms(1) by (simp add: queue_ok_def)
  from assms(2) Inr obtain y where y: "find (in_processing i) (work_queue d) = Some y"
    "d' = wq_update dbt (in_processing i) (fail_upd q now c (wq_attempts y + 1)) d"
    by (auto elim: Fail_ok)
  have st: "status_of d i = Some Processing"
    using y(1) by (simp add: in_processing_row [OF wf] status_of_Some)
  have "all_readable d'"
    unfolding y(2) using assms(1) by (intro readable_update) (auto simp: queue_ok_def fail_upd_def)
  moreover have "db_wf d'" using Fail_wf [OF wf, of q io now dbt i c] assms(2) by simp
  moreover have "row_moved d d' i Failed"
    unfolding y(2) by (rule row_update [OF _ _ st]) (simp_all add: fail_upd_def)
  ultimately show ?thesis using st by (simp add: Inr queue_ok_def)
qed

lemma Release_sound:
  assumes "queue_ok d" "Release io dbt i d = (r, d')"
  shows "queue_ok d' \<and> (case r of
       Inl e \<Rightarrow> row_of d' = row_of d \<or> row_moved d d' i Pending
     | Inr _ \<Rightarrow> status_of d i = Some Processing \<and> row_moved d d' i Pending)"
proof -
  have wf: "db_wf d" using assms(1) by (simp add: queue_ok_def)
  have "db_wf d'" using Release_wf [OF wf, of io dbt i] assms(2) by simp
  moreover consider "d' = d" "\<not> is_ok r" | "d' = wq_update dbt (in_processing i) released d"
    using assms(2) by (auto simp: Release_def Let_def drv_def released_def [abs_def] is_ok_def split: option.splits)
  then have "all_readable d' \<and> (row_of d' = row_of d \<or> row_moved d d' i Pending)"
  proof cases
    case 1
    with assms(1) show ?thesis by (simp add: queue_ok_def)
  next
    case 2
    have "all_readable d'"
      unfolding 2 using assms(1) by (intro readable_update) (auto simp: queue_ok_def released_def)
    moreover have "row_of d' = row_of d" if "status_of d i \<noteq> Some Processing"
    proof -
      have "\<not> in_processing i x" if "x \<in> set (work_queue d)" for x
        using \<open>status_of d i \<noteq> Some Processing\<close> that row_of_Some [OF wf, of i x]
        by (auto simp: in_processing_def status_of_def)
      then show ?thesis by (simp add: 2 wq_update_none)
    qed
    moreover have "row_moved d d' i Pending" if "status_of d i = Some Processing"
      unfolding 2 by (rule row_update [OF _ _ that]) (simp_all add: released_def)
    ultimately show ?thesis by metis
  qed
  moreover have "status_of d i = Some Processing \<and> row_moved d d' i Pending" if "r = Inr ()"
  proof -
    from Release_ok [of io dbt i d d'] assms(2) that
    have n: "sql_count (in_processing i) (work_queue d) \<noteq> 0"
      and d': "d' = wq_update dbt (in_processing i) released d" by auto
    have st: "status_of d i = Some Processing"
      using n count_processing_nonzero [OF wf] by (simp add: status_of_Some)
    then show ?thesis
      unfolding d' using row_update [OF _ _ st, of released Pending dbt] by (simp add: released_def)
  qed
  ultimately show ?thesis by (cases r) (auto simp: queue_ok_def)
qed

lemma CacheStore_queue: "CacheStore u io dbt a t al l d = (r, d') \<Longrightarrow> work_queue d' = work_queue d"
  by (auto simp: CacheStore_def drv_def Let_def split: option.splits if_splits)

lemma CacheStore_sound:
  assumes "queue_ok d" "CacheStore u io dbt a t al l d = (r, d')"
  shows "queue_ok d' \<and> row_of d' = row_of d"
  using assms CacheStore_queue [OF assms(2)] CacheStore_wf [of d u io dbt a t al l]
  by (auto simp: queue_ok_def all_readable_def row_of_def [abs_def])

section \<open>The service meets the worker's laws\<close>

text \<open>Every call keeps the queue sound.\<close>

interpretation calls: worker_calls "service_worker E minConf 0 None" sound for E minConf
proof
  fix s s' :: sys and x1 :: "WorkItem res" and c :: goerr and i :: int and xs :: "unit res"
    and a t al l p fn dir :: string and r :: "string res" and tr :: Track
    and f :: "Song res" and v :: "sys verify_fn" and sg :: Song and vr :: "VerifyResult res"
  assume s: "sound s"
  then have q: "queue_ok (sy_db s)" by (simp add: sound_def)
  let ?q = "wk_queue (service_worker E minConf 0 None)" and ?c = "wk_cache (service_worker E minConf 0 None)"
  show "sound s'" if "qi_Dequeue ?q s = (x1, s')"
    using on_db_eq [of E Dequeue s x1 s'] that Dequeue_sound [OF q] by (fastforce simp: service_queue_def sound_def)
  show "sound s'" if "qi_Complete ?q i s = (xs, s')"
    using on_db_eq [of E "\<lambda>io now dbt. Complete io now dbt i" s xs s'] that Complete_sound [OF q]
    by (fastforce simp: service_queue_def sound_def)
  show "sound s'" if "qi_Fail ?q i c s = (x1, s')"
    using on_db_eq [of E "\<lambda>io now dbt. Fail (se_queue E) io now dbt i (Some c)" s x1 s'] that Fail_sound [OF q]
    by (fastforce simp: service_queue_def sound_def)
  show "sound s'" if "qi_Release ?q i s = (xs, s')"
    using on_db_eq [of E "\<lambda>io now dbt. Release io dbt i" s xs s'] that Release_sound [OF q]
    by (fastforce simp: service_queue_def sound_def)
  show "sound s'" if "ca_LookupExact ?c a t al s = (r, s')"
    using on_db_eq [of E "\<lambda>io now dbt d. (LookupExact (se_u E) io a t al d, d)" s r s'] that q
    by (auto simp: service_cache_def sound_def)
  show "sound s'" if "ca_LookupFallback ?c a t s = (r, s')"
    using on_db_eq [of E "\<lambda>io now dbt d. (LookupFallback (se_u E) io a t d, d)" s r s'] that q
    by (auto simp: service_cache_def sound_def)
  show "sound s'" if "ca_Store ?c a t al l s = (xs, s')"
    using on_db_eq [of E "\<lambda>io now dbt. CacheStore (se_u E) io dbt a t al l" s xs s'] that CacheStore_sound [OF q]
    by (fastforce simp: service_cache_def sound_def)
  show "sound s'" if "wk_fetcher (service_worker E minConf 0 None) tr s = (f, s')"
    using that s by (auto simp: service_fetch_def sound_def)
  show "sound s'" if "wk_verifier (service_worker E minConf 0 None) = Some v" "v p sg s = (vr, s')"
    using that s by (auto simp: service_verify_def sound_def)
  show "sound s'" if "wk_writer (service_worker E minConf 0 None) sg fn dir s = (xs, s')"
    using that s by (auto simp: service_write_def sound_def split: prod.splits)
qed

text \<open>The item is the one of the row that the queue hands out, and the row is claimed.\<close>

lemma service_claim:
  assumes "sound s" "qi_Dequeue (service_queue E) s = (Inr item, s')"
  shows "sound s' \<and> row_moved (sy_db s) (sy_db s') (wi_ID item) Processing \<and> lyrics_cache (sy_db s') = lyrics_cache (sy_db s) \<and>
    sy_files s' = sy_files s \<and> (\<exists>x. dequeue_pick (formatTime (sy_now s)) (sy_db s) = Some x \<and> scanWorkItem (claimed x) = Inr item \<and>
      wi_ID item = wq_id x \<and> row_at s (wi_ID item) = Some x \<and> retryable x)"
  using on_db_eq [of E Dequeue s "Inr item" s'] assms Dequeue_sound [of "sy_db s"]
  by (fastforce simp: service_queue_def sound_def row_at_def)

interpretation svc: worker_env "service_worker E minConf 0 None" sound row_at wq_status "on_disk E" for E minConf
proof
  fix s s' :: sys and item it :: WorkItem and e c :: goerr and i :: int and x :: unit
    and a t al l p fn dir :: string and r :: "string res" and xs :: "unit res" and tr :: Track
    and f :: "Song res" and v :: "sys verify_fn" and sg :: Song and vr :: "VerifyResult res" and y :: unit
  assume s: "sound s"
  then have q: "queue_ok (sy_db s)" by (simp add: sound_def)
  let ?q = "wk_queue (service_worker E minConf 0 None)" and ?c = "wk_cache (service_worker E minConf 0 None)"
  show "\<exists>x y. row_at s (wi_ID item) = Some x \<and> (wq_status x = Pending \<or> wq_status x = Failed) \<and>
      row_at s' = (row_at s)(wi_ID item \<mapsto> y) \<and> wq_status y = Processing"
    if "qi_Dequeue ?q s = (Inr item, s')"
    using service_claim [OF s, of E item s'] that by (auto simp: row_moved_def row_at_def retryable_def)
  show "row_at s' = row_at s" if "qi_Dequeue ?q s = (Inl e, s')"
    using on_db_eq [of E Dequeue s "Inl e" s'] that Dequeue_sound [OF q]
    by (fastforce simp: service_queue_def row_at_def)
  show "(\<exists>y. row_at s' = (row_at s)(i \<mapsto> y) \<and> wq_status y = Done) \<and> on_disk E s' = on_disk E s"
    if "qi_Complete ?q i s = (Inr x, s')"
    using on_db_eq [of E "\<lambda>io now dbt. Complete io now dbt i" s "Inr x" s'] that Complete_sound [OF q]
    by (fastforce simp: service_queue_def row_at_def row_moved_def on_disk_def [abs_def])
  show "row_at s' = row_at s" if "qi_Complete ?q i s = (Inl e, s')"
    using on_db_eq [of E "\<lambda>io now dbt. Complete io now dbt i" s "Inl e" s'] that Complete_sound [OF q]
    by (fastforce simp: service_queue_def row_at_def)
  show "\<exists>y. row_at s' = (row_at s)(i \<mapsto> y) \<and> wq_status y = Failed" if "qi_Fail ?q i c s = (Inr it, s')"
    using on_db_eq [of E "\<lambda>io now dbt. Fail (se_queue E) io now dbt i (Some c)" s "Inr it" s'] that Fail_sound [OF q]
    by (fastforce simp: service_queue_def row_at_def row_moved_def)
  show "row_at s' = row_at s" if "qi_Fail ?q i c s = (Inl e, s')"
    using on_db_eq [of E "\<lambda>io now dbt. Fail (se_queue E) io now dbt i (Some c)" s "Inl e" s'] that Fail_sound [OF q]
    by (fastforce simp: service_queue_def row_at_def)
  show "\<exists>y. row_at s' = (row_at s)(i \<mapsto> y) \<and> wq_status y = Pending" if "qi_Release ?q i s = (Inr x, s')"
    using on_db_eq [of E "\<lambda>io now dbt. Release io dbt i" s "Inr x" s'] that Release_sound [OF q]
    by (fastforce simp: service_queue_def row_at_def row_moved_def)
  show "row_at s' = row_at s \<or> (\<exists>y. row_at s' = (row_at s)(i \<mapsto> y) \<and> wq_status y = Pending)"
    if "qi_Release ?q i s = (Inl e, s')"
    using on_db_eq [of E "\<lambda>io now dbt. Release io dbt i" s "Inl e" s'] that Release_sound [OF q]
    by (fastforce simp: service_queue_def row_at_def row_moved_def)
  show "row_at s' = row_at s" if "ca_LookupExact ?c a t al s = (r, s')"
    using on_db_eq [of E "\<lambda>io now dbt d. (LookupExact (se_u E) io a t al d, d)" s r s'] that
    by (auto simp: service_cache_def row_at_def)
  show "row_at s' = row_at s" if "ca_LookupFallback ?c a t s = (r, s')"
    using on_db_eq [of E "\<lambda>io now dbt d. (LookupFallback (se_u E) io a t d, d)" s r s'] that
    by (auto simp: service_cache_def row_at_def)
  show "row_at s' = row_at s" if "ca_Store ?c a t al l s = (xs, s')"
    using on_db_eq [of E "\<lambda>io now dbt. CacheStore (se_u E) io dbt a t al l" s xs s'] that CacheStore_sound [OF q]
    by (fastforce simp: service_cache_def row_at_def)
  show "row_at s' = row_at s" if "wk_fetcher (service_worker E minConf 0 None) tr s = (f, s')"
    using that by (auto simp: service_fetch_def row_at_def)
  show "row_at s' = row_at s"
    if "wk_verifier (service_worker E minConf 0 None) = Some v" "v p sg s = (vr, s')"
    using that by (auto simp: service_verify_def row_at_def)
  show "row_at s' = row_at s" if "wk_writer (service_worker E minConf 0 None) sg fn dir s = (xs, s')"
    using that by (auto simp: service_write_def row_at_def split: prod.splits)
  show "on_disk E s' sg fn dir" if "wk_writer (service_worker E minConf 0 None) sg fn dir s = (Inr y, s')"
  proof -
    from that obtain fs where w: "WriteLRC (se_u E) (se_rand E (sy_calls s)) (se_tempdir E) (se_io E (sy_calls s)) sg fn dir
        (sy_files s) = (Inr (), fs)" "sy_files s' = fs"
      by (auto simp: service_write_def split: prod.splits)
    from published_file [OF w(1)] w(2) show ?thesis by (auto simp: on_disk_def)
  qed
qed

lemma moved_status: "svc.moved s s' i x \<Longrightarrow> row_status s' = (row_status s)(i \<mapsto> x)"
  by (auto simp: svc.moved_def row_status_def row_at_def status_of_def [abs_def])

section \<open>One round of the service\<close>

definition service_round ::
  "sys_env \<Rightarrow> (sys \<Rightarrow> goerr option) \<Rightarrow> sys Worker \<Rightarrow> sys \<Rightarrow> unit res \<times> sys Worker \<times> sys"
where
  "service_round E ctxErr = RunOnce (se_rnd E) (se_u E) (se_codec E) ctxErr"

lemma service_deps: "calls.same_deps E minConf (service_worker E minConf n t)"
  by (simp add: calls.same_deps_def)

text \<open>
  Where a song can come from: an entry of the cache for the artist and title, read as the code reads it, or an
  answer of the network for this very track.
\<close>

definition provided :: "sys_env \<Rightarrow> db \<Rightarrow> Track \<Rightarrow> Song \<Rightarrow> bool" where
  "provided E d tr sg \<longleftrightarrow>
     (\<exists>c\<in>set (lyrics_cache d). lc_artist c = NormalizeKey (se_u E) (tr_ArtistName tr) \<and>
        lc_title c = NormalizeKey (se_u E) (tr_TrackName tr) \<and> sg = decodeSong (se_codec E) (lc_lyrics c) tr) \<or>
     (\<exists>k. se_fetch E k tr = Inr sg)"

lemma LookupExact_entry:
  assumes "LookupExact u io a t al d = Inr l"
  shows "\<exists>c\<in>set (lyrics_cache d). lc_artist c = NormalizeKey u a \<and> lc_title c = NormalizeKey u t \<and> lc_lyrics c = l"
  using assms by (auto simp: LookupExact_def query_row_def lc_key_def cache_key_def find_Some_iff2
      split: sum.splits option.splits if_splits dest!: find_in_set)

lemma LookupFallback_entry:
  assumes "LookupFallback u io a t d = Inr l"
  shows "\<exists>c\<in>set (lyrics_cache d). lc_artist c = NormalizeKey u a \<and> lc_title c = NormalizeKey u t \<and> lc_lyrics c = l"
  using assms by (auto simp: LookupFallback_def query_row_def same_song_def
      split: sum.splits option.splits if_splits dest!: first_row_order_by)

lemma song_provided:
  assumes "song (se_codec E) (service_worker E c n t) tr s = (Inr (sg, hit), s')"
  shows "provided E (sy_db s) tr sg"
proof -
  obtain x1 s1 where e: "on_db E (\<lambda>io now dbt d. (LookupExact (se_u E) io (tr_ArtistName tr) (tr_TrackName tr) (tr_AlbumName tr) d, d)) s = (x1, s1)"
    by fastforce
  obtain x2 s2 where f: "on_db E (\<lambda>io now dbt d. (LookupFallback (se_u E) io (tr_ArtistName tr) (tr_TrackName tr) d, d)) s1 = (x2, s2)"
    by fastforce
  note exact = on_db_eq [OF e] and fallback = on_db_eq [OF f]
  show ?thesis
  proof (cases x1)
    case (Inr l)
    with assms e have "sg = decodeSong (se_codec E) l tr" by (simp add: song_def service_cache_def)
    moreover from exact Inr LookupExact_entry obtain c where "c \<in> set (lyrics_cache (sy_db s))"
      "lc_artist c = NormalizeKey (se_u E) (tr_ArtistName tr)" "lc_title c = NormalizeKey (se_u E) (tr_TrackName tr)" "lc_lyrics c = l"
      by (metis prod.inject)
    ultimately show ?thesis unfolding provided_def by blast
  next
    case x1: (Inl e1)
    show ?thesis
    proof (cases x2)
      case (Inr l)
      with assms e f x1 have "sg = decodeSong (se_codec E) l tr" by (simp add: song_def service_cache_def split: if_splits)
      moreover have "sy_db s1 = sy_db s" using exact by auto
      with fallback Inr LookupFallback_entry obtain c where "c \<in> set (lyrics_cache (sy_db s))"
        "lc_artist c = NormalizeKey (se_u E) (tr_ArtistName tr)" "lc_title c = NormalizeKey (se_u E) (tr_TrackName tr)" "lc_lyrics c = l"
        by (metis prod.inject)
      ultimately show ?thesis unfolding provided_def by blast
    next
      case (Inl e2)
      with assms e f x1 have "se_fetch E (sy_calls s2) tr = Inr sg"
        by (auto simp: song_def service_cache_def service_fetch_def split: if_splits sum.splits)
      then show ?thesis unfolding provided_def by blast
    qed
  qed
qed

text \<open>
  C21. One RunOnce of the service changes at most one row of the queue, the one that Dequeue hands out first,
  and leaves every other row as it was. If it returns nil or reports an empty queue, that row does not stay
  in processing: it is done, with the failure counter reset and, in the file of the last of its own output
  paths, the lyrics of a song that the cache had or the network gave for its own track; or failed, with the
  failure counted; or, with the circuit open, pending again. A row can be stranded in processing only by a
  round that returns another error.
\<close>
theorem RunOnce_settles_its_row:
  assumes "queue_ok (sy_db s)"
    and "service_round E ctxErr (service_worker E minConf n t) s = (r, w', s')"
  shows "queue_ok (sy_db s') \<and>
    ((row_of (sy_db s') = row_of (sy_db s) \<and> r \<noteq> Inr () \<and> wk_consecutiveFailures w' = n) \<or>
     (\<exists>x item y. dequeue_pick (formatTime (sy_now s)) (sy_db s) = Some x \<and> scanWorkItem (claimed x) = Inr item \<and>
       retryable x \<and> row_of (sy_db s') = (row_of (sy_db s))(wq_id x \<mapsto> y) \<and>
       ((r = Inr () \<and> wq_status y = Done \<and> wk_consecutiveFailures w' = 0 \<and>
           (\<exists>sg p. provided E (sy_db s) (in_Track (wi_Inputs item)) sg \<and> p = last (outputPaths (wi_Inputs item)) \<and>
              on_disk E s' sg (op_Filename p) (op_Outdir p))) \<or>
        (wq_status y = Failed \<and> wk_consecutiveFailures w' = n + 1) \<or>
        (wq_status y = Pending \<and> wk_circuitOpenUntil w' \<noteq> None \<and> wk_consecutiveFailures w' = n \<and> r \<noteq> Inr ()) \<or>
        (wq_status y = Processing \<and> r \<noteq> Inr () \<and> r \<noteq> Inl (Sen ErrQueueEmpty)))))"
proof -
  have i: "sound s" using assms(1) by (simp add: sound_def)
  note run = assms(2) [unfolded service_round_def]
  have ok: "queue_ok (sy_db s')"
    using calls.RunOnce_inv [OF service_deps i run] by (simp add: sound_def)
  from svc.RunOnce_contract [OF service_deps i run]
  consider "row_at s' = row_at s" "r \<noteq> Inr ()" "wk_consecutiveFailures w' = n"
    | item sc where "qi_Dequeue (service_queue E) s = (Inr item, sc)"
      "svc.outcome E minConf (se_codec E) item sc ((service_worker E minConf n t)\<lparr>wk_circuitOpenUntil := None\<rparr>) s r w' s'"
    by auto
  then show ?thesis
  proof cases
    case 1
    with ok show ?thesis by (simp add: row_at_def)
  next
    case 2
    from service_claim [OF i 2(1)] obtain x where x: "dequeue_pick (formatTime (sy_now s)) (sy_db s) = Some x"
      "scanWorkItem (claimed x) = Inr item" "wi_ID item = wq_id x" "retryable x" and lc: "lyrics_cache (sy_db sc) = lyrics_cache (sy_db s)"
      by blast
    have pr: "\<exists>sg p. provided E (sy_db s) (in_Track (wi_Inputs item)) sg \<and> p = last (outputPaths (wi_Inputs item)) \<and>
        on_disk E s' sg (op_Filename p) (op_Outdir p)" if "svc.published E minConf (se_codec E) sc item s'"
      using that song_provided [where s = sc] lc unfolding svc.published_def provided_def by fastforce
    from 2(2) obtain y where "row_of (sy_db s') = (row_of (sy_db s))(wq_id x \<mapsto> y)"
      "(r = Inr () \<and> wq_status y = Done \<and> wk_consecutiveFailures w' = 0 \<and> svc.published E minConf (se_codec E) sc item s') \<or>
        (wq_status y = Failed \<and> wk_consecutiveFailures w' = n + 1) \<or>
        (wq_status y = Pending \<and> wk_circuitOpenUntil w' \<noteq> None \<and> wk_consecutiveFailures w' = n \<and> r \<noteq> Inr ()) \<or>
        (wq_status y = Processing \<and> r \<noteq> Inr () \<and> r \<noteq> Inl (Sen ErrQueueEmpty))"
      unfolding svc.outcome_def svc.moved_def row_at_def x(3) by auto
    with x pr ok show ?thesis by blast
  qed
qed

text \<open>Only a rate-limit signal opens the circuit.\<close>

lemma fail_item_circuit: "fail_item w item e s = (r, w', s') \<Longrightarrow> wk_circuitOpenUntil w' = wk_circuitOpenUntil w"
  by (auto simp: fail_item_def Let_def split: prod.splits sum.splits)

lemma complete_item_circuit: "complete_item w item s = (r, w', s') \<Longrightarrow> wk_circuitOpenUntil w' = wk_circuitOpenUntil w"
  by (auto simp: complete_item_def Let_def split: prod.splits sum.splits)

lemma process_item_circuit:
  assumes "process_item rnd u j w item s = (r, w', s')" "wk_circuitOpenUntil w = None" "wk_circuitOpenUntil w' \<noteq> None"
  obtains e s1 re where "song j w (in_Track (wi_Inputs item)) s = (Inl e, s1)"
    "tripCircuitIfRateLimited w item e s1 = (Some re, w', s')"
    "r = (case re of Inl e \<Rightarrow> Inl e | Inr _ \<Rightarrow> Inl (Sen ErrQueueEmpty))"
proof (cases "song j w (in_Track (wi_Inputs item)) s")
  case (Pair rs s1)
  show ?thesis
  proof (cases rs)
    case (Inl e)
    obtain tr w2 s2 where t: "tripCircuitIfRateLimited w item e s1 = (tr, w2, s2)" by (metis prod_cases3)
    show ?thesis
    proof (cases tr)
      case None
      with t have "w2 = w" by (auto simp: tripCircuitIfRateLimited_def Let_def split: if_splits prod.splits sum.splits)
      with assms Pair Inl t None show ?thesis
        by (auto simp: process_item_def dest: fail_item_circuit)
    next
      case (Some re)
      with assms(1) Pair Inl t have "w' = w2" "s' = s2" "r = (case re of Inl e \<Rightarrow> Inl e | Inr _ \<Rightarrow> Inl (Sen ErrQueueEmpty))"
        by (auto simp: process_item_def split: sum.splits)
      with that Pair Inl t Some show ?thesis by blast
    qed
  next
    case (Inr sh)
    with assms Pair have False
      by (auto simp: process_item_def Let_def split: prod.splits sum.splits option.splits if_splits
          dest: fail_item_circuit complete_item_circuit)
    then show ?thesis by blast
  qed
qed

lemma tick_now: "sy_now s \<le> sy_now (tick E s)"
  by (simp add: tick_def)

lemma on_db_now: "on_db E f s = (r, s') \<Longrightarrow> sy_now s \<le> sy_now s'"
  by (auto simp: on_db_def tick_def split: prod.splits)

lemma song_now:
  "song j (service_worker E c n t) tr s = (r, s') \<Longrightarrow> sy_now s \<le> sy_now s'"
  by (auto simp: song_def service_cache_def service_fetch_def split: prod.splits sum.splits if_splits
      dest!: on_db_now intro: order_trans [OF _ tick_now])

text \<open>
  C22. The circuit breaker: a round that opens the circuit counts no failure and marks no row failed. The
  claimed row is pending again, or, when its release failed, the round says so with an error. From then
  on, for at least the configured window, every round reports an empty queue without a call to the
  queue, the cache, the network or the disk.
\<close>
theorem circuit_breaker_holds:
  assumes "queue_ok (sy_db s)" and "0 < se_open E"
    and "service_round E ctxErr (service_worker E minConf n None) s = (r, w', s')"
    and "wk_circuitOpenUntil w' = Some t"
  shows "sy_now s + se_open E \<le> t \<and> wk_consecutiveFailures w' = n \<and>
    (\<exists>i. row_status s' = (row_status s)(i \<mapsto> Pending) \<or>
         (row_status s' = (row_status s)(i \<mapsto> Processing) \<and> r \<noteq> Inl (Sen ErrQueueEmpty))) \<and> r \<noteq> Inr () \<and>
    (\<forall>s2. ctxErr s2 = None \<and> sy_now s2 < t \<longrightarrow> service_round E ctxErr w' s2 = (Inl (Sen ErrQueueEmpty), w', s2))"
proof -
  let ?w = "service_worker E minConf n None"
  have w: "?w\<lparr>wk_circuitOpenUntil := None\<rparr> = ?w" by (simp add: service_worker_def Let_def)
  have open_for: "wk_circuitOpenDuration ?w = se_open E"
    using assms(2) by (simp add: service_worker_def Let_def NewWorker_def SetCircuitOpenDuration_def
        EnableVerification_def split: option.splits)
  note run = assms(3) [unfolded service_round_def RunOnce_def Let_def w]
  from run assms(4) obtain item s1 where
    q: "qi_Dequeue (service_queue E) s = (Inr item, s1)"
    and p: "process_item (se_rnd E) (se_u E) (se_codec E) ?w item s1 = (r, w', s')"
    by (auto split: option.splits prod.splits sum.splits if_splits)
  from service_claim [OF _ q] assms(1) have d: "sound s1" "svc.moved s s1 (wi_ID item) Processing"
    by (auto simp: sound_def row_moved_def svc.moved_def row_at_def)
  obtain e s2 re where tr: "song (se_codec E) ?w (in_Track (wi_Inputs item)) s1 = (Inl e, s2)"
    "tripCircuitIfRateLimited ?w item e s2 = (Some re, w', s')"
    "r = (case re of Inl e \<Rightarrow> Inl e | Inr _ \<Rightarrow> Inl (Sen ErrQueueEmpty))"
    using process_item_circuit [OF p] assms(4) by (metis option.distinct(1) service_worker_deps(7))
  have now: "sy_now s \<le> sy_now s2"
    using on_db_now [of E Dequeue s _ s1] q song_now [OF tr(1)] by (auto simp: service_queue_def)
  have w': "w' = ?w\<lparr>wk_circuitOpenUntil := Some (sy_now s2 + se_open E)\<rparr>"
    using tr(2) by (auto simp: tripCircuitIfRateLimited_def Let_def open_for split: if_splits prod.splits sum.splits)
  then have t: "t = sy_now s2 + se_open E" using assms(4) by simp
  have s2: "sound s2" "svc.moved s s2 (wi_ID item) Processing"
    using calls.song_inv [OF service_deps d(1) tr(1)] svc.moved_same [OF d(2) svc.song_frame [OF service_deps d(1) tr(1)]] by blast+
  have o: "svc.outcome E minConf (se_codec E) item s1 ?w s r w' s'"
    using svc.trip_outcome [OF service_deps s2 tr(2)] tr(3) by simp
  have cf: "wk_consecutiveFailures w' = n" by (simp add: w')
  from o have st: "(row_status s' = (row_status s)(wi_ID item \<mapsto> Pending) \<and> r \<noteq> Inr ()) \<or>
     (row_status s' = (row_status s)(wi_ID item \<mapsto> Processing) \<and> r \<noteq> Inr () \<and> r \<noteq> Inl (Sen ErrQueueEmpty))"
    unfolding svc.outcome_def using cf tr(3) by (cases re) (auto dest: moved_status)
  have rest: "service_round E ctxErr w' s3 = (Inl (Sen ErrQueueEmpty), w', s3)"
    if "ctxErr s3 = None" "sy_now s3 < t" for s3
    using that by (simp add: service_round_def RunOnce_def w' t)
  show ?thesis using now cf st rest t by auto
qed

section \<open>Concrete rounds\<close>

definition demo_song :: Song where
  "demo_song = zero_Song\<lparr>so_Track := zero_Track\<lparr>tr_ArtistName := ''Abba'', tr_TrackName := ''SOS''\<rparr>,
     so_LyricsBody := ''Where are those happy days''\<rparr>"

definition demo_codec :: song_codec where
  "demo_codec = \<lparr>sj_marshal = (\<lambda>s. Inr (so_LyricsBody s)), sj_unmarshal = (\<lambda>_. None)\<rparr>"

definition demo_env :: "(Track \<Rightarrow> Song res) \<Rightarrow> sys_env" where
  "demo_env fetch =
     \<lparr>se_io = (\<lambda>_. no_faults), se_elapse = (\<lambda>_. Second), se_dbt = (\<lambda>k. int k), se_u = ascii_env,
      se_rnd = fixed53, se_codec = demo_codec, se_rand = (\<lambda>_ k. Itoa (int k)), se_tempdir = ''/tmp'',
      se_fetch = (\<lambda>_. fetch), se_verify = None, se_queue = NewDBQueue, se_open = 300 * Second\<rparr>"

definition demo_sys :: sys where
  "demo_sys = \<lparr>sy_db = one_pending, sy_files = Map.empty, sy_now = 0, sy_calls = 0\<rparr>"

definition no_ctx :: "sys \<Rightarrow> goerr option" where
  "no_ctx = (\<lambda>_. None)"

abbreviation demo_round :: "(Track \<Rightarrow> Song res) \<Rightarrow> unit res \<times> sys Worker \<times> sys" where
  "demo_round fetch \<equiv> service_round (demo_env fetch) no_ctx (service_worker (demo_env fetch) (Fin 0) 0 None) demo_sys"

definition rate_limited :: "Track \<Rightarrow> Song res" where
  "rate_limited = (\<lambda>_. Inl (Errorf '''' (Sen ErrRateLimited) '': increase the cooldown time''))"

lemma demo_rounds:
  "fst (demo_round (\<lambda>_. Inr demo_song)) = Inr ()"
  "row_status (snd (snd (demo_round (\<lambda>_. Inr demo_song)))) 1 = Some Done"
  "fst (demo_round rate_limited) = Inl (Sen ErrQueueEmpty)"
  "row_status (snd (snd (demo_round rate_limited))) 1 = Some Pending"
  "wk_circuitOpenUntil (fst (snd (demo_round rate_limited))) = Some (304 * Second)"
  "wk_consecutiveFailures (fst (snd (demo_round (\<lambda>_. Inr demo_song)))) = 0"
  by code_simp+

lemma queue_ok_demo: "queue_ok (sy_db demo_sys)"
proof -
  have "\<forall>r\<in>set (work_queue one_pending). readable r" by code_simp
  then show ?thesis by (simp add: queue_ok_def all_readable_def demo_sys_def db_wf_one_pending)
qed

theorem RunOnce_settles_its_row_witness:
  "\<exists>w' s' x item y p. demo_round (\<lambda>_. Inr demo_song) = (Inr (), w', s') \<and> queue_ok (sy_db s') \<and>
     dequeue_pick (formatTime 0) one_pending = Some x \<and> scanWorkItem (claimed x) = Inr item \<and>
     row_of (sy_db s') = (row_of one_pending)(wq_id x \<mapsto> y) \<and> wq_status y = Done \<and>
     p = last (outputPaths (wi_Inputs item)) \<and> on_disk (demo_env (\<lambda>_. Inr demo_song)) s' demo_song (op_Filename p) (op_Outdir p)"
proof -
  obtain w' s' where r: "demo_round (\<lambda>_. Inr demo_song) = (Inr (), w', s')"
    using demo_rounds(1) by (cases "demo_round (\<lambda>_. Inr demo_song)") auto
  have n: "wk_consecutiveFailures w' = 0" using demo_rounds(6) by (simp add: r)
  have "lyrics_cache (sy_db demo_sys) = []" by code_simp
  then have pr: "provided (demo_env (\<lambda>_. Inr demo_song)) (sy_db demo_sys) tr sg \<Longrightarrow> sg = demo_song" for tr sg
    by (simp add: provided_def demo_env_def)
  have d: "sy_now demo_sys = 0" "sy_db demo_sys = one_pending" by (simp_all add: demo_sys_def)
  from RunOnce_settles_its_row [OF queue_ok_demo r] n have "queue_ok (sy_db s') \<and>
    (\<exists>x item y. dequeue_pick (formatTime (sy_now demo_sys)) (sy_db demo_sys) = Some x \<and> scanWorkItem (claimed x) = Inr item \<and>
       row_of (sy_db s') = (row_of (sy_db demo_sys))(wq_id x \<mapsto> y) \<and> wq_status y = Done \<and>
       (\<exists>sg p. provided (demo_env (\<lambda>_. Inr demo_song)) (sy_db demo_sys) (in_Track (wi_Inputs item)) sg \<and>
          p = last (outputPaths (wi_Inputs item)) \<and>
          on_disk (demo_env (\<lambda>_. Inr demo_song)) s' sg (op_Filename p) (op_Outdir p)))"
    by auto
  with r pr show ?thesis unfolding d by blast
qed

theorem circuit_breaker_holds_witness:
  "\<exists>w' s'. demo_round rate_limited = (Inl (Sen ErrQueueEmpty), w', s') \<and> wk_consecutiveFailures w' = 0 \<and>
     row_status s' 1 = Some Pending \<and>
     service_round (demo_env rate_limited) no_ctx w' s' = (Inl (Sen ErrQueueEmpty), w', s')"
proof -
  obtain w' s' where r: "demo_round rate_limited = (Inl (Sen ErrQueueEmpty), w', s')"
    using demo_rounds(3) by (cases "demo_round rate_limited") auto
  have o: "wk_circuitOpenUntil w' = Some (304 * Second)" using demo_rounds(5) by (simp add: r)
  have e: "0 < se_open (demo_env rate_limited)" by (simp add: demo_env_def Second_def)
  have n: "sy_now (snd (snd (demo_round rate_limited))) < 304 * Second" by code_simp
  from circuit_breaker_holds [OF queue_ok_demo e r o] n r demo_rounds(4) show ?thesis
    by (auto simp: no_ctx_def)
qed

end
