(* ===== verification/Scheduler.thy ===== *)
theory Scheduler
  imports Scanner Scan_Enqueuer Library_Repo Service
begin

text \<open>
  The scan scheduler of \<open>internal/scan/scheduler.go\<close>: one cycle over the libraries, the periodic loop,
  the contract of a cycle against the laws of its dependencies, and its instance on the repositories
  of the service, with the enqueuer as the completion callback as \<open>runServe\<close> and \<open>runScan\<close> set it up.
\<close>

section \<open>The scheduler\<close>

record 's Scheduler =
  sd_Libraries :: "('s \<Rightarrow> Library list res \<times> 's) option"
  sd_Results :: "(int \<Rightarrow> ScanResult list \<Rightarrow> UpsertOptions \<Rightarrow> 's \<Rightarrow> unit res \<times> 's) option"
  sd_Scanner :: "(string \<Rightarrow> ScanOptions \<Rightarrow> 's \<Rightarrow> ScanResult list res \<times> 's) option"
  sd_Options :: ScanOptions
  sd_Interval :: int
  sd_MaxRuntime :: int
  sd_OnScanComplete :: "(Library \<Rightarrow> ScanResult list \<Rightarrow> 's \<Rightarrow> unit res \<times> 's) option"

text \<open>\<open>ctxErr s\<close> is what \<open>ctx.Err()\<close> returns in state \<open>s\<close>. The results get their library and status first.\<close>

definition label_results :: "int \<Rightarrow> ScanResult list \<Rightarrow> ScanResult list" where
  "label_results i results =
     map (\<lambda>r. r\<lparr>sr_LibraryID := i, sr_Status := (if sr_Status r = '''' then ''pending'' else sr_Status r)\<rparr>) results"

fun scan_libraries ::
  "'s Scheduler \<Rightarrow> ('s \<Rightarrow> goerr option) \<Rightarrow> (int \<Rightarrow> ScanResult list \<Rightarrow> UpsertOptions \<Rightarrow> 's \<Rightarrow> unit res \<times> 's) \<Rightarrow>
   (string \<Rightarrow> ScanOptions \<Rightarrow> 's \<Rightarrow> ScanResult list res \<times> 's) \<Rightarrow> Library list \<Rightarrow> 's \<Rightarrow> unit res \<times> 's"
where
  "scan_libraries sd ctxErr upsert scan [] s = (Inr (), s)"
| "scan_libraries sd ctxErr upsert scan (v # vs) s =
     (case ctxErr s of Some e \<Rightarrow> (Inl e, s) | None \<Rightarrow>
     (case scan (lib_Path v) (sd_Options sd) s of
        (Inl e, s1) \<Rightarrow> (Inl (Errorf (''scan: scan library '' @ Itoa (lib_ID v) @ '': '') e ''''), s1)
      | (Inr found, s1) \<Rightarrow>
        (let results = label_results (lib_ID v) found;
             upsertOpts = \<lparr>uo_ForceStatus = (sn_Update (sd_Options sd) \<or> sn_Upgrade (sd_Options sd))\<rparr>
         in case upsert (lib_ID v) results upsertOpts s1 of
              (Inl e, s2) \<Rightarrow> (Inl (Errorf (''scan: persist library '' @ Itoa (lib_ID v) @ '': '') e ''''), s2)
            | (Inr _, s2) \<Rightarrow>
              (case sd_OnScanComplete sd of
                 None \<Rightarrow> scan_libraries sd ctxErr upsert scan vs s2
               | Some onComplete \<Rightarrow>
                  (case onComplete v results s2 of
                     (Inl e, s3) \<Rightarrow> (Inl (Errorf (''scan: complete library '' @ Itoa (lib_ID v) @ '': '') e ''''), s3)
                   | (Inr _, s3) \<Rightarrow> scan_libraries sd ctxErr upsert scan vs s3)))))"

definition RunOnceFor :: "'s Scheduler \<Rightarrow> ('s \<Rightarrow> goerr option) \<Rightarrow> Library list \<Rightarrow> 's \<Rightarrow> unit res \<times> 's" where
  "RunOnceFor sd ctxErr libs s =
     (case sd_Results sd of None \<Rightarrow> (Inl (New ''scan: scheduler results dependency is nil''), s)
      | Some upsert \<Rightarrow>
     (case sd_Scanner sd of None \<Rightarrow> (Inl (New ''scan: scheduler scanner dependency is nil''), s)
      | Some scan \<Rightarrow>
     (case ctxErr s of Some e \<Rightarrow> (Inl e, s)
      | None \<Rightarrow> scan_libraries sd ctxErr upsert scan libs s)))"

definition ScanRunOnce :: "'s Scheduler \<Rightarrow> ('s \<Rightarrow> goerr option) \<Rightarrow> 's \<Rightarrow> unit res \<times> 's" where
  "ScanRunOnce sd ctxErr s =
     (case sd_Libraries sd of None \<Rightarrow> (Inl (New ''scan: scheduler libraries dependency is nil''), s)
      | Some listLibs \<Rightarrow>
     (case ctxErr s of Some e \<Rightarrow> (Inl e, s)
      | None \<Rightarrow>
     (case listLibs s of
        (Inl e, s1) \<Rightarrow> (Inl (Errorf ''scan: list libraries: '' e ''''), s1)
      | (Inr libs, s1) \<Rightarrow> RunOnceFor sd ctxErr libs s1)))"

text \<open>
  The periodic loop. \<open>wait d s\<close> is the \<open>select\<close> between the context and the ticker: the error of the
  context if it ended first. \<open>None\<close>: the loop does not return.
\<close>

definition with_timeout :: "('s \<Rightarrow> int) \<Rightarrow> int \<Rightarrow> ('s \<Rightarrow> goerr option) \<Rightarrow> 's \<Rightarrow> goerr option" where
  "with_timeout now deadline ctxErr s =
     (case ctxErr s of Some e \<Rightarrow> Some e
      | None \<Rightarrow> if deadline \<le> now s then Some (Sen CtxDeadlineExceeded) else None)"

partial_function (option) scan_forever ::
  "'s Scheduler \<Rightarrow> ('s \<Rightarrow> goerr option) \<Rightarrow> (int \<Rightarrow> 's \<Rightarrow> 's) \<Rightarrow> 's \<Rightarrow> (unit res \<times> 's) option"
where
  [code]: "scan_forever sd ctxErr wait s =
     (let s1 = wait (sd_Interval sd) s in
      case ctxErr s1 of Some e \<Rightarrow> Some (Inl e, s1)
      | None \<Rightarrow>
         (case ScanRunOnce sd ctxErr s1 of
            (Inl e, s2) \<Rightarrow> Some (Inl e, s2)
          | (Inr _, s2) \<Rightarrow> scan_forever sd ctxErr wait s2))"

definition ScanRun ::
  "('s \<Rightarrow> int) \<Rightarrow> 's Scheduler \<Rightarrow> ('s \<Rightarrow> goerr option) \<Rightarrow> (int \<Rightarrow> 's \<Rightarrow> 's) \<Rightarrow> 's \<Rightarrow> (unit res \<times> 's) option"
where
  "ScanRun now sd ctxErr wait s =
     (let ctxErr = (if sd_MaxRuntime sd > 0 then with_timeout now (now s + sd_MaxRuntime sd) ctxErr else ctxErr)
      in case ctxErr s of Some e \<Rightarrow> Some (Inl e, s)
         | None \<Rightarrow>
            (case ScanRunOnce sd ctxErr s of
               (Inl e, s1) \<Rightarrow> Some (Inl e, s1)
             | (Inr _, s1) \<Rightarrow> if sd_Interval sd \<le> 0 then Some (Inr (), s1) else scan_forever sd ctxErr wait s1))"

section \<open>The contract of a cycle\<close>

text \<open>
  What a cycle relies on. \<open>view s i\<close> is what the store holds for library \<open>i\<close>, and \<open>handed s0 s i\<close> says
  that every result of the library that was pending in \<open>s0\<close> has in \<open>s\<close> been answered or queued. Upsert
  and the completion callback work on the library they are called for and leave the others alone, and
  the callback hands on what is pending.
\<close>

locale scan_env =
  fixes listLibs :: "'s \<Rightarrow> Library list res \<times> 's"
    and upsert :: "int \<Rightarrow> ScanResult list \<Rightarrow> UpsertOptions \<Rightarrow> 's \<Rightarrow> unit res \<times> 's"
    and scan :: "string \<Rightarrow> ScanOptions \<Rightarrow> 's \<Rightarrow> ScanResult list res \<times> 's"
    and onComplete :: "Library \<Rightarrow> ScanResult list \<Rightarrow> 's \<Rightarrow> unit res \<times> 's"
    and inv :: "'s \<Rightarrow> bool"
    and view :: "'s \<Rightarrow> int \<Rightarrow> 'v"
    and handed :: "'s \<Rightarrow> 's \<Rightarrow> int \<Rightarrow> bool"
  assumes list_frame: "inv s \<Longrightarrow> listLibs s = (r, s') \<Longrightarrow> inv s' \<and> view s' = view s"
    and list_ids: "inv s \<Longrightarrow> listLibs s = (Inr libs, s') \<Longrightarrow> distinct (map lib_ID libs)"
    and scan_frame: "inv s \<Longrightarrow> scan p opts s = (found, s') \<Longrightarrow> inv s' \<and> view s' = view s"
    and scan_handed: "inv s \<Longrightarrow> scan p opts s = (found, s') \<Longrightarrow> handed s0 s j \<Longrightarrow> handed s0 s' j"
    and upsert_frame: "inv s \<Longrightarrow> upsert i rs uo s = (x, s') \<Longrightarrow>
      inv s' \<and> (\<forall>j. j \<noteq> i \<longrightarrow> view s' j = view s j)"
    and upsert_handed: "inv s \<Longrightarrow> upsert i rs uo s = (x, s') \<Longrightarrow> j \<noteq> i \<Longrightarrow> handed s0 s j \<Longrightarrow> handed s0 s' j"
    and complete_ok: "inv s \<Longrightarrow> onComplete v rs s = (Inr y, s') \<Longrightarrow>
      inv s' \<and> handed s s' (lib_ID v) \<and> (\<forall>j. j \<noteq> lib_ID v \<longrightarrow> view s' j = view s j)"
    and complete_handed: "inv s \<Longrightarrow> onComplete v rs s = (Inr y, s') \<Longrightarrow> handed s0 s j \<Longrightarrow> handed s0 s' j"
begin

definition force :: "ScanOptions \<Rightarrow> UpsertOptions" where
  "force opts = \<lparr>uo_ForceStatus = (sn_Update opts \<or> sn_Upgrade opts)\<rparr>"

text \<open>
  What became of a library in a cycle from \<open>s\<close> to \<open>s'\<close>: it was scanned, the results were stored beside
  those it had in \<open>s\<close>, what was then pending was handed on and still is in \<open>s'\<close>, and nothing else has
  touched the library.
\<close>

definition served :: "ScanOptions \<Rightarrow> 's \<Rightarrow> 's \<Rightarrow> Library \<Rightarrow> bool" where
  "served opts s s' v \<longleftrightarrow>
     (\<exists>sa found s1 s2 s3 rs. scan (lib_Path v) opts sa = (Inr found, s1) \<and> inv s1 \<and> view s1 (lib_ID v) = view s (lib_ID v) \<and>
        rs = label_results (lib_ID v) found \<and> upsert (lib_ID v) rs (force opts) s1 = (Inr (), s2) \<and> inv s2 \<and>
        onComplete v rs s2 = (Inr (), s3) \<and> inv s3 \<and> view s' (lib_ID v) = view s3 (lib_ID v) \<and> handed s2 s' (lib_ID v))"

lemma scan_libraries_ok:
  assumes "sd_OnScanComplete sd = Some onComplete" "inv s" "distinct (map lib_ID libs)"
    and "scan_libraries sd ctxErr upsert scan libs s = (Inr (), s')"
  shows "inv s' \<and> (\<forall>v\<in>set libs. served (sd_Options sd) s s' v) \<and>
    (\<forall>j. j \<notin> lib_ID ` set libs \<longrightarrow> view s' j = view s j \<and> (\<forall>s0. handed s0 s j \<longrightarrow> handed s0 s' j))"
  using assms(2-4)
proof (induction libs arbitrary: s)
  case Nil
  then show ?case by simp
next
  case (Cons v vs)
  from Cons.prems(3) assms(1) obtain found s1 s2 s3 where
    scan: "scan (lib_Path v) (sd_Options sd) s = (Inr found, s1)"
    and up: "upsert (lib_ID v) (label_results (lib_ID v) found) (force (sd_Options sd)) s1 = (Inr (), s2)"
    and cb: "onComplete v (label_results (lib_ID v) found) s2 = (Inr (), s3)"
    and rest: "scan_libraries sd ctxErr upsert scan vs s3 = (Inr (), s')"
    by (auto simp: Let_def force_def split: option.splits prod.splits sum.splits)
  note f1 = scan_frame [OF Cons.prems(1) scan]
  then have i1: "inv s1" by blast
  note f2 = upsert_frame [OF i1 up]
  then have i2: "inv s2" by blast
  note f3 = complete_ok [OF i2 cb]
  then have i3: "inv s3" by blast
  from Cons.prems(2) have dist: "distinct (map lib_ID vs)" and new: "lib_ID v \<notin> lib_ID ` set vs" by auto
  note IH = Cons.IH [OF i3 dist rest]
  have other: "view s3 j = view s j" "\<And>s0. handed s0 s j \<Longrightarrow> handed s0 s3 j" if "j \<noteq> lib_ID v" for j
    using that f1 f2 f3 scan_handed [OF Cons.prems(1) scan] upsert_handed [OF i1 up] complete_handed [OF i2 cb]
    by (simp, blast)
  have here: "view s' (lib_ID v) = view s3 (lib_ID v)" "handed s2 s' (lib_ID v)" using IH new f3 by blast+
  have "served (sd_Options sd) s s' v"
    unfolding served_def using scan up cb f1 i1 i2 i3 here by (intro exI conjI; (assumption | simp))
  moreover have "served (sd_Options sd) s s' w" if "w \<in> set vs" for w
  proof -
    have "lib_ID w \<noteq> lib_ID v" using that new by (metis imageI)
    note same = other(1) [OF this]
    have "served (sd_Options sd) s3 s' w" using IH that by blast
    then show ?thesis unfolding served_def same .
  qed
  ultimately show ?case using IH other by auto
qed

lemma ScanRunOnce_ok:
  assumes "sd_Libraries sd = Some listLibs" "sd_Results sd = Some upsert" "sd_Scanner sd = Some scan"
    and "sd_OnScanComplete sd = Some onComplete" "inv s" "ScanRunOnce sd ctxErr s = (Inr (), s')"
  shows "\<exists>libs s1. listLibs s = (Inr libs, s1) \<and> inv s' \<and> (\<forall>v\<in>set libs. served (sd_Options sd) s s' v)"
proof -
  from assms(1-4,6) obtain libs s1 where l: "listLibs s = (Inr libs, s1)"
    "scan_libraries sd ctxErr upsert scan libs s1 = (Inr (), s')"
    by (auto simp: ScanRunOnce_def RunOnceFor_def split: option.splits prod.splits sum.splits)
  from list_frame [OF assms(5) l(1)] have i: "inv s1" and same: "view s1 = view s" by blast+
  from scan_libraries_ok [OF assms(4) i list_ids [OF assms(5) l(1)] l(2)] l(1) same show ?thesis
    by (auto simp: served_def)
qed

end

section \<open>The scheduler of the service\<close>

text \<open>
  What the scan sees and meets, by the number of the call: the file system, the context during a scan
  and during an enqueuing run, and the driver errors and clocks of the enqueuer's own calls.
\<close>

record scan_params =
  sp_view :: "nat \<Rightarrow> fs_view"
  sp_ctx :: "nat \<Rightarrow> nat \<Rightarrow> goerr option"
  sp_ios :: "nat \<Rightarrow> nat \<Rightarrow> io"
  sp_clocks :: "nat \<Rightarrow> nat \<Rightarrow> int \<times> int"

definition sched_list :: "sys_env \<Rightarrow> sys \<Rightarrow> Library list res \<times> sys" where
  "sched_list E = on_db E (\<lambda>io now dbt d. (LibList io d, d))"

definition sched_upsert :: "sys_env \<Rightarrow> int \<Rightarrow> ScanResult list \<Rightarrow> UpsertOptions \<Rightarrow> sys \<Rightarrow> unit res \<times> sys" where
  "sched_upsert E i rs uo = on_db E (\<lambda>io now dbt. Upsert io dbt i rs uo)"

definition sched_scan :: "sys_env \<Rightarrow> scan_params \<Rightarrow> string \<Rightarrow> ScanOptions \<Rightarrow> sys \<Rightarrow> ScanResult list res \<times> sys" where
  "sched_scan E P p opts s =
     (ScanLibrary (sp_ctx P (sy_calls s)) (se_u E) (sp_view P (sy_calls s)) p opts, tick E s)"

definition sched_complete :: "sys_env \<Rightarrow> scan_params \<Rightarrow> Library \<Rightarrow> ScanResult list \<Rightarrow> sys \<Rightarrow> unit res \<times> sys" where
  "sched_complete E P v rs s =
     (case EnqueuePending (db_enqueuer (se_u E) (sp_ios P (sy_calls s)) (sp_clocks P (sy_calls s)) PriorityScan)
             (sp_ctx P (sy_calls s)) (lib_ID v) (sy_db s) of
        (r, d) \<Rightarrow> (r, (tick E s)\<lparr>sy_db := d\<rparr>))"

definition service_scheduler :: "sys_env \<Rightarrow> scan_params \<Rightarrow> ScanOptions \<Rightarrow> sys Scheduler" where
  "service_scheduler E P opts =
     \<lparr>sd_Libraries = Some (sched_list E), sd_Results = Some (sched_upsert E), sd_Scanner = Some (sched_scan E P),
      sd_Options = opts, sd_Interval = 0, sd_MaxRuntime = 0, sd_OnScanComplete = Some (sched_complete E P)\<rparr>"

text \<open>The results of a library: by file, the id and the status.\<close>

definition results_of :: "db \<Rightarrow> int \<Rightarrow> string \<Rightarrow> (int \<times> status) option" where
  "results_of d i p = map_option (\<lambda>r. (sc_id r, sc_status r)) (result_for d (i, p))"

definition no_pending_results :: "sys \<Rightarrow> int \<Rightarrow> bool" where
  "no_pending_results s i \<longleftrightarrow> (\<forall>r\<in>set (scan_results (sy_db s)). sc_library_id r = i \<longrightarrow> sc_status r \<noteq> Pending)"

definition has_result :: "sys \<Rightarrow> int \<Rightarrow> string \<Rightarrow> bool" where
  "has_result s i p \<longleftrightarrow> (i, p) \<in> set (map snd (result_keys (sy_db s)))"

text \<open>Every result of the library that was pending in \<open>d\<close> has kept its row and is settled in \<open>d'\<close>.\<close>

definition handed_on :: "unicode_env \<Rightarrow> db \<Rightarrow> db \<Rightarrow> int \<Rightarrow> bool" where
  "handed_on u d d' i \<longleftrightarrow>
     (\<forall>r. pending_in d i r \<longrightarrow> settled u d d' r \<and> (\<exists>x\<in>set (scan_results d'). sc_id x = sc_id r \<and> sr_key x = sr_key r))"

lemma has_result_iff: "has_result s i p \<longleftrightarrow> (\<exists>r\<in>set (scan_results (sy_db s)). sr_key r = (i, p))"
  by (auto simp: has_result_def result_keys_def sr_key_def image_iff)

lemma has_result_of: "has_result s i p \<longleftrightarrow> results_of (sy_db s) i p \<noteq> None"
  by (simp add: has_result_iff results_of_def result_for_None)

lemma row_is_result_for: "db_wf d \<Longrightarrow> r \<in> set (scan_results d) \<longleftrightarrow> result_for d (sr_key r) = Some r"
  unfolding result_for_def
  by (auto dest: find_in_set intro!: find_unique simp: db_wf_def wf_scan_def)

lemma no_pending_of:
  assumes "db_wf (sy_db s)"
  shows "no_pending_results s i \<longleftrightarrow> (\<forall>p x. results_of (sy_db s) i p \<noteq> Some (x, Pending))"
proof -
  have "results_of (sy_db s) i p = Some (x, Pending) \<longleftrightarrow>
      (\<exists>r\<in>set (scan_results (sy_db s)). sr_key r = (i, p) \<and> sc_id r = x \<and> sc_status r = Pending)" for p x
    using row_is_result_for [OF assms] result_for_mem [of "sy_db s" "(i, p)"]
    by (auto simp: results_of_def)
  then show ?thesis by (auto simp: no_pending_results_def sr_key_def)
qed

lemma upsert_loop_results:
  assumes "upsert_loop io n force dbt i rs d = Inr d'"
  shows "(\<forall>res\<in>set rs. result_for d' (res_key i res) \<noteq> None) \<and>
    (\<forall>k. result_for d k \<noteq> None \<longrightarrow> result_for d' k \<noteq> None) \<and>
    (\<forall>k. fst k \<noteq> i \<longrightarrow> result_for d' k = result_for d k) \<and> junction d' = junction d"
  using assms
proof (induction rs arbitrary: n d)
  case (Cons res rs)
  then obtain d1 where one: "upsert_one force dbt i res d = Inr d1" and loop: "upsert_loop io (n + 1) force dbt i rs d1 = Inr d'"
    by (auto simp: Let_def split: option.splits sum.splits)
  note IH = Cons.IH [OF loop]
  have "result_for d1 (res_key i res) \<noteq> None" using upsert_one_effect(1) [OF one] by auto
  moreover have "result_for d1 k \<noteq> None" if "result_for d k \<noteq> None" for k
    using upsert_one_effect(2) [OF one, of k] calculation that by (cases "k = res_key i res") auto
  moreover have "result_for d1 k = result_for d k" if "fst k \<noteq> i" for k
    using upsert_one_effect(2) [OF one, of k] that by (metis fst_conv res_key_def)
  moreover have "junction d1 = junction d" using upsert_one_effect(3) [OF one] by blast
  ultimately show ?case using IH by (metis set_ConsD)
qed simp

lemma Upsert_frame:
  assumes "Upsert io dbt i rs uo d = (r, d')"
  shows "(\<forall>k. fst k \<noteq> i \<longrightarrow> result_for d' k = result_for d k) \<and> junction d' = junction d"
  using assms upsert_loop_results [of io 2 "uo_ForceStatus uo" dbt i rs d]
  by (auto simp: Upsert_def drv_def split: option.splits sum.splits)

lemma Upsert_stores:
  assumes "Upsert io dbt i rs uo d = (Inr y, d')" "r \<in> set rs"
  shows "results_of d' i (sr_FilePath r) \<noteq> None"
  using assms upsert_loop_results [of io 2 "uo_ForceStatus uo" dbt i rs d]
  by (auto simp: Upsert_def drv_ok results_of_def res_key_def split: sum.splits)

text \<open>A result keeps being handed on as long as its row keeps its key and status and no link is lost.\<close>

lemma handed_on_mono:
  assumes "handed_on u d0 d i" "db_wf d" "db_wf d'" "linked_ids d \<subseteq> linked_ids d'"
    and keep: "\<And>x. x \<in> set (scan_results d) \<Longrightarrow> sc_library_id x = i \<Longrightarrow> sc_status x \<noteq> Pending \<Longrightarrow>
      \<exists>y\<in>set (scan_results d'). sc_id y = sc_id x \<and> sr_key y = sr_key x \<and> sc_status y = sc_status x"
  shows "handed_on u d0 d' i"
  unfolding handed_on_def
proof (intro allI impI)
  fix r assume r: "pending_in d0 i r"
  with assms(1) obtain x where st: "settled u d0 d r"
    and x: "x \<in> set (scan_results d)" "sc_id x = sc_id r" "sr_key x = sr_key r"
    unfolding handed_on_def by blast
  have lib: "sc_library_id x = i" using r x(3) by (simp add: pending_in_def sr_key_def)
  have sx: "result_status d (sc_id r) = Some (status_text (sc_status x))"
    using find_sc_id [OF assms(2) x(1)] x(2) by (simp add: result_status_def)
  with st have "sc_status x \<noteq> Pending" by (auto simp: settled_def split: if_splits)
  from keep [OF x(1) lib this] obtain y where
    y: "y \<in> set (scan_results d')" "sc_id y = sc_id x" "sr_key y = sr_key x" "sc_status y = sc_status x" by blast
  have "result_status d' (sc_id r) = Some (status_text (sc_status x))"
    using find_sc_id [OF assms(3) y(1)] x(2) y(2,4) by (simp add: result_status_def)
  with sx have "result_status d' (sc_id r) = result_status d (sc_id r)" by simp
  with st assms(4) have "settled u d0 d' r" by (auto simp: settled_def split: if_splits)
  with x(2,3) y show "settled u d0 d' r \<and> (\<exists>x\<in>set (scan_results d'). sc_id x = sc_id r \<and> sr_key x = sr_key r)"
    by auto
qed

lemma Upsert_handed:
  assumes "db_wf d" "Upsert io dbt i rs uo d = (r, d')" "j \<noteq> i" "handed_on u d0 d j"
  shows "handed_on u d0 d' j"
proof (rule handed_on_mono [OF assms(4,1)])
  note f = Upsert_frame [OF assms(2)]
  show wf': "db_wf d'" using Upsert_wf [OF assms(1), of io dbt i rs uo] assms(2) by simp
  show "linked_ids d \<subseteq> linked_ids d'" using f by (simp add: linked_ids_def)
  show "\<exists>y\<in>set (scan_results d'). sc_id y = sc_id x \<and> sr_key y = sr_key x \<and> sc_status y = sc_status x"
    if "x \<in> set (scan_results d)" "sc_library_id x = j" for x
  proof -
    have "fst (sr_key x) \<noteq> i" using that(2) assms(3) by (simp add: sr_key_def)
    with f that(1) have "x \<in> set (scan_results d')"
      unfolding row_is_result_for [OF assms(1)] row_is_result_for [OF wf'] by metis
    then show ?thesis by blast
  qed
qed

text \<open>Where a row stands after a run of the enqueuer.\<close>

lemma enqueue_row:
  assumes "db_wf d" "EnqueuePending (db_enqueuer u ios clocks p) ctxErr lib d = (Inr (), d')" "x \<in> set (scan_results d)"
  shows "\<exists>y\<in>set (scan_results d'). sc_id y = sc_id x \<and> sr_key y = sr_key x \<and>
    (\<not> pending_in d lib x \<longrightarrow> sc_status y = sc_status x) \<and> (pending_in d lib x \<longrightarrow> sc_status y \<noteq> Pending)"
proof -
  have "(sc_id x, sc_library_id x, sc_file_path x) \<in> set (result_keys d')"
    using assms(3) EnqueuePending_keys [OF assms(1,2)] by (simp add: result_keys_def)
  then obtain y where y: "y \<in> set (scan_results d')" "sc_id y = sc_id x" "sr_key y = sr_key x"
    by (auto simp: result_keys_def sr_key_def)
  have "db_wf d'" using EnqueuePending_wf [OF assms(1), of u ios clocks p ctxErr lib] assms(2) by simp
  then have sy: "result_status d' (sc_id x) = Some (status_text (sc_status y))"
    using find_sc_id y(1,2) by (metis option.map(2) result_status_def)
  have sx: "result_status d (sc_id x) = Some (status_text (sc_status x))"
    using find_sc_id [OF assms(1,3)] by (simp add: result_status_def)
  note e = enqueue_settles [OF assms(1,2)]
  have "sc_status y = sc_status x" if "\<not> pending_in d lib x"
  proof -
    have "status_text (sc_status y) = status_text (sc_status x)" using e assms(3) that sx sy by simp
    then show ?thesis by (cases "sc_status y"; cases "sc_status x") simp_all
  qed
  moreover have "sc_status y \<noteq> Pending" if "pending_in d lib x"
  proof -
    from e that have "settled u d d' x" by blast
    with sy show ?thesis by (auto simp: settled_def split: if_splits)
  qed
  ultimately show ?thesis using y by blast
qed

lemma enqueue_handed:
  assumes "db_wf d" "EnqueuePending (db_enqueuer u ios clocks p) ctxErr lib d = (Inr (), d')"
  shows "handed_on u d d' lib"
    and "handed_on u d0 d j \<Longrightarrow> handed_on u d0 d' j"
proof -
  show "handed_on u d d' lib"
    unfolding handed_on_def using enqueue_settles [OF assms] enqueue_row [OF assms] by (metis pending_in_def)
  assume h: "handed_on u d0 d j"
  show "handed_on u d0 d' j"
  proof (rule handed_on_mono [OF h assms(1)])
    show "db_wf d'" using EnqueuePending_wf [OF assms(1), of u ios clocks p ctxErr lib] assms(2) by simp
    show "linked_ids d \<subseteq> linked_ids d'" using enqueue_settles [OF assms] by blast
    show "\<exists>y\<in>set (scan_results d'). sc_id y = sc_id x \<and> sr_key y = sr_key x \<and> sc_status y = sc_status x"
      if "x \<in> set (scan_results d)" "sc_status x \<noteq> Pending" for x
      using enqueue_row [OF assms that(1)] that(2) by (auto simp: pending_in_def)
  qed
qed

lemma enqueue_results:
  assumes "db_wf d" "EnqueuePending (db_enqueuer u ios clocks p) ctxErr lib d = (Inr (), d')"
  shows "j \<noteq> lib \<Longrightarrow> results_of d' j = results_of d j"
    and "results_of d' i q = None \<longleftrightarrow> results_of d i q = None"
    and "results_of d' lib q \<noteq> Some (x, Pending)"
proof -
  have wf': "db_wf d'" using EnqueuePending_wf [OF assms(1), of u ios clocks p ctxErr lib] assms(2) by simp
  have keys: "sr_key ` set (scan_results d') = sr_key ` set (scan_results d)"
    using arg_cong [OF EnqueuePending_keys [OF assms], of "\<lambda>ks. snd ` set ks"]
    by (simp add: result_keys_def image_image sr_key_def)
  then show none: "results_of d' i q = None \<longleftrightarrow> results_of d i q = None" for i q
    by (auto simp: results_of_def result_for_None) (metis imageI image_iff)+
  have row: "\<exists>y. result_for d' k = Some y \<and> sc_id y = sc_id z \<and> (\<not> pending_in d lib z \<longrightarrow> sc_status y = sc_status z) \<and>
      (pending_in d lib z \<longrightarrow> sc_status y \<noteq> Pending)" if "result_for d k = Some z" for k z
    using enqueue_row [OF assms, of z] result_for_mem [OF that] row_is_result_for [OF wf'] by metis
  show "results_of d' j = results_of d j" if "j \<noteq> lib"
  proof
    fix q
    show "results_of d' j q = results_of d j q"
    proof (cases "result_for d (j, q)")
      case None
      with none [of j q] show ?thesis by (simp add: results_of_def)
    next
      case (Some z)
      then have "\<not> pending_in d lib z" using result_for_mem [OF Some] that by (auto simp: pending_in_def sr_key_def)
      with row [OF Some] Some show ?thesis by (auto simp: results_of_def)
    qed
  qed
  show "results_of d' lib q \<noteq> Some (x, Pending)"
  proof (cases "result_for d (lib, q)")
    case None
    with none [of lib q] show ?thesis by (simp add: results_of_def)
  next
    case (Some z)
    then have "pending_in d lib z \<longleftrightarrow> sc_status z = Pending"
      using result_for_mem [OF Some] by (auto simp: pending_in_def sr_key_def)
    with row [OF Some] show ?thesis by (auto simp: results_of_def)
  qed
qed

lemma LibList_ids:
  assumes "db_wf d" "LibList io d = Inr libs"
  shows "distinct (map lib_ID libs)" "libs = map row_library (order_by lb_id (libraries d))"
proof -
  from assms(2) show l: "libs = map row_library (order_by lb_id (libraries d))"
    by (auto simp: LibList_def split: option.splits)
  have "distinct (map lb_id (order_by lb_id (libraries d)))"
    using assms(1) by (auto simp: db_wf_def wf_libraries_def order_by_def distinct_map ids_ok_def strict_sorted_iff)
  then show "distinct (map lib_ID libs)" by (simp add: l row_library_def comp_def)
qed

interpretation cyc: scan_env "sched_list E" "sched_upsert E" "sched_scan E P" "sched_complete E P"
  "\<lambda>s. db_wf (sy_db s)" "\<lambda>s. results_of (sy_db s)" "\<lambda>s0 s. handed_on (se_u E) (sy_db s0) (sy_db s)" for E P
proof
  fix s s' s0 :: sys
  show "db_wf (sy_db s') \<and> results_of (sy_db s') = results_of (sy_db s)"
    if "db_wf (sy_db s)" "sched_list E s = (r, s')" for r
    using that by (auto simp: sched_list_def on_db_def split: prod.splits)
  show "distinct (map lib_ID libs)" if "db_wf (sy_db s)" "sched_list E s = (Inr libs, s')" for libs
    using that by (auto simp: sched_list_def on_db_def split: prod.splits dest: LibList_ids(1))
  show "db_wf (sy_db s') \<and> results_of (sy_db s') = results_of (sy_db s)"
    if "db_wf (sy_db s)" "sched_scan E P p opts s = (found, s')" for p opts found
    using that by (auto simp: sched_scan_def)
  show "handed_on (se_u E) (sy_db s0) (sy_db s') j"
    if "sched_scan E P p opts s = (found, s')" "handed_on (se_u E) (sy_db s0) (sy_db s) j" for p opts found j
    using that by (auto simp: sched_scan_def)
  fix i rs uo x
  show "db_wf (sy_db s') \<and> (\<forall>j. j \<noteq> i \<longrightarrow> results_of (sy_db s') j = results_of (sy_db s) j)"
    if wf: "db_wf (sy_db s)" and up: "sched_upsert E i rs uo s = (x, s')"
  proof -
    from on_db_eq [OF up [unfolded sched_upsert_def]] obtain io dbt where
      u: "Upsert io dbt i rs uo (sy_db s) = (x, sy_db s')" by blast
    have "db_wf (sy_db s')" using Upsert_wf [OF wf, of io dbt i rs uo] u by simp
    with Upsert_frame [OF u] show ?thesis by (auto simp: results_of_def fun_eq_iff)
  qed
  show "handed_on (se_u E) (sy_db s0) (sy_db s') j"
    if "db_wf (sy_db s)" "sched_upsert E i rs uo s = (x, s')" "j \<noteq> i" "handed_on (se_u E) (sy_db s0) (sy_db s) j" for j
    using on_db_eq [OF that(2) [unfolded sched_upsert_def]] Upsert_handed [OF that(1) _ that(3,4)] by blast
next
  fix s s' s0 :: sys and v rs y
  have run: "\<exists>ios clocks ctx. EnqueuePending (db_enqueuer (se_u E) ios clocks PriorityScan) ctx (lib_ID v) (sy_db s) = (Inr (), sy_db s')"
    if "sched_complete E P v rs s = (Inr y, s')"
    using that by (auto simp: sched_complete_def split: prod.splits) blast
  show "db_wf (sy_db s') \<and> handed_on (se_u E) (sy_db s) (sy_db s') (lib_ID v) \<and>
      (\<forall>j. j \<noteq> lib_ID v \<longrightarrow> results_of (sy_db s') j = results_of (sy_db s) j)"
    if wf: "db_wf (sy_db s)" and c: "sched_complete E P v rs s = (Inr y, s')"
  proof -
    from run [OF c] obtain ios clocks ctx where
      e: "EnqueuePending (db_enqueuer (se_u E) ios clocks PriorityScan) ctx (lib_ID v) (sy_db s) = (Inr (), sy_db s')" by blast
    have "db_wf (sy_db s')" using EnqueuePending_wf [OF wf, of "se_u E" ios clocks PriorityScan ctx "lib_ID v"] e by simp
    with enqueue_handed(1) [OF wf e] enqueue_results(1) [OF wf e] show ?thesis by blast
  qed
  show "handed_on (se_u E) (sy_db s0) (sy_db s') j"
    if "db_wf (sy_db s)" "sched_complete E P v rs s = (Inr y, s')" "handed_on (se_u E) (sy_db s0) (sy_db s) j" for j
    using run [OF that(2)] enqueue_handed(2) [OF that(1) _ that(3)] by blast
qed

section \<open>A cycle of the service\<close>


definition demo_params :: scan_params where
  "demo_params = \<lparr>sp_view = (\<lambda>_. sample_view), sp_ctx = (\<lambda>_ _. None), sp_ios = (\<lambda>_ _. no_faults), sp_clocks = (\<lambda>_ _. (7, 7))\<rparr>"

definition library_sys :: sys where
  "library_sys = \<lparr>sy_db = one_library, sy_files = Map.empty, sy_now = 0, sy_calls = 0\<rparr>"


section \<open>The periodic loop\<close>

text \<open>Only an error ends the repetition, and it is the context's or the one of the cycle that failed.\<close>

lemma scan_forever_error:
  assumes "scan_forever sd ctxErr wait s = Some out"
  shows "\<exists>e. fst out = Inl e \<and> (ctxErr (snd out) = Some e \<or> (\<exists>s0. ScanRunOnce sd ctxErr s0 = (Inl e, snd out)))"
  using assms
proof (induction rule: scan_forever.raw_induct [rotated, consumes 1])
  case (1 f sd ctxErr wait s out)
  obtain r1 s2 where one: "ScanRunOnce sd ctxErr (wait (sd_Interval sd) s) = (r1, s2)" by fastforce
  with 1 show ?case
    by (cases "ctxErr (wait (sd_Interval sd) s)"; cases r1) (auto simp: Let_def)
qed

text \<open>
  Run returns nil only without an interval, after one successful cycle. With an interval it goes on
  until the context ends, MaxRuntime included, or a cycle fails, and returns that error: after the
  first failing cycle no library is scanned again.
\<close>
theorem ScanRun_stops_on_error:
  assumes "ScanRun now sd ctxErr wait s = Some (r, s')"
  shows "(r = Inr () \<and> sd_Interval sd \<le> 0) \<or>
    (\<exists>e ctx. r = Inl e \<and>
       ctx = (if sd_MaxRuntime sd > 0 then with_timeout now (now s + sd_MaxRuntime sd) ctxErr else ctxErr) \<and>
       (ctx s' = Some e \<or> (\<exists>s0. ScanRunOnce sd ctx s0 = (Inl e, s'))))"
  using assms by (auto simp: ScanRun_def Let_def split: option.splits prod.splits sum.splits if_splits dest!: scan_forever_error)

end
