(* ===== verification/Go_Url.thy ===== *)
theory Go_Url
  imports Go_Strings "HOL-Library.List_Lexorder" "HOL-Library.Char_ord"
begin

text \<open>
  The query part of \<open>net/url\<close>: escaping, parsing into pairs, and the encoding that sorts by key. A
  value of type \<open>url.Values\<close> is the list of its pairs, the values of one key in their order.
\<close>

section \<open>Escaping\<close>

definition unreserved :: "char \<Rightarrow> bool" where
  "unreserved c \<longleftrightarrow>
     (let b = byte c in (48 \<le> b \<and> b \<le> 57) \<or> (65 \<le> b \<and> b \<le> 90) \<or> (97 \<le> b \<and> b \<le> 122) \<or> b \<in> {45, 46, 95, 126})"

definition upper_hex :: "int \<Rightarrow> char" where
  "upper_hex n = ''0123456789ABCDEF'' ! nat n"

definition percent :: char where "percent = CHR 0x25"
definition plus_sign :: char where "plus_sign = CHR 0x2B"
definition blank :: char where "blank = CHR 0x20"
definition amp :: char where "amp = CHR 0x26"
definition equals :: char where "equals = CHR 0x3D"
definition semicolon :: char where "semicolon = CHR 0x3B"

definition escape_char :: "char \<Rightarrow> string" where
  "escape_char c =
     (if unreserved c then [c] else if c = blank then [plus_sign]
      else [percent, upper_hex (byte c div 16), upper_hex (byte c mod 16)])"

definition QueryEscape :: "string \<Rightarrow> string" where
  "QueryEscape s = concat (map escape_char s)"

definition hex_value :: "char \<Rightarrow> int option" where
  "hex_value c =
     (let b = byte c in
      if 48 \<le> b \<and> b \<le> 57 then Some (b - 48) else if 97 \<le> b \<and> b \<le> 102 then Some (b - 87)
      else if 65 \<le> b \<and> b \<le> 70 then Some (b - 55) else None)"

text \<open>\<open>None\<close>: an escape error.\<close>

fun QueryUnescape :: "string \<Rightarrow> string option" where
  "QueryUnescape [] = Some []"
| "QueryUnescape (c # s) =
     (if c = percent then
        (case s of
           a # b # t \<Rightarrow>
             (case (hex_value a, hex_value b) of
                (Some x, Some y) \<Rightarrow> map_option (\<lambda>r. char_of (x * 16 + y) # r) (QueryUnescape t)
              | _ \<Rightarrow> None)
         | _ \<Rightarrow> None)
      else map_option (\<lambda>r. (if c = plus_sign then blank else c) # r) (QueryUnescape s))"

section \<open>Values\<close>

type_synonym url_values = "(string \<times> string) list"

text \<open>One pair of \<open>ParseQuery\<close>; a malformed pair is dropped (\<open>Query\<close> ignores the error).\<close>

definition parse_pair :: "string \<Rightarrow> url_values" where
  "parse_pair p =
     (if semicolon \<in> set p \<or> p = [] then []
      else let (k, v) = (case Cut equals p of None \<Rightarrow> (p, []) | Some kv \<Rightarrow> kv)
           in case (QueryUnescape k, QueryUnescape v) of
                (Some k', Some v') \<Rightarrow> [(k', v')]
              | _ \<Rightarrow> [])"

definition ParseQuery :: "string \<Rightarrow> url_values" where
  "ParseQuery q = concat (map parse_pair (Split amp q))"

definition values_of :: "url_values \<Rightarrow> string \<Rightarrow> string list" where
  "values_of q k = map snd (filter (\<lambda>(k', v). k' = k) q)"

definition GetValue :: "url_values \<Rightarrow> string \<Rightarrow> string" where
  "GetValue q k = (case values_of q k of [] \<Rightarrow> [] | v # _ \<Rightarrow> v)"

definition SetValue :: "url_values \<Rightarrow> string \<Rightarrow> string \<Rightarrow> url_values" where
  "SetValue q k v = filter (\<lambda>(k', _). k' \<noteq> k) q @ [(k, v)]"

definition EncodeValues :: "url_values \<Rightarrow> string" where
  "EncodeValues q =
     JoinStr (map (\<lambda>(k, v). QueryEscape k @ [equals] @ QueryEscape v) (order_by fst q)) [amp]"

section \<open>Encoding and parsing are inverse\<close>

lemma hex_chars: "\<forall>c::char. hex_value (upper_hex (byte c div 16)) = Some (byte c div 16) \<and>
    hex_value (upper_hex (byte c mod 16)) = Some (byte c mod 16)"
  by code_simp

lemma escape_safe: "\<forall>c::char. amp \<notin> set (escape_char c) \<and> equals \<notin> set (escape_char c) \<and> semicolon \<notin> set (escape_char c)"
  by code_simp

lemma unreserved_plain: "\<forall>c::char. unreserved c \<longrightarrow> c \<noteq> percent \<and> c \<noteq> plus_sign"
  by code_simp

lemma char_of_byte [simp]: "char_of (byte c) = c"
  by (simp add: byte_def)

lemma unescape_char: "QueryUnescape (escape_char c @ t) = map_option (\<lambda>r. c # r) (QueryUnescape t)"
proof (cases "unreserved c")
  case True
  then show ?thesis using unreserved_plain by (simp add: escape_char_def)
next
  case False
  show ?thesis
  proof (cases "c = blank")
    case True
    with False show ?thesis by (simp add: escape_char_def plus_sign_def percent_def blank_def)
  next
    case nb: False
    have "byte c div 16 * 16 + byte c mod 16 = byte c" by simp
    with False nb hex_chars show ?thesis by (simp add: escape_char_def)
  qed
qed

lemma unescape_escape [simp]: "QueryUnescape (QueryEscape s) = Some s"
  by (induction s) (simp_all add: QueryEscape_def unescape_char)

lemma escaped_clean: "amp \<notin> set (QueryEscape s) \<and> equals \<notin> set (QueryEscape s) \<and> semicolon \<notin> set (QueryEscape s)"
  using escape_safe by (auto simp: QueryEscape_def)

lemma Cut_at: "sep \<notin> set k \<Longrightarrow> Cut sep (k @ sep # v) = Some (k, v)"
  by (induction k) auto

lemma parse_pair_encoded: "parse_pair (QueryEscape k @ [equals] @ QueryEscape v) = [(k, v)]"
  using escaped_clean [of k] escaped_clean [of v]
  by (simp add: parse_pair_def Cut_at equals_def semicolon_def)

lemma ParseQuery_Nil [simp]: "ParseQuery [] = []"
  by (simp add: ParseQuery_def parse_pair_def)

lemma parse_all:
  "concat (map (\<lambda>kv. parse_pair (case kv of (k, v) \<Rightarrow> QueryEscape k @ [equals] @ QueryEscape v)) q) = q"
  by (induction q) (auto simp: parse_pair_encoded simp del: append_Cons append_Nil)

lemma ParseQuery_Encode: "ParseQuery (EncodeValues q) = order_by fst q"
proof (cases "order_by fst q = []")
  case True
  then show ?thesis by (simp add: EncodeValues_def)
next
  case False
  let ?ps = "map (\<lambda>(k, v). QueryEscape k @ [equals] @ QueryEscape v) (order_by fst q)"
  have "\<forall>p\<in>set ?ps. amp \<notin> set p"
    using escaped_clean by (auto simp: amp_def equals_def)
  with False have "Split amp (EncodeValues q) = ?ps"
    unfolding EncodeValues_def by (intro Split_Join) auto
  then have "ParseQuery (EncodeValues q) = concat (map (\<lambda>kv. parse_pair (case kv of (k, v) \<Rightarrow> QueryEscape k @ [equals] @ QueryEscape v)) (order_by fst q))"
    by (simp add: ParseQuery_def comp_def)
  also have "\<dots> = order_by fst q"
    by (rule parse_all)
  finally show ?thesis .
qed

lemma values_of_ordered: "values_of (order_by fst q) k = values_of q k"
proof -
  have "(\<lambda>(k', v). k' = k) = (\<lambda>y::string \<times> string. fst y = k)" by auto
  then show ?thesis
    by (simp add: values_of_def order_by_def sort_key_stable)
qed

end
