(* ===== verification/Server.thy ===== *)
theory Server
  imports Go_Url Go_Paths Scan_Enqueuer Auth_Keys
begin

text \<open>
  The HTTP API of \<open>internal/server/server.go\<close>: the extraction of the API key, the four endpoints with
  every status they answer, the conversion of a Lidarr webhook into queue inputs, and the redaction
  of the request line in the log.
\<close>

section \<open>Requests and responses\<close>

text \<open>
  \<open>rl_path\<close> is the escaped path, \<open>rl_query\<close> the raw query. The body of a request is what the JSON
  decoder makes of it at the type \<open>lidarrWebhook\<close>: \<open>None\<close> when the text is not JSON of that shape or is
  longer than \<open>maxWebhookBody\<close>.
\<close>

definition maxWebhookBody :: int where "maxWebhookBody = 1048576"

record URL =
  rl_path :: string
  rl_query :: string
  rl_force_query :: bool

record lidarrWebhook =
  lw_EventType :: string
  lw_ArtistName :: string
  lw_AlbumTitle :: string
  lw_TrackTitle :: string
  lw_Tracks :: "string list"

record Request =
  rq_method :: string
  rq_url :: URL
  rq_authorization :: string
  rq_body :: "lidarrWebhook option"

datatype json = JStr string | JInt int | JObj "(string \<times> json) list"

datatype body = PlainText string | JSONBody json

record Response =
  rs_status :: int
  rs_body :: body

definition http_error :: "string \<Rightarrow> int \<Rightarrow> Response" where
  "http_error msg code = \<lparr>rs_status = code, rs_body = PlainText (msg @ [CHR 0x0A])\<rparr>"

definition writeJSON :: "int \<Rightarrow> json \<Rightarrow> Response" where
  "writeJSON code v = \<lparr>rs_status = code, rs_body = JSONBody v\<rparr>"

text \<open>\<open>http.StatusText\<close> of the codes the handlers use it for.\<close>

definition StatusText :: "int \<Rightarrow> string" where
  "StatusText code =
     (if code = 401 then ''Unauthorized'' else if code = 403 then ''Forbidden''
      else if code = 500 then ''Internal Server Error'' else [])"

section \<open>The handler\<close>

type_synonym 's authenticate_fn = "string \<Rightarrow> Scope \<Rightarrow> 's \<Rightarrow> Key res"

record 's WorkQueueIf =
  wqi_Enqueue :: "'s enqueue_fn"
  wqi_Cleanup :: "nat \<Rightarrow> Inputs \<Rightarrow> 's \<Rightarrow> int res \<times> 's"

record 's Handler =
  hd_auth :: "'s authenticate_fn option"
  hd_queue :: "'s WorkQueueIf option"
  hd_outdir :: string
  hd_priority :: int
  hd_ready :: "('s \<Rightarrow> goerr option) option"
  hd_stats :: "('s \<Rightarrow> (status \<rightharpoonup> int) res) option"

definition NewHandler ::
  "'s authenticate_fn option \<Rightarrow> 's WorkQueueIf option \<Rightarrow> string \<Rightarrow> ('s Handler \<Rightarrow> 's Handler) list \<Rightarrow> 's Handler"
where
  "NewHandler a q outdir opts =
     fold (\<lambda>opt h. opt h) opts
       \<lparr>hd_auth = a, hd_queue = q, hd_outdir = outdir, hd_priority = PriorityWebhook, hd_ready = None, hd_stats = None\<rparr>"

definition WithReadiness :: "('s \<Rightarrow> goerr option) \<Rightarrow> 's Handler \<Rightarrow> 's Handler" where
  "WithReadiness r h = h\<lparr>hd_ready := Some r\<rparr>"

definition WithStatusReporter :: "('s \<Rightarrow> (status \<rightharpoonup> int) res) \<Rightarrow> 's Handler \<Rightarrow> 's Handler" where
  "WithStatusReporter r h = h\<lparr>hd_stats := Some r\<rparr>"

definition handleHealthz :: Response where
  "handleHealthz = writeJSON 200 (JObj [(''status'', JStr ''ok'')])"

definition handleReadyz :: "'s Handler \<Rightarrow> 's \<Rightarrow> Response" where
  "handleReadyz h s =
     (case hd_ready h of
        None \<Rightarrow> writeJSON 200 (JObj [(''status'', JStr ''ready'')])
      | Some ping \<Rightarrow>
         (case ping s of
            Some e \<Rightarrow> writeJSON 503
              (JObj [(''checks'', JObj [(''database'', JStr ''error'')]), (''status'', JStr ''unavailable'')])
          | None \<Rightarrow> writeJSON 200
              (JObj [(''checks'', JObj [(''database'', JStr ''ok'')]), (''status'', JStr ''ready'')])))"

definition apiKey :: "Request \<Rightarrow> string" where
  "apiKey r =
     (let v = TrimSpace (GetValue (ParseQuery (rl_query (rq_url r))) ''apikey'')
      in if v \<noteq> '''' then v
         else let a = TrimSpace (rq_authorization r)
         in if a \<noteq> ''''
            then (case Cut blank a of
                    Some (scheme, token) \<Rightarrow> if EqualFoldWord scheme ''Bearer'' then TrimSpace token else ''''
                  | None \<Rightarrow> '''')
            else '''')"

text \<open>The answer to a request whose key was refused, in both handlers.\<close>

definition auth_refusal :: "goerr \<Rightarrow> Response" where
  "auth_refusal e =
     (if errors_Is e ErrForbiddenScope then http_error (StatusText 403) 403
      else if errors_Is e ErrInvalidKey \<or> errors_Is e ErrRevokedKey then http_error (StatusText 401) 401
      else http_error (StatusText 500) 500)"

text \<open>Statuses in the order of their texts, in which \<open>encoding/json\<close> writes the keys of a map.\<close>

instantiation status :: linorder
begin

definition less_eq_status :: "status \<Rightarrow> status \<Rightarrow> bool" where
  "less_eq_status x y \<longleftrightarrow> status_text x \<le> status_text y"

definition less_status :: "status \<Rightarrow> status \<Rightarrow> bool" where
  "less_status x y \<longleftrightarrow> status_text x < status_text y"

instance
proof
  fix x y z :: status
  have inj: "status_text x = status_text y \<Longrightarrow> x = y" by (cases x; cases y) simp_all
  show "x < y \<longleftrightarrow> x \<le> y \<and> \<not> y \<le> x" by (auto simp: less_eq_status_def less_status_def)
  show "x \<le> x" by (simp add: less_eq_status_def)
  show "x \<le> y \<Longrightarrow> y \<le> z \<Longrightarrow> x \<le> z" unfolding less_eq_status_def by (rule order_trans)
  show "x \<le> y \<Longrightarrow> y \<le> x \<Longrightarrow> x = y" unfolding less_eq_status_def using inj by simp
  show "x \<le> y \<or> y \<le> x" unfolding less_eq_status_def by (rule linear)
qed

end

lemma statuses_in_order: "sorted_list_of_set (UNIV :: status set) = [Done, Failed, Pending, Processing]"
proof -
  have u: "(UNIV :: status set) = {Done, Failed, Pending, Processing}" by (auto intro: status.exhaust)
  show ?thesis unfolding u by (simp add: less_eq_status_def less_status_def)
qed

text \<open>The object \<open>encoding/json\<close> writes for a map: its keys sorted.\<close>

definition counts_json :: "(status \<rightharpoonup> int) \<Rightarrow> json" where
  "counts_json counts =
     JObj (concat (map (\<lambda>st. case counts st of None \<Rightarrow> [] | Some n \<Rightarrow> [(status_text st, JInt n)])
       [Done, Failed, Pending, Processing]))"

lemma counts_json_ordered:
  "counts_json counts =
     JObj (concat (map (\<lambda>st. case counts st of None \<Rightarrow> [] | Some n \<Rightarrow> [(status_text st, JInt n)]) (sorted_list_of_set UNIV)))"
  by (simp only: counts_json_def statuses_in_order)

definition handleStatus :: "'s Handler \<Rightarrow> Request \<Rightarrow> 's \<Rightarrow> Response" where
  "handleStatus h r s =
     (case hd_auth h of None \<Rightarrow> http_error ''auth unavailable'' 500
      | Some auth \<Rightarrow>
        (case auth (apiKey r) ScopeAdmin s of
           Inl e \<Rightarrow> auth_refusal e
         | Inr _ \<Rightarrow>
            (case hd_stats h of
               None \<Rightarrow> writeJSON 200 (JObj [(''status'', JStr ''ok'')])
             | Some stats \<Rightarrow>
                (case stats s of
                   Inl e \<Rightarrow> http_error ''status unavailable'' 500
                 | Inr counts \<Rightarrow>
                     writeJSON 200 (JObj [(''queue'', counts_json counts), (''status'', JStr ''ok'')])))))"

section \<open>The Lidarr webhook\<close>

fun inputs_loop :: "string \<Rightarrow> string \<Rightarrow> string \<Rightarrow> string list \<Rightarrow> Inputs list res" where
  "inputs_loop artist album outdir [] = Inr []"
| "inputs_loop artist album outdir (t # ts) =
     (let title = TrimSpace t
      in if title = '''' then Inl (New ''missing track title'')
         else case inputs_loop artist album outdir ts of
           Inl e \<Rightarrow> Inl e
         | Inr rest \<Rightarrow>
            Inr (zero_Inputs\<lparr>in_Track := zero_Track\<lparr>tr_ArtistName := artist, tr_TrackName := title, tr_AlbumName := album\<rparr>,
                   in_Outdir := outdir, in_OutputPaths := [\<lparr>op_Outdir = outdir, op_Filename = ''''\<rparr>]\<rparr> # rest))"

definition webhook_inputs :: "'s Handler \<Rightarrow> lidarrWebhook \<Rightarrow> Inputs list res" where
  "webhook_inputs h payload =
     (let artist = TrimSpace (lw_ArtistName payload)
      in if artist = '''' then Inl (New ''missing artist'')
         else let album = TrimSpace (lw_AlbumTitle payload);
                  tracks = lw_Tracks payload;
                  tracks = (if length tracks = 0 \<and> lw_TrackTitle payload \<noteq> '''' then [lw_TrackTitle payload] else tracks)
              in if length tracks = 0 then Inl (New ''missing tracks'')
                 else inputs_loop artist album (hd_outdir h) tracks)"

fun enqueue_all :: "'s WorkQueueIf \<Rightarrow> int \<Rightarrow> nat \<Rightarrow> Inputs list \<Rightarrow> 's \<Rightarrow> bool \<times> 's" where
  "enqueue_all q priority k [] s = (True, s)"
| "enqueue_all q priority k (v # vs) s =
     (case wqi_Enqueue q k v priority s of
        (Inl e, s') \<Rightarrow> (False, s')
      | (Inr _, s') \<Rightarrow> enqueue_all q priority (k + 1) vs s')"

fun cleanup_all :: "'s WorkQueueIf \<Rightarrow> nat \<Rightarrow> Inputs list \<Rightarrow> int \<Rightarrow> 's \<Rightarrow> int option \<times> 's" where
  "cleanup_all q k [] removed s = (Some removed, s)"
| "cleanup_all q k (v # vs) removed s =
     (case wqi_Cleanup q k v s of
        (Inl e, s') \<Rightarrow> (None, s')
      | (Inr n, s') \<Rightarrow> cleanup_all q (k + 1) vs (removed + n) s')"

definition ok_response :: Response where
  "ok_response = \<lparr>rs_status = 200, rs_body = PlainText (''ok'' @ [CHR 0x0A])\<rparr>"

definition handleLidarr :: "'s Handler \<Rightarrow> Request \<Rightarrow> 's \<Rightarrow> Response \<times> 's" where
  "handleLidarr h r s =
     (case hd_auth h of None \<Rightarrow> (http_error ''auth unavailable'' 500, s) | Some auth \<Rightarrow>
     (case hd_queue h of None \<Rightarrow> (http_error ''queue unavailable'' 500, s) | Some q \<Rightarrow>
     (case auth (apiKey r) ScopeWebhook s of
        Inl e \<Rightarrow> (auth_refusal e, s)
      | Inr _ \<Rightarrow>
     (case rq_body r of None \<Rightarrow> (http_error ''invalid lidarr webhook payload'' 400, s) | Some payload \<Rightarrow>
       (let event = TrimSpace (lw_EventType payload) in
        if event = ''Download'' \<or> event = ''TrackRetag'' then
          (case webhook_inputs h payload of
             Inl e \<Rightarrow> (http_error (Error e) 400, s)
           | Inr inputs \<Rightarrow>
              (case enqueue_all q (hd_priority h) 0 inputs s of
                 (False, s') \<Rightarrow> (http_error ''enqueue failed'' 500, s')
               | (True, s') \<Rightarrow> (ok_response, s')))
        else if event = ''Grab'' then (ok_response, s)
        else if event = ''Rename'' then (ok_response, s)
        else if event = ''Delete'' then
          (case webhook_inputs h payload of
             Inl e \<Rightarrow> (ok_response, s)
           | Inr inputs \<Rightarrow>
              (case cleanup_all q 0 inputs 0 s of
                 (None, s') \<Rightarrow> (http_error ''cleanup failed'' 500, s')
               | (Some removed, s') \<Rightarrow> (ok_response, s')))
        else (http_error ''unsupported lidarr event'' 400, s))))))"

section \<open>Routing and logging\<close>

text \<open>
  The routes \<open>NewHandler\<close> registers, for a clean path: a GET route also serves HEAD, another method on a
  registered path is 405, another path 404. (\<open>http.ServeMux\<close> redirects an unclean path to its clean
  form first; that is not modelled.) A path matches a route segment by segment, each unescaped as
  \<open>url.PathUnescape\<close> does, or as it stands when it holds a malformed escape.
\<close>

fun PathUnescape :: "string \<Rightarrow> string option" where
  "PathUnescape [] = Some []"
| "PathUnescape (c # s) =
     (if c = percent then
        (case s of
           a # b # t \<Rightarrow>
             (case (hex_value a, hex_value b) of
                (Some x, Some y) \<Rightarrow> map_option (\<lambda>r. char_of (x * 16 + y) # r) (PathUnescape t)
              | _ \<Rightarrow> None)
         | _ \<Rightarrow> None)
      else map_option (\<lambda>r. c # r) (PathUnescape s))"

definition segments :: "URL \<Rightarrow> string list" where
  "segments l = map (\<lambda>seg. case PathUnescape seg of None \<Rightarrow> seg | Some t \<Rightarrow> t) (Split slash (rl_path l))"

definition routed :: "URL \<Rightarrow> string \<Rightarrow> bool" where
  "routed l route \<longleftrightarrow> segments l = Split slash route"

definition ServeMux :: "'s Handler \<Rightarrow> Request \<Rightarrow> 's \<Rightarrow> Response \<times> 's" where
  "ServeMux h r s =
     (let p = rq_url r; m = rq_method r; get = (m = ''GET'' \<or> m = ''HEAD'');
          wrong = (http_error ''Method Not Allowed'' 405, s)
      in if routed p ''/api/v1/webhooks/lidarr'' then (if m = ''POST'' then handleLidarr h r s else wrong)
         else if routed p ''/healthz'' then (if get then (handleHealthz, s) else wrong)
         else if routed p ''/readyz'' then (if get then (handleReadyz h s, s) else wrong)
         else if routed p ''/api/v1/status'' then (if get then (handleStatus h r s, s) else wrong)
         else (http_error ''404 page not found'' 404, s))"

definition RequestURI :: "URL \<Rightarrow> string" where
  "RequestURI u =
     (let p = (if rl_path u = '''' then ''/'' else rl_path u)
      in if rl_force_query u \<or> rl_query u \<noteq> '''' then p @ ''?'' @ rl_query u else p)"

definition redacted :: "URL \<Rightarrow> URL" where
  "redacted u =
     (let q = ParseQuery (rl_query u)
      in if values_of q ''apikey'' \<noteq> [] then u\<lparr>rl_query := EncodeValues (SetValue q ''apikey'' ''REDACTED'')\<rparr> else u)"

definition redactURI :: "URL option \<Rightarrow> string" where
  "redactURI u = (case u of None \<Rightarrow> '''' | Some u \<Rightarrow> RequestURI (redacted u))"

text \<open>\<open>ServeHTTP\<close>: the response, and the method, request line and status of the log entry.\<close>

definition ServeHTTP :: "'s Handler \<Rightarrow> Request \<Rightarrow> 's \<Rightarrow> Response \<times> (string \<times> string \<times> int) \<times> 's" where
  "ServeHTTP h r s =
     (case ServeMux h r s of
        (resp, s') \<Rightarrow> (resp, (rq_method r, redactURI (Some (rq_url r)), rs_status resp), s'))"

section \<open>The log never holds a usable key\<close>

lemma values_of_SetValue:
  "values_of (SetValue q k v) k' = (if k' = k then [v] else values_of q k')"
  by (auto simp: values_of_def SetValue_def filter_filter case_prod_beta intro!: arg_cong [of _ _ "map snd"] filter_cong)

text \<open>
  The request line that ServeHTTP logs differs from the request's own at most in its query, and
  parsing that query shows every parameter with the values it had, except apikey, which reads
  REDACTED whatever it was.
\<close>
theorem log_hides_api_key:
  "\<exists>q. redactURI (Some u) = RequestURI (u\<lparr>rl_query := q\<rparr>) \<and>
     (\<forall>k. values_of (ParseQuery q) k =
        (if k \<noteq> ''apikey'' then values_of (ParseQuery (rl_query u)) k
         else map (\<lambda>_. ''REDACTED'') (take 1 (values_of (ParseQuery (rl_query u)) k))))"
proof (cases "values_of (ParseQuery (rl_query u)) ''apikey''")
  case Nil
  then show ?thesis by (intro exI [of _ "rl_query u"]) (simp add: redactURI_def redacted_def Let_def)
next
  case (Cons v vs)
  then show ?thesis
    by (intro exI [of _ "EncodeValues (SetValue (ParseQuery (rl_query u)) ''apikey'' ''REDACTED'')"])
      (simp add: redactURI_def redacted_def Let_def ParseQuery_Encode values_of_ordered values_of_SetValue)
qed

section \<open>The server on the database\<close>

definition db_webhook_queue :: "unicode_env \<Rightarrow> (nat \<Rightarrow> io) \<Rightarrow> (nat \<Rightarrow> int \<times> int) \<Rightarrow> db WorkQueueIf" where
  "db_webhook_queue u ios clocks =
     \<lparr>wqi_Enqueue = db_queue u ios clocks, wqi_Cleanup = (\<lambda>k inputs. Cleanup u (honest_io (ios k)) inputs)\<rparr>"

text \<open>
  The handler \<open>runServe\<close> builds: the key service, the queue, the readiness check and the counts. The lookup
  of a key meets the driver errors \<open>io 0\<close>, the counts of the status endpoint \<open>io 1\<close>.
\<close>

definition db_handler ::
  "kdf \<Rightarrow> string res \<Rightarrow> int \<Rightarrow> unicode_env \<Rightarrow> (nat \<Rightarrow> io) \<Rightarrow> (nat \<Rightarrow> int \<times> int) \<Rightarrow> (db \<Rightarrow> goerr option) \<Rightarrow> (nat \<Rightarrow> io) \<Rightarrow> string \<Rightarrow> db Handler"
where
  "db_handler kdf rnd now u ios clocks ping io outdir =
     NewHandler (Some (ValidateKey kdf (NewService (sql_store (io 0)) rnd now)))
       (Some (db_webhook_queue u ios clocks)) outdir [WithReadiness ping, WithStatusReporter (CountByStatus (io 1))]"

lemma db_handler_simps [simp]:
  "hd_auth (db_handler kdf rnd now u ios clocks ping io outdir) =
     Some (ValidateKey kdf (NewService (sql_store (io 0)) rnd now))"
  "hd_queue (db_handler kdf rnd now u ios clocks ping io outdir) = Some (db_webhook_queue u ios clocks)"
  "hd_stats (db_handler kdf rnd now u ios clocks ping io outdir) = Some (CountByStatus (io 1))"
  "hd_ready (db_handler kdf rnd now u ios clocks ping io outdir) = Some ping"
  "hd_priority (db_handler kdf rnd now u ios clocks ping io outdir) = PriorityWebhook"
  "hd_outdir (db_handler kdf rnd now u ios clocks ping io outdir) = outdir"
  by (simp_all add: db_handler_def NewHandler_def WithReadiness_def WithStatusReporter_def)

lemma routes_differ:
  "routed l ''/api/v1/webhooks/lidarr'' \<Longrightarrow> \<not> routed l ''/api/v1/status''"
  "routed l ''/healthz'' \<Longrightarrow> \<not> routed l ''/api/v1/status''"
  "routed l ''/readyz'' \<Longrightarrow> \<not> routed l ''/api/v1/status''"
  by (auto simp: routed_def slash_def)

lemma auth_refusal_status: "rs_status (auth_refusal e) \<in> {401, 403, 500}"
  by (simp add: auth_refusal_def http_error_def)

text \<open>An error of the driver can only refuse a key.\<close>

lemma faulty_lookup:
  assumes "ValidateKey kdf (NewService (sql_store io) rnd now) raw required d = Inr k"
  shows "ValidateKey kdf (NewService (sql_store no_faults) rnd now) raw required d = Inr k"
proof -
  have "SQLFindByHash no_faults h d = Inr k" if "SQLFindByHash io h d = Inr k" for h k
    using that by (auto simp: SQLFindByHash_def query_row_def split: option.splits sum.splits if_splits)
  with assms show ?thesis
    by (auto simp: ValidateKey_def NewService_def sql_store_def split: if_splits sum.splits)
qed

lemma key_accepted:
  assumes "db_wf d" "ValidateKey kdf (NewService (sql_store io) rnd now) raw required d = Inr k"
  shows "HasPrefix raw KeyPrefix \<and>
    (\<exists>h i sc. HashKey kdf raw = Inr h \<and> sql_view d h = Some (i, sc, False) \<and> HasScope sc required)"
proof -
  have "sql.decision kdf raw required d = Inr (ky_ID k)"
    using sql.validate_decision [OF assms(1), of kdf rnd now raw required] faulty_lookup [OF assms(2)] by simp
  then show ?thesis
    by (auto simp: sql.decision_def split: if_splits sum.splits option.splits)
qed

text \<open>
  C38. The webhook and the status endpoint need a key. A request that is answered with 200 on one of
  them, and every request that changes the database, carries a raw key with the service's prefix whose
  hash is stored, is not revoked, and has the scope of the endpoint (or admin), however the path is
  escaped and whatever errors the driver reports while the key is looked up.
\<close>
theorem protected_endpoints_need_a_key:
  assumes "db_wf d"
    and "ServeHTTP (db_handler kdf rnd now u ios clocks ping io outdir) r d = (resp, entry, d')"
    and "((routed (rq_url r) ''/api/v1/webhooks/lidarr'' \<or> routed (rq_url r) ''/api/v1/status'') \<and> rs_status resp = 200) \<or> d' \<noteq> d"
  shows "HasPrefix (apiKey r) KeyPrefix \<and>
    (\<exists>h i sc. HashKey kdf (apiKey r) = Inr h \<and> sql_view d h = Some (i, sc, False) \<and>
       HasScope sc (if routed (rq_url r) ''/api/v1/status'' then ScopeAdmin else ScopeWebhook))"
proof -
  let ?h = "db_handler kdf rnd now u ios clocks ping io outdir"
  have mux: "ServeMux ?h r d = (resp, d')" using assms(2) by (auto simp: ServeHTTP_def split: prod.splits)
  consider (hook) "\<not> routed (rq_url r) ''/api/v1/status''" "handleLidarr ?h r d = (resp, d')"
    | (status) "routed (rq_url r) ''/api/v1/status''" "handleStatus ?h r d = resp" "rs_status resp = 200"
    using mux assms(3) routes_differ by (auto simp: ServeMux_def Let_def http_error_def split: if_splits)
  then show ?thesis
  proof cases
    case hook
    show ?thesis
    proof (cases "ValidateKey kdf (NewService (sql_store (io 0)) rnd now) (apiKey r) ScopeWebhook d")
      case (Inl e)
      then have "resp = auth_refusal e" "d' = d" using hook(2) by (simp_all add: handleLidarr_def)
      with assms(3) auth_refusal_status [of e] show ?thesis by auto
    next
      case (Inr k)
      from key_accepted [OF assms(1) this] hook(1) show ?thesis by simp
    qed
  next
    case status
    show ?thesis
    proof (cases "ValidateKey kdf (NewService (sql_store (io 0)) rnd now) (apiKey r) ScopeAdmin d")
      case (Inl e)
      then have "resp = auth_refusal e" using status(2) by (simp add: handleStatus_def)
      with status(3) auth_refusal_status [of e] show ?thesis by auto
    next
      case (Inr k)
      from key_accepted [OF assms(1) this] status(1) show ?thesis by simp
    qed
  qed
qed

section \<open>What a Download webhook queues\<close>

text \<open>The song has a queue row of at least the priority.\<close>

definition due_for :: "db \<Rightarrow> int \<Rightarrow> string \<times> string \<Rightarrow> bool" where
  "due_for d p k \<longleftrightarrow> opt_where (\<lambda>row. p \<le> wq_priority row) (row_for d k)"

lemma enqueue_row_due:
  assumes "db_wf d" "Enqueue u io now dbt inputs p d = (Inr item, d')"
  shows "due_for d' p (key_of u inputs) \<and> (\<forall>k p'. due_for d p' k \<longrightarrow> due_for d' p' k)"
proof -
  let ?exc = "excluded_row u inputs p (formatTime now) dbt (wq_seq d + 1)"
  from Enqueue_effect(2) [OF assms] obtain t where
    row: "row_for d' (key_of u inputs) = Some (upserted (p \<ge> PriorityWebhook) ?exc d\<lparr>wq_updated_at := t\<rparr>)"
    by (auto simp: enqueue_row_def)
  have other: "row_for d' k = row_for d k" if "k \<noteq> key_of u inputs" for k
    using Enqueue_effect(3) [OF assms that] .
  have pr: "max (case row_for d (key_of u inputs) of None \<Rightarrow> p | Some old \<Rightarrow> wq_priority old) p
      = wq_priority (upserted (p \<ge> PriorityWebhook) ?exc d)"
    by (auto simp: upserted_def conflict_row_def Let_def split: option.splits)
  have "due_for d' p (key_of u inputs)"
    using pr by (simp add: due_for_def opt_where_def row)
  moreover have "due_for d' p' k" if "due_for d p' k" for k p'
    using that pr other [of k] by (cases "k = key_of u inputs") (auto simp: due_for_def opt_where_def row split: option.splits)
  ultimately show ?thesis by blast
qed

lemma enqueue_all_due:
  assumes "db_wf d" "enqueue_all (db_webhook_queue u ios clocks) p k inputs d = (True, d')"
  shows "db_wf d' \<and> (\<forall>key p'. due_for d p' key \<longrightarrow> due_for d' p' key) \<and>
    (\<forall>v\<in>set inputs. due_for d' p (key_of u v)) \<and>
    (\<forall>key. key \<notin> key_of u ` set inputs \<longrightarrow> row_for d' key = row_for d key)"
  using assms
proof (induction inputs arbitrary: k d)
  case (Cons v vs)
  from Cons.prems(2) obtain item d1 where
    e: "Enqueue u (honest_io (ios k)) (fst (clocks k)) (snd (clocks k)) v p d = (Inr item, d1)"
    and rest: "enqueue_all (db_webhook_queue u ios clocks) p (k + 1) vs d1 = (True, d')"
    by (auto simp: db_webhook_queue_def db_queue_def split: prod.splits sum.splits)
  have "db_wf d1"
    using Enqueue_wf [OF Cons.prems(1), of u "honest_io (ios k)" "fst (clocks k)" "snd (clocks k)" v p] e by simp
  from Cons.IH [OF this rest] have
    IH: "db_wf d'" "\<And>key p'. due_for d1 p' key \<Longrightarrow> due_for d' p' key"
    "\<And>w. w \<in> set vs \<Longrightarrow> due_for d' p (key_of u w)"
    "\<And>key. key \<notin> key_of u ` set vs \<Longrightarrow> row_for d' key = row_for d1 key" by blast+
  have one: "due_for d1 p (key_of u v)" "\<And>key p'. due_for d p' key \<Longrightarrow> due_for d1 p' key"
    "\<And>key. key \<noteq> key_of u v \<Longrightarrow> row_for d1 key = row_for d key"
    using enqueue_row_due [OF Cons.prems(1) e] Enqueue_effect(3) [OF Cons.prems(1) e] by blast+
  have "\<forall>w\<in>set (v # vs). due_for d' p (key_of u w)"
    using IH(2) [OF one(1)] IH(3) by (metis set_ConsD)
  moreover have "row_for d' key = row_for d key" if "key \<notin> key_of u ` set (v # vs)" for key
    using IH(4) [of key] one(3) [of key] that by (metis image_insert insertCI list.simps(15))
  ultimately show ?case using IH(1) IH(2) one(2) by blast
qed simp

lemma inputs_loop_keys:
  "inputs_loop artist album outdir ts = Inr vs \<Longrightarrow>
     (\<forall>t\<in>set ts. TrimSpace t \<noteq> '''') \<and>
     map (key_of u) vs = map (\<lambda>t. (NormalizeKey u artist, NormalizeKey u (TrimSpace t))) ts"
  by (induction ts arbitrary: vs) (auto simp: Let_def key_of_def split: if_splits sum.splits)

text \<open>
  C39. A Download or TrackRetag webhook that is answered with 200 names an artist, and a title for each of its
  tracks, which are those of its list, or its single track if the list is empty; for every one of them the
  queue has a row with the normalized artist and title and at least webhook priority, and the rows of other
  songs are untouched. Hence a blank artist, a blank title and a payload without tracks are never answered
  with 200, and no track is left out.
\<close>
theorem webhook_queues_every_track:
  assumes "db_wf d"
    and "handleLidarr (db_handler kdf rnd now u ios clocks ping io outdir) r d = (resp, d')"
    and "rs_status resp = 200" and "rq_body r = Some payload"
    and "TrimSpace (lw_EventType payload) \<in> {''Download'', ''TrackRetag''}"
  shows "let artist = TrimSpace (lw_ArtistName payload);
      named = (if lw_Tracks payload = [] then [lw_TrackTitle payload] else lw_Tracks payload);
      key = (\<lambda>t. (NormalizeKey u artist, NormalizeKey u (TrimSpace t)))
    in artist \<noteq> '''' \<and> (\<forall>t\<in>set named. TrimSpace t \<noteq> '''' \<and> due_for d' PriorityWebhook (key t)) \<and>
      (\<forall>k. k \<notin> key ` set named \<longrightarrow> row_for d' k = row_for d k) \<and> db_wf d'"
proof -
  let ?h = "db_handler kdf rnd now u ios clocks ping io outdir"
  let ?artist = "TrimSpace (lw_ArtistName payload)"
  let ?named = "if lw_Tracks payload = [] then [lw_TrackTitle payload] else lw_Tracks payload"
  let ?key = "\<lambda>t. (NormalizeKey u ?artist, NormalizeKey u (TrimSpace t))"
  have ref: "rs_status (auth_refusal e) \<noteq> 200" for e using auth_refusal_status [of e] by auto
  from assms(2-5) obtain inputs where
    inp: "webhook_inputs ?h payload = Inr inputs"
    and all: "enqueue_all (db_webhook_queue u ios clocks) PriorityWebhook 0 inputs d = (True, d')"
    using ref by (auto simp: handleLidarr_def Let_def http_error_def split: sum.splits prod.splits bool.splits if_splits)
  from inp have artist: "?artist \<noteq> ''''"
    and loop: "inputs_loop ?artist (TrimSpace (lw_AlbumTitle payload)) outdir ?named = Inr inputs"
    by (auto simp: webhook_inputs_def Let_def split: if_splits)
  from inputs_loop_keys [OF loop, of u] have titles: "\<forall>t\<in>set ?named. TrimSpace t \<noteq> ''''"
    and keys: "key_of u ` set inputs = ?key ` set ?named"
    by (metis, metis image_set)
  from enqueue_all_due [OF assms(1) all] have "db_wf d'" "\<forall>k. k \<notin> ?key ` set ?named \<longrightarrow> row_for d' k = row_for d k"
    and "\<forall>k\<in>?key ` set ?named. due_for d' PriorityWebhook k"
    unfolding keys [symmetric] by blast+
  with artist titles show ?thesis unfolding Let_def by blast
qed

section \<open>Concrete requests\<close>

definition keyed_db :: db where
  "keyed_db = snd (CreateKey plain_kdf (NewService (sql_store no_faults) zero_rand 0) ''ci'' [''webhook''] empty_db)"

definition sample_request :: Request where
  "sample_request =
     \<lparr>rq_method = ''POST'',
      rq_url = \<lparr>rl_path = ''/api/v1/webhooks/lidarr'', rl_query = ''x=1'', rl_force_query = False\<rparr>,
      rq_authorization = ''bearer '' @ zero_raw,
      rq_body = Some \<lparr>lw_EventType = ''Download'', lw_ArtistName = '' Adele'', lw_AlbumTitle = ''25'',
        lw_TrackTitle = '''', lw_Tracks = [''Hello'', ''Someone Like You'']\<rparr>\<rparr>"

definition sample_handler :: "db Handler" where
  "sample_handler =
     db_handler plain_kdf zero_rand 0 ascii_env (\<lambda>_. no_faults) (\<lambda>_. (5, 5)) (\<lambda>_. None) (\<lambda>_. no_faults) ''/out''"

lemma db_wf_keyed_db: "db_wf keyed_db"
proof -
  have "is_ok (fst (CreateKey plain_kdf (NewService (sql_store no_faults) zero_rand 0) ''ci'' [''webhook''] empty_db))"
    by code_simp
  then show ?thesis
    unfolding keyed_db_def using sql.create_decides [OF db_wf_empty] by (metis is_okE snd_conv)
qed

lemma sample_request_accepted: "rs_status (fst (handleLidarr sample_handler sample_request keyed_db)) = 200"
  by code_simp

theorem protected_endpoints_need_a_key_witness:
  "\<exists>resp entry d'. ServeHTTP sample_handler sample_request keyed_db = (resp, entry, d') \<and> rs_status resp = 200 \<and>
     HasPrefix (apiKey sample_request) KeyPrefix"
proof -
  obtain resp entry d' where e: "ServeHTTP sample_handler sample_request keyed_db = (resp, entry, d')"
    by (metis prod_cases3)
  have p: "routed (rq_url sample_request) ''/api/v1/webhooks/lidarr''" by code_simp
  have "rq_method sample_request = ''POST''" by (simp add: sample_request_def)
  with e p sample_request_accepted have "rs_status resp = 200"
    by (auto simp: ServeHTTP_def ServeMux_def Let_def split: prod.splits)
  with p have "HasPrefix (apiKey sample_request) KeyPrefix"
    using protected_endpoints_need_a_key [OF db_wf_keyed_db e [unfolded sample_handler_def]] by simp
  with e \<open>rs_status resp = 200\<close> show ?thesis by blast
qed

theorem webhook_queues_every_track_witness:
  "\<exists>resp d'. handleLidarr sample_handler sample_request keyed_db = (resp, d') \<and> rs_status resp = 200 \<and>
     due_for d' PriorityWebhook (''adele'', ''hello'') \<and> due_for d' PriorityWebhook (''adele'', ''someone like you'')"
proof -
  obtain resp d' where e: "handleLidarr sample_handler sample_request keyed_db = (resp, d')"
    by fastforce
  then have ok: "rs_status resp = 200" using sample_request_accepted by simp
  have t: "TrimSpace (lw_EventType (the (rq_body sample_request))) \<in> {''Download'', ''TrackRetag''}" by code_simp
  have b: "rq_body sample_request = Some (the (rq_body sample_request))" by (simp add: sample_request_def)
  have n: "''Hello'' \<in> set (lw_Tracks (the (rq_body sample_request)))"
    "''Someone Like You'' \<in> set (lw_Tracks (the (rq_body sample_request)))"
    "lw_Tracks (the (rq_body sample_request)) \<noteq> []"
    by (simp_all add: sample_request_def)
  have k: "NormalizeKey ascii_env (TrimSpace (lw_ArtistName (the (rq_body sample_request)))) = ''adele''"
    "NormalizeKey ascii_env (TrimSpace ''Hello'') = ''hello''"
    "NormalizeKey ascii_env (TrimSpace ''Someone Like You'') = ''someone like you''"
    by code_simp+
  note main = webhook_queues_every_track [OF db_wf_keyed_db e [unfolded sample_handler_def] ok b t, unfolded Let_def if_not_P [OF n(3)]]
  note due = bspec [OF conjunct1 [OF conjunct2 [OF main]]]
  have "due_for d' PriorityWebhook (''adele'', ''hello'')" using conjunct2 [OF due [OF n(1)]] by (simp only: k)
  moreover have "due_for d' PriorityWebhook (''adele'', ''someone like you'')" using conjunct2 [OF due [OF n(2)]] by (simp only: k)
  ultimately show ?thesis using e ok by blast
qed

end
