(* ===== verification/Service_Steps.thy ===== *)
theory Service_Steps
  imports Db_Steps Scheduler Server
begin

text \<open>
  The running service as an implementation of the state machine of theory \<open>Db_Steps\<close>: a round of the
  worker, a cycle of the scheduler and a request to the HTTP server each take the database along steps
  of the machine. Hence what holds in every execution of the machine holds in the service, however its
  goroutines interleave. Then the end of the worker's loop: once its context has ended, it returns.
\<close>

section \<open>A call of the service\<close>

text \<open>One call of a dependency: time passes, and at most one operation acts on the database.\<close>

definition sys_step :: "sys_env \<Rightarrow> sys \<Rightarrow> sys \<Rightarrow> bool" where
  "sys_step E s s' \<longleftrightarrow> sy_now s \<le> sy_now s' \<and> (sy_db s' = sy_db s \<or> db_step (se_u E) (sy_db s) (sy_db s'))"

lemma sys_steps_db: "(sys_step E)\<^sup>*\<^sup>* s s' \<Longrightarrow> (db_step (se_u E))\<^sup>*\<^sup>* (sy_db s) (sy_db s')"
  by (induction rule: rtranclp_induct) (auto simp: sys_step_def intro: rtranclp.rtrancl_into_rtrancl)

lemma sys_steps_now: "(sys_step E)\<^sup>*\<^sup>* s s' \<Longrightarrow> sy_now s \<le> sy_now s'"
  by (induction rule: rtranclp_induct) (auto simp: sys_step_def)

lemma tick_step: "sys_step E s (tick E s)"
  by (simp add: sys_step_def tick_def)

lemma on_db_step:
  assumes "on_db E f s = (r, s')" "\<And>io now dbt d. snd (f io now dbt d) = d \<or> db_step (se_u E) d (snd (f io now dbt d))"
  shows "sys_step E s s'"
proof -
  obtain d where f: "f (se_io E (sy_calls s)) (sy_now s) (se_dbt E (sy_calls s)) (sy_db s) = (r, d)" "s' = (tick E s)\<lparr>sy_db := d\<rparr>"
    using assms(1) by (auto simp: on_db_def split: prod.splits)
  from assms(2) [of "se_io E (sy_calls s)" "sy_now s" "se_dbt E (sy_calls s)" "sy_db s"] f show ?thesis
    by (auto simp: sys_step_def tick_def)
qed

section \<open>The worker\<close>

text \<open>\<open>trace\<close>: reached from a first state by calls, and sound.\<close>

definition trace :: "sys_env \<Rightarrow> sys \<Rightarrow> sys \<Rightarrow> bool" where
  "trace E s0 s \<longleftrightarrow> sound s \<and> (sys_step E)\<^sup>*\<^sup>* s0 s"

lemma trace_step: "trace E s0 s \<Longrightarrow> sys_step E s s' \<Longrightarrow> sound s' \<Longrightarrow> trace E s0 s'"
  unfolding trace_def by (meson rtranclp.rtrancl_into_rtrancl)

lemma service_calls:
  "qi_Dequeue (service_queue E) s = (x1, s') \<Longrightarrow> sys_step E s s'"
  "qi_Complete (service_queue E) i s = (x2, s') \<Longrightarrow> sys_step E s s'"
  "qi_Fail (service_queue E) i c s = (x3, s') \<Longrightarrow> sys_step E s s'"
  "qi_Release (service_queue E) i s = (x2, s') \<Longrightarrow> sys_step E s s'"
  "ca_LookupExact (service_cache E) a t al s = (x4, s') \<Longrightarrow> sys_step E s s'"
  "ca_LookupFallback (service_cache E) a t s = (x4, s') \<Longrightarrow> sys_step E s s'"
  "ca_Store (service_cache E) a t al l s = (x2, s') \<Longrightarrow> sys_step E s s'"
  by (auto simp: service_queue_def service_cache_def intro!: on_db_step db_step.intros)

lemma service_calls_out:
  "service_fetch E tr s = (x5, s') \<Longrightarrow> sys_step E s s'"
  "service_verify E = Some v \<Longrightarrow> v p sg s = (x6, s') \<Longrightarrow> sys_step E s s'"
  "service_write E sg fn dir s = (x2, s') \<Longrightarrow> sys_step E s s'"
  using tick_step [of E s]
  by (auto simp: service_fetch_def service_verify_def service_write_def sys_step_def split: prod.splits)

interpretation tr: worker_calls "service_worker E minConf 0 None" "trace E s0" for E minConf s0
proof
  fix s s' :: sys and x1 :: "WorkItem res" and c :: goerr and i :: int and xs :: "unit res"
    and a t al l p fn dir :: string and r :: "string res" and tr :: Track
    and f :: "Song res" and v :: "sys verify_fn" and sg :: Song and vr :: "VerifyResult res"
  assume tr: "trace E s0 s"
  then have s: "sound s" by (simp add: trace_def)
  let ?w = "service_worker E minConf 0 None"
  note go = trace_step [OF tr]
  show "trace E s0 s'" if "qi_Dequeue (wk_queue ?w) s = (x1, s')"
    using calls.deq_inv [OF s that] go service_calls(1) that by simp
  show "trace E s0 s'" if "qi_Complete (wk_queue ?w) i s = (xs, s')"
    using calls.complete_inv [OF s that] go service_calls(2) that by simp
  show "trace E s0 s'" if "qi_Fail (wk_queue ?w) i c s = (x1, s')"
    using calls.fail_inv [OF s that] go service_calls(3) that by simp
  show "trace E s0 s'" if "qi_Release (wk_queue ?w) i s = (xs, s')"
    using calls.release_inv [OF s that] go service_calls(4) that by simp
  show "trace E s0 s'" if "ca_LookupExact (wk_cache ?w) a t al s = (r, s')"
    using calls.exact_inv [OF s that] go service_calls(5) that by simp
  show "trace E s0 s'" if "ca_LookupFallback (wk_cache ?w) a t s = (r, s')"
    using calls.fallback_inv [OF s that] go service_calls(6) that by simp
  show "trace E s0 s'" if "ca_Store (wk_cache ?w) a t al l s = (xs, s')"
    using calls.store_inv [OF s that] go service_calls(7) that by simp
  show "trace E s0 s'" if "wk_fetcher ?w tr s = (f, s')"
    using calls.fetch_inv [OF s that] go service_calls_out(1) that by simp
  show "trace E s0 s'" if "wk_verifier ?w = Some v" "v p sg s = (vr, s')"
    using calls.verify_inv [OF s that] go service_calls_out(2) that by simp
  show "trace E s0 s'" if "wk_writer ?w sg fn dir s = (xs, s')"
    using calls.write_inv [OF s that] go service_calls_out(3) that by simp
qed

lemma RunOnce_steps:
  assumes "sound s" "calls.same_deps E minConf w" "RunOnce rnd u j ctxErr w s = (r, w', s')"
  shows "sound s' \<and> calls.same_deps E minConf w' \<and> (sys_step E)\<^sup>*\<^sup>* s s'"
  using tr.RunOnce_inv [OF assms(2) _ assms(3), of s] assms(1) by (simp add: trace_def)

section \<open>The scheduler and the HTTP server\<close>

lemma enqueuing_steps:
  assumes "EnqueuePending (db_enqueuer u ios clocks p) ctx lib d = (r, d')"
  shows "(db_step u)\<^sup>*\<^sup>* d d'"
proof (rule EnqueuePending_preserves [where P = "(db_step u)\<^sup>*\<^sup>* d", OF _ _ db_enqueuer_simps rtranclp.rtrancl_refl assms])
  fix k s s' and r :: "unit res" and ids and st :: string
  assume "prs_SetStatus (db_results ios) k ids st s = (r, s')"
  then have "s' = snd (SetStatus (honest_io (ios k)) ids st s)" by (simp add: db_results_def)
  then show "(db_step u)\<^sup>*\<^sup>* d s \<Longrightarrow> (db_step u)\<^sup>*\<^sup>* d s'"
    by (blast intro: rtranclp.rtrancl_into_rtrancl db_step.set_status)
next
  fix k s s' inputs and r :: "WorkItem res"
  assume "db_queue u ios clocks k inputs p s = (r, s')"
  then have "s' = snd (Enqueue u (honest_io (ios k)) (fst (clocks k)) (snd (clocks k)) inputs p s)" by (simp add: db_queue_def)
  then show "(db_step u)\<^sup>*\<^sup>* d s \<Longrightarrow> (db_step u)\<^sup>*\<^sup>* d s'"
    by (blast intro: rtranclp.rtrancl_into_rtrancl db_step.enqueue)
qed

text \<open>
  The states whose database is reached from a first one, at the same time or later: every call of a
  cycle stays among them.
\<close>

definition db_reach :: "sys_env \<Rightarrow> sys \<Rightarrow> sys \<Rightarrow> bool" where
  "db_reach E s s' \<longleftrightarrow> (db_step (se_u E))\<^sup>*\<^sup>* (sy_db s) (sy_db s') \<and> sy_now s \<le> sy_now s'"

lemma db_reach_refl [simp]: "db_reach E s s"
  by (simp add: db_reach_def)

lemma db_reach_trans: "db_reach E s s' \<Longrightarrow> db_reach E s' s'' \<Longrightarrow> db_reach E s s''"
  unfolding db_reach_def by (auto intro: rtranclp_trans)

lemma sys_steps_reach: "(sys_step E)\<^sup>*\<^sup>* s s' \<Longrightarrow> db_reach E s s'"
  by (simp add: db_reach_def sys_steps_db sys_steps_now)

lemma cycle_calls:
  "sched_list E s = (x1, s') \<Longrightarrow> db_reach E s s'"
  "sched_upsert E i rs uo s = (x2, s') \<Longrightarrow> db_reach E s s'"
  "sched_scan E P p opts s = (x3, s') \<Longrightarrow> db_reach E s s'"
  "sched_complete E P v rs s = (x2, s') \<Longrightarrow> db_reach E s s'"
proof -
  show "sched_list E s = (x1, s') \<Longrightarrow> db_reach E s s'"
    unfolding sched_list_def by (rule sys_steps_reach, rule r_into_rtranclp) (auto intro: on_db_step)
  show "sched_upsert E i rs uo s = (x2, s') \<Longrightarrow> db_reach E s s'"
    unfolding sched_upsert_def by (rule sys_steps_reach, rule r_into_rtranclp) (auto intro: on_db_step db_step.upsert)
  show "sched_scan E P p opts s = (x3, s') \<Longrightarrow> db_reach E s s'"
    by (auto simp: sched_scan_def db_reach_def tick_def)
  show "sched_complete E P v rs s = (x2, s') \<Longrightarrow> db_reach E s s'"
    by (auto simp: sched_complete_def db_reach_def tick_def split: prod.splits dest: enqueuing_steps)
qed

lemma scan_libraries_reach:
  assumes "scan_libraries sd ctxErr upsert scan vs s = (r, s')"
    and "\<And>i rs uo s r s'. upsert i rs uo s = (r, s') \<Longrightarrow> db_reach E s s'"
    and "\<And>p opts s r s'. scan p opts s = (r, s') \<Longrightarrow> db_reach E s s'"
    and "\<And>f v rs s r s'. sd_OnScanComplete sd = Some f \<Longrightarrow> f v rs s = (r, s') \<Longrightarrow> db_reach E s s'"
  shows "db_reach E s s'"
  using assms(1)
proof (induction vs arbitrary: s)
  case (Cons v vs)
  let ?rs = "\<lambda>found. label_results (lib_ID v) found"
  let ?uo = "\<lparr>uo_ForceStatus = (sn_Update (sd_Options sd) \<or> sn_Upgrade (sd_Options sd))\<rparr>"
  obtain r1 s1 where sc: "scan (lib_Path v) (sd_Options sd) s = (r1, s1)" by fastforce
  note run = Cons.prems [unfolded scan_libraries.simps Let_def sc]
  show ?case
  proof (cases "ctxErr s = None \<and> is_ok r1")
    case False
    with run assms(3) [OF sc] show ?thesis by (cases r1) (auto split: option.splits)
  next
    case True
    then obtain found where r1: "r1 = Inr found" by (cases r1) (auto simp: is_ok_def)
    obtain r2 s2 where up: "upsert (lib_ID v) (?rs found) ?uo s1 = (r2, s2)" by fastforce
    note here = db_reach_trans [OF assms(3) [OF sc] assms(2) [OF up]]
    show ?thesis
    proof (cases "sd_OnScanComplete sd")
      case None
      with run True r1 up here show ?thesis by (cases r2) (auto dest: Cons.IH intro: db_reach_trans)
    next
      case (Some f)
      obtain r3 s3 where cb: "f v (?rs found) s2 = (r3, s3)" by fastforce
      note there = db_reach_trans [OF here assms(4) [OF Some cb]]
      from run True r1 up here there cb Some show ?thesis
        by (cases r2; cases r3) (auto dest: Cons.IH intro: db_reach_trans)
    qed
  qed
qed simp

text \<open>Any scheduler on the repositories of the service, whatever its options and interval.\<close>

definition of_service :: "sys_env \<Rightarrow> scan_params \<Rightarrow> sys Scheduler \<Rightarrow> bool" where
  "of_service E P sd \<longleftrightarrow> sd_Libraries sd = Some (sched_list E) \<and> sd_Results sd = Some (sched_upsert E) \<and>
     sd_Scanner sd = Some (sched_scan E P) \<and> sd_OnScanComplete sd = Some (sched_complete E P)"

lemma of_service_simps [simp]:
  "of_service E P (service_scheduler E P opts)" "of_service E P ((service_scheduler E P opts)\<lparr>sd_Interval := i\<rparr>)"
  by (simp_all add: of_service_def service_scheduler_def)

lemma RunOnceFor_reach: "of_service E P sd \<Longrightarrow> RunOnceFor sd ctxErr libs s = (r, s') \<Longrightarrow> db_reach E s s'"
  by (auto simp: RunOnceFor_def of_service_def split: option.splits
      dest!: scan_libraries_reach [OF _ cycle_calls(2) cycle_calls(3), where E = E] dest: cycle_calls(4))

lemma cycle_reach: "of_service E P sd \<Longrightarrow> ScanRunOnce sd ctxErr s = (r, s') \<Longrightarrow> db_reach E s s'"
  by (frule of_service_def [THEN iffD1])
    (auto simp: ScanRunOnce_def split: option.splits prod.splits sum.splits
      dest!: cycle_calls(1) RunOnceFor_reach intro: db_reach_trans)

lemma enqueue_all_steps:
  "enqueue_all (db_webhook_queue u ios clocks) p k inputs d = (b, d') \<Longrightarrow> (db_step u)\<^sup>*\<^sup>* d d'"
proof (induction inputs arbitrary: k d)
  case (Cons v vs)
  obtain r d1 where e: "Enqueue u (honest_io (ios k)) (fst (clocks k)) (snd (clocks k)) v p d = (r, d1)" by fastforce
  have one: "db_step u d d1" using db_step.enqueue [of u d "honest_io (ios k)" "fst (clocks k)" "snd (clocks k)" v p] e by simp
  with Cons e show ?case
    by (auto simp: db_webhook_queue_def db_queue_def split: sum.splits intro: converse_rtranclp_into_rtranclp)
qed simp

lemma cleanup_all_steps:
  "cleanup_all (db_webhook_queue u ios clocks) k inputs n d = (b, d') \<Longrightarrow> (db_step u)\<^sup>*\<^sup>* d d'"
proof (induction inputs arbitrary: k n d)
  case (Cons v vs)
  obtain r d1 where e: "Cleanup u (honest_io (ios k)) v d = (r, d1)" by fastforce
  have one: "db_step u d d1" using db_step.cleanup [of u d "honest_io (ios k)" v] e by simp
  with Cons e show ?case
    by (auto simp: db_webhook_queue_def split: sum.splits intro: converse_rtranclp_into_rtranclp)
qed simp

lemma ServeHTTP_steps:
  assumes "ServeHTTP (db_handler kdf rnd now u ios clocks ping io outdir) r d = (resp, entry, d')"
  shows "(db_step u)\<^sup>*\<^sup>* d d'"
  using assms
  by (auto simp: ServeHTTP_def ServeMux_def handleLidarr_def Let_def split: prod.splits if_splits sum.splits option.splits bool.splits
      dest: enqueue_all_steps cleanup_all_steps)


section \<open>The service implements the state machine\<close>

text \<open>
  What the three activities of \<open>serve\<close> do to the shared state: a round of the worker, whatever failures
  it has counted and whether its circuit is open; a cycle of the scheduler; a request to the server.
\<close>

inductive service_step :: "sys_env \<Rightarrow> float64 \<Rightarrow> scan_params \<Rightarrow> ScanOptions \<Rightarrow> sys \<Rightarrow> sys \<Rightarrow> bool"
  for E minConf P opts where
  round: "service_round E ctxErr (service_worker E minConf n t) s = (r, w', s') \<Longrightarrow> service_step E minConf P opts s s'"
| cycle: "ScanRunOnce (service_scheduler E P opts) ctxErr s = (r, s') \<Longrightarrow> service_step E minConf P opts s s'"
| request: "ServeHTTP (db_handler kdf rnd now (se_u E) ios clocks ping io outdir) req (sy_db s) = (resp, entry, d') \<Longrightarrow>
    service_step E minConf P opts s ((tick E s)\<lparr>sy_db := d'\<rparr>)"

lemma db_reach_sound: "db_reach E s s' \<Longrightarrow> sound s \<Longrightarrow> sound s'"
  unfolding db_reach_def sound_def using db_steps_ok by blast

lemma service_step_reach: "service_step E minConf P opts s s' \<Longrightarrow> sound s \<Longrightarrow> db_reach E s s'"
proof (induction rule: service_step.induct)
  case (round ctxErr n t s r w' s')
  from RunOnce_steps [OF round.prems service_deps round.hyps [unfolded service_round_def]] show ?case
    by (simp add: sys_steps_reach)
next
  case (cycle ctxErr s r s')
  then show ?case by (blast intro: cycle_reach of_service_simps)
next
  case (request kdf rnd now ios clocks ping io outdir req s resp entry d')
  then show ?case by (simp add: db_reach_def ServeHTTP_steps tick_def)
qed

text \<open>
  The service refines the state machine: from a sound state, whatever its rounds, cycles and requests
  are and in whatever order they come, the database moves only along the operations of the machine, and
  stays sound. So every row of the queue follows its life cycle, and one that is done stays done.
\<close>
theorem service_refines_state_machine:
  assumes "queue_ok (sy_db s)" and "(service_step E minConf P opts)\<^sup>*\<^sup>* s s'"
  shows "(db_step (se_u E))\<^sup>*\<^sup>* (sy_db s) (sy_db s') \<and> queue_ok (sy_db s')"
proof -
  have "db_reach E s s' \<and> sound s'"
    using assms(2,1)
  proof (induction rule: rtranclp_induct)
    case base
    then show ?case by (simp add: sound_def)
  next
    case (step s1 s2)
    then have "db_reach E s s1" "sound s1" by auto
    with service_step_reach [OF step.hyps(2)] show ?case by (blast intro: db_reach_trans db_reach_sound)
  qed
  then show ?thesis by (simp add: db_reach_def sound_def)
qed

theorem service_refines_state_machine_witness:
  "\<exists>s'. row_status s' 1 = Some Done \<and> (db_step ascii_env)\<^sup>*\<^sup>* one_pending (sy_db s')"
proof -
  let ?E = "demo_env (\<lambda>_. Inr demo_song)"
  obtain r w' s' where run: "demo_round (\<lambda>_. Inr demo_song) = (r, w', s')" by (metis prod_cases3)
  then have "(service_step ?E (Fin 0) demo_params (sample_options False))\<^sup>*\<^sup>* demo_sys s'"
    by (intro r_into_rtranclp) (rule service_step.round)
  from service_refines_state_machine [OF queue_ok_demo this] have "(db_step ascii_env)\<^sup>*\<^sup>* one_pending (sy_db s')"
    by (simp add: demo_env_def demo_sys_def)
  moreover have "row_status s' 1 = Some Done" using demo_rounds(2) by (simp add: run)
  ultimately show ?thesis by blast
qed


section \<open>The end of the worker's loop\<close>

text \<open>How a worker waits after a failure is the same in every round.\<close>

definition waits_like :: "'s Worker \<Rightarrow> 's Worker \<Rightarrow> bool" where
  "waits_like w w' \<longleftrightarrow> wk_sleep w' = wk_sleep w \<and> wk_baseBackoff w' = wk_baseBackoff w \<and> wk_maxBackoff w' = wk_maxBackoff w"

lemma RunOnce_waits: "RunOnce rnd u j ctxErr w s = (r, w', s') \<Longrightarrow> waits_like w w'"
proof -
  have fail: "waits_like w w'" if "fail_item w item e s = (r, w', s')" for w w' :: "'a Worker" and item e s r s'
    using that by (auto simp: waits_like_def fail_item_def Let_def split: prod.splits sum.splits)
  have complete: "waits_like w w'" if "complete_item w item s = (r, w', s')" for w w' :: "'a Worker" and item s r s'
    using that by (auto simp: waits_like_def complete_item_def Let_def split: prod.splits sum.splits)
  have trip: "waits_like w w'" if "tripCircuitIfRateLimited w item e s = (r, w', s')"
    for w w' :: "'a Worker" and item e s r s'
    using that by (auto simp: waits_like_def tripCircuitIfRateLimited_def Let_def split: prod.splits sum.splits if_splits)
  have refl: "waits_like w w" for w :: "'a Worker" by (simp add: waits_like_def)
  have trans: "waits_like w w2 \<Longrightarrow> waits_like w2 w3 \<Longrightarrow> waits_like w w3" for w w2 w3 :: "'a Worker" by (simp add: waits_like_def)
  have item: "waits_like w w'" if "process_item rnd u j w it s = (r, w', s')" for w w' :: "'a Worker" and it s r s'
    using that by (auto simp: process_item_def Let_def refl split: prod.splits sum.splits option.splits if_splits
        dest!: fail complete trip intro: trans)
  assume "RunOnce rnd u j ctxErr w s = (r, w', s')"
  then show ?thesis
    by (auto simp: RunOnce_def Let_def split: option.splits prod.splits sum.splits if_splits dest!: item)
      (simp_all add: waits_like_def)
qed

lemma RunOnce_takes_time:
  assumes "sound s" "calls.same_deps E minConf w" "\<forall>k. se_elapse E k \<noteq> 0" "RunOnce rnd u j ctxErr w s = (Inr x, w', s')"
  shows "sy_now s < sy_now s'"
proof -
  let ?w = "w\<lparr>wk_circuitOpenUntil := None\<rparr>"
  have q: "wk_queue w = service_queue E" and d: "calls.same_deps E minConf ?w"
    using assms(2) by (simp_all add: calls.same_deps_def)
  from assms(4) obtain item s1 where deq: "qi_Dequeue (service_queue E) s = (Inr item, s1)"
    and item: "process_item rnd u j ?w item s1 = (Inr x, w', s')"
    by (auto simp: RunOnce_def Let_def q split: option.splits prod.splits sum.splits if_splits)
  have "sy_now s < sy_now s1"
    using deq assms(3) by (auto simp: service_queue_def on_db_def tick_def split: prod.splits)
  moreover have "sound s1" using calls.deq_inv [of s E minConf "Inr item" s1] deq assms(1) by auto
  then have "trace E s1 s'" using tr.process_inv [OF d _ item, of s1] by (simp add: trace_def)
  then have "sy_now s1 \<le> sy_now s'" using sys_steps_now [of E s1 s'] by (simp add: trace_def)
  ultimately show ?thesis by simp
qed

text \<open>A pause leaves the database alone and does not turn the clock back.\<close>

definition calm :: "(sys \<Rightarrow> unit res \<times> sys) \<Rightarrow> bool" where
  "calm p \<longleftrightarrow> (\<forall>s r s'. p s = (r, s') \<longrightarrow> sy_db s' = sy_db s \<and> sy_now s \<le> sy_now s')"

abbreviation service_sleep :: "int \<Rightarrow> sys \<Rightarrow> sys" where
  "service_sleep \<equiv> sleepCtx"

text \<open>The worker's delays are those of the code: after a failure it sleeps, and not for nothing.\<close>

definition backs_off :: "sys Worker \<Rightarrow> bool" where
  "backs_off w \<longleftrightarrow> wk_sleep w = service_sleep \<and> wk_baseBackoff w = DefaultBase \<and> wk_maxBackoff w = DefaultMax"

lemma backs_off_same: "waits_like w w' \<Longrightarrow> backs_off w \<Longrightarrow> backs_off w'"
  by (simp add: waits_like_def backs_off_def)

lemma service_worker_backs_off [simp]: "backs_off (service_worker E c n t)"
  by (simp add: backs_off_def service_worker_def Let_def NewWorker_def SetCircuitOpenDuration_def EnableVerification_def split: option.splits)

lemma backs_off_sleeps:
  "backs_off w \<Longrightarrow> sy_now s < sy_now (wk_sleep w (Geometric n (wk_baseBackoff w) (wk_maxBackoff w)) s)"
  using Geometric_pos [OF default_durations(1-3)] by (simp add: backs_off_def)

text \<open>
  One turn: whatever it returns, the state is sound and reached by steps. If the loop goes on, the
  context had not ended, and time has passed or the worker has now a failure to sleep for. For time to pass
  after a success the calls must take time, or the pause.
\<close>

definition takes_time :: "(sys \<Rightarrow> unit res \<times> sys) option \<Rightarrow> bool" where
  "takes_time pause \<longleftrightarrow> (\<exists>p. pause = Some p \<and> (\<forall>s s'. p s = (Inr (), s') \<longrightarrow> sy_now s < sy_now s'))"

lemma run_turn_effect:
  assumes "sound s" "calls.same_deps E minConf w" "backs_off w" "\<And>p. pause = Some p \<Longrightarrow> calm p"
  shows "case run_turn rnd u j ctxErr pause w s of
      Inl (r, w', s') \<Rightarrow> sound s' \<and> db_reach E s s' \<and> calls.same_deps E minConf w' \<and> backs_off w'
    | Inr (w', s') \<Rightarrow> sound s' \<and> db_reach E s s' \<and> calls.same_deps E minConf w' \<and> backs_off w' \<and>
        (\<exists>s1. ctxErr s1 = None \<and> sy_now s \<le> sy_now s1) \<and>
        ((\<forall>k. se_elapse E k \<noteq> 0) \<or> takes_time pause \<longrightarrow>
           sy_now s < sy_now s' \<or> wk_consecutiveFailures w \<le> 0 \<and> wk_consecutiveFailures w' > 0)"
proof -
  define s0 where "s0 = (if wk_consecutiveFailures w > 0
    then wk_sleep w (Geometric (wk_consecutiveFailures w) (wk_baseBackoff w) (wk_maxBackoff w)) s else s)"
  have s0: "sound s0" "sy_now s \<le> sy_now s0" "db_reach E s s0"
    using assms(1,3) by (simp_all add: sound_def s0_def db_reach_def backs_off_def)
  have slept: "sy_now s < sy_now s0" if "wk_consecutiveFailures w > 0"
    using backs_off_sleeps [OF assms(3)] that by (simp add: s0_def)
  obtain r w1 s1 where run: "RunOnce rnd u j ctxErr w s0 = (r, w1, s1)" by (metis prod_cases3)
  note st = RunOnce_steps [OF s0(1) assms(2) run]
  from st have r1: "db_reach E s0 s1" by (blast intro: sys_steps_reach)
  with s0(3) have reach: "db_reach E s s1" by (rule db_reach_trans)
  have sl: "backs_off w1" by (rule backs_off_same [OF RunOnce_waits [OF run] assms(3)])
  have le: "sy_now s0 \<le> sy_now s1" using r1 by (simp add: db_reach_def)
  have now: "sy_now s < sy_now s1" if "\<forall>k. se_elapse E k \<noteq> 0" "r = Inr ()"
    using RunOnce_takes_time [OF s0(1) assms(2)] run s0(2) that by fastforce
  have p: "sound s2 \<and> db_reach E s s2 \<and> sy_now s1 \<le> sy_now s2" if "pause = Some p" "p s1 = (x, s2)" for p x s2
  proof -
    from assms(4) [OF that(1)] that(2) have c: "sy_db s2 = sy_db s1" "sy_now s1 \<le> sy_now s2" unfolding calm_def by blast+
    then have "db_reach E s1 s2" by (simp add: db_reach_def)
    with reach have "db_reach E s s2" by (rule db_reach_trans)
    with c st show ?thesis by (simp add: sound_def)
  qed
  note turn = run_turn_def [of rnd u j ctxErr pause w s, unfolded Let_def, folded s0_def, unfolded run prod.case]
  show ?thesis
  proof (cases r)
    case (Inl e)
    with st s0 reach sl assms(2,3) show ?thesis unfolding turn by (auto split: if_split)
  next
    case (Inr x)
    show ?thesis
    proof (cases "ctxErr s1 = None \<and> (wk_consecutiveFailures w > 0 \<longrightarrow> ctxErr s0 = None)")
      case False
      with Inr st s0 reach sl assms(2,3) show ?thesis unfolding turn by auto
    next
      case ctx: True
      then have live: "\<exists>s1. ctxErr s1 = None \<and> sy_now s \<le> sy_now s1" using s0(2) le by force
      show ?thesis
      proof (cases "wk_consecutiveFailures w1 > 0")
        case True
        then have "run_turn rnd u j ctxErr pause w s = Inr (w1, s1)" using ctx Inr unfolding turn by simp
        moreover have "sy_now s < sy_now s1 \<or> wk_consecutiveFailures w \<le> 0 \<and> wk_consecutiveFailures w1 > 0"
          using True slept le by force
        ultimately show ?thesis using st reach sl live by simp
      next
        case False
        show ?thesis
        proof (cases pause)
          case None
          then have "run_turn rnd u j ctxErr pause w s = Inr (w1, s1)" using ctx Inr False unfolding turn by simp
          moreover have "\<not> takes_time pause" using None by (simp add: takes_time_def)
          ultimately show ?thesis using st reach sl live now Inr by simp
        next
          case (Some q)
          obtain x2 s2 where q: "q s1 = (x2, s2)" by fastforce
          note p = p [OF Some q]
          show ?thesis
          proof (cases x2)
            case (Inl e)
            then show ?thesis using ctx Inr False Some q p st sl \<open>r = Inr x\<close> unfolding turn by auto
          next
            case x2: (Inr y)
            then have "run_turn rnd u j ctxErr pause w s = Inr (w1, s2)" using ctx Inr False Some q unfolding turn by simp
            moreover have "sy_now s < sy_now s2" if t: "(\<forall>k. se_elapse E k \<noteq> 0) \<or> takes_time pause"
              using t
            proof
              assume "\<forall>k. se_elapse E k \<noteq> 0"
              with now Inr p show ?thesis by force
            next
              assume "takes_time pause"
              with Some q x2 have "sy_now s1 < sy_now s2" by (auto simp: takes_time_def)
              with s0(2) le show ?thesis by simp
            qed
            ultimately show ?thesis using st sl live p by simp
          qed
        qed
      qed
    qed
  qed
qed

lemma run_loop_returns:
  assumes "(\<forall>k. se_elapse E k \<noteq> 0) \<or> takes_time pause" "\<And>s. T \<le> sy_now s \<Longrightarrow> ctxErr s \<noteq> None" "\<And>p. pause = Some p \<Longrightarrow> calm p"
    and "sound s" "calls.same_deps E minConf w" "backs_off w"
  shows "\<exists>r w' s'. run_loop rnd u j ctxErr pause w s = Some (r, w', s') \<and> sound s' \<and> db_reach E s s' \<and>
    calls.same_deps E minConf w' \<and> backs_off w'"
  using assms(4-6)
proof (induction "2 * nat (T - sy_now s) + of_bool (wk_consecutiveFailures w \<le> 0)" arbitrary: w s rule: less_induct)
  case less
  note eff = run_turn_effect [where pause = pause and rnd = rnd and u = u and j = j and ctxErr = ctxErr, OF less.prems assms(3)]
  show ?case
  proof (cases "run_turn rnd u j ctxErr pause w s")
    case (Inl out)
    with eff show ?thesis by (subst run_loop.simps) (cases out, auto)
  next
    case (Inr p)
    obtain w1 s1 where p: "p = (w1, s1)" by (cases p)
    with eff Inr assms(1) obtain s2 where reach: "db_reach E s s1" and s1: "sound s1" "calls.same_deps E minConf w1" "backs_off w1"
      and s2: "ctxErr s2 = None" "sy_now s \<le> sy_now s2"
      and on: "sy_now s < sy_now s1 \<or> wk_consecutiveFailures w \<le> 0 \<and> wk_consecutiveFailures w1 > 0" by auto
    from s2 assms(2) [of s2] have "sy_now s < T" by force
    moreover have "sy_now s \<le> sy_now s1" using reach by (simp add: db_reach_def)
    ultimately have "2 * nat (T - sy_now s1) + of_bool (wk_consecutiveFailures w1 \<le> 0) <
        2 * nat (T - sy_now s) + of_bool (wk_consecutiveFailures w \<le> 0)" using on by (auto simp: of_bool_def)
    from less.hyps [OF this s1] Inr p reach show ?thesis by (subst run_loop.simps) (auto intro: db_reach_trans)
  qed
qed

text \<open>
  The worker's loop ends: if every call takes time and the context has ended from some moment on,
  Run and RunPaced return, whatever the queue holds, the network answers and the calls fail with, at any
  pause between two songs, from any number of counted failures; and they have moved the database only
  along the state machine, and left it sound. (For the interval of serve no call need take time: see the
  theorem on the goroutines of serve.)
\<close>
theorem worker_loop_returns:
  assumes "queue_ok (sy_db s)" and "\<forall>k. se_elapse E k \<noteq> 0" and "\<forall>s. T \<le> sy_now s \<longrightarrow> ctxErr s \<noteq> None"
    and "calm (wait interval)"
  shows "(\<exists>r w' s'. RunWorker rnd u j ctxErr (service_worker E minConf n t) s = Some (r, w', s') \<and>
      queue_ok (sy_db s') \<and> (db_step (se_u E))\<^sup>*\<^sup>* (sy_db s) (sy_db s')) \<and>
    (\<exists>r w' s'. RunPaced rnd u j ctxErr wait interval (service_worker E minConf n t) s = Some (r, w', s') \<and>
      queue_ok (sy_db s') \<and> (db_step (se_u E))\<^sup>*\<^sup>* (sy_db s) (sy_db s'))"
proof -
  have s: "sound s" using assms(1) by (simp add: sound_def)
  have ctx: "ctxErr s \<noteq> None" if "T \<le> sy_now s" for s using assms(3) that by blast
  note loop = run_loop_returns [where E = E and minConf = minConf and T = T and ctxErr = ctxErr, OF disjI1 [OF assms(2)] ctx _ s service_deps service_worker_backs_off]
  have "calm (\<lambda>s. if interval \<le> 0 then (Inr (), s) else wait interval s)"
    using assms(4) by (simp add: calm_def)
  then show ?thesis
    unfolding RunWorker_def RunPaced_def sound_def [symmetric]
    using loop [of None] loop [of "Some (\<lambda>s. if interval \<le> 0 then (Inr (), s) else wait interval s)"]
    by (fastforce simp: db_reach_def)
qed

text \<open>The timer of \<open>RunPaced\<close>: the interval passes, unless the context ends.\<close>

definition timer_wait :: "(sys \<Rightarrow> goerr option) \<Rightarrow> int \<Rightarrow> sys \<Rightarrow> unit res \<times> sys" where
  "timer_wait ctxErr d s =
     (let s' = s\<lparr>sy_now := sy_now s + max 0 d\<rparr>
      in case ctxErr s' of Some e \<Rightarrow> (Inl e, s') | None \<Rightarrow> (Inr (), s'))"

definition one_hour :: "sys \<Rightarrow> goerr option" where
  "one_hour s = (if 3600 * Second \<le> sy_now s then Some (Sen CtxCanceled) else None)"

theorem worker_loop_returns_witness:
  "\<exists>r w' s'. RunPaced fixed53 ascii_env demo_codec one_hour (timer_wait one_hour) (15 * Second)
       (service_worker (demo_env rate_limited) (Fin 0) 0 None) demo_sys = Some (r, w', s') \<and> queue_ok (sy_db s')"
proof -
  have "calm (timer_wait one_hour (15 * Second))"
    by (auto simp: calm_def timer_wait_def Let_def split: option.splits)
  moreover have "\<forall>k. se_elapse (demo_env rate_limited) k \<noteq> 0" by (simp add: demo_env_def Second_def)
  moreover have "\<forall>s. 3600 * Second \<le> sy_now s \<longrightarrow> one_hour s \<noteq> None" by (simp add: one_hour_def)
  ultimately show ?thesis using worker_loop_returns [OF queue_ok_demo] by blast
qed

end
