(* ===== verification/App.thy ===== *)
theory App
  imports Scanner Worker
begin

text \<open>
  The one-shot fetch of \<open>internal/app/app.go\<close>: the loop over the in-memory queue with its pauses, and
  the list of failed items it leaves behind. Everything outside the program (the fetcher, the writer,
  the clock, the terminal's patience) acts on a state of any type.
\<close>

section \<open>The application\<close>

record 's App =
  ap_inputs :: InputsQueue
  ap_failed :: InputsQueue
  ap_fetcher :: "'s fetch_fn"
  ap_writer :: "'s write_fn"
  ap_mode :: string
  ap_total :: int
  ap_cooldown :: int
  ap_baseBackoff :: int
  ap_maxBackoff :: int
  ap_sleep :: "int \<Rightarrow> 's \<Rightarrow> bool \<times> 's"
  ap_failureCount :: int

definition NewApp ::
  "(int \<Rightarrow> 's \<Rightarrow> bool \<times> 's) \<Rightarrow> 's fetch_fn \<Rightarrow> 's write_fn \<Rightarrow> InputsQueue \<Rightarrow> int \<Rightarrow> string \<Rightarrow> 's App"
where
  "NewApp sleep fetcher writer inputs cooldown mode =
     \<lparr>ap_inputs = inputs, ap_failed = NewInputsQueue, ap_fetcher = fetcher, ap_writer = writer, ap_mode = mode,
      ap_total = Len inputs, ap_cooldown = cooldown, ap_baseBackoff = DefaultBase, ap_maxBackoff = DefaultMax,
      ap_sleep = sleep, ap_failureCount = 0\<rparr>"

text \<open>\<open>timer\<close>: one sleep of a second per count, until one is interrupted.\<close>

fun countdown :: "(int \<Rightarrow> 's \<Rightarrow> bool \<times> 's) \<Rightarrow> nat \<Rightarrow> 's \<Rightarrow> 's" where
  "countdown sleep 0 s = s"
| "countdown sleep (Suc i) s = (case sleep Second s of (ok, s') \<Rightarrow> if ok then countdown sleep i s' else s')"

definition timer :: "'s App \<Rightarrow> 's \<Rightarrow> 's" where
  "timer a s = (if Empty (ap_inputs a) then s else countdown (ap_sleep a) (nat (ap_cooldown a)) s)"

definition backoffTimer :: "'s App \<Rightarrow> int \<Rightarrow> 's \<Rightarrow> 's" where
  "backoffTimer a attempts s =
     (if Empty (ap_inputs a) then s
      else let delay = Geometric attempts (ap_baseBackoff a) (ap_maxBackoff a)
           in if delay \<le> 0 then s else snd (ap_sleep a delay s))"

text \<open>
  One turn of the loop with a nonempty queue and a live context. \<open>None\<close> is a \<open>break\<close>, which needs a
  queue that is empty after all.
\<close>

definition app_turn :: "'s App \<Rightarrow> 's \<Rightarrow> ('s App \<times> 's) option" where
  "app_turn a s =
     (case NextItem (ap_inputs a) of Inl e \<Rightarrow> None
      | Inr cur \<Rightarrow>
        (case ap_fetcher a (in_Track cur) s of
           (Inr sg, s1) \<Rightarrow>
             (case Pop (ap_inputs a) of (Inl e, q) \<Rightarrow> None
              | (Inr cur', q) \<Rightarrow>
                 (let a1 = a\<lparr>ap_failureCount := 0, ap_inputs := q\<rparr> in
                  case ap_writer a sg (in_Filename cur') (in_Outdir cur') s1 of
                    (Inl e, s2) \<Rightarrow> (let a2 = a1\<lparr>ap_failed := Push cur' (ap_failed a1)\<rparr> in Some (a2, timer a2 s2))
                  | (Inr _, s2) \<Rightarrow> Some (a1, timer a1 s2)))
         | (Inl e, s1) \<Rightarrow>
             (case Pop (ap_inputs a) of (Inl e, q) \<Rightarrow> None
              | (Inr item, q) \<Rightarrow>
                 (let a1 = a\<lparr>ap_failureCount := i64 (ap_failureCount a + 1), ap_inputs := q,
                            ap_failed := Push item (ap_failed a)\<rparr>
                  in Some (a1, backoffTimer a1 (ap_failureCount a1) s1)))))"

lemma Pop_nonempty: "\<not> Empty q \<Longrightarrow> \<exists>x xs. iq_Queue q = x # xs \<and> NextItem q = Inr x \<and> Pop q = (Inr x, q\<lparr>iq_Queue := xs\<rparr>)"
  by (cases "iq_Queue q") (auto simp: Empty_def NextItem_def Pop_def Let_def)

lemma app_turn_shrinks:
  "app_turn a s = Some (a', s') \<Longrightarrow> \<not> Empty (ap_inputs a) \<Longrightarrow> length (iq_Queue (ap_inputs a')) < length (iq_Queue (ap_inputs a))"
  by (drule Pop_nonempty) (auto simp: app_turn_def Let_def split: sum.splits prod.splits)

function app_loop :: "('s \<Rightarrow> goerr option) \<Rightarrow> 's App \<Rightarrow> 's \<Rightarrow> 's App \<times> 's" where
  "app_loop ctxErr a s =
     (if Empty (ap_inputs a) then (a, s)
      else if ctxErr s \<noteq> None then (a, s)
      else (case app_turn a s of None \<Rightarrow> (a, s) | Some (a', s') \<Rightarrow> app_loop ctxErr a' s'))"
  by pat_completeness auto
termination
  by (relation "measure (\<lambda>(c, a, s). length (iq_Queue (ap_inputs a)))") (auto dest: app_turn_shrinks)

declare app_loop.simps [simp del]

section \<open>The failed items\<close>

text \<open>The first loop of \<open>handleFailed\<close>: what was not processed fails too.\<close>

function drain_inputs :: "InputsQueue \<Rightarrow> InputsQueue \<Rightarrow> unit res \<times> InputsQueue \<times> InputsQueue" where
  "drain_inputs q failed =
     (if Empty q then (Inr (), q, failed)
      else (case Pop q of
              (Inl e, q') \<Rightarrow> (Inl (Errorf ''draining inputs queue: '' e ''''), q', failed)
            | (Inr item, q') \<Rightarrow> drain_inputs q' (Push item failed)))"
  by pat_completeness auto
termination
  by (relation "measure (\<lambda>(q, f). length (iq_Queue q))") (auto dest!: Pop_nonempty)

declare drain_inputs.simps [simp del]

text \<open>
  The file system calls that write the list: \<open>ae_io 0\<close> is the error of \<open>os.Create\<close>, \<open>ae_io k\<close> the error
  the CSV writer reports for the \<open>k\<close>-th record; the two errors after the last record are those of
  the flush and of \<open>Close\<close>. When one fails, an arbitrary prefix of the text has reached the file.
\<close>

record 's app_env =
  ae_ctxErr :: "'s \<Rightarrow> goerr option"
  ae_stamp :: "'s \<Rightarrow> string"
  ae_io :: io
  ae_torn :: nat
  ae_put :: "string \<Rightarrow> string \<Rightarrow> 's \<Rightarrow> 's"

function write_failed :: "'s app_env \<Rightarrow> string \<Rightarrow> nat \<Rightarrow> string \<Rightarrow> InputsQueue \<Rightarrow> 's \<Rightarrow> unit res \<times> InputsQueue \<times> 's" where
  "write_failed E fn k written failed s =
     (if Empty failed then
        (case ae_io E k of
           Some e \<Rightarrow> (Inl (Errorf ''flushing failed items: '' e ''''), failed, ae_put E fn (take (ae_torn E) written) s)
         | None \<Rightarrow>
            (case ae_io E (k + 1) of
               Some e \<Rightarrow> (Inl (Errorf ''closing failed items file: '' e ''''), failed, ae_put E fn written s)
             | None \<Rightarrow> (Inr (), failed, ae_put E fn written s)))
      else (case Pop failed of
              (Inl e, failed') \<Rightarrow>
                (Inl (Errorf ''unexpected empty queue writing failed items: '' e ''''), failed', ae_put E fn (take (ae_torn E) written) s)
            | (Inr cur, failed') \<Rightarrow>
               (case ae_io E k of
                  Some e \<Rightarrow> (Inl (Errorf ''writing failed item: '' e ''''), failed', ae_put E fn (take (ae_torn E) written) s)
                | None \<Rightarrow> write_failed E fn (k + 1)
                    (written @ csv_Write [tr_ArtistName (in_Track cur), tr_TrackName (in_Track cur)]) failed' s)))"
  by pat_completeness auto
termination
  by (relation "measure (\<lambda>(E, fn, k, w, q, s). length (iq_Queue q))") (auto dest!: Pop_nonempty)

declare write_failed.simps [simp del]

definition handleFailed :: "'s app_env \<Rightarrow> 's App \<Rightarrow> 's \<Rightarrow> unit res \<times> 's App \<times> 's" where
  "handleFailed E a s =
     (case drain_inputs (ap_inputs a) (ap_failed a) of
        (Inl e, q, failed) \<Rightarrow> (Inl e, a\<lparr>ap_inputs := q, ap_failed := failed\<rparr>, s)
      | (Inr _, q, failed) \<Rightarrow>
         (let a1 = a\<lparr>ap_inputs := q, ap_failed := failed\<rparr> in
          if Empty failed then (Inr (), a1, s)
          else if ap_mode a = ''dir'' then (Inr (), a1, s)
          else (let fn = ae_stamp E s @ ''_failed.txt'' in
                case ae_io E 0 of
                  Some e \<Rightarrow> (Inl (Errorf ''creating failed items file: '' e ''''), a1, s)
                | None \<Rightarrow>
                   (case write_failed E fn 1 '''' failed (ae_put E fn '''' s) of
                      (r, failed', s') \<Rightarrow> (r, a1\<lparr>ap_failed := failed'\<rparr>, s')))))"

definition RunApp :: "'s app_env \<Rightarrow> 's App \<Rightarrow> 's \<Rightarrow> unit res \<times> 's App \<times> 's" where
  "RunApp E a s = (case app_loop (ae_ctxErr E) a s of (a', s') \<Rightarrow> handleFailed E a' s')"

section \<open>Every item is written or reported\<close>

text \<open>The items whose flag is not set; an item without a flag counts as not set.\<close>

definition not_written :: "bool list \<Rightarrow> Inputs list \<Rightarrow> Inputs list" where
  "not_written ws items = map fst (filter (\<lambda>(i, w). \<not> w) (zip items ws)) @ drop (length ws) items"

text \<open>The item's lyrics were fetched and the writer accepted them.\<close>

definition was_written :: "'s App \<Rightarrow> Inputs \<Rightarrow> bool" where
  "was_written a i \<longleftrightarrow> (\<exists>s0 sg s1 s2. ap_fetcher a (in_Track i) s0 = (Inr sg, s1) \<and>
     ap_writer a sg (in_Filename i) (in_Outdir i) s1 = (Inr (), s2))"

lemma app_turn_effect:
  assumes "\<not> Empty (ap_inputs a)" "app_turn a s = Some (a', s')"
  obtains x xs w where "iq_Queue (ap_inputs a) = x # xs" "iq_Queue (ap_inputs a') = xs"
    "iq_Queue (ap_failed a') = iq_Queue (ap_failed a) @ (if w then [] else [x])" "w \<longrightarrow> was_written a x"
    "ap_fetcher a' = ap_fetcher a" "ap_writer a' = ap_writer a" "ap_mode a' = ap_mode a"
proof -
  from Pop_nonempty [OF assms(1)] obtain x xs where q: "iq_Queue (ap_inputs a) = x # xs"
    "NextItem (ap_inputs a) = Inr x" "Pop (ap_inputs a) = (Inr x, (ap_inputs a)\<lparr>iq_Queue := xs\<rparr>)" by blast
  obtain rs s1 where f: "ap_fetcher a (in_Track x) s = (rs, s1)" by fastforce
  show thesis
  proof (cases rs)
    case (Inl e)
    with assms(2) q f show thesis
      by (intro that [of x xs False]) (auto simp: app_turn_def Let_def Push_def)
  next
    case (Inr sg)
    obtain rw s2 where w: "ap_writer a sg (in_Filename x) (in_Outdir x) s1 = (rw, s2)" by fastforce
    show thesis
    proof (cases rw)
      case Inl': (Inl e)
      with assms(2) q f w Inr show thesis
        by (intro that [of x xs False]) (auto simp: app_turn_def Let_def Push_def)
    next
      case Inr': (Inr y)
      with f w Inr have "was_written a x" by (auto simp: was_written_def)
      with assms(2) q f w Inr Inr' show thesis
        by (intro that [of x xs True]) (auto simp: app_turn_def Let_def Push_def)
    qed
  qed
qed

lemma app_loop_accounts:
  "app_loop ctxErr a s = (a', s') \<Longrightarrow>
     \<exists>ws. length ws \<le> length (iq_Queue (ap_inputs a)) \<and>
       iq_Queue (ap_inputs a') = drop (length ws) (iq_Queue (ap_inputs a)) \<and>
       iq_Queue (ap_failed a') = iq_Queue (ap_failed a) @ map fst (filter (\<lambda>(i, w). \<not> w) (zip (iq_Queue (ap_inputs a)) ws)) \<and>
       (\<forall>(i, w)\<in>set (zip (iq_Queue (ap_inputs a)) ws). w \<longrightarrow> was_written a i) \<and>
       ap_mode a' = ap_mode a"
proof (induction ctxErr a s rule: app_loop.induct)
  case (1 ctxErr a s)
  show ?case
  proof (cases "Empty (ap_inputs a) \<or> ctxErr s \<noteq> None \<or> app_turn a s = None")
    case True
    then have "app_loop ctxErr a s = (a, s)" by (subst app_loop.simps) auto
    with 1(2) have "a' = a" by simp
    then show ?thesis by (intro exI [of _ "[]"]) simp
  next
    case False
    then obtain a1 s1 where t: "app_turn a s = Some (a1, s1)" by auto
    from False t 1(2) have rest: "app_loop ctxErr a1 s1 = (a', s')" by (simp add: app_loop.simps [of ctxErr a s])
    from False have ne: "\<not> Empty (ap_inputs a)" by simp
    obtain x xs w where x: "iq_Queue (ap_inputs a) = x # xs" "iq_Queue (ap_inputs a1) = xs"
      "iq_Queue (ap_failed a1) = iq_Queue (ap_failed a) @ (if w then [] else [x])" "w \<longrightarrow> was_written a x"
      "ap_fetcher a1 = ap_fetcher a" "ap_writer a1 = ap_writer a" "ap_mode a1 = ap_mode a"
      by (rule app_turn_effect [OF ne t])
    have "was_written a1 = was_written a" by (rule ext) (simp add: was_written_def x)
    with 1(1) [OF _ _ t refl rest] False obtain ws where
      "length ws \<le> length xs" "iq_Queue (ap_inputs a') = drop (length ws) xs"
      "iq_Queue (ap_failed a') = iq_Queue (ap_failed a1) @ map fst (filter (\<lambda>(i, w). \<not> w) (zip xs ws))"
      "\<forall>(i, w)\<in>set (zip xs ws). w \<longrightarrow> was_written a i" "ap_mode a' = ap_mode a1"
      by (auto simp: x)
    with x show ?thesis by (intro exI [of _ "w # ws"]) auto
  qed
qed

lemma drain_all: "drain_inputs q failed = (Inr (), q\<lparr>iq_Queue := []\<rparr>, failed\<lparr>iq_Queue := iq_Queue failed @ iq_Queue q\<rparr>)"
proof (induction q failed rule: drain_inputs.induct)
  case (1 q failed)
  show ?case
  proof (cases "Empty q")
    case True
    then show ?thesis by (simp add: drain_inputs.simps [of q] Empty_def)
  next
    case False
    from Pop_nonempty [OF this] obtain x xs where "iq_Queue q = x # xs" "Pop q = (Inr x, q\<lparr>iq_Queue := xs\<rparr>)" by blast
    with 1 [OF False] False show ?thesis by (simp add: drain_inputs.simps [of q] Push_def)
  qed
qed

definition failed_text :: "Inputs list \<Rightarrow> string" where
  "failed_text items = concat (map (\<lambda>i. csv_Write [tr_ArtistName (in_Track i), tr_TrackName (in_Track i)]) items)"

lemma write_failed_ok:
  "write_failed E fn k written q s = (Inr (), q', s') \<Longrightarrow> s' = ae_put E fn (written @ failed_text (iq_Queue q)) s"
proof (induction E fn k written q s rule: write_failed.induct)
  case (1 E fn k written q s)
  show ?case
  proof (cases "Empty q")
    case True
    with 1(2) show ?thesis by (auto simp: write_failed.simps [of E fn k written q s] failed_text_def Empty_def split: option.splits)
  next
    case False
    from Pop_nonempty [OF this] obtain x xs where p: "iq_Queue q = x # xs" "Pop q = (Inr x, q\<lparr>iq_Queue := xs\<rparr>)" by blast
    from 1(2) False p have io: "ae_io E k = None"
      and w: "write_failed E fn (k + 1) (written @ csv_Write [tr_ArtistName (in_Track x), tr_TrackName (in_Track x)])
        (q\<lparr>iq_Queue := xs\<rparr>) s = (Inr (), q', s')"
      by (auto simp: write_failed.simps [of E fn k written q s] split: option.splits)
    from 1(1) [OF False p(2) [symmetric] refl io w] p show ?thesis by (simp add: failed_text_def)
  qed
qed

lemma RunApp_ok:
  assumes "RunApp E a s = (Inr (), a', s')" "ap_mode a \<noteq> ''dir''" "iq_Queue (ap_failed a) = []"
  shows "\<exists>ws s1. length ws \<le> length (iq_Queue (ap_inputs a)) \<and>
    (\<forall>(i, w)\<in>set (zip (iq_Queue (ap_inputs a)) ws). w \<longrightarrow> was_written a i) \<and>
    s' = (if not_written ws (iq_Queue (ap_inputs a)) = [] then s1
          else ae_put E (ae_stamp E s1 @ ''_failed.txt'') (failed_text (not_written ws (iq_Queue (ap_inputs a))))
                 (ae_put E (ae_stamp E s1 @ ''_failed.txt'') '''' s1))"
proof -
  obtain a1 s1 where l: "app_loop (ae_ctxErr E) a s = (a1, s1)" by fastforce
  from app_loop_accounts [OF l] assms(3) obtain ws where ws: "length ws \<le> length (iq_Queue (ap_inputs a))"
    "\<forall>(i, w)\<in>set (zip (iq_Queue (ap_inputs a)) ws). w \<longrightarrow> was_written a i"
    "iq_Queue (ap_failed a1) @ iq_Queue (ap_inputs a1) = not_written ws (iq_Queue (ap_inputs a))" "ap_mode a1 = ap_mode a"
    by (auto simp: not_written_def)
  let ?f = "(ap_failed a1)\<lparr>iq_Queue := not_written ws (iq_Queue (ap_inputs a))\<rparr>"
  have d: "drain_inputs (ap_inputs a1) (ap_failed a1) = (Inr (), (ap_inputs a1)\<lparr>iq_Queue := []\<rparr>, ?f)"
    by (simp add: drain_all ws(3))
  show ?thesis
  proof (cases "not_written ws (iq_Queue (ap_inputs a)) = []")
    case True
    with assms(1) l d have "s' = s1" by (simp add: RunApp_def handleFailed_def Let_def Empty_def)
    with True ws show ?thesis by auto
  next
    case False
    then have "\<not> Empty ?f" by (simp add: Empty_def)
    with assms(1,2) l d ws(4) obtain q' where
      "write_failed E (ae_stamp E s1 @ ''_failed.txt'') 1 '''' ?f (ae_put E (ae_stamp E s1 @ ''_failed.txt'') '''' s1) = (Inr (), q', s')"
      by (auto simp: RunApp_def handleFailed_def Let_def split: option.splits prod.splits)
    from write_failed_ok [OF this] False ws show ?thesis by auto
  qed
qed

section \<open>The failed list can be fed back\<close>

lemma GetSongMulti_items:
  "i \<in> set (iq_Queue (GetSongMulti songs outdir NewInputsQueue)) \<Longrightarrow>
     \<exists>artist title. i = zero_Inputs\<lparr>in_Track := zero_Track\<lparr>tr_ArtistName := TrimSpace artist, tr_TrackName := TrimSpace title\<rparr>,
       in_Outdir := outdir, in_Filename := ''''\<rparr>"
  by (auto simp: GetSongMulti_queue NewInputsQueue_def AssertInput_def split: option.splits if_splits)

definition line_safe :: "Inputs \<Rightarrow> bool" where
  "line_safe i \<longleftrightarrow> one_line (tr_ArtistName (in_Track i)) \<and> one_line (tr_TrackName (in_Track i)) \<and>
     length (record_text [tr_ArtistName (in_Track i), tr_TrackName (in_Track i)]) < maxTokenSize"

lemma failed_text_reads_back:
  assumes "\<And>i. i \<in> set items \<Longrightarrow> line_safe i"
    and "\<And>i. i \<in> set items \<Longrightarrow> i \<in> set (iq_Queue (GetSongMulti songs outdir NewInputsQueue))"
    and "vw_Open vw p = Inr (failed_text items, None)"
  shows "GetSongText vw p outdir NewInputsQueue = (Inr (), \<lparr>iq_Queue = items\<rparr>)"
proof -
  let ?rec = "\<lambda>i. [tr_ArtistName (in_Track i), tr_TrackName (in_Track i)]"
  have t: "failed_text items = concat (map csv_Write (map ?rec items))" by (simp add: failed_text_def comp_def)
  have lines: "ScanLines (failed_text items) = (map record_text (map ?rec items), None)"
    unfolding t using assms(1) by (intro ScanLines_written) (auto simp: line_safe_def)
  have one: "(case AssertInput (record_text (?rec i)) of None \<Rightarrow> []
      | Some tr \<Rightarrow> [zero_Inputs\<lparr>in_Track := tr, in_Outdir := outdir, in_Filename := ''''\<rparr>]) = [i]" if "i \<in> set items" for i
  proof -
    from GetSongMulti_items [OF assms(2) [OF that]] obtain artist title where
      i: "i = zero_Inputs\<lparr>in_Track := zero_Track\<lparr>tr_ArtistName := TrimSpace artist, tr_TrackName := TrimSpace title\<rparr>,
       in_Outdir := outdir, in_Filename := ''''\<rparr>" by blast
    from AssertInput_record [of "tr_ArtistName (in_Track i)" "tr_TrackName (in_Track i)" "[]"] assms(1) [OF that]
    show ?thesis by (simp add: line_safe_def) (simp add: i TrimSpace_idem)
  qed
  have "iq_Queue (GetSongMulti (map (record_text \<circ> ?rec) items) outdir NewInputsQueue) = items"
    unfolding GetSongMulti_queue using one by (induction items) (auto simp: NewInputsQueue_def)
  then show ?thesis
    using assms(3) lines by (auto simp: GetSongText_def intro!: InputsQueue.equality)
qed

lemma not_written_subset: "i \<in> set (not_written ws items) \<Longrightarrow> i \<in> set items"
  by (auto simp: not_written_def dest: set_zip_leftD in_set_dropD)

text \<open>
  C27. A fetch of pairs from the command line or a text file loses no item: each one was fetched and
  written, or is in the list of failed items, in the order of the input. When the run ends without an
  error and the list is not empty, it stands in the file named after the time, and feeding that file
  to the program again with the same output directory queues exactly these items, provided no name
  holds a line break and no line is longer than the line buffer.
\<close>
theorem failed_items_round_trip:
  assumes "RunApp E (NewApp sleep fetcher writer (GetSongMulti songs outdir NewInputsQueue) cooldown mode) s = (Inr (), a', s')"
    and "mode \<noteq> ''dir''"
    and "\<forall>i\<in>set (iq_Queue (GetSongMulti songs outdir NewInputsQueue)). line_safe i"
  shows "\<exists>ws failed s1. length ws \<le> length (iq_Queue (GetSongMulti songs outdir NewInputsQueue)) \<and>
    failed = not_written ws (iq_Queue (GetSongMulti songs outdir NewInputsQueue)) \<and>
    (\<forall>(i, w)\<in>set (zip (iq_Queue (GetSongMulti songs outdir NewInputsQueue)) ws). w \<longrightarrow>
       (\<exists>s0 sg s1 s2. fetcher (in_Track i) s0 = (Inr sg, s1) \<and>
          writer sg (in_Filename i) (in_Outdir i) s1 = (Inr (), s2))) \<and>
    s' = (if failed = [] then s1
          else ae_put E (ae_stamp E s1 @ ''_failed.txt'') (failed_text failed)
                 (ae_put E (ae_stamp E s1 @ ''_failed.txt'') '''' s1)) \<and>
    (\<forall>vw p u update upgrade depth bfs.
       vw_Stat vw p = Inr False \<and> vw_Open vw p = Inr (failed_text failed, None) \<longrightarrow>
       ParseInput u vw [p] outdir update upgrade depth bfs NewInputsQueue = (Inr ''text'', \<lparr>iq_Queue = failed\<rparr>))"
proof -
  let ?items = "iq_Queue (GetSongMulti songs outdir NewInputsQueue)"
  let ?a = "NewApp sleep fetcher writer (GetSongMulti songs outdir NewInputsQueue) cooldown mode"
  have a: "ap_mode ?a = mode" "iq_Queue (ap_failed ?a) = []" "iq_Queue (ap_inputs ?a) = ?items"
    "was_written ?a i \<longleftrightarrow> (\<exists>s0 sg s1 s2. fetcher (in_Track i) s0 = (Inr sg, s1) \<and>
          writer sg (in_Filename i) (in_Outdir i) s1 = (Inr (), s2))" for i
    by (simp_all add: NewApp_def NewInputsQueue_def was_written_def)
  from RunApp_ok [OF assms(1), unfolded a, OF assms(2) refl] obtain ws s1 where
    ws: "length ws \<le> length ?items"
    "\<forall>(i, w)\<in>set (zip ?items ws). w \<longrightarrow> (\<exists>s0 sg s1 s2. fetcher (in_Track i) s0 = (Inr sg, s1) \<and>
          writer sg (in_Filename i) (in_Outdir i) s1 = (Inr (), s2))"
    "s' = (if not_written ws ?items = [] then s1
          else ae_put E (ae_stamp E s1 @ ''_failed.txt'') (failed_text (not_written ws ?items))
                 (ae_put E (ae_stamp E s1 @ ''_failed.txt'') '''' s1))"
    by blast
  have again: "ParseInput u vw [p] outdir update upgrade depth bfs NewInputsQueue = (Inr ''text'', \<lparr>iq_Queue = not_written ws ?items\<rparr>)"
    if "vw_Stat vw p = Inr False" "vw_Open vw p = Inr (failed_text (not_written ws ?items), None)"
    for vw p u update upgrade depth bfs
  proof -
    have "GetSongText vw p outdir NewInputsQueue = (Inr (), \<lparr>iq_Queue = not_written ws ?items\<rparr>)"
      by (rule failed_text_reads_back [OF _ _ that(2)]) (use assms(3) not_written_subset in blast)+
    with that(1) show ?thesis by (simp add: ParseInput_def Let_def)
  qed
  show ?thesis
    by (rule exI [of _ ws], rule exI [of _ "not_written ws ?items"], rule exI [of _ s1],
        intro conjI allI impI, rule ws(1), rule refl, rule ws(2), rule ws(3), erule conjE, rule again)
qed

definition demo_songs :: "string list" where
  "demo_songs = [''Abba,SOS'', ''no comma'', [CHR 0x22] @ ''Tyler, The Creator'' @ [CHR 0x22] @ '',  Earfquake'']"

definition demo_app :: "(string \<times> string) list App" where
  "demo_app = NewApp (\<lambda>d s. (True, s))
     (\<lambda>track s. if tr_ArtistName track = ''Abba'' then (Inr zero_Song, s) else (Inl (Sen ErrNotFound), s))
     (\<lambda>sg fn dir s. (Inr (), s)) (GetSongMulti demo_songs ''out'' NewInputsQueue) 1 ''cli''"

definition demo_app_env :: "(string \<times> string) list app_env" where
  "demo_app_env = \<lparr>ae_ctxErr = (\<lambda>_. None), ae_stamp = (\<lambda>_. ''20260101_000000''), ae_io = no_faults, ae_torn = 0,
     ae_put = (\<lambda>fn c s. (fn, c) # s)\<rparr>"

theorem failed_items_round_trip_witness:
  "\<exists>a' s' ws failed. RunApp demo_app_env demo_app [] = (Inr (), a', s') \<and>
     failed = not_written ws (iq_Queue (GetSongMulti demo_songs ''out'' NewInputsQueue)) \<and> length ws \<le> 2"
proof -
  have "fst (RunApp demo_app_env demo_app []) = Inr ()" by code_simp
  then obtain a' s' where r: "RunApp demo_app_env demo_app [] = (Inr (), a', s')" by (metis prod_cases3 fst_conv)
  have q: "map (\<lambda>i. (tr_ArtistName (in_Track i), tr_TrackName (in_Track i)))
      (iq_Queue (GetSongMulti demo_songs ''out'' NewInputsQueue)) = [(''Abba'', ''SOS''), (''Tyler, The Creator'', ''Earfquake'')]"
    by code_simp
  have ok: "list_all (\<lambda>(a, t). one_line a \<and> one_line t \<and> length (record_text [a, t]) \<le> 50)
      [(''Abba'', ''SOS''), (''Tyler, The Creator'', ''Earfquake'')]"
    by code_simp
  have safe: "\<forall>i\<in>set (iq_Queue (GetSongMulti demo_songs ''out'' NewInputsQueue)). line_safe i"
    using ok unfolding q [symmetric] by (fastforce simp: list_all_iff line_safe_def maxTokenSize_def)
  have n: "length (iq_Queue (GetSongMulti demo_songs ''out'' NewInputsQueue)) = 2"
    using arg_cong [OF q, of length] by simp
  from failed_items_round_trip [OF r [unfolded demo_app_def] _ safe] r n show ?thesis by fastforce
qed

end
