(* ===== verification/Musixmatch.thy ===== *)
theory Musixmatch
  imports Go_Url Providers
begin

text \<open>
  The API client of \<open>internal/musixmatch/client.go\<close>: the request it builds, and the song or the error it
  makes of a response. The HTTP exchange is a function of the URL; the third-party JSON parser is the
  record \<open>fastjson\<close> over a type of values, a missing value being \<open>None\<close>; and \<open>json.Unmarshal\<close> at the
  three types it is used at is the record \<open>mx_decoder\<close>.
\<close>

section \<open>The world of the client\<close>

text \<open>A response with the part of its body that arrives and the error that ends it, if one does.\<close>

record HttpResponse =
  hr_status :: int
  hr_body :: string
  hr_readErr :: "goerr option"

type_synonym 's http_do = "string \<Rightarrow> 's \<Rightarrow> HttpResponse res \<times> 's"

text \<open>\<open>io.ReadAll(io.LimitReader(body, n))\<close>: the error is not met when the limit comes first.\<close>

definition read_limited :: "nat \<Rightarrow> HttpResponse \<Rightarrow> string \<times> goerr option" where
  "read_limited n r = (take n (hr_body r), if length (hr_body r) < n then hr_readErr r else None)"

record 'v fastjson =
  fj_Parse :: "string \<Rightarrow> 'v res"
  fj_Get :: "'v option \<Rightarrow> string list \<Rightarrow> 'v option"
  fj_GetInt :: "'v option \<Rightarrow> string list \<Rightarrow> int"
  fj_GetStringBytes :: "'v option \<Rightarrow> string list \<Rightarrow> string"
  fj_MarshalTo :: "'v \<Rightarrow> string"

record mx_decoder =
  md_track :: "string \<Rightarrow> Track res"
  md_lines :: "string \<Rightarrow> Lines list res"
  md_lyrics :: "string \<Rightarrow> string res"

section \<open>The request\<close>

record Client = mc_Token :: string

definition NewClient :: "string \<Rightarrow> Client" where "NewClient token = \<lparr>mc_Token = token\<rparr>"

definition ClientName :: "Client \<Rightarrow> string" where "ClientName c = ''musixmatch''"

definition apiURL :: string where
  "apiURL = ''https://apic-desktop.musixmatch.com/ws/1.1/macro.subtitles.get''"

definition request_params :: "Client \<Rightarrow> Track \<Rightarrow> url_values" where
  "request_params c track =
     [(''format'', ''json''), (''namespace'', ''lyrics_richsynched''), (''subtitle_format'', ''mxm''),
      (''app_id'', ''web-desktop-app-v1.0''), (''usertoken'', mc_Token c), (''q_album'', tr_AlbumName track),
      (''q_artist'', tr_ArtistName track), (''q_artists'', tr_ArtistName track), (''q_track'', tr_TrackName track),
      (''track_spotify_id'', ''''), (''q_duration'', ''''), (''f_subtitle_length'', '''')]"

definition request_query :: "Client \<Rightarrow> Track \<Rightarrow> string" where
  "request_query c track = EncodeValues (request_params c track)"

section \<open>The response\<close>

definition status_error :: "HttpResponse \<Rightarrow> goerr" where
  "status_error res =
     (if hr_status res = 401 then Errorf '''' (Sen ErrUnauthorized) '': token may be invalid or expired''
      else if hr_status res = 429
      then Errorf '''' (Sen ErrRateLimited) '': increase the cooldown time and try again in a few minutes''
      else if hr_status res = 404 then Sen ErrNotFound
      else New (''musixmatch API error: status '' @ Itoa (hr_status res) @ '', body: '' @
             TrimSpace (fst (read_limited 8192 res))))"

definition maxResponseSize :: nat where "maxResponseSize = 2097152"

text \<open>What is read of the body of a good response, parsed.\<close>

definition parse_body :: "'v fastjson \<Rightarrow> HttpResponse \<Rightarrow> 'v res" where
  "parse_body J res =
     (case read_limited (maxResponseSize + 1) res of (body, err) \<Rightarrow>
        (case err of Some e \<Rightarrow> Inl e
         | None \<Rightarrow>
            (if length body > maxResponseSize
             then Inl (New (''musixmatch API response too large ('' @ Itoa (int (length body)) @ '' bytes)''))
             else fj_Parse J body)))"

definition macro :: "string \<Rightarrow> string list" where
  "macro call = [''message'', ''body'', ''macro_calls'', call, ''message'']"

definition read_track :: "'v fastjson \<Rightarrow> mx_decoder \<Rightarrow> 'v option \<Rightarrow> Track res" where
  "read_track J M mtg =
     (let code = fj_GetInt J mtg [''header'', ''status_code''] in
      if code = 200 then
        (case fj_Get J mtg [''body'', ''track''] of
           None \<Rightarrow> Inl (New ''musixmatch API response missing track data'')
         | Some node \<Rightarrow> md_track M (fj_MarshalTo J node))
      else if code = 401 then Inl (Errorf '''' (Sen ErrUnauthorized) '': token may be invalid or expired'')
      else if code = 404 then Inl (Sen ErrNotFound)
      else Inl (New ''unknown error''))"

definition read_song :: "'v fastjson \<Rightarrow> mx_decoder \<Rightarrow> 'v option \<Rightarrow> 'v option \<Rightarrow> Track \<Rightarrow> Song res" where
  "read_song J M tlg tsg track =
     (let sg = zero_Song\<lparr>so_Track := track\<rparr> in
      if tr_HasSubtitles track = 1 then
        (case md_lines M (fj_GetStringBytes J tsg [''body'', ''subtitle_list'', ''0'', ''subtitle'', ''subtitle_body'']) of
           Inl e \<Rightarrow> Inl e | Inr ls \<Rightarrow> Inr (sg\<lparr>so_Subtitles := ls\<rparr>))
      else if tr_HasLyrics track = 1 then
        (if fj_GetInt J tlg [''body'', ''lyrics'', ''restricted''] = 1 then Inl (New ''restricted lyrics'')
         else case fj_Get J tlg [''body'', ''lyrics''] of
           None \<Rightarrow> Inl (New ''musixmatch API response missing lyrics data'')
         | Some node \<Rightarrow>
            (case md_lyrics M (fj_MarshalTo J node) of Inl e \<Rightarrow> Inl e | Inr b \<Rightarrow> Inr (sg\<lparr>so_LyricsBody := b\<rparr>)))
      else if tr_Instrumental track = 1 then Inr sg
      else Inl (New ''no lyrics found''))"

definition read_response :: "'v fastjson \<Rightarrow> mx_decoder \<Rightarrow> HttpResponse \<Rightarrow> Song res" where
  "read_response J M res =
     (if hr_status res \<noteq> 200 then Inl (status_error res)
      else case parse_body J res of Inl e \<Rightarrow> Inl e
      | Inr v \<Rightarrow>
         (if fj_GetInt J (Some v) [''message'', ''header'', ''status_code''] = 401 \<and>
             fj_GetStringBytes J (Some v) [''message'', ''header'', ''hint''] = ''renew''
          then Inl (Errorf '''' (Sen ErrUnauthorized) '': token renewal required'')
          else
            let mtg = fj_Get J (Some v) (macro ''matcher.track.get'');
                tlg = fj_Get J (Some v) (macro ''track.lyrics.get'');
                tsg = fj_Get J (Some v) (macro ''track.subtitles.get'')
            in case read_track J M mtg of Inl e \<Rightarrow> Inl e | Inr track \<Rightarrow> read_song J M tlg tsg track))"

text \<open>Parsing the constant URL and building the request from it cannot fail.\<close>

definition FindLyrics :: "'v fastjson \<Rightarrow> mx_decoder \<Rightarrow> 's http_do \<Rightarrow> Client \<Rightarrow> 's fetch_fn" where
  "FindLyrics J M do c track s =
     (case do (apiURL @ ''?'' @ request_query c track) s of
        (Inl e, s') \<Rightarrow> (Inl e, s')
      | (Inr res, s') \<Rightarrow> (read_response J M res, s'))"

section \<open>What a request asks and a response means\<close>

text \<open>Errors of the transport, the parser and the decoder are not the client's own error values.\<close>

definition foreign :: "goerr \<Rightarrow> bool" where
  "foreign e \<longleftrightarrow> \<not> errors_Is e ErrUnauthorized \<and> \<not> errors_Is e ErrRateLimited \<and> \<not> errors_Is e ErrNotFound"

definition libraries_foreign :: "'v fastjson \<Rightarrow> mx_decoder \<Rightarrow> bool" where
  "libraries_foreign J M \<longleftrightarrow>
     (\<forall>b e. fj_Parse J b = Inl e \<longrightarrow> foreign e) \<and> (\<forall>b e. md_track M b = Inl e \<longrightarrow> foreign e) \<and>
     (\<forall>b e. md_lines M b = Inl e \<longrightarrow> foreign e) \<and> (\<forall>b e. md_lyrics M b = Inl e \<longrightarrow> foreign e)"

text \<open>The service refused the token in the body of a good response, or found no track.\<close>

definition wants_renewal :: "'v fastjson \<Rightarrow> HttpResponse \<Rightarrow> bool" where
  "wants_renewal J res \<longleftrightarrow> hr_status res = 200 \<and>
     (case parse_body J res of Inl e \<Rightarrow> False
      | Inr v \<Rightarrow> fj_GetInt J (Some v) [''message'', ''header'', ''status_code''] = 401 \<and>
          fj_GetStringBytes J (Some v) [''message'', ''header'', ''hint''] = ''renew'')"

definition matcher_status :: "'v fastjson \<Rightarrow> HttpResponse \<Rightarrow> int option" where
  "matcher_status J res =
     (if hr_status res = 200 \<and> \<not> wants_renewal J res
      then (case parse_body J res of Inl e \<Rightarrow> None
            | Inr v \<Rightarrow> Some (fj_GetInt J (fj_Get J (Some v) (macro ''matcher.track.get'')) [''header'', ''status_code'']))
      else None)"

lemma foreign_simps [simp]: "foreign (New m)" "foreign (Errorf p e q) \<longleftrightarrow> foreign e"
  by (simp_all add: foreign_def)

lemma parse_body_foreign:
  assumes "libraries_foreign J M" "\<forall>e. hr_readErr res = Some e \<longrightarrow> foreign e" "parse_body J res = Inl e"
  shows "foreign e"
  using assms by (auto simp: parse_body_def read_limited_def libraries_foreign_def split: option.splits if_splits)

lemma read_song_foreign: "libraries_foreign J M \<Longrightarrow> read_song J M tlg tsg t = Inl e \<Longrightarrow> foreign e"
  by (auto simp: read_song_def Let_def libraries_foreign_def split: if_splits option.splits sum.splits)

lemma read_track_error:
  assumes "libraries_foreign J M" "read_track J M mtg = Inl e"
  defines "code \<equiv> fj_GetInt J mtg [''header'', ''status_code'']"
  shows "\<not> errors_Is e ErrRateLimited \<and> (errors_Is e ErrUnauthorized \<longleftrightarrow> code = 401) \<and> (errors_Is e ErrNotFound \<longleftrightarrow> code = 404)"
  using assms(1,2) unfolding code_def
  by (auto simp: read_track_def Let_def libraries_foreign_def foreign_def split: if_splits option.splits)

lemma read_track_status:
  "read_track J M mtg = Inr t \<Longrightarrow> fj_GetInt J mtg [''header'', ''status_code''] = 200"
  by (auto simp: read_track_def Let_def split: if_splits)


lemma read_response_error:
  assumes "libraries_foreign J M" "\<forall>e. hr_readErr res = Some e \<longrightarrow> foreign e" "read_response J M res = Inl e"
  shows "(errors_Is e ErrRateLimited \<longleftrightarrow> hr_status res = 429) \<and>
    (errors_Is e ErrUnauthorized \<longleftrightarrow> hr_status res = 401 \<or> wants_renewal J res \<or> matcher_status J res = Some 401) \<and>
    (errors_Is e ErrNotFound \<longleftrightarrow> hr_status res = 404 \<or> matcher_status J res = Some 404)"
proof (cases "hr_status res = 200")
  case False
  with assms(3) show ?thesis
    by (auto simp: read_response_def status_error_def wants_renewal_def matcher_status_def split: if_splits)
next
  case ok: True
  show ?thesis
  proof (cases "parse_body J res")
    case (Inl e')
    with assms(3) ok have "e = e'" by (simp add: read_response_def)
    with parse_body_foreign [OF assms(1,2) Inl] Inl ok show ?thesis
      by (simp add: wants_renewal_def matcher_status_def foreign_def)
  next
    case (Inr v)
    show ?thesis
    proof (cases "wants_renewal J res")
      case True
      with assms(3) ok Inr show ?thesis by (auto simp: read_response_def wants_renewal_def matcher_status_def)
    next
      case live: False
      let ?mtg = "fj_Get J (Some v) (macro ''matcher.track.get'')"
      have code: "matcher_status J res = Some (fj_GetInt J ?mtg [''header'', ''status_code''])"
        using ok live Inr by (simp add: matcher_status_def)
      show ?thesis
      proof (cases "read_track J M ?mtg")
        case (Inl e')
        with assms(3) ok Inr live have "e = e'" by (auto simp: read_response_def wants_renewal_def Let_def)
        with read_track_error [OF assms(1) Inl] code ok live show ?thesis by simp
      next
        case t: (Inr t)
        with assms(3) ok Inr live
        have "read_song J M (fj_Get J (Some v) (macro ''track.lyrics.get'')) (fj_Get J (Some v) (macro ''track.subtitles.get'')) t = Inl e"
          by (auto simp: read_response_def wants_renewal_def Let_def)
        from read_song_foreign [OF assms(1) this] read_track_status [OF t] code ok live show ?thesis
          by (simp add: foreign_def)
      qed
    qed
  qed
qed

text \<open>
  C31. The errors of a lookup are classified by what the service answered: rate limited exactly on HTTP
  429; unauthorized exactly on HTTP 401, on a request to renew the token and on an inner status 401;
  not found exactly on HTTP 404 and an inner status 404. The circuit breaker and the retries rest on
  the first two. The libraries must not return the client's own error values.
\<close>
theorem FindLyrics_classifies_errors:
  assumes "libraries_foreign J M" and "do (apiURL @ ''?'' @ request_query c track) s = (Inr res, s')"
    and "\<forall>e. hr_readErr res = Some e \<longrightarrow> foreign e" and "FindLyrics J M do c track s = (Inl e, s'')"
  shows "(errors_Is e ErrRateLimited \<longleftrightarrow> hr_status res = 429) \<and>
    (errors_Is e ErrUnauthorized \<longleftrightarrow> hr_status res = 401 \<or> wants_renewal J res \<or> matcher_status J res = Some 401) \<and>
    (errors_Is e ErrNotFound \<longleftrightarrow> hr_status res = 404 \<or> matcher_status J res = Some 404)"
  using assms by (intro read_response_error [of J M]) (simp_all add: FindLyrics_def)

text \<open>
  A song as the client marks it: synchronized, then it has no plain text; or with lyrics or instrumental,
  then it has no lines, and the instrumental one no text either.
\<close>

definition well_marked :: "Song \<Rightarrow> bool" where
  "well_marked sg \<longleftrightarrow>
     tr_HasSubtitles (so_Track sg) = 1 \<and> so_LyricsBody sg = '''' \<or>
     tr_HasSubtitles (so_Track sg) \<noteq> 1 \<and> so_Subtitles sg = [] \<and>
       (tr_HasLyrics (so_Track sg) = 1 \<or> tr_Instrumental (so_Track sg) = 1 \<and> so_LyricsBody sg = '''')"

lemma read_song_marked: "read_song J M tlg tsg t = Inr sg \<Longrightarrow> well_marked sg"
  by (auto simp: well_marked_def read_song_def Let_def zero_Song_def split: if_splits option.splits sum.splits)

lemma parse_body_ok:
  "parse_body J res = Inr v \<Longrightarrow>
     hr_readErr res = None \<and> length (hr_body res) \<le> maxResponseSize \<and> fj_Parse J (hr_body res) = Inr v"
  by (auto simp: parse_body_def read_limited_def min_def split: option.splits if_splits)

lemma read_response_ok:
  assumes "read_response J M res = Inr sg"
  shows "hr_status res = 200 \<and> hr_readErr res = None \<and> length (hr_body res) \<le> maxResponseSize \<and>
    is_ok (fj_Parse J (hr_body res)) \<and> well_marked sg"
proof -
  from assms obtain v tlg tsg t where p: "hr_status res = 200" "parse_body J res = Inr v" "read_song J M tlg tsg t = Inr sg"
    by (auto simp: read_response_def Let_def split: if_splits sum.splits)
  from p(1) parse_body_ok [OF p(2)] read_song_marked [OF p(3)] show ?thesis by simp
qed

text \<open>
  C32. A lookup asks for the track it was given, under the client's token, whatever characters they
  contain; and the song it returns was read from a complete answer with status 200 of at most 2 MiB and
  is marked as synchronized (then it has no plain text), as plain or as instrumental (then it has no lines).
\<close>
theorem FindLyrics_asks_and_answers:
  "(let q = ParseQuery (request_query c track) in
      values_of q ''q_artist'' = [tr_ArtistName track] \<and> values_of q ''q_track'' = [tr_TrackName track] \<and>
      values_of q ''q_album'' = [tr_AlbumName track] \<and> values_of q ''usertoken'' = [mc_Token c]) \<and>
   (case FindLyrics J M do c track s of
      (Inl e, s') \<Rightarrow> True
    | (Inr sg, s') \<Rightarrow> \<exists>res. do (apiURL @ ''?'' @ request_query c track) s = (Inr res, s') \<and> hr_status res = 200 \<and>
        hr_readErr res = None \<and> length (hr_body res) \<le> maxResponseSize \<and> is_ok (fj_Parse J (hr_body res)) \<and> well_marked sg)"
proof (rule conjI)
  show "let q = ParseQuery (request_query c track) in
      values_of q ''q_artist'' = [tr_ArtistName track] \<and> values_of q ''q_track'' = [tr_TrackName track] \<and>
      values_of q ''q_album'' = [tr_AlbumName track] \<and> values_of q ''usertoken'' = [mc_Token c]"
    by (simp add: request_query_def ParseQuery_Encode values_of_ordered) (simp add: request_params_def values_of_def)
qed (auto simp: FindLyrics_def dest: read_response_ok split: prod.split sum.split)

section \<open>Sample answers\<close>

text \<open>A parser for the witness: one document, read with the paths the client asks for.\<close>

datatype doc = DNum int | DStr string | DObj "(string \<times> doc) list"

fun doc_get :: "doc option \<Rightarrow> string list \<Rightarrow> doc option" where
  "doc_get v [] = v"
| "doc_get (Some (DObj fs)) (k # ks) = doc_get (map_of fs k) ks"
| "doc_get v (k # ks) = None"

definition doc_json :: "doc \<Rightarrow> doc fastjson" where
  "doc_json d =
     \<lparr>fj_Parse = (\<lambda>b. if b = '''' then Inl (New ''cannot parse JSON'') else Inr d), fj_Get = doc_get,
      fj_GetInt = (\<lambda>v ks. case doc_get v ks of Some (DNum n) \<Rightarrow> n | _ \<Rightarrow> 0),
      fj_GetStringBytes = (\<lambda>v ks. case doc_get v ks of Some (DStr t) \<Rightarrow> t | _ \<Rightarrow> ''''), fj_MarshalTo = (\<lambda>_. ''x'')\<rparr>"

definition failing_decoder :: mx_decoder where
  "failing_decoder = \<lparr>md_track = (\<lambda>_. Inl (New ''json'')), md_lines = (\<lambda>_. Inl (New ''json'')), md_lyrics = (\<lambda>_. Inl (New ''json''))\<rparr>"

definition expired :: doc where
  "expired = DObj [(''message'', DObj [(''header'', DObj [(''status_code'', DNum 401), (''hint'', DStr ''renew'')])])]"

theorem FindLyrics_classifies_errors_witness:
  "\<exists>e. FindLyrics (doc_json expired) failing_decoder (\<lambda>url s. (Inr \<lparr>hr_status = 200, hr_body = ''{}'', hr_readErr = None\<rparr>, s))
      (NewClient ''t'') zero_Track () = (Inl e, ()) \<and> errors_Is e ErrUnauthorized \<and> \<not> errors_Is e ErrRateLimited"
proof -
  let ?res = "\<lparr>hr_status = 200, hr_body = ''{}'', hr_readErr = None\<rparr>" and ?do = "\<lambda>url s. (Inr \<lparr>hr_status = 200, hr_body = ''{}'', hr_readErr = None\<rparr>, s)"
  have lib: "libraries_foreign (doc_json expired) failing_decoder"
    by (simp add: libraries_foreign_def doc_json_def failing_decoder_def)
  have w: "wants_renewal (doc_json expired) ?res"
    by (simp add: wants_renewal_def parse_body_def read_limited_def maxResponseSize_def doc_json_def expired_def)
  then have "\<exists>e. FindLyrics (doc_json expired) failing_decoder ?do (NewClient ''t'') zero_Track () = (Inl e, ())"
    by (auto simp: FindLyrics_def read_response_def wants_renewal_def split: sum.splits)
  then obtain e where e: "FindLyrics (doc_json expired) failing_decoder ?do (NewClient ''t'') zero_Track () = (Inl e, ())" ..
  from FindLyrics_classifies_errors [OF lib refl _ e] w e show ?thesis by auto
qed

end
