(* ===== verification/Transcribe.thy ===== *)
theory Transcribe
  imports Verification Files Musixmatch
begin

text \<open>
  The two calls of the verifier of \<open>internal/verification/verification.go\<close> that leave the process: cutting
  a sample with ffmpeg into a temporary file, and sending it to the transcription service. They act on
  the files of the system; ffmpeg, the HTTP exchange and \<open>json.Unmarshal\<close> at the payload are parameters.
\<close>

section \<open>The calls\<close>

text \<open>A part of a multipart form: its field, the file name if it is a file, and its content.\<close>

record form_part =
  fp_field :: string
  fp_filename :: "string option"
  fp_content :: string

text \<open>
  System calls: 0 CreateTemp, 1 closing the sample, 2 removing it after an error, 3 opening it, 4
  copying it, 5 closing it, 6 closing the response body, 7 the verifier's own removal. \<open>sw_run\<close> is the
  command: its combined output, its error, and the files it leaves; \<open>sw_ctxErr\<close> is the error of the
  context after it. Writing the form into a buffer cannot fail.
\<close>

record stt_world =
  sw_io :: io
  sw_rand :: "nat \<Rightarrow> string"
  sw_tempdir :: string
  sw_run :: "string \<Rightarrow> string list \<Rightarrow> files \<Rightarrow> string \<times> goerr option \<times> files"
  sw_ctxErr :: "goerr option"
  sw_request :: "string \<Rightarrow> goerr option"
  sw_post :: "string \<Rightarrow> form_part list \<Rightarrow> HttpResponse res"
  sw_decode :: "string \<Rightarrow> string res"

definition sample_audio :: "stt_world \<Rightarrow> HTTPVerifier \<Rightarrow> string \<Rightarrow> files \<Rightarrow> string res \<times> files" where
  "sample_audio W v audioPath fs =
     (case os_CreateTemp (sw_rand W) (sw_tempdir W) (sw_io W) 0 '''' ''mxlrcgo-svc-verify-'' ''.wav'' fs of
        (Inl e, fs1) \<Rightarrow> (Inl (Errorf ''verification: create sample file: '' e ''''), fs1)
      | (Inr samplePath, fs1) \<Rightarrow>
         (case sw_io W 1 of
            Some e \<Rightarrow> (Inl (Errorf ''verification: close sample file: '' e ''''), snd (os_Remove (sw_io W) 2 samplePath fs1))
          | None \<Rightarrow>
             (case sw_run W (hv_ffmpegPath v) (ffmpegSampleArgs audioPath samplePath (hv_sampleDurationSeconds v)) fs1 of
                (out, None, fs2) \<Rightarrow> (Inr samplePath, fs2)
              | (out, Some e, fs2) \<Rightarrow>
                 (Inl (case sw_ctxErr W of
                         Some ce \<Rightarrow> Errorf ''verification: sample audio: '' ce ''''
                       | None \<Rightarrow> Errorf ''verification: sample audio with ffmpeg: '' e ('': '' @ TrimSpace out)),
                  snd (os_Remove (sw_io W) 2 samplePath fs2)))))"

definition form_of :: "string \<Rightarrow> string \<Rightarrow> form_part list" where
  "form_of audioPath content =
     [\<lparr>fp_field = ''file'', fp_filename = Some (Base audioPath), fp_content = content\<rparr>,
      \<lparr>fp_field = ''model'', fp_filename = None, fp_content = ''base''\<rparr>,
      \<lparr>fp_field = ''response_format'', fp_filename = None, fp_content = ''json''\<rparr>]"

definition maxTranscript :: nat where "maxTranscript = 1048576"

definition read_transcript :: "stt_world \<Rightarrow> HttpResponse \<Rightarrow> string res" where
  "read_transcript W res =
     (if hr_status res < 200 \<or> 300 \<le> hr_status res
      then Inl (New (''verification: transcribe status '' @ Itoa (hr_status res) @ '': '' @ TrimSpace (fst (read_limited 8192 res))))
      else case read_limited (maxTranscript + 1) res of (b, err) \<Rightarrow>
        (case err of Some e \<Rightarrow> Inl (Errorf ''verification: read response: '' e '''')
         | None \<Rightarrow>
            (if length b > maxTranscript
             then Inl (New (''verification: response too large ('' @ Itoa (int (length b)) @ '' bytes)''))
             else case sw_decode W b of
                    Inl e \<Rightarrow> Inl (Errorf ''verification: decode response: '' e '''')
                  | Inr payload \<Rightarrow>
                     (let text = TrimSpace payload in
                      if text = '''' then Inl (New ''verification: transcript is empty'') else Inr text))))"

text \<open>A deferred Close: its error is the result's when there is no other.\<close>

definition deferred_close :: "goerr option \<Rightarrow> string \<Rightarrow> 'a res \<Rightarrow> 'a res" where
  "deferred_close closeErr pre r =
     (case (r, closeErr) of (Inr x, Some e) \<Rightarrow> Inl (Errorf pre e '''') | _ \<Rightarrow> r)"

definition transcribe :: "stt_world \<Rightarrow> HTTPVerifier \<Rightarrow> string \<Rightarrow> files \<Rightarrow> string res \<times> files" where
  "transcribe W v audioPath fs =
     (case (case sw_io W 3 of Some e \<Rightarrow> Inl e
            | None \<Rightarrow> (case file_at fs audioPath of None \<Rightarrow> Inl (Sen OsErrNotExist) | Some c \<Rightarrow> Inr c)) of
        Inl e \<Rightarrow> (Inl (Errorf ''verification: open audio: '' e ''''), fs)
      | Inr content \<Rightarrow>
         (deferred_close (sw_io W 5) ''verification: close audio: ''
           (case sw_io W 4 of Some e \<Rightarrow> Inl (Errorf ''verification: copy audio: '' e '''')
            | None \<Rightarrow>
               (case sw_request W (transcriptionURL v) of Some e \<Rightarrow> Inl (Errorf ''verification: create request: '' e '''')
                | None \<Rightarrow>
                   (case sw_post W (transcriptionURL v) (form_of audioPath content) of
                      Inl e \<Rightarrow> Inl (Errorf ''verification: transcribe audio: '' e '''')
                    | Inr res \<Rightarrow> deferred_close (sw_io W 6) ''verification: close response body: '' (read_transcript W res)))),
          fs))"

definition stt_env :: "stt_world \<Rightarrow> files SttEnv" where
  "stt_env W = \<lparr>stt_sample = sample_audio W, stt_transcribe = transcribe W,
     stt_remove = (\<lambda>p fs. snd (os_Remove (sw_io W) 7 p fs))\<rparr>"

section \<open>Verification cleans up\<close>

text \<open>The command writes to the last of its arguments only, as ffmpeg does without further outputs.\<close>

definition writes_last :: "stt_world \<Rightarrow> bool" where
  "writes_last W \<longleftrightarrow> (\<forall>prog args fs out err fs' q. sw_run W prog args fs = (out, err, fs') \<longrightarrow>
     Clean q \<noteq> Clean (last args) \<longrightarrow> file_at fs' q = file_at fs q)"

lemma removed_file: "sw_io W k = None \<Longrightarrow>
    file_at (snd (os_Remove (sw_io W) k p fs)) q = (if Clean p = Clean q then None else file_at fs q)"
  by (auto simp: os_Remove_def file_at_def put_file_def)

lemma transcribe_files: "snd (transcribe W v p fs) = fs"
  by (auto simp: transcribe_def split: sum.split)

lemma ffmpeg_last: "last (ffmpegSampleArgs a p d) = p"
  by (simp add: ffmpegSampleArgs_def)

lemma sample_audio_files:
  assumes "writes_last W" "sw_io W 2 = None" "sample_audio W v a fs = (r, fs')"
  shows "case r of Inl e \<Rightarrow> \<forall>q. file_at fs' q = file_at fs q
    | Inr p \<Rightarrow> file_at fs p = None \<and> (\<forall>q. Clean p \<noteq> Clean q \<longrightarrow> file_at fs' q = file_at fs q)"
proof (cases "os_CreateTemp (sw_rand W) (sw_tempdir W) (sw_io W) 0 '''' ''mxlrcgo-svc-verify-'' ''.wav'' fs")
  case (Pair t fs1)
  show ?thesis
  proof (cases t)
    case (Inl e)
    with Pair os_CreateTemp_err [OF Pair [unfolded Inl]] assms(3) show ?thesis by (auto simp: sample_audio_def)
  next
    case (Inr p)
    from os_CreateTemp_ok [OF Pair [unfolded Inr]] have p: "file_at fs p = None" "fs1 = put_file p (Some []) fs" by auto
    have same: "file_at fs q = None" if "Clean p = Clean q" for q using p(1) that by (simp add: file_at_def)
    show ?thesis
    proof (cases "sw_io W 1")
      case (Some e)
      with Pair Inr assms(2,3) p show ?thesis by (auto simp: sample_audio_def removed_file same)
    next
      case None
      obtain out err fs2 where run: "sw_run W (hv_ffmpegPath v) (ffmpegSampleArgs a p (hv_sampleDurationSeconds v)) fs1 = (out, err, fs2)"
        by (metis prod_cases3)
      have "file_at fs2 q = file_at fs q" if "Clean p \<noteq> Clean q" for q
        using assms(1) run that p(2) unfolding writes_last_def by (metis ffmpeg_last file_at_put)
      with Pair Inr None run assms(2,3) p(1) same show ?thesis
        by (cases err) (auto simp: sample_audio_def removed_file)
    qed
  qed
qed

text \<open>
  C33. Verification leaves no sample behind: whatever the sampling, the transcription service and the
  comparison come to, every file is afterwards what it was before, as long as ffmpeg writes only its
  output and removing a file succeeds.
\<close>
theorem Verify_leaves_no_sample:
  assumes "writes_last W" and "sw_io W 2 = None" and "sw_io W 7 = None"
  shows "file_at (snd (Verify rnd u (stt_env W) v audioPath song fs)) q = file_at fs q"
proof (cases "sample_audio W v audioPath fs")
  case (Pair r fs1)
  note s = sample_audio_files [OF assms(1,2) Pair]
  show ?thesis
  proof (cases r)
    case (Inl e)
    with Pair s show ?thesis by (simp add: Verify_def stt_env_def Let_def)
  next
    case (Inr p)
    obtain t where t: "transcribe W v p fs1 = (t, fs1)"
      using transcribe_files [of W v p fs1] by (cases "transcribe W v p fs1") auto
    from Inr s have "file_at fs p = None" "Clean p \<noteq> Clean q \<Longrightarrow> file_at fs1 q = file_at fs q" by auto
    then have "file_at (snd (os_Remove (sw_io W) 7 p fs1)) q = file_at fs q"
      unfolding removed_file [OF assms(3)] by (auto simp: file_at_def)
    with Pair Inr t show ?thesis by (simp add: Verify_def stt_env_def Let_def split: sum.split)
  qed
qed

definition demo_world :: stt_world where
  "demo_world = \<lparr>sw_io = no_faults, sw_rand = (\<lambda>_. ''1''), sw_tempdir = ''/tmp'',
     sw_run = (\<lambda>prog args fs. ('''', None, put_file (last args) (Some ''RIFF'') fs)), sw_ctxErr = None,
     sw_request = (\<lambda>_. None), sw_post = (\<lambda>url form. Inr \<lparr>hr_status = 200, hr_body = ''hello'', hr_readErr = None\<rparr>),
     sw_decode = Inr\<rparr>"

theorem Verify_leaves_no_sample_witness:
  "file_at (snd (Verify fixed53 ascii_env (stt_env demo_world)
     \<lparr>hv_baseURL = ''http://stt'', hv_sampleDurationSeconds = 30, hv_minSimilarity = Fin 0, hv_ffmpegPath = ''ffmpeg''\<rparr>
     ''/m/a.mp3'' (zero_Song\<lparr>so_LyricsBody := ''hello''\<rparr>) Map.empty)) ''/tmp/mxlrcgo-svc-verify-1.wav'' = None"
proof -
  have "writes_last demo_world" by (auto simp: writes_last_def demo_world_def)
  from Verify_leaves_no_sample [OF this] show ?thesis by (simp add: demo_world_def file_at_def)
qed

end
