(* ===== verification/Commands_Run.thy ===== *)
theory Commands_Run
  imports Service_Steps Commands_DB App Transcribe
begin

text \<open>
  The entry of the program: \<open>Run\<close> of \<open>internal/commands/commands.go\<close> with its dispatch, the commands
  \<open>fetch\<close>, \<open>serve\<close> and \<open>scan\<close>, the flags of the old command line, and \<open>cmd/mxlrcgo-svc/main.go\<close>. The
  parser of the command line is a third-party package and a parameter; so is what happens while \<open>serve\<close>
  runs its goroutines, of which is asked only that it consists of steps of the service.
\<close>

section \<open>Command lines\<close>

record FetchCmd =
  fe_Song :: "string list"
  fe_Outdir :: "string option"
  fe_Cooldown :: "int option"
  fe_Depth :: int
  fe_Update :: bool
  fe_Upgrade :: bool
  fe_BFS :: bool
  fe_Token :: string
  fe_ConfigPath :: string

record ServeCmd =
  se_Listen :: "string option"
  se_Outdir :: "string option"
  se_Token :: string
  se_ConfigPath :: string
  se_Depth :: int
  se_Update :: bool
  se_Upgrade :: bool
  se_BFS :: bool
  se_ScanInterval :: "int option"
  se_WorkInterval :: "int option"

record ScanCmd =
  sc_ConfigPath :: string
  sc_Depth :: int
  sc_Update :: bool
  sc_Upgrade :: bool
  sc_BFS :: bool
  sc_Libraries :: "string list"
  sc_Results :: "ScanResultsCmd option"
  sc_Clear :: "ScanClearCmd option"

record Args =
  ar_Fetch :: "FetchCmd option"
  ar_Serve :: "ServeCmd option"
  ar_Scan :: "ScanCmd option"
  ar_Library :: "LibraryCmd option"
  ar_Keys :: "KeysCmd option"
  ar_Config :: "ConfigCmd option"
  ar_Queue :: "QueueCmd option"

record LegacyArgs =
  lg_Song :: "string list"
  lg_Outdir :: "string option"
  lg_Cooldown :: "int option"
  lg_Depth :: int
  lg_Update :: bool
  lg_Upgrade :: bool
  lg_BFS :: bool
  lg_Serve :: bool
  lg_Listen :: "string option"
  lg_Token :: string
  lg_ConfigPath :: string

definition usesSubcommand :: "string list \<Rightarrow> bool" where
  "usesSubcommand rawArgs =
     (if rawArgs = [] then False
      else if hd rawArgs = ''-h'' \<or> hd rawArgs = ''--help'' then True
      else hd rawArgs \<in> set [''fetch'', ''serve'', ''scan'', ''library'', ''keys'', ''config'', ''queue''])"

definition legacyFetch :: "LegacyArgs \<Rightarrow> FetchCmd" where
  "legacyFetch a =
     \<lparr>fe_Song = lg_Song a, fe_Outdir = lg_Outdir a, fe_Cooldown = lg_Cooldown a, fe_Depth = lg_Depth a,
      fe_Update = lg_Update a, fe_Upgrade = lg_Upgrade a, fe_BFS = lg_BFS a, fe_Token = lg_Token a,
      fe_ConfigPath = lg_ConfigPath a\<rparr>"

definition legacyServe :: "LegacyArgs \<Rightarrow> ServeCmd" where
  "legacyServe a =
     \<lparr>se_Listen = lg_Listen a, se_Outdir = lg_Outdir a, se_Token = lg_Token a, se_ConfigPath = lg_ConfigPath a,
      se_Depth = lg_Depth a, se_Update = lg_Update a, se_Upgrade = lg_Upgrade a, se_BFS = lg_BFS a,
      se_ScanInterval = None, se_WorkInterval = None\<rparr>"

section \<open>The world of a command\<close>

text \<open>
  \<open>wo_sys\<close> has the files, the clock and, while a command has a database open, its tables; \<open>wo_disk\<close> the
  databases by path; \<open>wo_conf\<close> the configuration files that were written, the last one first, with
  \<open>None\<close> for one that holds an unknown part of its text.
\<close>

record world =
  wo_sys :: sys
  wo_disk :: disk
  wo_conf :: "(string \<times> Config option) list"

text \<open>The parser: the error of \<open>NewParser\<close>, the parse, and what it writes as help and usage.\<close>

datatype parse_error = ErrHelp | BadArgs goerr

record 'a argparser =
  ap_new :: "goerr option"
  ap_parse :: "string list \<Rightarrow> parse_error + 'a"
  ap_help :: "string list \<Rightarrow> string \<times> goerr option"
  ap_usage :: "string list \<Rightarrow> string \<times> goerr option"

text \<open>\<open>Deps\<close>: \<open>None\<close> is a nil function. An \<open>AppRunner\<close> is its method \<open>Run\<close>, on the context of the environment.\<close>

type_synonym AppRunner = "sys \<Rightarrow> unit res \<times> sys"
type_synonym new_app = "sys fetch_fn \<Rightarrow> sys write_fn \<Rightarrow> InputsQueue \<Rightarrow> int \<Rightarrow> string \<Rightarrow> AppRunner"

record Deps =
  dp_LoadDotenv :: "(os_env \<Rightarrow> os_env) option"
  dp_NewFetcher :: "(string \<Rightarrow> sys fetch_fn) option"
  dp_NewWriter :: "sys write_fn option"
  dp_NewApp :: "new_app option"

text \<open>
  What a run meets outside: the environment of the database commands, that of the service, the view of
  the file system and the errors of the enqueuer's calls during scans, the context, \<open>os.MkdirAll\<close>,
  \<open>url.ParseRequestURI\<close>, \<open>exec.LookPath\<close>, the transcription service and the temporary files at a call,
  the driver errors and clock of \<open>keyService\<close>, the readiness check, what \<open>FindLyrics\<close> of a
  client (theory \<open>Musixmatch\<close>) answers at a call, the terminal of \<open>fetch\<close>, \<open>godotenv.Load\<close>, and
  the parsers.
\<close>

record run_env =
  re_cmd :: cmd_env
  re_sys :: sys_env
  re_scan :: scan_params
  re_view :: fs_view
  re_ctxErr :: "sys \<Rightarrow> goerr option"
  re_mkdir :: "string \<Rightarrow> goerr option"
  re_parseURI :: "string \<Rightarrow> goerr option"
  re_look :: "string \<Rightarrow> string res"
  re_stt :: "nat \<Rightarrow> stt_world \<times> files"
  re_keyIo :: "int \<Rightarrow> io"
  re_keyClock :: "int \<Rightarrow> int"
  re_ios :: "nat \<Rightarrow> io"
  re_clocks :: "nat \<Rightarrow> int \<times> int"
  re_ping :: "db \<Rightarrow> goerr option"
  re_confIo :: io
  re_find :: "Client \<Rightarrow> nat \<Rightarrow> Track \<Rightarrow> Song res"
  re_app :: "sys app_env"
  re_dotenv :: "os_env \<Rightarrow> os_env"
  re_parser :: "Args argparser"
  re_legacy :: "LegacyArgs argparser"

text \<open>A command on the databases alone, and a command on an open database.\<close>

definition disk_cmd :: "(disk \<Rightarrow> int \<times> printed \<times> disk) \<Rightarrow> world \<Rightarrow> int \<times> printed \<times> world" where
  "disk_cmd f W = (case f (wo_disk W) of (code, out, D) \<Rightarrow> (code, out, W\<lparr>wo_disk := D\<rparr>))"

definition opened ::
  "run_env \<Rightarrow> string \<Rightarrow> (sys \<Rightarrow> int \<times> printed \<times> sys) \<Rightarrow> world \<Rightarrow> int \<times> printed \<times> world"
where
  "opened R path f W =
     (case db_Open (ce_open (re_cmd R)) path (wo_disk W) of
        (Inl e, D) \<Rightarrow> (1, Silent, W\<lparr>wo_disk := D\<rparr>)
      | (Inr d, D) \<Rightarrow>
         (case f ((wo_sys W)\<lparr>sy_db := d\<rparr>) of
            (code, out, s) \<Rightarrow> (code, out, W\<lparr>wo_sys := s, wo_disk := D(path \<mapsto> sy_db s)\<rparr>)))"

section \<open>fetch\<close>

definition selectedProvider :: "unicode_env \<Rightarrow> Config \<Rightarrow> string \<Rightarrow> (string \<Rightarrow> 's fetch_fn) \<Rightarrow> 's LyricsProvider res" where
  "selectedProvider u cfg token newFetcher =
     Select u (pc_Primary (cf_Providers cfg)) (pc_Disabled (cf_Providers cfg))
       [Some (NewProvider u Musixmatch (newFetcher token))]"

definition token_of :: "string \<Rightarrow> Config \<Rightarrow> string" where
  "token_of flag cfg = (if flag = '''' then ac_Token (cf_API cfg) else flag)"

definition runFetch ::
  "run_env \<Rightarrow> (string \<Rightarrow> sys fetch_fn) \<Rightarrow> sys write_fn \<Rightarrow> new_app \<Rightarrow> FetchCmd \<Rightarrow> world \<Rightarrow> int \<times> printed \<times> world"
where
  "runFetch R newFetcher newWriter newApp args W =
     (if fe_Song args = [] then (2, say ''missing required positional argument: Song'', W)
      else case LoadConfig (ce_os (re_cmd R)) (fe_ConfigPath args) of Inl e \<Rightarrow> (1, Silent, W)
      | Inr cfg \<Rightarrow>
        (let token = token_of (fe_Token args) cfg in
         if token = '''' then (1, Silent, W)
         else let cooldown = (case fe_Cooldown args of None \<Rightarrow> ac_Cooldown (cf_API cfg) | Some c \<Rightarrow> c);
                  outdir = (case fe_Outdir args of None \<Rightarrow> oc_Dir (cf_Output cfg) | Some d \<Rightarrow> d)
         in case selectedProvider (se_u (re_sys R)) cfg token newFetcher of Inl e \<Rightarrow> (1, Silent, W)
            | Inr p \<Rightarrow>
              (case ParseInput (se_u (re_sys R)) (re_view R) (fe_Song args) outdir (fe_Update args) (fe_Upgrade args)
                      (fe_Depth args) (fe_BFS args) NewInputsQueue of
                 (Inl e, q) \<Rightarrow> (1, Silent, W)
               | (Inr mode, q) \<Rightarrow>
                 (let out = Text (line '''' @ line (Itoa (Len q) @ '' lyrics to fetch'') @ line '''') in
                  if mode \<noteq> ''dir'' \<and> re_mkdir R outdir \<noteq> None then (1, out, W)
                  else case newApp (ProviderFindLyrics p) newWriter q cooldown mode (wo_sys W) of
                         (r, s) \<Rightarrow> (if is_ok r then 0 else 1, out, W\<lparr>wo_sys := s\<rparr>)))))"


section \<open>serve\<close>

text \<open>The verifier: \<open>None\<close> when verification is off.\<close>

definition newVerifier :: "run_env \<Rightarrow> Config \<Rightarrow> HTTPVerifier option res" where
  "newVerifier R cfg =
     (let v = cf_Verification cfg in
      if \<not> vc_Enabled v then Inr None
      else map_sum id Some (NewHTTPVerifier (se_rnd (re_sys R)) (re_parseURI R) (re_look R)
             (vc_WhisperURL v) (vc_SampleDurationSeconds v) (vc_MinSimilarity v) (vc_FFmpegPath v)))"

text \<open>A call of the verifier: its answer, on the temporary files it meets. It leaves no file behind.\<close>

definition verify_call :: "run_env \<Rightarrow> HTTPVerifier \<Rightarrow> nat \<Rightarrow> string \<Rightarrow> Song \<Rightarrow> VerifyResult res" where
  "verify_call R v k path sg =
     (case re_stt R k of
        (stt, fs) \<Rightarrow> fst (Verify (se_rnd (re_sys R)) (se_u (re_sys R)) (stt_env stt) v path sg fs))"

definition verify_fun :: "run_env \<Rightarrow> HTTPVerifier \<Rightarrow> sys verify_fn" where
  "verify_fun R v path sg s = (verify_call R v (sy_calls s) path sg, tick (re_sys R) s)"

definition configureWorkerVerification :: "run_env \<Rightarrow> Config \<Rightarrow> HTTPVerifier option \<Rightarrow> sys Worker \<Rightarrow> sys Worker" where
  "configureWorkerVerification R cfg verifier w =
     (case verifier of None \<Rightarrow> w
      | Some v \<Rightarrow> EnableVerification (verify_fun R v) (vc_MinConfidence (cf_Verification cfg)) w)"

definition scan_opts :: "bool \<Rightarrow> bool \<Rightarrow> int \<Rightarrow> bool \<Rightarrow> ScanOptions" where
  "scan_opts update upgrade depth bfs = \<lparr>sn_Update = update, sn_Upgrade = upgrade, sn_MaxDepth = depth, sn_BFS = bfs\<rparr>"

text \<open>What \<open>runServe\<close> has built when it starts its goroutines and the HTTP server.\<close>

record serve_plan =
  pl_worker :: "sys Worker"
  pl_interval :: int
  pl_scheduler :: "sys Scheduler"
  pl_addr :: string
  pl_handler :: "db Handler"

definition serve_worker :: "run_env \<Rightarrow> sys write_fn \<Rightarrow> Config \<Rightarrow> sys LyricsProvider \<Rightarrow> HTTPVerifier option \<Rightarrow> sys Worker" where
  "serve_worker R newWriter cfg p verifier =
     (let S = re_sys R;
          w = NewWorker (se_rnd S) (service_queue S) (service_cache S) (ProviderFindLyrics p) newWriter
                sy_now sleepCtx;
          w = SetCircuitOpenDuration (seconds (ac_CircuitOpenDuration (cf_API cfg))) w
      in configureWorkerVerification R cfg verifier w)"

definition serve_scheduler :: "run_env \<Rightarrow> Config \<Rightarrow> ServeCmd \<Rightarrow> sys Scheduler" where
  "serve_scheduler R cfg args =
     (service_scheduler (re_sys R) (re_scan R)
        (scan_opts (se_Update args) (se_Upgrade args) (se_Depth args) (se_BFS args)))
      \<lparr>sd_Interval := serveScanInterval cfg (se_ScanInterval args)\<rparr>"

definition serve_handler :: "run_env \<Rightarrow> string \<Rightarrow> db Handler" where
  "serve_handler R outdir =
     db_handler (ce_kdf (re_cmd R)) (ce_rand (re_cmd R)) (ce_now (re_cmd R)) (se_u (re_sys R)) (re_ios R) (re_clocks R)
       (re_ping R) (ce_io (re_cmd R)) outdir"

definition make_plan ::
  "run_env \<Rightarrow> sys write_fn \<Rightarrow> Config \<Rightarrow> ServeCmd \<Rightarrow> string \<Rightarrow> sys LyricsProvider \<Rightarrow> HTTPVerifier option \<Rightarrow> serve_plan"
where
  "make_plan R newWriter cfg args outdir p verifier =
     \<lparr>pl_worker = serve_worker R newWriter cfg p verifier,
      pl_interval = serveWorkerInterval cfg (se_WorkInterval args),
      pl_scheduler = serve_scheduler R cfg args,
      pl_addr = (case se_Listen args of None \<Rightarrow> sv_Addr (cf_Server cfg) | Some a \<Rightarrow> a),
      pl_handler = serve_handler R outdir\<rparr>"

text \<open>
  \<open>session plan s\<close>: the two goroutines and the server, until all have stopped, with the error of
  \<open>ListenAndServe\<close> unless that is \<open>http.ErrServerClosed\<close>.
\<close>

type_synonym session = "serve_plan \<Rightarrow> sys \<Rightarrow> goerr option \<times> sys"

definition runServe ::
  "run_env \<Rightarrow> session \<Rightarrow> (string \<Rightarrow> sys fetch_fn) \<Rightarrow> sys write_fn \<Rightarrow> ServeCmd \<Rightarrow> world \<Rightarrow> int \<times> printed \<times> world"
where
  "runServe R session newFetcher newWriter args W =
     (case LoadConfig (ce_os (re_cmd R)) (se_ConfigPath args) of Inl e \<Rightarrow> (1, Silent, W)
      | Inr cfg \<Rightarrow>
        (let token = token_of (se_Token args) cfg in
         if token = '''' then (1, Silent, W)
         else let outdir = (case se_Outdir args of None \<Rightarrow> oc_Dir (cf_Output cfg) | Some d \<Rightarrow> d)
         in case selectedProvider (se_u (re_sys R)) cfg token newFetcher of Inl e \<Rightarrow> (1, Silent, W)
            | Inr p \<Rightarrow>
              (case newVerifier R cfg of Inl e \<Rightarrow> (1, Silent, W)
               | Inr verifier \<Rightarrow>
                  opened R (dc_Path (cf_DB cfg)) (\<lambda>s.
                    case keyService (ce_kdf (re_cmd R)) (re_keyIo R) (re_keyClock R) 0 (sv_WebhookAPIKeys (cf_Server cfg)) (sy_db s) of
                      (Inl e, d) \<Rightarrow> (1, Silent, s\<lparr>sy_db := d\<rparr>)
                    | (Inr _, d) \<Rightarrow>
                       (case session (make_plan R newWriter cfg args outdir p verifier) (s\<lparr>sy_db := d\<rparr>) of
                          (Some e, s') \<Rightarrow> (1, Silent, s')
                        | (None, s') \<Rightarrow> (0, Silent, s'))) W)))"

text \<open>
  The worker's goroutine: RunPaced again and again, with the tick of the interval in between, until the
  context ends. \<open>None\<close>: it does not return.
\<close>

partial_function (option) runWorkerLoop ::
  "run_env \<Rightarrow> (int \<Rightarrow> sys \<Rightarrow> unit res \<times> sys) \<Rightarrow> (int \<Rightarrow> sys \<Rightarrow> sys) \<Rightarrow> sys Worker \<Rightarrow> int \<Rightarrow> sys \<Rightarrow> sys option"
where
  [code]: "runWorkerLoop R wait ticker w interval s =
     (let interval = normalizeWorkerInterval interval in
      case RunPaced (se_rnd (re_sys R)) (se_u (re_sys R)) (se_codec (re_sys R)) (re_ctxErr R) wait interval w s of
        None \<Rightarrow> None
      | Some (r, w1, s1) \<Rightarrow>
         (let s2 = ticker interval s1 in
          if re_ctxErr R s2 \<noteq> None then Some s2 else runWorkerLoop R wait ticker w1 interval s2))"

text \<open>The scheduler's goroutine; its error is only logged.\<close>

definition runScheduler :: "run_env \<Rightarrow> (int \<Rightarrow> sys \<Rightarrow> sys) \<Rightarrow> Config \<Rightarrow> ServeCmd \<Rightarrow> sys \<Rightarrow> sys option" where
  "runScheduler R wait cfg args s =
     map_option snd (ScanRun sy_now (serve_scheduler R cfg args) (re_ctxErr R) wait s)"

section \<open>scan\<close>

fun resolve_refs :: "(nat \<Rightarrow> nat \<Rightarrow> io) \<Rightarrow> nat \<Rightarrow> string list \<Rightarrow> db \<Rightarrow> printed + Library list" where
  "resolve_refs ios k [] d = Inr []"
| "resolve_refs ios k (ref # refs) d =
     (case resolveLibrary (ios k) ref d of
        Inl e \<Rightarrow>
          Inl (if errors_Is e SqlErrNoRows then not_found ref
               else say (''library '' @ Quoted ref @ '': '' @ Error e))
      | Inr v \<Rightarrow> map_sum id (Cons v) (resolve_refs ios (k + 1) refs d))"

definition runScan :: "run_env \<Rightarrow> (nat \<Rightarrow> nat \<Rightarrow> io) \<Rightarrow> ScanCmd \<Rightarrow> world \<Rightarrow> int \<times> printed \<times> world" where
  "runScan R ios args W =
     (case LoadConfig (ce_os (re_cmd R)) (sc_ConfigPath args) of Inl e \<Rightarrow> (1, Silent, W)
      | Inr cfg \<Rightarrow>
        opened R (dc_Path (cf_DB cfg)) (\<lambda>s.
          let sd = service_scheduler (re_sys R) (re_scan R)
                (scan_opts (sc_Update args) (sc_Upgrade args) (sc_Depth args) (sc_BFS args))
          in if length (sc_Libraries args) > 0
             then (case resolve_refs ios 0 (sc_Libraries args) (sy_db s) of
                     Inl out \<Rightarrow> (1, out, s)
                   | Inr libs \<Rightarrow>
                      (case RunOnceFor sd (re_ctxErr R) libs s of (r, s') \<Rightarrow> (if is_ok r then 0 else 1, Silent, s')))
             else (case ScanRunOnce sd (re_ctxErr R) s of (r, s') \<Rightarrow> (if is_ok r then 0 else 1, Silent, s'))) W)"

text \<open>A nested command without a path of its own gets the one of the parent.\<close>

definition runScanCmd :: "run_env \<Rightarrow> (nat \<Rightarrow> nat \<Rightarrow> io) \<Rightarrow> ScanCmd \<Rightarrow> world \<Rightarrow> int \<times> printed \<times> world" where
  "runScanCmd R ios args =
     (case sc_Results args of
        Some sub \<Rightarrow>
          disk_cmd (runScanResults (re_cmd R) (if sl_ConfigPath sub = '''' then sub\<lparr>sl_ConfigPath := sc_ConfigPath args\<rparr> else sub))
      | None \<Rightarrow>
     (case sc_Clear args of
        Some sub \<Rightarrow>
          disk_cmd (runScanClear (re_cmd R) (if sx_ConfigPath sub = '''' then sub\<lparr>sx_ConfigPath := sc_ConfigPath args\<rparr> else sub))
      | None \<Rightarrow> runScan R ios args))"


section \<open>Run\<close>

text \<open>The parse of the command line: the exit with its output, or the arguments.\<close>

definition parse_cli :: "'a argparser \<Rightarrow> string list \<Rightarrow> int \<times> printed + 'a" where
  "parse_cli P rawArgs =
     (case ap_new P of Some e \<Rightarrow> Inl (2, say (Error e)) | None \<Rightarrow>
     (case ap_parse P rawArgs of
        Inr args \<Rightarrow> Inr args
      | Inl ErrHelp \<Rightarrow>
          (case ap_help P rawArgs of
             (text, Some e) \<Rightarrow> Inl (2, Text (text @ line (Error e)))
           | (text, None) \<Rightarrow> Inl (0, Text text))
      | Inl (BadArgs err) \<Rightarrow>
          (case ap_usage P rawArgs of
             (text, Some e) \<Rightarrow> Inl (2, Text (text @ line (Error e)))
           | (text, None) \<Rightarrow> Inl (2, Text (text @ line (Error err))))))"

definition config_cmd :: "run_env \<Rightarrow> ConfigCmd \<Rightarrow> world \<Rightarrow> int \<times> printed \<times> world" where
  "config_cmd R args W =
     (case runConfig (ce_os (re_cmd R)) (ce_format (re_cmd R)) (re_confIo R) args of
        (code, out, written) \<Rightarrow>
          (code, Text out, (case written of None \<Rightarrow> W | Some w \<Rightarrow> W\<lparr>wo_conf := w # wo_conf W\<rparr>)))"

definition dispatch ::
  "run_env \<Rightarrow> session \<Rightarrow> (nat \<Rightarrow> nat \<Rightarrow> io) \<Rightarrow> (string \<Rightarrow> sys fetch_fn) \<Rightarrow> sys write_fn \<Rightarrow> new_app \<Rightarrow> Args \<Rightarrow> world \<Rightarrow>
   int \<times> printed \<times> world"
where
  "dispatch R session ios newFetcher newWriter newApp args =
     (case ar_Fetch args of Some a \<Rightarrow> runFetch R newFetcher newWriter newApp a | None \<Rightarrow>
     (case ar_Serve args of Some a \<Rightarrow> runServe R session newFetcher newWriter a | None \<Rightarrow>
     (case ar_Scan args of Some a \<Rightarrow> runScanCmd R ios a | None \<Rightarrow>
     (case ar_Library args of Some a \<Rightarrow> disk_cmd (runLibrary (re_cmd R) a) | None \<Rightarrow>
     (case ar_Keys args of Some a \<Rightarrow> disk_cmd (runKeys (re_cmd R) a) | None \<Rightarrow>
     (case ar_Config args of Some a \<Rightarrow> config_cmd R a | None \<Rightarrow>
     (case ar_Queue args of Some a \<Rightarrow> disk_cmd (runQueueCmd (re_cmd R) a) | None \<Rightarrow>
       Pair 2 \<circ> Pair (say ''missing subcommand''))))))))"

text \<open>\<open>sleep\<close> of \<open>app/app.go\<close>: true if the timer fires, false if the context has ended by then.\<close>

definition app_sleep :: "(sys \<Rightarrow> goerr option) \<Rightarrow> int \<Rightarrow> sys \<Rightarrow> bool \<times> sys" where
  "app_sleep ctxErr d s = (let s' = sleepCtx d s in (ctxErr s' = None, s'))"

text \<open>The command after the parse: a nil dependency gets its default, and \<open>LoadDotenv\<close> sets variables.\<close>

definition default_app :: "run_env \<Rightarrow> new_app" where
  "default_app R fetcher writer inputs cooldown mode s =
     (case RunApp (re_app R) (NewApp (app_sleep (ae_ctxErr (re_app R))) fetcher writer inputs cooldown mode) s of (r, a, s') \<Rightarrow> (r, s'))"

definition default_fetcher :: "run_env \<Rightarrow> string \<Rightarrow> sys fetch_fn" where
  "default_fetcher R token = service_fetch ((re_sys R)\<lparr>se_fetch := re_find R (NewClient token)\<rparr>)"

definition or_else :: "'a option \<Rightarrow> 'a \<Rightarrow> 'a" where
  "or_else x y = (case x of None \<Rightarrow> y | Some v \<Rightarrow> v)"

text \<open>The environment after \<open>LoadDotenv\<close>.\<close>

definition with_os :: "os_env \<Rightarrow> run_env \<Rightarrow> run_env" where
  "with_os os R = R\<lparr>re_cmd := (re_cmd R)\<lparr>ce_os := os\<rparr>\<rparr>"

definition Run ::
  "run_env \<Rightarrow> session \<Rightarrow> (nat \<Rightarrow> nat \<Rightarrow> io) \<Rightarrow> string list \<Rightarrow> Deps \<Rightarrow> world \<Rightarrow> int \<times> printed \<times> world"
where
  "Run R session ios rawArgs deps W =
     (let newFetcher = or_else (dp_NewFetcher deps) (default_fetcher R);
          newWriter = or_else (dp_NewWriter deps) (service_write (re_sys R));
          newApp = or_else (dp_NewApp deps) (default_app R);
          loaded = with_os (or_else (dp_LoadDotenv deps) id (ce_os (re_cmd R))) R
      in if usesSubcommand rawArgs
         then (case parse_cli (re_parser R) rawArgs of
                 Inl (code, out) \<Rightarrow> (code, out, W)
               | Inr args \<Rightarrow> dispatch loaded session ios newFetcher newWriter newApp args W)
         else (case parse_cli (re_legacy R) rawArgs of
                 Inl (code, out) \<Rightarrow> (code, out, W)
               | Inr legacy \<Rightarrow>
                  (if lg_Serve legacy then runServe loaded session newFetcher newWriter (legacyServe legacy) W
                   else runFetch loaded newFetcher newWriter newApp (legacyFetch legacy) W)))"

section \<open>main\<close>

text \<open>\<open>runWithOptions\<close>: the options of a test, with the defaults of the program; \<open>args\<close> is \<open>os.Args[1:]\<close>.\<close>

record runOptions =
  ro_args :: "string list option"
  ro_loadDotenv :: "(os_env \<Rightarrow> os_env) option"
  ro_newFetcher :: "(string \<Rightarrow> sys fetch_fn) option"
  ro_newWriter :: "sys write_fn option"
  ro_newApp :: "new_app option"

definition runWithOptions ::
  "run_env \<Rightarrow> session \<Rightarrow> (nat \<Rightarrow> nat \<Rightarrow> io) \<Rightarrow> string list \<Rightarrow> runOptions \<Rightarrow> world \<Rightarrow> int \<times> printed \<times> world"
where
  "runWithOptions R session ios args opts =
     Run R session ios (or_else (ro_args opts) args)
       \<lparr>dp_LoadDotenv = Some (or_else (ro_loadDotenv opts) (re_dotenv R)),
        dp_NewFetcher = Some (or_else (ro_newFetcher opts) (default_fetcher R)),
        dp_NewWriter = Some (or_else (ro_newWriter opts) (service_write (re_sys R))),
        dp_NewApp = Some (or_else (ro_newApp opts) (default_app R))\<rparr>"

definition main_run ::
  "run_env \<Rightarrow> session \<Rightarrow> (nat \<Rightarrow> nat \<Rightarrow> io) \<Rightarrow> string list \<Rightarrow> world \<Rightarrow> int \<times> printed \<times> world"
where
  "main_run R session ios args =
     runWithOptions R session ios args
       \<lparr>ro_args = None, ro_loadDotenv = None, ro_newFetcher = None, ro_newWriter = None, ro_newApp = None\<rparr>"


section \<open>Every command moves the databases along the state machine\<close>

definition moves :: "unicode_env \<Rightarrow> db \<Rightarrow> int \<times> printed \<times> db \<Rightarrow> bool" where
  "moves u d x \<longleftrightarrow> (db_step u)\<^sup>*\<^sup>* d (snd (snd x))"

lemma moves_option: "(x = None \<Longrightarrow> moves u d a) \<Longrightarrow> (\<And>y. x = Some y \<Longrightarrow> moves u d (f y)) \<Longrightarrow>
    moves u d (case x of None \<Rightarrow> a | Some y \<Rightarrow> f y)"
  by (cases x) auto

lemma moves_sum: "(\<And>y. x = Inl y \<Longrightarrow> moves u d (f y)) \<Longrightarrow> (\<And>y. x = Inr y \<Longrightarrow> moves u d (g y)) \<Longrightarrow>
    moves u d (case x of Inl y \<Rightarrow> f y | Inr y \<Rightarrow> g y)"
  by (cases x) auto

lemma moves_prod: "(\<And>r d'. x = (r, d') \<Longrightarrow> moves u d (f r d')) \<Longrightarrow> moves u d (case x of (r, d') \<Rightarrow> f r d')"
  by (cases x) auto

lemma moves_if: "(b \<Longrightarrow> moves u d x) \<Longrightarrow> (\<not> b \<Longrightarrow> moves u d y) \<Longrightarrow> moves u d (if b then x else y)"
  by simp

lemma moves_exit: "(db_step u)\<^sup>*\<^sup>* d d' \<Longrightarrow> moves u d (code, out, d')"
  by (simp add: moves_def)

lemma moves_flush: "moves u d (flush E text d)"
  by (simp add: moves_def)

lemmas moves_intros = moves_option moves_sum moves_prod moves_if moves_exit

text \<open>The operations of the commands as moves.\<close>

lemma one_step: "x = (r, d') \<Longrightarrow> db_step u d (snd x) \<Longrightarrow> (db_step u)\<^sup>*\<^sup>* d d'"
  by auto

lemma create_step: "CreateKey kdf (NewService (sql_store io) rnd now) name scopes d = (r, d') \<Longrightarrow> (db_step u)\<^sup>*\<^sup>* d d'"
  unfolding CreateKey_def NewService_def sql_store_def
  by (auto simp: Let_def split: sum.splits prod.splits if_splits intro: one_step db_step.key_create)

lemma revoke_step: "RevokeKey kdf (NewService (sql_store io) rnd now) raw d = (r, d') \<Longrightarrow> (db_step u)\<^sup>*\<^sup>* d d'"
  unfolding RevokeKey_def NewService_def sql_store_def
  by (auto simp: Let_def split: sum.splits prod.splits if_splits intro: one_step db_step.key_revoke)

lemma keyService_steps: "keyService kdf ios clock i raws d = (r, d') \<Longrightarrow> (db_step u)\<^sup>*\<^sup>* d d'"
proof (induction raws arbitrary: i d)
  case (Cons raw raws)
  have ensure: "(db_step u)\<^sup>*\<^sup>* d d1" if "CreateIfNotExists io key d = (x, d1)" for io key x d1
    using that by (rule one_step) (rule db_step.key_ensure)
  from Cons.prems show ?case
    by (auto simp: Let_def split: if_splits sum.splits prod.splits
        dest: Cons.IH ensure intro: rtranclp_trans [OF ensure Cons.IH])
qed simp

lemmas command_steps =
  one_step [OF _ db_step.lib_add] one_step [OF _ db_step.lib_update] one_step [OF _ db_step.lib_remove]
  one_step [OF _ db_step.retry] one_step [OF _ db_step.clear_done] one_step [OF _ db_step.scan_clear] create_step revoke_step

lemma library_body_moves: "moves u d (library_body E args d)"
  unfolding library_body_def Let_def by (intro moves_intros) (rule rtranclp.rtrancl_refl | erule command_steps)+

lemma keys_body_moves: "moves u d (keys_body E args d)"
  unfolding keys_body_def Let_def by (intro moves_intros) (rule rtranclp.rtrancl_refl | erule command_steps)+

lemma scan_clear_body_moves: "moves u d (scan_clear_body E args d)"
  unfolding scan_clear_body_def by (intro moves_intros) (rule rtranclp.rtrancl_refl | erule command_steps)+


text \<open>The databases of a disk, path by path.\<close>

definition disk_moves :: "unicode_env \<Rightarrow> disk \<Rightarrow> disk \<Rightarrow> bool" where
  "disk_moves u D D' \<longleftrightarrow> (\<forall>p. (db_step u)\<^sup>*\<^sup>* (tables_at D p) (tables_at D' p))"

definition disk_ok :: "disk \<Rightarrow> bool" where
  "disk_ok D \<longleftrightarrow> (\<forall>p. queue_ok (tables_at D p))"

lemma disk_moves_refl [simp]: "disk_moves u D D"
  by (simp add: disk_moves_def)

lemma disk_moves_open: "db_Open io path D = (r, D1) \<Longrightarrow> disk_moves u D D1"
  by (simp add: disk_moves_def db_Open_content)

lemma disk_moves_write:
  "db_Open io path D = (Inr d, D1) \<Longrightarrow> (db_step u)\<^sup>*\<^sup>* d d' \<Longrightarrow> disk_moves u D (D1(path \<mapsto> d'))"
  using db_Open_content [of io path D "Inr d" D1] by (simp add: disk_moves_def)

lemma with_db_moves:
  assumes "\<And>d. moves u d (f d)"
  shows "disk_moves u D (snd (snd (with_db E p f D)))"
proof -
  have "(db_step u)\<^sup>*\<^sup>* d d'" if "f d = (code, out, d')" for code out d d'
    using assms [of d] that by (simp add: moves_def)
  then show ?thesis
    by (auto simp: with_db_def split: sum.split prod.split intro: disk_moves_open disk_moves_write)
qed

text \<open>A part of a command that works on the open database.\<close>

definition sys_moves :: "unicode_env \<Rightarrow> sys \<Rightarrow> int \<times> printed \<times> sys \<Rightarrow> bool" where
  "sys_moves u s x \<longleftrightarrow> (db_step u)\<^sup>*\<^sup>* (sy_db s) (sy_db (snd (snd x)))"

lemma opened_moves:
  assumes "\<And>s. queue_ok (sy_db s) \<Longrightarrow> sys_moves u s (f s)" "disk_ok (wo_disk W)"
  shows "disk_moves u (wo_disk W) (wo_disk (snd (snd (opened R path f W))))"
proof -
  obtain r D where o: "db_Open (ce_open (re_cmd R)) path (wo_disk W) = (r, D)" by fastforce
  show ?thesis
  proof (cases r)
    case (Inl e)
    with o show ?thesis by (simp add: opened_def disk_moves_open)
  next
    case (Inr d)
    with db_Open_content [OF o] assms(2) have "queue_ok d" by (simp add: disk_ok_def)
    with assms(1) [of "(wo_sys W)\<lparr>sy_db := d\<rparr>"] o Inr show ?thesis
      by (auto simp: opened_def sys_moves_def split: prod.split intro: disk_moves_write)
  qed
qed

lemma disk_cmd_moves:
  "disk_moves u (wo_disk W) (snd (snd (f (wo_disk W)))) \<Longrightarrow> disk_moves u (wo_disk W) (wo_disk (snd (snd (disk_cmd f W))))"
  by (cases "f (wo_disk W)") (simp add: disk_cmd_def)

lemma runLibrary_moves: "disk_moves u D (snd (snd (runLibrary E args D)))"
  unfolding runLibrary_def by (rule with_db_moves library_body_moves)+

lemma runKeys_moves: "disk_moves u D (snd (snd (runKeys E args D)))"
  unfolding runKeys_def by (rule with_db_moves keys_body_moves)+

lemma runScanClear_moves: "disk_moves u D (snd (snd (runScanClear E args D)))"
  unfolding runScanClear_def by (rule with_db_moves scan_clear_body_moves)+

lemma runScanResults_moves: "disk_moves u D (snd (snd (runScanResults E args D)))"
  by (auto simp: runScanResults_def intro!: with_db_moves moves_sum moves_prod moves_exit moves_flush split: option.split)

lemma runQueueList_moves: "disk_moves u D (snd (snd (runQueueList E args D)))"
  by (auto simp: runQueueList_def Let_def intro!: with_db_moves moves_sum moves_exit moves_flush split: option.split)

lemma runQueueRetry_moves: "disk_moves u D (snd (snd (runQueueRetry E args D)))"
  unfolding runQueueRetry_def by (rule with_db_moves) (intro moves_intros; erule command_steps)

lemma runQueueClear_moves: "disk_moves u D (snd (snd (runQueueClear E args D)))"
  by (auto simp: runQueueClear_def intro!: with_db_moves moves_if moves_sum moves_prod moves_exit dest: command_steps)

lemma runQueueCmd_moves: "disk_moves u D (snd (snd (runQueueCmd E args D)))"
  by (simp add: runQueueCmd_def runQueueList_moves runQueueRetry_moves runQueueClear_moves split: option.split)

lemmas command_moves = runLibrary_moves runKeys_moves runScanClear_moves runScanResults_moves runQueueCmd_moves


section \<open>fetch, scan and serve\<close>

lemma runFetch_disk: "wo_disk (snd (snd (runFetch R newFetcher newWriter newApp args W))) = wo_disk W"
  by (simp add: runFetch_def Let_def split: sum.split prod.split)

lemma runScan_moves:
  assumes "disk_ok (wo_disk W)" "se_u (re_sys R) = u"
  shows "disk_moves u (wo_disk W) (wo_disk (snd (snd (runScan R ios args W))))"
proof (cases "LoadConfig (ce_os (re_cmd R)) (sc_ConfigPath args)")
  case (Inl e)
  then show ?thesis by (simp add: runScan_def)
next
  case (Inr cfg)
  show ?thesis
    unfolding runScan_def Inr sum.case
    by (rule opened_moves [OF _ assms(1)])
      (auto simp: sys_moves_def Let_def db_reach_def assms(2) [symmetric] split: sum.split prod.split
        dest: RunOnceFor_reach [OF of_service_simps(1), unfolded db_reach_def]
          cycle_reach [OF of_service_simps(1), unfolded db_reach_def])
qed

lemma runScanCmd_moves:
  assumes "disk_ok (wo_disk W)" "se_u (re_sys R) = u"
  shows "disk_moves u (wo_disk W) (wo_disk (snd (snd (runScanCmd R ios args W))))"
  using assms by (auto simp: runScanCmd_def intro: disk_cmd_moves command_moves runScan_moves split: option.split)

text \<open>
  What is asked of the concurrent part of \<open>serve\<close>, for what \<open>runServe\<close> can build: from a sound database,
  the goroutines and the handlers change it only by operations of the machine.
\<close>

definition planned :: "run_env \<Rightarrow> (string \<Rightarrow> sys fetch_fn) \<Rightarrow> sys write_fn \<Rightarrow> serve_plan \<Rightarrow> bool" where
  "planned R newFetcher newWriter plan \<longleftrightarrow>
     (\<exists>cfg args outdir token p v. selectedProvider (se_u (re_sys R)) cfg token newFetcher = Inr p \<and> newVerifier R cfg = Inr v \<and>
        plan = make_plan R newWriter cfg args outdir p v)"

definition session_ok :: "run_env \<Rightarrow> (string \<Rightarrow> sys fetch_fn) \<Rightarrow> sys write_fn \<Rightarrow> session \<Rightarrow> bool" where
  "session_ok R newFetcher newWriter session \<longleftrightarrow>
     (\<forall>plan s. planned R newFetcher newWriter plan \<and> queue_ok (sy_db s) \<longrightarrow>
        (db_step (se_u (re_sys R)))\<^sup>*\<^sup>* (sy_db s) (sy_db (snd (session plan s))))"

lemma session_steps:
  assumes "session_ok R newFetcher newWriter session" "selectedProvider (se_u (re_sys R)) cfg token newFetcher = Inr p"
    "newVerifier R cfg = Inr v" "queue_ok (sy_db s)" "keyService kdf io clock i raws (sy_db s) = (r, d)"
    "session (make_plan R newWriter cfg args outdir p v) (s\<lparr>sy_db := d\<rparr>) = (e, s')"
  shows "(db_step (se_u (re_sys R)))\<^sup>*\<^sup>* (sy_db s) (sy_db s')"
proof -
  let ?u = "se_u (re_sys R)"
  have k: "(db_step ?u)\<^sup>*\<^sup>* (sy_db s) d" by (rule keyService_steps [OF assms(5)])
  have "planned R newFetcher newWriter (make_plan R newWriter cfg args outdir p v)"
    using assms(2,3) unfolding planned_def by blast
  moreover have "queue_ok (sy_db (s\<lparr>sy_db := d\<rparr>))" using db_steps_ok [OF k assms(4)] by simp
  ultimately have "(db_step ?u)\<^sup>*\<^sup>* (sy_db (s\<lparr>sy_db := d\<rparr>)) (sy_db (snd (session (make_plan R newWriter cfg args outdir p v) (s\<lparr>sy_db := d\<rparr>))))"
    using assms(1) unfolding session_ok_def by blast
  with k assms(6) show ?thesis by (auto intro: rtranclp_trans)
qed

lemma runServe_moves:
  assumes "disk_ok (wo_disk W)" "session_ok R newFetcher newWriter session"
  shows "disk_moves (se_u (re_sys R)) (wo_disk W) (wo_disk (snd (snd (runServe R session newFetcher newWriter args W))))"
  unfolding runServe_def Let_def
  by (auto simp: sys_moves_def split: sum.split prod.split option.split
      intro!: opened_moves [OF _ assms(1)] dest: keyService_steps session_steps [OF assms(2)])

section \<open>Exit codes\<close>

text \<open>A command exits with 0, 1 or 2, and with 2, for a wrong command line, only when it has changed no row.\<close>

definition coded :: "db \<Rightarrow> int \<times> printed \<times> db \<Rightarrow> bool" where
  "coded d x \<longleftrightarrow> fst x \<in> {0, 1, 2} \<and> (fst x = 2 \<longrightarrow> snd (snd x) = d)"

lemma coded_option: "(x = None \<Longrightarrow> coded d a) \<Longrightarrow> (\<And>y. coded d (f y)) \<Longrightarrow> coded d (case x of None \<Rightarrow> a | Some y \<Rightarrow> f y)"
  by (cases x) auto

lemma coded_sum: "(\<And>y. coded d (f y)) \<Longrightarrow> (\<And>y. coded d (g y)) \<Longrightarrow> coded d (case x of Inl y \<Rightarrow> f y | Inr y \<Rightarrow> g y)"
  by (cases x) auto

lemma coded_prod: "(\<And>r d'. coded d (f r d')) \<Longrightarrow> coded d (case x of (r, d') \<Rightarrow> f r d')"
  by (cases x) auto

lemma coded_if: "coded d x \<Longrightarrow> coded d y \<Longrightarrow> coded d (if b then x else y)"
  by simp

lemma coded_exit: "coded d (0, out, d')" "coded d (1, out, d')" "coded d (2, out, d)" "coded d (flush E text d)"
  by (simp_all add: coded_def flush_def split: option.split)

lemmas coded_intros = coded_exit coded_option coded_sum coded_prod coded_if

text \<open>At most one database was created, and that one is empty.\<close>

definition only_opened :: "disk \<Rightarrow> disk \<Rightarrow> bool" where
  "only_opened D D' \<longleftrightarrow> D' = D \<or> (\<exists>path. D path = None \<and> D' = D(path \<mapsto> empty_db))"

lemma only_opened_refl [simp]: "only_opened D D"
  by (simp add: only_opened_def)

lemma only_opened_Open: "only_opened D (D(path \<mapsto> tables_at D path))"
  by (cases "D path") (auto simp: only_opened_def tables_at_def fun_upd_idem)

definition disk_coded :: "disk \<Rightarrow> int \<times> printed \<times> disk \<Rightarrow> bool" where
  "disk_coded D x \<longleftrightarrow> fst x \<in> {0, 1, 2} \<and> (fst x = 2 \<longrightarrow> only_opened D (snd (snd x)))"

lemma with_db_coded:
  assumes "\<And>d. coded d (f d)"
  shows "disk_coded D (with_db E p f D)"
proof (cases "LoadConfig (ce_os E) p")
  case (Inl e)
  then show ?thesis by (simp add: with_db_def disk_coded_def)
next
  case (Inr cfg)
  obtain r D1 where o: "db_Open (ce_open E) (dc_Path (cf_DB cfg)) D = (r, D1)" by fastforce
  show ?thesis
  proof (cases r)
    case (Inl e)
    with Inr o show ?thesis by (simp add: with_db_def disk_coded_def)
  next
    case r: (Inr d)
    obtain code out d' where f: "f d = (code, out, d')" by (metis prod_cases3)
    have "only_opened D (D1(dc_Path (cf_DB cfg) \<mapsto> d))"
      using db_Open_content [OF o] r only_opened_Open [of D "dc_Path (cf_DB cfg)"] by auto
    with Inr o r f assms [of d] show ?thesis by (auto simp: with_db_def disk_coded_def coded_def)
  qed
qed

lemma library_body_coded: "coded d (library_body E args d)"
  unfolding library_body_def Let_def by (intro coded_intros)

lemma keys_body_coded: "coded d (keys_body E args d)"
  unfolding keys_body_def Let_def by (intro coded_intros)

lemma scan_clear_body_coded: "coded d (scan_clear_body E args d)"
  unfolding scan_clear_body_def by (intro coded_intros)

lemma disk_coded_exit: "disk_coded D (2, out, D)"
  by (simp add: disk_coded_def)

lemma command_codes:
  "disk_coded D (runLibrary E a D)" "disk_coded D (runKeys E b D)" "disk_coded D (runScanClear E c D)"
  "disk_coded D (runScanResults E d D)" "disk_coded D (runQueueList E e D)" "disk_coded D (runQueueRetry E f D)"
  "disk_coded D (runQueueClear E g D)"
  unfolding runLibrary_def runKeys_def runScanClear_def runScanResults_def runQueueList_def runQueueRetry_def
    runQueueClear_def Let_def
  by (auto intro!: with_db_coded library_body_coded keys_body_coded scan_clear_body_coded coded_intros disk_coded_exit
      split: option.split)

lemma runQueueCmd_coded: "disk_coded D (runQueueCmd E args D)"
  by (simp add: runQueueCmd_def command_codes disk_coded_exit split: option.split)


definition untouched :: "world \<Rightarrow> world \<Rightarrow> bool" where
  "untouched W W' \<longleftrightarrow> only_opened (wo_disk W) (wo_disk W') \<and> wo_sys W' = wo_sys W \<and> wo_conf W' = wo_conf W"

definition world_coded :: "world \<Rightarrow> int \<times> printed \<times> world \<Rightarrow> bool" where
  "world_coded W x \<longleftrightarrow> fst x \<in> {0, 1, 2} \<and> (fst x = 2 \<longrightarrow> untouched W (snd (snd x)))"

lemma disk_cmd_coded: "disk_coded (wo_disk W) (f (wo_disk W)) \<Longrightarrow> world_coded W (disk_cmd f W)"
  by (cases "f (wo_disk W)") (auto simp: disk_cmd_def disk_coded_def world_coded_def untouched_def)

lemma opened_coded: "(\<And>s. fst (f s) \<in> {0, 1}) \<Longrightarrow> world_coded W (opened R path f W)"
proof -
  assume f: "\<And>s. fst (f s) \<in> {0, 1}"
  have c: "code \<in> {0, 1}" if "f s = (code, out, s')" for s code out s' using f [of s] that by simp
  then show ?thesis
    by (auto simp: opened_def world_coded_def split: sum.split prod.split dest!: c)
qed

lemma world_coded_exit: "code \<in> {0, 1} \<Longrightarrow> world_coded W (code, out, W')" "world_coded W (2, out, W)"
  by (auto simp: world_coded_def untouched_def)

lemma runFetch_coded: "world_coded W (runFetch R newFetcher newWriter newApp args W)"
  by (auto simp: runFetch_def Let_def intro: world_coded_exit split: sum.split prod.split)

lemma runServe_coded: "world_coded W (runServe R session newFetcher newWriter args W)"
  unfolding runServe_def Let_def
  by (simp add: world_coded_exit opened_coded split: sum.split prod.split option.split)

lemma runScan_coded: "world_coded W (runScan R ios args W)"
  unfolding runScan_def Let_def
  by (simp add: world_coded_exit opened_coded split: sum.split prod.split)

lemma runScanCmd_coded: "world_coded W (runScanCmd R ios args W)"
  by (auto simp: runScanCmd_def intro: disk_cmd_coded command_codes runScan_coded split: option.split)

lemma config_cmd_coded: "world_coded W (config_cmd R args W)"
proof -
  obtain code out written where c: "runConfig (ce_os (re_cmd R)) (ce_format (re_cmd R)) (re_confIo R) args = (code, out, written)"
    by (metis prod_cases3)
  then have "code \<in> {0, 1, 2} \<and> (code = 2 \<longrightarrow> written = None)"
    by (auto simp: runConfig_def Let_def split: sum.splits ConfigCmd.splits option.splits if_splits)
  with c show ?thesis by (auto simp: config_cmd_def world_coded_def untouched_def)
qed

lemma config_cmd_disk [simp]: "wo_disk (snd (snd (config_cmd R args W))) = wo_disk W"
  by (simp add: config_cmd_def split: prod.split option.split)

lemma dispatch_coded: "world_coded W (dispatch R session ios newFetcher newWriter newApp args W)"
  by (auto simp: dispatch_def comp_def intro: runFetch_coded runServe_coded runScanCmd_coded config_cmd_coded
      disk_cmd_coded command_codes runQueueCmd_coded world_coded_exit split: option.split)

lemma dispatch_moves:
  assumes "disk_ok (wo_disk W)" "session_ok R newFetcher newWriter session"
  shows "disk_moves (se_u (re_sys R)) (wo_disk W) (wo_disk (snd (snd (dispatch R session ios newFetcher newWriter newApp args W))))"
  using assms
  by (auto simp: dispatch_def comp_def runFetch_disk intro: runServe_moves runScanCmd_moves
      disk_cmd_moves command_moves split: option.split)

lemma disk_moves_ok: "disk_moves u D D' \<Longrightarrow> disk_ok D \<Longrightarrow> disk_ok D'"
  unfolding disk_moves_def disk_ok_def using db_steps_ok by blast

lemma parse_cli_code: "parse_cli P rawArgs = Inl (code, out) \<Longrightarrow> code \<in> {0, 2}"
  by (auto simp: parse_cli_def split: option.splits sum.splits parse_error.splits prod.splits)

lemma Run_coded: "world_coded W (Run R session ios rawArgs deps W)"
  by (auto simp: Run_def Let_def world_coded_def [of W "(_, _, W)"] untouched_def
      intro: dispatch_coded runServe_coded runFetch_coded dest: parse_cli_code split: sum.split)

lemma with_os_simps [simp]:
  "re_sys (with_os os R) = re_sys R" "re_scan (with_os os R) = re_scan R" "re_ctxErr (with_os os R) = re_ctxErr R"
  by (simp_all add: with_os_def)

lemma Run_moves:
  assumes "disk_ok (wo_disk W)"
    and "\<And>os. session_ok (with_os os R) (or_else (dp_NewFetcher deps) (default_fetcher R))
          (or_else (dp_NewWriter deps) (service_write (re_sys R))) session"
  shows "disk_moves (se_u (re_sys R)) (wo_disk W) (wo_disk (snd (snd (Run R session ios rawArgs deps W))))"
  using dispatch_moves [OF assms] runServe_moves [OF assms]
  by (auto simp: Run_def Let_def runFetch_disk split: sum.split)


section \<open>Interleavings\<close>

text \<open>
  An order in which the parts of \<open>serve\<close> act: a turn of the worker's loop (with \<open>RunPaced\<close> called again
  after it has returned), a cycle of the scheduler, a request.
\<close>

datatype turn = WorkerTurn | ScanCycle | Arrives Request

fun play :: "run_env \<Rightarrow> (int \<Rightarrow> sys \<Rightarrow> unit res \<times> sys) \<Rightarrow> serve_plan \<Rightarrow> turn list \<Rightarrow> sys Worker \<Rightarrow> sys \<Rightarrow> sys" where
  "play R wait plan [] w s = s"
| "play R wait plan (WorkerTurn # ts) w s =
     (case run_turn (se_rnd (re_sys R)) (se_u (re_sys R)) (se_codec (re_sys R)) (re_ctxErr R)
             (Some (wait (normalizeWorkerInterval (pl_interval plan)))) w s of
        Inl (r, w', s') \<Rightarrow> play R wait plan ts w' s'
      | Inr (w', s') \<Rightarrow> play R wait plan ts w' s')"
| "play R wait plan (ScanCycle # ts) w s = play R wait plan ts w (snd (ScanRunOnce (pl_scheduler plan) (re_ctxErr R) s))"
| "play R wait plan (Arrives q # ts) w s =
     (case ServeHTTP (pl_handler plan) q (sy_db s) of
        (resp, entry, d) \<Rightarrow> play R wait plan ts w ((tick (re_sys R) s)\<lparr>sy_db := d\<rparr>))"

definition interleaved :: "run_env \<Rightarrow> (int \<Rightarrow> sys \<Rightarrow> unit res \<times> sys) \<Rightarrow> turn list \<Rightarrow> goerr option \<Rightarrow> session" where
  "interleaved R wait ts err plan s = (err, play R wait plan ts (pl_worker plan) s)"

lemma play_reach:
  assumes "\<And>d. calm (wait d)" "of_service S P (pl_scheduler plan)"
    and "\<exists>kdf rnd now ios clocks ping io outdir. pl_handler plan = db_handler kdf rnd now (se_u E) ios clocks ping io outdir"
    and "re_sys R = S" "se_u S = se_u E"
  shows "sound s \<Longrightarrow> calls.same_deps E minConf w \<Longrightarrow> backs_off w \<Longrightarrow> db_reach E s (play R wait plan ts w s)"
proof (induction ts arbitrary: w s)
  case (Cons t ts)
  show ?case
  proof (cases t)
    case WorkerTurn
    let ?turn = "run_turn (se_rnd S) (se_u S) (se_codec S) (re_ctxErr R) (Some (wait (normalizeWorkerInterval (pl_interval plan)))) w s"
    have "case ?turn of Inl (r, w', s') \<Rightarrow> sound s' \<and> db_reach E s s' \<and> calls.same_deps E minConf w' \<and> backs_off w'
      | Inr (w', s') \<Rightarrow> sound s' \<and> db_reach E s s' \<and> calls.same_deps E minConf w' \<and> backs_off w'"
      using run_turn_effect [OF Cons.prems, where pause = "Some (wait (normalizeWorkerInterval (pl_interval plan)))"
          and rnd = "se_rnd S" and u = "se_u S" and j = "se_codec S" and ctxErr = "re_ctxErr R"] assms(1)
      by (auto split: sum.splits prod.splits)
    then show ?thesis
      using WorkerTurn assms(4) by (auto split: sum.splits intro: db_reach_trans Cons.IH)
  next
    case ScanCycle
    have c: "db_reach E s (snd (ScanRunOnce (pl_scheduler plan) (re_ctxErr R) s))"
      using cycle_reach [OF assms(2) prod.collapse [symmetric]] assms(5) by (simp add: db_reach_def)
    with ScanCycle Cons show ?thesis by (auto intro: db_reach_trans db_reach_sound)
  next
    case (Arrives q)
    obtain resp entry d where h: "ServeHTTP (pl_handler plan) q (sy_db s) = (resp, entry, d)" by (metis prod_cases3)
    with assms(3) have "(db_step (se_u E))\<^sup>*\<^sup>* (sy_db s) d" using ServeHTTP_steps by metis
    then have c: "db_reach E s ((tick (re_sys R) s)\<lparr>sy_db := d\<rparr>)" by (simp add: db_reach_def tick_def)
    from Cons.IH [OF db_reach_sound [OF c Cons.prems(1)] Cons.prems(2,3)] c Arrives h show ?thesis
      by (auto intro: db_reach_trans)
  qed
qed simp


text \<open>What \<open>runServe\<close> builds for the program's own dependencies is the service of theory \<open>Service\<close>.\<close>

lemma Select_single: "Select u primary disabled [Some (NewProvider u name f)] = Inr p \<Longrightarrow> ProviderFindLyrics p = f"
  by (auto simp: Select_def Let_def NewProvider_def ProviderFindLyrics_def split: if_splits)

definition serve_env :: "run_env \<Rightarrow> string \<Rightarrow> Config \<Rightarrow> HTTPVerifier option \<Rightarrow> sys_env" where
  "serve_env R token cfg v =
     (re_sys R)\<lparr>se_fetch := re_find R (NewClient token), se_open := seconds (ac_CircuitOpenDuration (cf_API cfg)),
       se_verify := map_option (verify_call R) v\<rparr>"

lemma serve_env_same [simp]:
  "se_u (serve_env R token cfg v) = se_u (re_sys R)"
  "tick (serve_env R token cfg v) = tick (re_sys R)"
  "on_db (serve_env R token cfg v) = on_db (re_sys R)"
  "service_queue (serve_env R token cfg v) = service_queue (re_sys R)"
  "service_cache (serve_env R token cfg v) = service_cache (re_sys R)"
  "service_write (serve_env R token cfg v) = service_write (re_sys R)"
proof -
  let ?E = "serve_env R token cfg v"
  show u: "se_u ?E = se_u (re_sys R)" by (simp add: serve_env_def)
  show t: "tick ?E = tick (re_sys R)" by (rule ext) (simp add: serve_env_def tick_def)
  show d: "on_db ?E = on_db (re_sys R)" by (intro ext) (simp add: on_db_def t, simp add: serve_env_def)
  show "service_queue ?E = service_queue (re_sys R)" by (simp add: service_queue_def d) (simp add: serve_env_def)
  show "service_cache ?E = service_cache (re_sys R)" by (simp add: service_cache_def d u)
  show "service_write ?E = service_write (re_sys R)" by (intro ext) (simp add: service_write_def t u, simp add: serve_env_def)
qed

lemma serve_worker_deps:
  assumes "selectedProvider u cfg token (default_fetcher R) = Inr p"
  shows "calls.same_deps (serve_env R token cfg v) minConf (serve_worker R (service_write (re_sys R)) cfg p v) \<and>
    backs_off (serve_worker R (service_write (re_sys R)) cfg p v)"
proof -
  have f: "ProviderFindLyrics p = service_fetch (serve_env R token cfg v)"
    using Select_single [OF assms [unfolded selectedProvider_def]]
    by (intro ext) (simp add: default_fetcher_def service_fetch_def tick_def serve_env_def)
  have ver: "se_verify (serve_env R token cfg v) = map_option (verify_call R) v" by (simp add: serve_env_def)
  have "verify_fun R h = (\<lambda>path sg s. (verify_call R h (sy_calls s) path sg, tick (re_sys R) s))" for h
    by (intro ext) (simp add: verify_fun_def)
  then have "service_verify (serve_env R token cfg v) = map_option (verify_fun R) v"
    using ver by (cases v) (simp_all add: service_verify_def)
  then show ?thesis
    by (cases v) (simp_all add: calls.same_deps_def backs_off_def serve_worker_def f Let_def configureWorkerVerification_def
      NewWorker_def SetCircuitOpenDuration_def EnableVerification_def)
qed

lemma serve_worker_os: "serve_worker (with_os os R) nw cfg p v = serve_worker R nw cfg p v"
proof -
  have "verify_fun (with_os os R) h = verify_fun R h" for h
    by (intro ext) (simp add: verify_fun_def verify_call_def with_os_def)
  then show ?thesis by (simp add: serve_worker_def configureWorkerVerification_def cong: option.case_cong)
qed

text \<open>The parts of the plan that \<open>runServe\<close> makes belong to the service of theory \<open>Service_Steps\<close>.\<close>

lemma planned_parts:
  assumes "planned (with_os os R) (default_fetcher R) (service_write (re_sys R)) plan"
  obtains E minConf where "se_u E = se_u (re_sys R)" "of_service (re_sys R) (re_scan R) (pl_scheduler plan)"
    "\<exists>kdf rnd now ios clocks ping io outdir. pl_handler plan = db_handler kdf rnd now (se_u E) ios clocks ping io outdir"
    "calls.same_deps E minConf (pl_worker plan)" "backs_off (pl_worker plan)"
proof -
  from assms obtain cfg args outdir token prov v where
    sel: "selectedProvider (se_u (re_sys R)) cfg token (default_fetcher R) = Inr prov"
    and plan: "plan = make_plan (with_os os R) (service_write (re_sys R)) cfg args outdir prov v"
    by (auto simp: planned_def)
  let ?E = "serve_env R token cfg v"
  have sch: "of_service (re_sys R) (re_scan R) (pl_scheduler plan)"
    by (simp add: plan make_plan_def serve_scheduler_def)
  have hd: "\<exists>kdf rnd now ios clocks ping io outdir. pl_handler plan = db_handler kdf rnd now (se_u ?E) ios clocks ping io outdir"
    unfolding plan make_plan_def serve_handler_def serve_plan.simps serve_env_same with_os_simps
    by (rule exI)+ (rule refl)
  have w: "pl_worker plan = serve_worker R (service_write (re_sys R)) cfg prov v"
    by (simp add: plan make_plan_def serve_worker_os)
  show thesis
    by (rule that [of ?E]) (use sch hd serve_worker_deps [OF sel] in \<open>simp_all add: w\<close>)
qed

lemma interleaved_ok:
  assumes "\<And>d. calm (wait d)"
  shows "session_ok (with_os os R) (default_fetcher R) (service_write (re_sys R)) (interleaved R wait ts err)"
  unfolding session_ok_def
proof (intro allI impI, elim conjE)
  fix plan and s :: sys assume p: "planned (with_os os R) (default_fetcher R) (service_write (re_sys R)) plan" and q: "queue_ok (sy_db s)"
  from p obtain E minConf where E: "se_u E = se_u (re_sys R)" and parts: "of_service (re_sys R) (re_scan R) (pl_scheduler plan)"
    "\<exists>kdf rnd now ios clocks ping io outdir. pl_handler plan = db_handler kdf rnd now (se_u E) ios clocks ping io outdir"
    "calls.same_deps E minConf (pl_worker plan)" "backs_off (pl_worker plan)"
    by (rule planned_parts)
  have "db_reach E s (play R wait plan ts (pl_worker plan) s)"
    by (rule play_reach [OF assms parts(1,2) refl E [symmetric] _ parts(3,4)]) (use q in \<open>simp add: sound_def\<close>)
  then show "(db_step (se_u (re_sys (with_os os R))))\<^sup>*\<^sup>* (sy_db s) (sy_db (snd (interleaved R wait ts err plan s)))"
    by (simp add: interleaved_def db_reach_def E)
qed


section \<open>The end of the goroutines\<close>

text \<open>
  The timer of the pause between two songs: it leaves the database alone, does not turn the clock back, and
  when it fires, the time asked for has passed.
\<close>

definition timed :: "(int \<Rightarrow> sys \<Rightarrow> unit res \<times> sys) \<Rightarrow> bool" where
  "timed wait \<longleftrightarrow> (\<forall>d. calm (wait d)) \<and> (\<forall>d s s'. wait d s = (Inr (), s') \<longrightarrow> sy_now s + d \<le> sy_now s')"

text \<open>A wait for a tick takes some time, be the tick due already, and leaves the database alone.\<close>

definition ticking :: "(int \<Rightarrow> sys \<Rightarrow> sys) \<Rightarrow> bool" where
  "ticking t \<longleftrightarrow> (\<forall>d s. sy_db (t d s) = sy_db s \<and> sy_now s < sy_now (t d s))"

lemma ticking_reach: "ticking t \<Longrightarrow> db_reach E s (t d s)" "ticking t \<Longrightarrow> sy_now s < sy_now (t d s)"
  by (simp_all add: ticking_def db_reach_def less_imp_le)

lemma scan_forever_returns:
  assumes "of_service E P sd" "ticking t" "\<And>s. T \<le> sy_now s \<Longrightarrow> ctxErr s \<noteq> None"
  shows "\<exists>r s'. scan_forever sd ctxErr t s = Some (r, s') \<and> db_reach E s s'"
proof (induction "nat (T - sy_now s)" arbitrary: s rule: less_induct)
  case less
  let ?s1 = "t (sd_Interval sd) s"
  note t = ticking_reach(1) [OF assms(2), of E s "sd_Interval sd"] ticking_reach(2) [OF assms(2), of s "sd_Interval sd"]
  obtain r s2 where c: "ScanRunOnce sd ctxErr ?s1 = (r, s2)" by fastforce
  have reach: "db_reach E s s2" using db_reach_trans [OF t(1) cycle_reach [OF assms(1) c]] .
  show ?case
  proof (cases "ctxErr ?s1 = None \<and> is_ok r")
    case False
    then show ?thesis using t(1) reach c by (subst scan_forever.simps) (cases r; auto simp: Let_def split: option.split)
  next
    case True
    then obtain x where r: "r = Inr x" by (cases r) (auto simp: is_ok_def)
    have "sy_now ?s1 < T" using True assms(3) [of ?s1] by force
    moreover have "sy_now ?s1 \<le> sy_now s2" using cycle_reach [OF assms(1) c] by (simp add: db_reach_def)
    ultimately have "nat (T - sy_now s2) < nat (T - sy_now s)" using t(2) by simp
    from less.hyps [OF this] obtain r' s' where "scan_forever sd ctxErr t s2 = Some (r', s')" "db_reach E s2 s'" by blast
    with True c r reach show ?thesis by (subst scan_forever.simps) (auto simp: Let_def intro: db_reach_trans)
  qed
qed

lemma ScanRun_returns:
  assumes "of_service E P sd" "ticking t" "\<And>s. T \<le> sy_now s \<Longrightarrow> ctxErr s \<noteq> None"
  shows "\<exists>r s'. ScanRun sy_now sd ctxErr t s = Some (r, s') \<and> db_reach E s s'"
proof -
  define ctx where "ctx = (if sd_MaxRuntime sd > 0 then with_timeout sy_now (sy_now s + sd_MaxRuntime sd) ctxErr else ctxErr)"
  have ctx: "ctx s \<noteq> None" if "T \<le> sy_now s" for s
    using assms(3) [OF that] by (auto simp: ctx_def with_timeout_def split: option.splits)
  obtain r s1 where c: "ScanRunOnce sd ctx s = (r, s1)" by fastforce
  obtain r' s2 where "scan_forever sd ctx t s1 = Some (r', s2)" "db_reach E s1 s2"
    using scan_forever_returns [where ctxErr = ctx and T = T and s = s1, OF assms(1,2) ctx] by blast
  then show ?thesis
    using cycle_reach [OF assms(1) c] c
    by (auto simp: ScanRun_def Let_def ctx_def [symmetric] intro: db_reach_trans split: option.split sum.split)
qed

lemma runWorkerLoop_returns:
  assumes "ticking t" "\<And>s. T \<le> sy_now s \<Longrightarrow> re_ctxErr R s \<noteq> None" "timed wait"
    and "sound s" "calls.same_deps E minConf w" "backs_off w"
  shows "\<exists>s'. runWorkerLoop R wait t w interval s = Some s' \<and> db_reach E s s'"
  using assms(4-6)
proof (induction "nat (T - sy_now s)" arbitrary: w s interval rule: less_induct)
  case less
  let ?i = "normalizeWorkerInterval interval"
  let ?pause = "\<lambda>s. if ?i \<le> 0 then (Inr (), s) else wait ?i s"
  have i: "0 < ?i" by (simp add: normalizeWorkerInterval_def Second_def)
  have pause: "calm p" if "Some ?pause = Some p" for p
  proof -
    have "calm ?pause" using assms(3) i by (simp add: timed_def)
    with that show ?thesis by simp
  qed
  have takes: "takes_time (Some ?pause)"
    using i assms(3) unfolding takes_time_def timed_def by (fastforce dest: spec [where x = ?i])
  from run_loop_returns [where ctxErr = "re_ctxErr R" and T = T and pause = "Some ?pause",
      OF disjI2 [OF takes] assms(2) pause less.prems] obtain r w1 s1 where
    paced: "RunPaced (se_rnd (re_sys R)) (se_u (re_sys R)) (se_codec (re_sys R)) (re_ctxErr R) wait ?i w s = Some (r, w1, s1)"
    and s1: "sound s1" "db_reach E s s1" "calls.same_deps E minConf w1" "backs_off w1"
    unfolding RunPaced_def by metis
  let ?s2 = "t ?i s1"
  note t = ticking_reach(1) [OF assms(1), of E s1 ?i] ticking_reach(2) [OF assms(1), of s1 ?i]
  have reach: "db_reach E s ?s2" by (rule db_reach_trans [OF s1(2) t(1)])
  have s2: "sound ?s2" by (rule db_reach_sound [OF t(1) s1(1)])
  show ?case
  proof (cases "re_ctxErr R ?s2")
    case (Some e)
    with paced reach show ?thesis by (subst runWorkerLoop.simps) (simp add: Let_def)
  next
    case None
    then have "sy_now ?s2 < T" using assms(2) [of ?s2] by force
    moreover have "sy_now s \<le> sy_now s1" using s1(2) by (simp add: db_reach_def)
    ultimately have "nat (T - sy_now ?s2) < nat (T - sy_now s)" using t(2) by simp
    from less.hyps [OF this s2 s1(3,4)] obtain s' where "runWorkerLoop R wait t w1 ?i ?s2 = Some s'" "db_reach E ?s2 s'" by blast
    with None paced reach show ?thesis by (subst runWorkerLoop.simps) (auto simp: Let_def intro: db_reach_trans)
  qed
qed

text \<open>
  C13. The goroutines of serve end: for the worker and the scheduler that \<open>runServe\<close> builds from any
  configuration and provider, if the timers keep their time and the context has ended from some moment on,
  then both loops return, whatever the queue holds, the network answers, the disk shows and the calls fail
  with; they have moved the database only along the state machine, and left its queue sound. Nothing is
  assumed of how long a call takes, and a call may fail at once and for ever: the worker returns
  because it sleeps its backoff after every failure and the interval after every song, and so cannot
  fill the time up to the end of its context with retries.
\<close>
theorem goroutines_end:
  assumes "queue_ok (sy_db s)" and "selectedProvider (se_u (re_sys R)) cfg token (default_fetcher R) = Inr p"
    and "\<forall>s. T \<le> sy_now s \<longrightarrow> re_ctxErr R s \<noteq> None" and "timed wait" and "ticking t"
    and "plan = make_plan R (service_write (re_sys R)) cfg args outdir p v"
  shows "(\<exists>s'. runWorkerLoop R wait t (pl_worker plan) (pl_interval plan) s = Some s' \<and>
      queue_ok (sy_db s') \<and> (db_step (se_u (re_sys R)))\<^sup>*\<^sup>* (sy_db s) (sy_db s')) \<and>
    (\<exists>s'. runScheduler R t cfg args s = Some s' \<and>
      queue_ok (sy_db s') \<and> (db_step (se_u (re_sys R)))\<^sup>*\<^sup>* (sy_db s) (sy_db s'))"
proof
  have s: "sound s" using assms(1) by (simp add: sound_def)
  have ctx: "re_ctxErr R s \<noteq> None" if "T \<le> sy_now s" for s using assms(3) that by blast
  let ?E = "serve_env R token cfg v"
  have plan: "pl_worker plan = serve_worker R (service_write (re_sys R)) cfg p v" by (simp add: assms(6) make_plan_def)
  obtain s' where "runWorkerLoop R wait t (pl_worker plan) (pl_interval plan) s = Some s'" "db_reach ?E s s'"
    unfolding plan
    using runWorkerLoop_returns [where R = R and T = T and wait = wait, OF assms(5) ctx assms(4) s
        conjunct1 [OF serve_worker_deps [OF assms(2)]] conjunct2 [OF serve_worker_deps [OF assms(2)]]] by blast
  with db_reach_sound [OF _ s] show "\<exists>s'. runWorkerLoop R wait t (pl_worker plan) (pl_interval plan) s = Some s' \<and>
      queue_ok (sy_db s') \<and> (db_step (se_u (re_sys R)))\<^sup>*\<^sup>* (sy_db s) (sy_db s')"
    by (auto simp: db_reach_def sound_def)
  have of: "of_service (re_sys R) (re_scan R) (serve_scheduler R cfg args)" by (simp add: serve_scheduler_def)
  obtain r s' where "ScanRun sy_now (serve_scheduler R cfg args) (re_ctxErr R) t s = Some (r, s')" "db_reach (re_sys R) s s'"
    using ScanRun_returns [where ctxErr = "re_ctxErr R" and T = T, OF of assms(5) ctx] by blast
  with db_reach_sound [OF _ s] show "\<exists>s'. runScheduler R t cfg args s = Some s' \<and>
      queue_ok (sy_db s') \<and> (db_step (se_u (re_sys R)))\<^sup>*\<^sup>* (sy_db s) (sy_db s')"
    by (auto simp: runScheduler_def db_reach_def sound_def)
qed

section \<open>What every run of the program does\<close>

lemma main_moves:
  assumes "disk_ok (wo_disk W)"
    and "\<And>os. session_ok (with_os os R) (default_fetcher R) (service_write (re_sys R)) session"
    and "main_run R session ios args W = (code, out, W')"
  shows "disk_moves (se_u (re_sys R)) (wo_disk W) (wo_disk W') \<and> disk_ok (wo_disk W')"
proof -
  let ?deps = "\<lparr>dp_LoadDotenv = Some (re_dotenv R), dp_NewFetcher = Some (default_fetcher R),
    dp_NewWriter = Some (service_write (re_sys R)), dp_NewApp = Some (default_app R)\<rparr>"
  have "disk_moves (se_u (re_sys R)) (wo_disk W) (wo_disk (snd (snd (Run R session ios args ?deps W))))"
    by (rule Run_moves [OF assms(1)]) (simp add: or_else_def assms(2))
  with assms(3) have "disk_moves (se_u (re_sys R)) (wo_disk W) (wo_disk W')"
    by (simp add: main_run_def runWithOptions_def or_else_def)
  with assms(1) show ?thesis by (blast intro: disk_moves_ok)
qed

text \<open>
  The whole program refines the state machine: from sound databases, any command line, with the
  goroutines of serve interleaved in any order, any answers of the network and any errors of the driver,
  moves the rows of every database only along the operations of the machine, and leaves every database
  sound.
\<close>
theorem program_refines_state_machine:
  assumes "disk_ok (wo_disk W)" and "\<forall>d. calm (wait d)"
    and "main_run R (interleaved R wait ts err) ios args W = (code, out, W')"
  shows "disk_moves (se_u (re_sys R)) (wo_disk W) (wo_disk W') \<and> disk_ok (wo_disk W')"
proof (rule main_moves [OF assms(1) _ assms(3)])
  show "session_ok (with_os os R) (default_fetcher R) (service_write (re_sys R)) (interleaved R wait ts err)" for os
    by (rule interleaved_ok) (use assms(2) in blast)
qed

text \<open>
  C30. The program exits with 0, 1 or 2. Exit code 2, for a wrong command line, means that no database that
  was there has changed, no configuration and no other file was written, and at most one thing has been
  done: a database that was not there has been created, without a row. (The commands \<open>library\<close> and \<open>keys\<close>
  call \<open>db.Open\<close> before they see that no subcommand was given. They may also have upgraded the schema of
  a database of an older version, as theory \<open>Migrations\<close> describes; here every database has the last version.)
\<close>
theorem usage_errors_change_nothing:
  assumes "main_run R session ios args W = (code, out, W')"
  shows "code \<in> {0, 1, 2} \<and>
    (code = 2 \<longrightarrow>
      (wo_disk W' = wo_disk W \<or> (\<exists>path. wo_disk W path = None \<and> wo_disk W' = (wo_disk W)(path \<mapsto> empty_db))) \<and>
      wo_sys W' = wo_sys W \<and> wo_conf W' = wo_conf W)"
  using Run_coded [of W R session ios] assms
  unfolding main_run_def runWithOptions_def world_coded_def untouched_def only_opened_def
  by (metis fst_conv snd_conv)


section \<open>A run of serve\<close>

text \<open>
  \<open>mxlrcgo-svc serve\<close> on an empty disk, with a token in the environment and a webhook key, whose parser
  knows only this command line. The webhook queues a song, the worker fetches it, a cycle follows.
\<close>

definition serve_args :: ServeCmd where
  "serve_args = \<lparr>se_Listen = None, se_Outdir = None, se_Token = ''token'', se_ConfigPath = '''', se_Depth = 100, se_Update = False,
     se_Upgrade = False, se_BFS = False, se_ScanInterval = None, se_WorkInterval = None\<rparr>"

definition demo_parser :: "Args argparser" where
  "demo_parser = \<lparr>ap_new = None,
     ap_parse = (\<lambda>args. if args = [''serve'']
       then Inr \<lparr>ar_Fetch = None, ar_Serve = Some serve_args, ar_Scan = None, ar_Library = None, ar_Keys = None, ar_Config = None, ar_Queue = None\<rparr>
       else Inl (BadArgs (New ''unknown argument''))),
     ap_help = (\<lambda>_. (''help'', None)), ap_usage = (\<lambda>_. (''usage'', None))\<rparr>"

definition demo_os :: os_env where
  "demo_os = sample_env\<lparr>oe_getenv := (\<lambda>v. if v = ''HOME'' then ''/root'' else if v = ''MXLRC_WEBHOOK_API_KEY'' then zero_raw else '''')\<rparr>"

definition demo_run :: run_env where
  "demo_run = \<lparr>re_cmd = demo_cmd\<lparr>ce_os := demo_os\<rparr>, re_sys = demo_env rate_limited, re_scan = demo_params, re_view = sample_view,
     re_ctxErr = no_ctx, re_mkdir = (\<lambda>_. None), re_parseURI = (\<lambda>_. None), re_look = Inr, re_stt = (\<lambda>_. (demo_world, Map.empty)),
     re_keyIo = (\<lambda>_. no_faults), re_keyClock = (\<lambda>_. 0), re_ios = (\<lambda>_. no_faults), re_clocks = (\<lambda>_. (5, 5)), re_ping = (\<lambda>_. None),
     re_confIo = no_faults, re_find = (\<lambda>c k tr. Inr demo_song),
     re_app = \<lparr>ae_ctxErr = no_ctx, ae_stamp = (\<lambda>_. ''now''), ae_io = no_faults, ae_torn = 0,
       ae_put = (\<lambda>fn text s. s\<lparr>sy_files := put_file fn (Some text) (sy_files s)\<rparr>)\<rparr>,
     re_dotenv = id, re_parser = demo_parser,
     re_legacy = \<lparr>ap_new = None, ap_parse = (\<lambda>_. Inl (BadArgs (New ''unknown argument''))), ap_help = (\<lambda>_. (''help'', None)), ap_usage = (\<lambda>_. (''usage'', None))\<rparr>\<rparr>"

definition no_wait :: "int \<Rightarrow> sys \<Rightarrow> unit res \<times> sys" where
  "no_wait d s = (Inr (), s)"

definition fresh_world :: world where
  "fresh_world = \<lparr>wo_sys = \<lparr>sy_db = empty_db, sy_files = Map.empty, sy_now = 1000 * Second, sy_calls = 0\<rparr>, wo_disk = Map.empty, wo_conf = []\<rparr>"

abbreviation demo_serve :: "int \<times> printed \<times> world" where
  "demo_serve \<equiv> main_run demo_run (interleaved demo_run no_wait [Arrives sample_request, WorkerTurn, ScanCycle] None) (\<lambda>_ _. no_faults) [''serve''] fresh_world"

lemma calm_no_wait: "calm (no_wait d)"
  by (simp add: calm_def no_wait_def)

theorem program_refines_state_machine_witness:
  "\<exists>code out W'. demo_serve = (code, out, W') \<and> disk_moves ascii_env Map.empty (wo_disk W') \<and> disk_ok (wo_disk W')"
proof -
  obtain code out W' where run: "demo_serve = (code, out, W')" by (metis prod_cases3)
  have "disk_ok (wo_disk fresh_world)" by (simp add: fresh_world_def disk_ok_def tables_at_def queue_ok_empty)
  moreover have "\<forall>d. calm (no_wait d)" by (simp add: calm_no_wait)
  ultimately show ?thesis using program_refines_state_machine [OF _ _ run] run
    by (auto simp: fresh_world_def demo_run_def demo_env_def)
qed

text \<open>The command line \<open>keys\<close>, without a subcommand.\<close>

abbreviation keys_run :: run_env where
  "keys_run \<equiv> demo_run\<lparr>re_parser := demo_parser\<lparr>ap_parse := (\<lambda>args. Inr \<lparr>ar_Fetch = None, ar_Serve = None, ar_Scan = None,
     ar_Library = None, ar_Keys = Some \<lparr>ks_Create = None, ks_List = None, ks_Revoke = None\<rparr>, ar_Config = None, ar_Queue = None\<rparr>)\<rparr>\<rparr>"

theorem usage_errors_change_nothing_witness:
  "\<exists>out W' path. main_run keys_run (interleaved demo_run no_wait [] None) (\<lambda>_ _. no_faults) [''keys''] fresh_world = (2, out, W') \<and>
     wo_disk W' = [path \<mapsto> empty_db] \<and> wo_sys W' = wo_sys fresh_world \<and> wo_conf W' = []"
proof -
  let ?run = "main_run keys_run (interleaved demo_run no_wait [] None) (\<lambda>_ _. no_faults) [''keys''] fresh_world"
  have "fst (main_run keys_run (interleaved demo_run no_wait [] None) (\<lambda>_ _. no_faults) [''keys''] fresh_world) = 2 \<and>
      (case LoadConfig demo_os '''' of Inl e \<Rightarrow> False | Inr cfg \<Rightarrow>
        \<not> Option.is_none (wo_disk (snd (snd (main_run keys_run (interleaved demo_run no_wait [] None) (\<lambda>_ _. no_faults) [''keys''] fresh_world)))
            (dc_Path (cf_DB cfg))))"
    by code_simp
  then obtain out W' q where run: "?run = (2, out, W')" and q: "wo_disk W' q \<noteq> None"
    by (cases ?run) (auto simp: Option.is_none_def split: sum.splits)
  then have "wo_disk W' \<noteq> wo_disk fresh_world" by (auto simp: fresh_world_def)
  with usage_errors_change_nothing [OF run] run show ?thesis by (fastforce simp: fresh_world_def)
qed

text \<open>A tick of \<open>time.Ticker\<close>, and a context that ends after one hour.\<close>

definition ticker_wait :: "int \<Rightarrow> sys \<Rightarrow> sys" where
  "ticker_wait d s = s\<lparr>sy_now := sy_now s + max 1 d\<rparr>"

abbreviation hour_run :: run_env where
  "hour_run \<equiv> demo_run\<lparr>re_ctxErr := one_hour\<rparr>"

abbreviation hour_plan :: "sys LyricsProvider \<Rightarrow> serve_plan" where
  "hour_plan p \<equiv> make_plan hour_run (service_write (re_sys hour_run)) (defaults sample_env) serve_args ''music'' p None"

theorem goroutines_end_witness:
  "\<exists>p. selectedProvider ascii_env (defaults sample_env) ''token'' (default_fetcher hour_run) = Inr p \<and>
     (\<exists>s'. runWorkerLoop hour_run (timer_wait one_hour) ticker_wait (pl_worker (hour_plan p)) (pl_interval (hour_plan p)) demo_sys = Some s' \<and>
        queue_ok (sy_db s')) \<and>
     (\<exists>s'. runScheduler hour_run ticker_wait (defaults sample_env) serve_args demo_sys = Some s' \<and> queue_ok (sy_db s'))"
proof -
  have u: "se_u (re_sys hour_run) = ascii_env" by (simp add: demo_run_def demo_env_def)
  have "\<exists>p. selectedProvider ascii_env (defaults sample_env) ''token'' (default_fetcher hour_run) = Inr p"
    using NormalizeName_Musixmatch [of ascii_env, unfolded Musixmatch_def]
    by (simp add: selectedProvider_def defaults_def Select_def NewProvider_def providerDisabled_def Musixmatch_def Let_def)
  then obtain p where p: "selectedProvider ascii_env (defaults sample_env) ''token'' (default_fetcher hour_run) = Inr p" by blast
  have ctx: "\<forall>s. 3600 * Second \<le> sy_now s \<longrightarrow> re_ctxErr hour_run s \<noteq> None" by (simp add: one_hour_def)
  have timer: "timed (timer_wait one_hour)" by (auto simp: timed_def calm_def timer_wait_def Let_def split: option.splits)
  have tick: "ticking ticker_wait" by (auto simp: ticking_def ticker_wait_def)
  show ?thesis
    using goroutines_end [OF queue_ok_demo p [folded u] ctx timer tick refl] p by blast
qed

end
