(* ===== verification/Interleaving.thy ===== *)
theory Interleaving
  imports Service_Steps
begin

text \<open>
  A turn of the worker, a cycle of the scheduler and a request that do not run alone. Between any two calls
  of one of them the others may act; what they may do is what they can do, any steps of the state machine
  of theory \<open>Db_Steps\<close>, time that passes and files that change. Each activity, with the others in between,
  again does no more than that: so their executions may interleave at every call.
\<close>

section \<open>The others\<close>

text \<open>
  What the others do before a call is a function of the state. The state counts the calls, so one function
  stands for a different interference at every call. \<open>polite\<close>: only steps of the machine.
\<close>

definition polite :: "sys_env \<Rightarrow> (sys \<Rightarrow> sys) \<Rightarrow> bool" where
  "polite E others \<longleftrightarrow> (\<forall>s. db_reach E s (others s))"

definition polite_db :: "unicode_env \<Rightarrow> (nat \<Rightarrow> db \<Rightarrow> db) \<Rightarrow> bool" where
  "polite_db u others \<longleftrightarrow> (\<forall>k d. (db_step u)\<^sup>*\<^sup>* d (others k d))"

definition after :: "('s \<Rightarrow> 's) \<Rightarrow> ('s \<Rightarrow> 'a) \<Rightarrow> 's \<Rightarrow> 'a" where
  "after others call s = call (others s)"

lemma after_idle [simp]: "after (\<lambda>s. s) = (\<lambda>call. call)"
  by (intro ext) (simp add: after_def)

lemma polite_idle [simp]: "polite E (\<lambda>s. s)" "polite_db u (\<lambda>k d. d)"
  by (simp_all add: polite_def polite_db_def)

lemma db_reach_env: "se_u E = se_u E' \<Longrightarrow> db_reach E = db_reach E'"
  by (intro ext) (simp add: db_reach_def)

lemma polite_env: "se_u E = se_u E' \<Longrightarrow> polite E others \<longleftrightarrow> polite E' others"
  using db_reach_env [of E E'] by (simp add: polite_def)

lemma after_reach:
  assumes "polite E others" "\<And>s r s'. call s = (r, s') \<Longrightarrow> db_reach E s s'" "after others call s = (r, s')"
  shows "db_reach E s s'"
proof (rule db_reach_trans)
  show "db_reach E s (others s)" using assms(1) by (simp add: polite_def)
  show "db_reach E (others s) s'" using assms(3) by (auto simp: after_def intro: assms(2))
qed

section \<open>The worker among others\<close>

text \<open>The worker whose every call, and every sleep, comes after the others have acted.\<close>

definition among :: "('s \<Rightarrow> 's) \<Rightarrow> 's Worker \<Rightarrow> 's Worker" where
  "among others w =
     w\<lparr>wk_queue := \<lparr>qi_Dequeue = after others (qi_Dequeue (wk_queue w)), qi_Complete = (\<lambda>i. after others (qi_Complete (wk_queue w) i)),
         qi_Fail = (\<lambda>i c. after others (qi_Fail (wk_queue w) i c)), qi_Release = (\<lambda>i. after others (qi_Release (wk_queue w) i))\<rparr>,
       wk_cache := \<lparr>ca_LookupExact = (\<lambda>a t al. after others (ca_LookupExact (wk_cache w) a t al)),
         ca_LookupFallback = (\<lambda>a t. after others (ca_LookupFallback (wk_cache w) a t)),
         ca_Store = (\<lambda>a t al l. after others (ca_Store (wk_cache w) a t al l))\<rparr>,
       wk_fetcher := (\<lambda>tr. after others (wk_fetcher w tr)),
       wk_writer := (\<lambda>sg fn dir. after others (wk_writer w sg fn dir)),
       wk_verifier := map_option (\<lambda>v p sg. after others (v p sg)) (wk_verifier w),
       wk_sleep := (\<lambda>d s. others (wk_sleep w d (others s)))\<rparr>"

definition pause_among :: "('s \<Rightarrow> 's) \<Rightarrow> ('s \<Rightarrow> unit res \<times> 's) \<Rightarrow> 's \<Rightarrow> unit res \<times> 's" where
  "pause_among others p s = (case p (others s) of (r, s') \<Rightarrow> (r, others s'))"

text \<open>With idle others these are the worker and the pause themselves.\<close>

lemma among_idle: "among (\<lambda>s. s) w = w" "pause_among (\<lambda>s. s) p = p"
  by (simp_all add: among_def option.map_ident pause_among_def fun_eq_iff)

text \<open>What a turn keeps, from what the calls, the sleep and the pause keep.\<close>

context worker_calls begin

lemma run_turn_inv:
  assumes "same_deps w" "inv s" "\<And>d s. inv s \<Longrightarrow> inv (wk_sleep w d s)" "\<And>s r s'. p s = (r, s') \<Longrightarrow> inv s \<Longrightarrow> inv s'"
  shows "case run_turn rnd u j ctxErr (Some p) w s of Inl (r, w', s') \<Rightarrow> inv s' | Inr (w', s') \<Rightarrow> inv s'"
proof -
  define s0 where "s0 = (if wk_consecutiveFailures w > 0
    then wk_sleep w (Geometric (wk_consecutiveFailures w) (wk_baseBackoff w) (wk_maxBackoff w)) s else s)"
  have s0: "inv s0" using assms(2,3) by (simp add: s0_def)
  obtain r w1 s1 where run: "RunOnce rnd u j ctxErr w s0 = (r, w1, s1)" by (metis prod_cases3)
  have s1: "inv s1" using RunOnce_inv [OF assms(1) s0 run] by blast
  obtain x s2 where p: "p s1 = (x, s2)" by fastforce
  note s2 = assms(4) [OF p s1]
  show ?thesis
    unfolding run_turn_def Let_def s0_def [symmetric] run prod.case
    by (cases r; cases x) (simp_all add: s0 s1 s2 p)
qed

end

lemma among_calls:
  assumes "polite E others"
  shows "worker_calls (among others (service_worker E minConf 0 None)) (db_reach E s0)"
proof -
  let ?w = "service_worker E minConf 0 None"
  have go: "db_reach E s0 s'" if "after others call s = (r, s')" "\<And>s r s'. call s = (r, s') \<Longrightarrow> sys_step E s s'" "db_reach E s0 s"
    for call :: "sys \<Rightarrow> 'b \<times> sys" and r s s'
    by (rule db_reach_trans [OF that(3) after_reach [OF assms _ that(1)]]) (blast intro: sys_steps_reach that(2))
  show ?thesis
  proof
    fix s s' :: sys and x1 :: "WorkItem res" and c :: goerr and i :: int and xs :: "unit res"
      and a t al l p fn dir :: string and r :: "string res" and tr :: Track
      and f :: "Song res" and v :: "sys verify_fn" and sg :: Song and vr :: "VerifyResult res"
    let ?a = "among others ?w"
    assume s: "db_reach E s0 s"
    show "qi_Dequeue (wk_queue ?a) s = (x1, s') \<Longrightarrow> db_reach E s0 s'"
      by (simp add: among_def) (erule go [OF _ _ s], rule service_calls(1))
    show "qi_Complete (wk_queue ?a) i s = (xs, s') \<Longrightarrow> db_reach E s0 s'"
      by (simp add: among_def) (erule go [OF _ _ s], rule service_calls(2))
    show "qi_Fail (wk_queue ?a) i c s = (x1, s') \<Longrightarrow> db_reach E s0 s'"
      by (simp add: among_def) (erule go [OF _ _ s], rule service_calls(3))
    show "qi_Release (wk_queue ?a) i s = (xs, s') \<Longrightarrow> db_reach E s0 s'"
      by (simp add: among_def) (erule go [OF _ _ s], rule service_calls(4))
    show "ca_LookupExact (wk_cache ?a) a t al s = (r, s') \<Longrightarrow> db_reach E s0 s'"
      by (simp add: among_def) (erule go [OF _ _ s], rule service_calls(5))
    show "ca_LookupFallback (wk_cache ?a) a t s = (r, s') \<Longrightarrow> db_reach E s0 s'"
      by (simp add: among_def) (erule go [OF _ _ s], rule service_calls(6))
    show "ca_Store (wk_cache ?a) a t al l s = (xs, s') \<Longrightarrow> db_reach E s0 s'"
      by (simp add: among_def) (erule go [OF _ _ s], rule service_calls(7))
    show "wk_fetcher ?a tr s = (f, s') \<Longrightarrow> db_reach E s0 s'"
      by (simp add: among_def) (erule go [OF _ _ s], rule service_calls_out(1))
    show "db_reach E s0 s'" if "wk_verifier ?a = Some v" "v p sg s = (vr, s')"
    proof -
      from that(1) obtain v0 where v0: "service_verify E = Some v0" "v = (\<lambda>p sg. after others (v0 p sg))"
        by (auto simp: among_def)
      from that(2) have "after others (v0 p sg) s = (vr, s')" by (simp add: v0(2))
      then show ?thesis by (rule go [OF _ service_calls_out(2) [OF v0(1)] s])
    qed
    show "wk_writer ?a sg fn dir s = (xs, s') \<Longrightarrow> db_reach E s0 s'"
      by (simp add: among_def) (erule go [OF _ _ s], rule service_calls_out(3))
  qed
qed

lemma among_deps:
  assumes "polite E others" "calls.same_deps E minConf w"
  shows "worker_calls.same_deps (among others (service_worker E minConf 0 None)) (among others w)"
  unfolding worker_calls.same_deps_def [OF among_calls [OF assms(1)]]
  using assms(2) by (simp add: calls.same_deps_def among_def)

text \<open>A turn of the worker with the others in between moves the database only along the machine.\<close>

lemma turn_among_reach:
  assumes "polite E others" "calls.same_deps E minConf w" "backs_off w" "calm p"
  shows "case run_turn rnd u j ctxErr (Some (pause_among others p)) (among others w) s of
      Inl (r, w', s') \<Rightarrow> db_reach E s s' | Inr (w', s') \<Rightarrow> db_reach E s s'"
proof (rule worker_calls.run_turn_inv [OF among_calls [OF assms(1)] among_deps [OF assms(1,2)] db_reach_refl])
  have o: "db_reach E s x \<Longrightarrow> db_reach E s (others x)" for s x using assms(1) unfolding polite_def by (blast intro: db_reach_trans)
  show "db_reach E s (wk_sleep (among others w) d x)" if "db_reach E s x" for d x
  proof -
    have "db_reach E (others x) (wk_sleep w d (others x))" using assms(3) by (simp add: backs_off_def db_reach_def)
    with o [OF that] have "db_reach E s (wk_sleep w d (others x))" by (rule db_reach_trans)
    then show ?thesis by (simp add: among_def o)
  qed
  show "db_reach E s s'" if pa: "pause_among others p x = (r, s')" and x: "db_reach E s x" for x r s'
  proof -
    obtain y where y: "p (others x) = (r, y)" "s' = others y" using pa by (cases "p (others x)") (auto simp: pause_among_def)
    from assms(4) y(1) have "sy_db y = sy_db (others x)" "sy_now (others x) \<le> sy_now y" unfolding calm_def by blast+
    then have "db_reach E (others x) y" by (simp add: db_reach_def)
    with o [OF x] have "db_reach E s y" by (rule db_reach_trans)
    then show ?thesis by (simp add: y(2) o)
  qed
qed

section \<open>The scheduler among others\<close>

text \<open>
  The enqueuer with the others before its call number \<open>k\<close>. A call that only reads sees what they have
  done so far, and what they do before the next call that writes starts from where the enqueuer was; it can
  repeat the former, so no order is lost.
\<close>

definition enqueuer_among :: "(nat \<Rightarrow> 's \<Rightarrow> 's) \<Rightarrow> 's Enqueuer \<Rightarrow> 's Enqueuer" where
  "enqueuer_among others e =
     e\<lparr>er_Results := map_option (\<lambda>r. \<lparr>prs_ListPending = (\<lambda>k lib s. prs_ListPending r k lib (others k s)),
         prs_SetStatus = (\<lambda>k ids st s. prs_SetStatus r k ids st (others k s))\<rparr>) (er_Results e),
       er_Cache := map_option (\<lambda>c k a t s. c k a t (others k s)) (er_Cache e),
       er_Queue := map_option (\<lambda>q k v p s. q k v p (others k s)) (er_Queue e)\<rparr>"

definition complete_among ::
  "sys_env \<Rightarrow> scan_params \<Rightarrow> (sys \<Rightarrow> sys) \<Rightarrow> (nat \<Rightarrow> nat \<Rightarrow> db \<Rightarrow> db) \<Rightarrow> Library \<Rightarrow> ScanResult list \<Rightarrow> sys \<Rightarrow> unit res \<times> sys"
where
  "complete_among E P others inner v rs s =
     (let s0 = others s; k = sy_calls s0 in
      case EnqueuePending (enqueuer_among (inner k) (db_enqueuer (se_u E) (sp_ios P k) (sp_clocks P k) PriorityScan))
             (sp_ctx P k) (lib_ID v) (sy_db s0) of
        (r, d) \<Rightarrow> (r, others ((tick E s0)\<lparr>sy_db := d\<rparr>)))"

definition scheduler_among ::
  "sys_env \<Rightarrow> scan_params \<Rightarrow> (sys \<Rightarrow> sys) \<Rightarrow> (nat \<Rightarrow> nat \<Rightarrow> db \<Rightarrow> db) \<Rightarrow> sys Scheduler \<Rightarrow> sys Scheduler"
where
  "scheduler_among E P others inner sd =
     sd\<lparr>sd_Libraries := Some (after others (sched_list E)),
        sd_Results := Some (\<lambda>i rs uo. after others (sched_upsert E i rs uo)),
        sd_Scanner := Some (\<lambda>p opts. after others (sched_scan E P p opts)),
        sd_OnScanComplete := Some (complete_among E P others inner)\<rparr>"

lemma scheduler_among_idle:
  assumes "of_service E P sd"
  shows "scheduler_among E P (\<lambda>s. s) (\<lambda>_ _ d. d) sd = sd"
proof -
  have "enqueuer_among (\<lambda>_ d. d) e = e" for e :: "db Enqueuer"
  proof -
    have "(\<lambda>r. \<lparr>prs_ListPending = prs_ListPending r, prs_SetStatus = prs_SetStatus r\<rparr>) = (\<lambda>r :: db PendingResultStore. r)"
      by (intro ext) (auto intro: PendingResultStore.equality)
    then show ?thesis by (simp add: enqueuer_among_def option.map_ident)
  qed
  then have "complete_among E P (\<lambda>s. s) (\<lambda>_ _ d. d) = sched_complete E P"
    by (intro ext) (simp add: complete_among_def sched_complete_def Let_def)
  with assms show ?thesis by (simp add: scheduler_among_def of_service_def)
qed

lemma enqueuing_among_steps:
  assumes "polite_db u others" "EnqueuePending (enqueuer_among others (db_enqueuer u ios clocks p)) ctx lib d = (r, d')"
  shows "(db_step u)\<^sup>*\<^sup>* d d'"
proof (rule EnqueuePending_preserves [where P = "(db_step u)\<^sup>*\<^sup>* d", OF _ _ _ _ refl rtranclp.rtrancl_refl assms(2)])
  have o: "(db_step u)\<^sup>*\<^sup>* d s \<Longrightarrow> (db_step u)\<^sup>*\<^sup>* d (others k s)" for k s
    using assms(1) unfolding polite_db_def by (blast intro: rtranclp_trans)
  show "er_Results (enqueuer_among others (db_enqueuer u ios clocks p)) =
      Some \<lparr>prs_ListPending = (\<lambda>k lib s. prs_ListPending (db_results ios) k lib (others k s)),
        prs_SetStatus = (\<lambda>k ids st s. prs_SetStatus (db_results ios) k ids st (others k s))\<rparr>"
    by (simp add: enqueuer_among_def db_enqueuer_simps)
  show "er_Queue (enqueuer_among others (db_enqueuer u ios clocks p)) = Some (\<lambda>k v p s. db_queue u ios clocks k v p (others k s))"
    by (simp add: enqueuer_among_def db_enqueuer_simps)
  fix k s s'
  show "(db_step u)\<^sup>*\<^sup>* d s'"
    if "prs_SetStatus \<lparr>prs_ListPending = (\<lambda>k lib s. prs_ListPending (db_results ios) k lib (others k s)),
        prs_SetStatus = (\<lambda>k ids st s. prs_SetStatus (db_results ios) k ids st (others k s))\<rparr> k ids st s = (r, s')"
      "(db_step u)\<^sup>*\<^sup>* d s" for ids st and r :: "unit res"
  proof -
    from that(1) have "s' = snd (SetStatus (honest_io (ios k)) ids st (others k s))" by (simp add: db_results_def)
    with o [OF that(2), of k] show ?thesis by (blast intro: rtranclp.rtrancl_into_rtrancl db_step.set_status)
  qed
  show "(db_step u)\<^sup>*\<^sup>* d s'"
    if "db_queue u ios clocks k v (er_Priority (enqueuer_among others (db_enqueuer u ios clocks p))) (others k s) = (r, s')"
      "(db_step u)\<^sup>*\<^sup>* d s" for v and r :: "WorkItem res"
  proof -
    let ?p = "er_Priority (enqueuer_among others (db_enqueuer u ios clocks p))"
    from that(1) have "s' = snd (Enqueue u (honest_io (ios k)) (fst (clocks k)) (snd (clocks k)) v ?p (others k s))"
      by (simp add: db_queue_def)
    with o [OF that(2), of k] show ?thesis by (blast intro: rtranclp.rtrancl_into_rtrancl db_step.enqueue)
  qed
qed

lemma complete_among_reach:
  assumes "polite E others" "\<And>k. polite_db (se_u E) (inner k)" "complete_among E P others inner v rs s = (r, s')"
  shows "db_reach E s s'"
proof -
  let ?s0 = "others s"
  let ?k = "sy_calls ?s0"
  obtain d where e: "EnqueuePending (enqueuer_among (inner ?k) (db_enqueuer (se_u E) (sp_ios P ?k) (sp_clocks P ?k) PriorityScan))
      (sp_ctx P ?k) (lib_ID v) (sy_db ?s0) = (r, d)" and s': "s' = others ((tick E ?s0)\<lparr>sy_db := d\<rparr>)"
    using assms(3) by (auto simp: complete_among_def Let_def split: prod.splits)
  have "db_reach E ?s0 ((tick E ?s0)\<lparr>sy_db := d\<rparr>)"
    using enqueuing_among_steps [OF assms(2) e] by (simp add: db_reach_def tick_def)
  moreover have "db_reach E x (others x)" for x using assms(1) by (simp add: polite_def)
  ultimately show ?thesis unfolding s' by (blast intro: db_reach_trans)
qed

lemma cycle_among_reach:
  assumes "polite E others" "\<And>k. polite_db (se_u E) (inner k)"
    and "ScanRunOnce (scheduler_among E P others inner sd) ctxErr s = (r, s')"
  shows "db_reach E s s'"
proof -
  let ?sd = "scheduler_among E P others inner sd"
  have list: "db_reach E s s'" if "after others (sched_list E) s = (x, s')" for s x s'
    using after_reach [OF assms(1) _ that] cycle_calls(1) by blast
  have upsert: "db_reach E s s'" if "after others (sched_upsert E i rs uo) s = (x, s')" for i rs uo s x s'
    using after_reach [OF assms(1) _ that] cycle_calls(2) by blast
  have scan: "db_reach E s s'" if "after others (sched_scan E P p opts) s = (x, s')" for p opts s x s'
    using after_reach [OF assms(1) _ that] cycle_calls(3) by blast
  have libs: "db_reach E s s'"
    if "scan_libraries ?sd ctxErr (\<lambda>i rs uo. after others (sched_upsert E i rs uo)) (\<lambda>p opts. after others (sched_scan E P p opts)) vs s = (r, s')"
    for vs s and r :: "unit res" and s'
    by (rule scan_libraries_reach [OF that upsert scan])
      (auto simp: scheduler_among_def intro: complete_among_reach [OF assms(1,2)])
  show ?thesis
  proof (cases "ctxErr s")
    case (Some e)
    with assms(3) show ?thesis by (simp add: ScanRunOnce_def scheduler_among_def)
  next
    case None
    obtain x s1 where l: "after others (sched_list E) s = (x, s1)" by fastforce
    note s1 = list [OF l]
    from assms(3) None l have "(\<exists>e. x = Inl e \<and> s' = s1) \<or> (\<exists>vs. x = Inr vs \<and> RunOnceFor ?sd ctxErr vs s1 = (r, s'))"
      by (cases x) (auto simp: ScanRunOnce_def, simp_all add: scheduler_among_def)
    then show ?thesis
    proof (elim disjE exE conjE)
      fix vs assume "RunOnceFor ?sd ctxErr vs s1 = (r, s')"
      then have "s' = s1 \<or> scan_libraries ?sd ctxErr (\<lambda>i rs uo. after others (sched_upsert E i rs uo))
          (\<lambda>p opts. after others (sched_scan E P p opts)) vs s1 = (r, s')"
        by (auto simp: RunOnceFor_def scheduler_among_def split: option.splits)
      with s1 libs show ?thesis by (blast intro: db_reach_trans)
    qed (use s1 in simp)
  qed
qed

section \<open>A request among others\<close>

text \<open>The others act before the key is looked up and before each row is queued or cleaned up.\<close>

definition handler_among :: "(nat \<Rightarrow> 's \<Rightarrow> 's) \<Rightarrow> 's Handler \<Rightarrow> 's Handler" where
  "handler_among others h =
     h\<lparr>hd_auth := map_option (\<lambda>f key sc s. f key sc (others 0 s)) (hd_auth h),
       hd_queue := map_option (\<lambda>q. \<lparr>wqi_Enqueue = (\<lambda>k v p s. wqi_Enqueue q k v p (others (k + 1) s)),
         wqi_Cleanup = (\<lambda>k v s. wqi_Cleanup q k v (others (k + 1) s))\<rparr>) (hd_queue h),
       hd_ready := map_option (\<lambda>ping s. ping (others 0 s)) (hd_ready h),
       hd_stats := map_option (\<lambda>f s. f (others 1 s)) (hd_stats h)\<rparr>"

lemma handler_among_idle: "handler_among (\<lambda>_ s. s) h = h"
proof -
  have "(\<lambda>q. \<lparr>wqi_Enqueue = wqi_Enqueue q, wqi_Cleanup = wqi_Cleanup q\<rparr>) = (\<lambda>q :: 'a WorkQueueIf. q)"
    by (intro ext) (auto intro: WorkQueueIf.equality)
  then show ?thesis by (simp add: handler_among_def option.map_ident)
qed

lemma ServeHTTP_reach:
  assumes enq: "\<And>q k v p s r s'. hd_queue h = Some q \<Longrightarrow> wqi_Enqueue q k v p s = (r, s') \<Longrightarrow> R\<^sup>*\<^sup>* s s'"
    and cl: "\<And>q k v s r s'. hd_queue h = Some q \<Longrightarrow> wqi_Cleanup q k v s = (r, s') \<Longrightarrow> R\<^sup>*\<^sup>* s s'"
    and run: "ServeHTTP h req s = (resp, entry, s')"
  shows "R\<^sup>*\<^sup>* s s'"
proof -
  have e: "R\<^sup>*\<^sup>* s s'" if "hd_queue h = Some q" "enqueue_all q p k vs s = (b, s')" for q p k vs s b s'
    using that(2)
  proof (induction vs arbitrary: k s)
    case (Cons v vs)
    obtain r s1 where one: "wqi_Enqueue q k v p s = (r, s1)" by fastforce
    from enq [OF that(1) one] Cons one show ?case by (cases r) (auto intro: rtranclp_trans)
  qed simp
  have c: "R\<^sup>*\<^sup>* s s'" if "hd_queue h = Some q" "cleanup_all q k vs n s = (b, s')" for q k vs n s b s'
    using that(2)
  proof (induction vs arbitrary: k n s)
    case (Cons v vs)
    obtain r s1 where one: "wqi_Cleanup q k v s = (r, s1)" by fastforce
    from cl [OF that(1) one] Cons one show ?case by (cases r) (auto intro: rtranclp_trans)
  qed simp
  from run show ?thesis
    by (auto simp: ServeHTTP_def ServeMux_def handleLidarr_def Let_def split: prod.splits if_splits sum.splits option.splits bool.splits
        dest: e c)
qed

lemma request_among_reach:
  assumes "polite_db u others"
    and "ServeHTTP (handler_among others (db_handler kdf rnd now u ios clocks ping io outdir)) req d = (resp, entry, d')"
  shows "(db_step u)\<^sup>*\<^sup>* d d'"
proof (rule ServeHTTP_reach [OF _ _ assms(2)])
  have o: "(db_step u)\<^sup>*\<^sup>* s (others k s)" for k s using assms(1) by (simp add: polite_db_def)
  fix q k v p s s'
  assume "hd_queue (handler_among others (db_handler kdf rnd now u ios clocks ping io outdir)) = Some q"
  then have q: "q = \<lparr>wqi_Enqueue = (\<lambda>k v p s. db_queue u ios clocks k v p (others (k + 1) s)),
      wqi_Cleanup = (\<lambda>k v s. Cleanup u (honest_io (ios k)) v (others (k + 1) s))\<rparr>"
    by (simp add: handler_among_def db_webhook_queue_def)
  show "(db_step u)\<^sup>*\<^sup>* s s'" if "wqi_Enqueue q k v p s = (r, s')" for r
  proof -
    from that have "s' = snd (Enqueue u (honest_io (ios k)) (fst (clocks k)) (snd (clocks k)) v p (others (k + 1) s))"
      by (simp add: q db_queue_def)
    with o show ?thesis by (blast intro: rtranclp.rtrancl_into_rtrancl db_step.enqueue)
  qed
  show "(db_step u)\<^sup>*\<^sup>* s s'" if "wqi_Cleanup q k v s = (r, s')" for r
  proof -
    from that have "s' = snd (Cleanup u (honest_io (ios k)) v (others (k + 1) s))" by (simp add: q)
    with o show ?thesis by (blast intro: rtranclp.rtrancl_into_rtrancl db_step.cleanup)
  qed
qed

end
