(* ===== verification/Serve_Lifecycle.thy ===== *)
theory Serve_Lifecycle
  imports Commands_Run Interleaving
begin

text \<open>
  The goroutines of \<open>runServe\<close> (\<open>commands/commands.go\<close>) from the moment they are started to the exit of the
  process: the worker's loop, the scheduler, the goroutine that shuts the HTTP server down, the handlers of
  the requests, and \<open>runServe\<close> itself, which waits for them. The server is that of \<open>net/http\<close>, as documented:
  \<open>Shutdown\<close> makes \<open>ListenAndServe\<close> return at once and lets the requests in flight end for 10 seconds.
\<close>

section \<open>States\<close>

text \<open>
  Where \<open>runServe\<close> stands, with the error that \<open>ListenAndServe\<close> gave (None for \<open>http.ErrServerClosed\<close>).
  \<open>li_late\<close>: the worker or the scheduler has worked on the closed database.
\<close>

datatype main_pc =
    AtListen
  | AtCancel "goerr option"
  | AtWait "goerr option"
  | AtClose "goerr option"
  | AtReturn "goerr option"
  | Exited "goerr option"

datatype shutdown_pc = AtDone | AtShutdown | ShutdownOver

record lstate =
  li_main :: main_pc
  li_done :: bool
  li_shutdown :: shutdown_pc
  li_worker :: bool
  li_scheduler :: bool
  li_requests :: "Request list"
  li_open :: bool
  li_w :: "sys Worker"
  li_sys :: sys
  li_late :: bool

definition started :: "serve_plan \<Rightarrow> sys \<Rightarrow> lstate" where
  "started plan s = \<lparr>li_main = AtListen, li_done = False, li_shutdown = AtDone, li_worker = True, li_scheduler = True,
     li_requests = [], li_open = True, li_w = pl_worker plan, li_sys = s, li_late = False\<rparr>"

fun exited :: "main_pc \<Rightarrow> bool" where
  "exited (Exited e) = True"
| "exited _ = False"

section \<open>Steps\<close>

text \<open>
  The steps that lead to the end: a signal ends the context; \<open>ListenAndServe\<close> returns; \<open>cancel\<close>, \<open>wg.Wait\<close>,
  \<open>Close\<close> and the exit; the worker's loop ends with its context, the scheduler also when a cycle fails or
  only one was asked for; \<open>Shutdown\<close> begins when the context has ended, and ends when no request is left or
  its time is over.
\<close>

inductive control :: "lstate \<Rightarrow> lstate \<Rightarrow> bool" where
  signal: "\<not> exited (li_main st) \<Longrightarrow> \<not> li_done st \<Longrightarrow> control st (st\<lparr>li_done := True\<rparr>)"
| listen_closed: "li_main st = AtListen \<Longrightarrow> li_shutdown st \<noteq> AtDone \<Longrightarrow> control st (st\<lparr>li_main := AtCancel None\<rparr>)"
| cancels: "li_main st = AtCancel e \<Longrightarrow> control st (st\<lparr>li_main := AtWait e, li_done := True\<rparr>)"
| waited: "li_main st = AtWait e \<Longrightarrow> \<not> li_worker st \<Longrightarrow> \<not> li_scheduler st \<Longrightarrow> control st (st\<lparr>li_main := AtClose e\<rparr>)"
| closes: "li_main st = AtClose e \<Longrightarrow> control st (st\<lparr>li_main := AtReturn e, li_open := False\<rparr>)"
| exits: "li_main st = AtReturn e \<Longrightarrow> control st (st\<lparr>li_main := Exited e\<rparr>)"
| worker_ends: "\<not> exited (li_main st) \<Longrightarrow> li_worker st \<Longrightarrow> li_done st \<Longrightarrow> control st (st\<lparr>li_worker := False\<rparr>)"
| scheduler_ends: "\<not> exited (li_main st) \<Longrightarrow> li_scheduler st \<Longrightarrow> control st (st\<lparr>li_scheduler := False\<rparr>)"
| shutdown_begins: "\<not> exited (li_main st) \<Longrightarrow> li_shutdown st = AtDone \<Longrightarrow> li_done st \<Longrightarrow> control st (st\<lparr>li_shutdown := AtShutdown\<rparr>)"
| shutdown_ends: "\<not> exited (li_main st) \<Longrightarrow> li_shutdown st = AtShutdown \<Longrightarrow> control st (st\<lparr>li_shutdown := ShutdownOver\<rparr>)"

text \<open>\<open>ListenAndServe\<close> fails with an error of its own, at its start or later.\<close>

inductive listen_error :: "lstate \<Rightarrow> lstate \<Rightarrow> bool" where
  listen_fails: "li_main st = AtListen \<Longrightarrow> listen_error st (st\<lparr>li_main := AtCancel (Some e)\<rparr>)"

text \<open>
  The steps that do work: a turn of the worker, a cycle of the scheduler (both see an ended context once it
  has ended, and it may end at any call within them), a request that arrives, is handled, or finds the
  database closed, and time that passes. None of them runs alone: before each of its calls and after the last
  one the others have done what they do, any steps of the machine (\<open>others\<close> on the service, \<open>inner\<close>
  on the database between the calls of the enqueuer and of a handler; theory \<open>Interleaving\<close>). Every
  request meets its own clocks and its own errors of the driver. The worker's counters are its own.
\<close>

definition sees_context :: "lstate \<Rightarrow> (sys \<Rightarrow> goerr option) \<Rightarrow> bool" where
  "sees_context st c \<longleftrightarrow> (li_done st \<longrightarrow> (\<forall>s. c s \<noteq> None))"

definition counted :: "sys Worker \<Rightarrow> sys Worker \<Rightarrow> sys Worker" where
  "counted w' w = w\<lparr>wk_consecutiveFailures := wk_consecutiveFailures w', wk_circuitOpenUntil := wk_circuitOpenUntil w'\<rparr>"

definition turn_among ::
  "run_env \<Rightarrow> (int \<Rightarrow> sys \<Rightarrow> unit res \<times> sys) \<Rightarrow> serve_plan \<Rightarrow> (sys \<Rightarrow> goerr option) \<Rightarrow> (sys \<Rightarrow> sys) \<Rightarrow> lstate \<Rightarrow>
   (unit res \<times> sys Worker \<times> sys) + (sys Worker \<times> sys)"
where
  "turn_among R wait plan c others st =
     run_turn (se_rnd (re_sys R)) (se_u (re_sys R)) (se_codec (re_sys R)) c
       (Some (pause_among others (wait (normalizeWorkerInterval (pl_interval plan))))) (among others (li_w st)) (li_sys st)"

inductive works :: "run_env \<Rightarrow> (int \<Rightarrow> sys \<Rightarrow> unit res \<times> sys) \<Rightarrow> serve_plan \<Rightarrow> lstate \<Rightarrow> lstate \<Rightarrow> bool" for R wait plan where
  pauses: "\<not> exited (li_main st) \<Longrightarrow> li_worker st \<Longrightarrow> li_open st \<Longrightarrow> sees_context st c \<Longrightarrow> polite (re_sys R) others \<Longrightarrow>
    turn_among R wait plan c others st = Inl (r, w, s) \<Longrightarrow>
    works R wait plan st (st\<lparr>li_w := counted w (li_w st), li_sys := s\<rparr>)"
| goes_on: "\<not> exited (li_main st) \<Longrightarrow> li_worker st \<Longrightarrow> li_open st \<Longrightarrow> sees_context st c \<Longrightarrow> polite (re_sys R) others \<Longrightarrow>
    turn_among R wait plan c others st = Inr (w, s) \<Longrightarrow>
    works R wait plan st (st\<lparr>li_w := counted w (li_w st), li_sys := s\<rparr>)"
| late_turn: "\<not> exited (li_main st) \<Longrightarrow> li_worker st \<Longrightarrow> \<not> li_open st \<Longrightarrow> works R wait plan st (st\<lparr>li_late := True\<rparr>)"
| scans: "\<not> exited (li_main st) \<Longrightarrow> li_scheduler st \<Longrightarrow> li_open st \<Longrightarrow> sees_context st c \<Longrightarrow>
    polite (re_sys R) others \<Longrightarrow> (\<And>k. polite_db (se_u (re_sys R)) (inner k)) \<Longrightarrow>
    ScanRunOnce (scheduler_among (re_sys R) (re_scan R) others inner (pl_scheduler plan)) c (li_sys st) = (r', s) \<Longrightarrow>
    works R wait plan st (st\<lparr>li_sys := s\<rparr>)"
| late_cycle: "\<not> exited (li_main st) \<Longrightarrow> li_scheduler st \<Longrightarrow> \<not> li_open st \<Longrightarrow> works R wait plan st (st\<lparr>li_late := True\<rparr>)"
| accepts: "\<not> exited (li_main st) \<Longrightarrow> li_shutdown st = AtDone \<Longrightarrow> works R wait plan st (st\<lparr>li_requests := li_requests st @ [q]\<rparr>)"
| handles: "\<not> exited (li_main st) \<Longrightarrow> li_open st \<Longrightarrow> q \<in> set (li_requests st) \<Longrightarrow>
    pl_handler plan = db_handler kdf rnd now0 (se_u (re_sys R)) ios0 clocks0 ping0 io0 outdir \<Longrightarrow>
    polite (re_sys R) others \<Longrightarrow> polite_db (se_u (re_sys R)) before \<Longrightarrow>
    ServeHTTP (handler_among before (db_handler kdf rnd now (se_u (re_sys R)) ios clocks ping io outdir)) q
      (sy_db (others (li_sys st))) = (resp, entry, d) \<Longrightarrow>
    s = (tick (re_sys R) (others (li_sys st)))\<lparr>sy_db := d\<rparr> \<Longrightarrow>
    works R wait plan st (st\<lparr>li_requests := remove1 q (li_requests st), li_sys := others s\<rparr>)"
| finds_closed: "\<not> exited (li_main st) \<Longrightarrow> \<not> li_open st \<Longrightarrow> q \<in> set (li_requests st) \<Longrightarrow>
    works R wait plan st (st\<lparr>li_requests := remove1 q (li_requests st)\<rparr>)"
| passes: "\<not> exited (li_main st) \<Longrightarrow> sy_db s = sy_db (li_sys st) \<Longrightarrow> sy_now (li_sys st) \<le> sy_now s \<Longrightarrow>
    works R wait plan st (st\<lparr>li_sys := s\<rparr>)"

definition lifecycle :: "run_env \<Rightarrow> (int \<Rightarrow> sys \<Rightarrow> unit res \<times> sys) \<Rightarrow> serve_plan \<Rightarrow> lstate \<Rightarrow> lstate \<Rightarrow> bool" where
  "lifecycle R wait plan st st' \<longleftrightarrow> control st st' \<or> listen_error st st' \<or> works R wait plan st st'"

text \<open>A session of \<open>runServe\<close> that is an execution of this machine, to its exit.\<close>

definition served :: "run_env \<Rightarrow> (int \<Rightarrow> sys \<Rightarrow> unit res \<times> sys) \<Rightarrow> serve_plan \<Rightarrow> sys \<Rightarrow> goerr option \<times> sys \<Rightarrow> bool" where
  "served R wait plan s out \<longleftrightarrow> (\<exists>st. (lifecycle R wait plan)\<^sup>*\<^sup>* (started plan s) st \<and> li_main st = Exited (fst out) \<and> li_sys st = snd out)"

inductive_cases controlE: "control st st'"
inductive_cases listen_errorE: "listen_error st st'"
inductive_cases worksE: "works R wait plan st st'"

section \<open>The order of the end\<close>

definition orderly :: "lstate \<Rightarrow> bool" where
  "orderly st \<longleftrightarrow>
     (li_open st \<longleftrightarrow> (\<forall>e. li_main st \<noteq> AtReturn e \<and> li_main st \<noteq> Exited e)) \<and>
     ((\<exists>e. li_main st \<in> {AtClose e, AtReturn e, Exited e}) \<longrightarrow> \<not> li_worker st \<and> \<not> li_scheduler st) \<and>
     ((\<exists>e. li_main st \<in> {AtWait e, AtClose e, AtReturn e, Exited e}) \<longrightarrow> li_done st) \<and>
     (li_shutdown st \<noteq> AtDone \<longrightarrow> li_done st) \<and> (\<not> li_worker st \<longrightarrow> li_done st) \<and>
     (li_main st \<in> {AtCancel None, AtWait None, AtClose None, AtReturn None, Exited None} \<longrightarrow> li_shutdown st \<noteq> AtDone)"

lemma orderly_started: "orderly (started plan s)"
  by (simp add: orderly_def started_def)

lemma orderly_control: "control st st' \<Longrightarrow> orderly st \<Longrightarrow> orderly st'"
  by (erule control.cases) (auto simp: orderly_def)

lemma orderly_listen_error: "listen_error st st' \<Longrightarrow> orderly st \<Longrightarrow> orderly st'"
  by (erule listen_errorE) (auto simp: orderly_def)

lemma works_frame:
  assumes "works R wait plan st st'"
  shows "li_main st' = li_main st" "li_done st' = li_done st" "li_shutdown st' = li_shutdown st" "li_worker st' = li_worker st"
    "li_scheduler st' = li_scheduler st" "li_open st' = li_open st"
  using assms by (auto elim: worksE)

lemma orderly_works: "works R wait plan st st' \<Longrightarrow> orderly st \<Longrightarrow> orderly st'"
  by (simp add: orderly_def works_frame)

lemma orderly_reach: "(lifecycle R wait plan)\<^sup>*\<^sup>* (started plan s) st \<Longrightarrow> orderly st"
  by (induction rule: rtranclp_induct)
    (auto simp: lifecycle_def orderly_started intro: orderly_control orderly_listen_error orderly_works)

lemma control_sys: "control st st' \<Longrightarrow> li_sys st' = li_sys st"
  by (erule control.cases) simp_all

lemma listen_error_sys: "listen_error st st' \<Longrightarrow> li_sys st' = li_sys st"
  by (erule listen_errorE) simp

lemma closed_is_still:
  assumes "lifecycle R wait plan st st'" "orderly st" "\<not> li_open st"
  shows "sy_db (li_sys st') = sy_db (li_sys st)"
proof -
  have off: "\<not> li_worker st" "\<not> li_scheduler st" using assms(2,3) by (auto simp: orderly_def)
  from assms(1) consider "control st st'" | "listen_error st st'" | "works R wait plan st st'" by (auto simp: lifecycle_def)
  then show ?thesis
  proof cases
    case 3
    then show ?thesis by (cases rule: works.cases) (use off assms(3) in simp_all)
  qed (simp_all add: control_sys listen_error_sys)
qed

text \<open>
  C11. The database is closed last: whatever the goroutines do and in whatever order, once it is closed the
  context has ended, the worker and the scheduler are no longer running and no step changes a row. The exit
  code is 0 only if the server was shut down, which takes an ended context.
\<close>
theorem database_closes_last:
  assumes "(lifecycle R wait plan)\<^sup>*\<^sup>* (started plan s) st"
  shows "(\<not> li_open st \<longrightarrow> li_done st \<and> \<not> li_worker st \<and> \<not> li_scheduler st \<and>
      (\<forall>st'. lifecycle R wait plan st st' \<longrightarrow> sy_db (li_sys st') = sy_db (li_sys st))) \<and>
    (li_main st = Exited None \<longrightarrow> \<not> li_open st \<and> li_shutdown st \<noteq> AtDone)"
proof -
  note o = orderly_reach [OF assms]
  show ?thesis
  proof (intro conjI impI allI)
    assume closed: "\<not> li_open st"
    then show "li_done st" "\<not> li_worker st" "\<not> li_scheduler st" using o by (auto simp: orderly_def)
    show "sy_db (li_sys st') = sy_db (li_sys st)" if "lifecycle R wait plan st st'" for st'
      by (rule closed_is_still [OF that o closed])
  next
    assume "li_main st = Exited None"
    then show "\<not> li_open st" "li_shutdown st \<noteq> AtDone" using o by (auto simp: orderly_def)
  qed
qed

section \<open>The end is reached\<close>

fun to_go :: "main_pc \<Rightarrow> nat" where
  "to_go AtListen = 5"
| "to_go (AtCancel e) = 4"
| "to_go (AtWait e) = 3"
| "to_go (AtClose e) = 2"
| "to_go (AtReturn e) = 1"
| "to_go (Exited e) = 0"

fun shutdown_to_go :: "shutdown_pc \<Rightarrow> nat" where
  "shutdown_to_go AtDone = 2"
| "shutdown_to_go AtShutdown = 1"
| "shutdown_to_go ShutdownOver = 0"

definition rank :: "lstate \<Rightarrow> nat" where
  "rank st = to_go (li_main st) + shutdown_to_go (li_shutdown st) + of_bool (\<not> li_done st) + of_bool (li_worker st) + of_bool (li_scheduler st)"

lemma rank_bound: "rank st \<le> 10"
proof -
  have "to_go (li_main st) \<le> 5" by (cases "li_main st") simp_all
  moreover have "shutdown_to_go (li_shutdown st) \<le> 2" by (cases "li_shutdown st") simp_all
  ultimately show ?thesis by (simp add: rank_def of_bool_def)
qed

lemma control_rank: "control st st' \<Longrightarrow> rank st' < rank st"
  by (erule control.cases) (auto simp: rank_def of_bool_def)

lemma works_rank: "works R wait plan st st' \<Longrightarrow> rank st' = rank st"
  by (simp add: rank_def works_frame)

text \<open>As long as the process has not exited, a goroutine can go on once the context has ended.\<close>

lemma control_progress:
  assumes "orderly st" "li_done st" "\<not> exited (li_main st)"
  shows "\<exists>st'. control st st'"
proof (cases "li_main st")
  case AtListen
  with assms show ?thesis by (cases "li_shutdown st = AtDone") (blast intro: control.shutdown_begins control.listen_closed)+
next
  case (AtWait e)
  with assms show ?thesis
    by (cases "li_worker st"; cases "li_scheduler st") (blast intro: control.worker_ends control.scheduler_ends control.waited)+
qed (use assms in \<open>auto intro: control.intros\<close>)

lemma control_done: "control st st' \<Longrightarrow> li_done st \<Longrightarrow> li_done st'"
  by (erule control.cases) auto

lemma reaches_exit: "orderly st \<Longrightarrow> li_done st \<Longrightarrow> \<exists>st' e. control\<^sup>*\<^sup>* st st' \<and> li_main st' = Exited e"
proof (induction "rank st" arbitrary: st rule: less_induct)
  case less
  show ?case
  proof (cases "exited (li_main st)")
    case True
    then show ?thesis by (cases "li_main st") auto
  next
    case False
    from control_progress [OF less.prems False] obtain st1 where st1: "control st st1" ..
    from less.hyps [OF control_rank [OF st1] orderly_control [OF st1 less.prems(1)] control_done [OF st1 less.prems(2)]] st1
    show ?thesis by (meson converse_rtranclp_into_rtranclp)
  qed
qed

text \<open>
  C12. The service shuts down: in every execution at most ten steps lead towards the end, work never leads
  away from it, and from the moment the context has ended one of these steps can always be taken until the
  process has exited; so it exits, without waiting for a request, if every goroutine that can end does. (That
  the loops of the worker and of the scheduler return is the theorem on the goroutines of serve.)
\<close>
theorem serve_shuts_down:
  assumes "(lifecycle R wait plan)\<^sup>*\<^sup>* (started plan s) st"
  shows "rank st \<le> 10 \<and> (\<forall>st'. control st st' \<longrightarrow> rank st' < rank st) \<and> (\<forall>st'. works R wait plan st st' \<longrightarrow> rank st' = rank st) \<and>
    (li_done st \<longrightarrow> (exited (li_main st) \<or> (\<exists>st'. control st st')) \<and> (\<exists>st' e. control\<^sup>*\<^sup>* st st' \<and> li_main st' = Exited e))"
  using orderly_reach [OF assms] control_progress reaches_exit by (auto simp: rank_bound control_rank works_rank)

lemma control_reach: "control st st' \<Longrightarrow> (lifecycle R wait plan)\<^sup>*\<^sup>* st st'"
  by (rule r_into_rtranclp) (simp add: lifecycle_def)

section \<open>A request can be cut off\<close>

text \<open>The shortest way from a state in which everything runs to the exit.\<close>

definition ended :: "lstate \<Rightarrow> lstate" where
  "ended st = st\<lparr>li_main := Exited None, li_done := True, li_shutdown := AtShutdown, li_worker := False, li_scheduler := False, li_open := False\<rparr>"

lemma run_down:
  assumes "li_main st = AtListen" "\<not> li_done st" "li_shutdown st = AtDone" "li_worker st" "li_scheduler st"
  shows "(lifecycle R wait plan)\<^sup>*\<^sup>* st (ended st)"
proof -
  let ?s1 = "st\<lparr>li_done := True\<rparr>"
  let ?s2 = "?s1\<lparr>li_shutdown := AtShutdown\<rparr>"
  let ?s3 = "?s2\<lparr>li_worker := False\<rparr>"
  let ?s4 = "?s3\<lparr>li_scheduler := False\<rparr>"
  let ?s5 = "?s4\<lparr>li_main := AtCancel None\<rparr>"
  let ?s6 = "?s5\<lparr>li_main := AtWait None, li_done := True\<rparr>"
  let ?s7 = "?s6\<lparr>li_main := AtClose None\<rparr>"
  let ?s8 = "?s7\<lparr>li_main := AtReturn None, li_open := False\<rparr>"
  let ?s9 = "?s8\<lparr>li_main := Exited None\<rparr>"
  note go = control_reach [where R = R and wait = wait and plan = plan]
  have "(lifecycle R wait plan)\<^sup>*\<^sup>* st ?s1" by (rule go, rule control.signal) (simp_all add: assms)
  also have "(lifecycle R wait plan)\<^sup>*\<^sup>* ?s1 ?s2" by (rule go, rule control.shutdown_begins) (simp_all add: assms)
  also have "(lifecycle R wait plan)\<^sup>*\<^sup>* ?s2 ?s3" by (rule go, rule control.worker_ends) (simp_all add: assms)
  also have "(lifecycle R wait plan)\<^sup>*\<^sup>* ?s3 ?s4" by (rule go, rule control.scheduler_ends) (simp_all add: assms)
  also have "(lifecycle R wait plan)\<^sup>*\<^sup>* ?s4 ?s5" by (rule go, rule control.listen_closed) (simp_all add: assms)
  also have "(lifecycle R wait plan)\<^sup>*\<^sup>* ?s5 ?s6" by (rule go, rule control.cancels) simp
  also have "(lifecycle R wait plan)\<^sup>*\<^sup>* ?s6 ?s7" by (rule go, rule control.waited) simp_all
  also have "(lifecycle R wait plan)\<^sup>*\<^sup>* ?s7 ?s8" by (rule go, rule control.closes) simp
  also have "(lifecycle R wait plan)\<^sup>*\<^sup>* ?s8 ?s9" by (rule go, rule control.exits) simp
  finally have "(lifecycle R wait plan)\<^sup>*\<^sup>* st ?s9" .
  moreover have "?s9 = ended st" by (simp add: ended_def)
  ultimately show ?thesis by simp
qed

lemma run_down_started: "(lifecycle R wait plan)\<^sup>*\<^sup>* (started plan s) (ended (started plan s))"
  by (rule run_down) (simp_all add: started_def)

text \<open>
  C14. \<open>runServe\<close> does not wait for \<open>Shutdown\<close>: for any requests there is an execution without any failure in
  which they have arrived, the process is told to end, every goroutine ends as it should, and the process
  exits with code 0 and a closed database, not one row changed, while \<open>Shutdown\<close> is still waiting for the
  requests, which are all unanswered.
\<close>
theorem shutdown_cuts_requests:
  "\<exists>st. (lifecycle R wait plan)\<^sup>*\<^sup>* (started plan s) st \<and> li_main st = Exited None \<and> \<not> li_open st \<and>
     li_shutdown st = AtShutdown \<and> li_requests st = qs \<and> li_sys st = s"
proof -
  have "(lifecycle R wait plan)\<^sup>*\<^sup>* (started plan s) ((started plan s)\<lparr>li_requests := qs\<rparr>)"
  proof (induction qs rule: rev_induct)
    case Nil
    have "(started plan s)\<lparr>li_requests := []\<rparr> = started plan s" by (simp add: started_def)
    then show ?case by simp
  next
    case (snoc q qs)
    let ?st = "(started plan s)\<lparr>li_requests := qs\<rparr>"
    have "works R wait plan ?st (?st\<lparr>li_requests := li_requests ?st @ [q]\<rparr>)"
      by (rule works.accepts) (simp_all add: started_def)
    then have "lifecycle R wait plan ?st ((started plan s)\<lparr>li_requests := qs @ [q]\<rparr>)" by (simp add: lifecycle_def)
    with snoc.IH show ?case by (rule rtranclp.rtrancl_into_rtrancl)
  qed
  also have "(lifecycle R wait plan)\<^sup>*\<^sup>* \<dots> (ended ((started plan s)\<lparr>li_requests := qs\<rparr>))"
    by (rule run_down) (simp_all add: started_def)
  finally show ?thesis by (rule exI [where x = "ended ((started plan s)\<lparr>li_requests := qs\<rparr>)", OF conjI]) (simp add: ended_def started_def)
qed

section \<open>Every execution moves the database along the state machine\<close>

definition in_service :: "sys_env \<Rightarrow> float64 \<Rightarrow> sys \<Rightarrow> lstate \<Rightarrow> bool" where
  "in_service E minConf s st \<longleftrightarrow> sound (li_sys st) \<and> calls.same_deps E minConf (li_w st) \<and> backs_off (li_w st) \<and>
     db_reach E s (li_sys st)"

lemma turn_in_service:
  assumes "in_service E minConf s st" "\<And>d. calm (wait d)" "polite E others"
    and "turn_among R wait plan c others st = Inl (r, w1, s1) \<or> turn_among R wait plan c others st = Inr (w1, s1)"
  shows "in_service E minConf s (st\<lparr>li_w := counted w1 (li_w st), li_sys := s1\<rparr>)"
proof -
  have h: "sound (li_sys st)" "calls.same_deps E minConf (li_w st)" "backs_off (li_w st)" "db_reach E s (li_sys st)"
    using assms(1) by (simp_all add: in_service_def)
  note turn = turn_among_reach [where rnd = "se_rnd (re_sys R)" and u = "se_u (re_sys R)" and j = "se_codec (re_sys R)" and ctxErr = c
      and p = "wait (normalizeWorkerInterval (pl_interval plan))" and s = "li_sys st", OF assms(3) h(2,3) assms(2), folded turn_among_def]
  have "db_reach E (li_sys st) s1"
    using assms(4)
  proof
    assume "turn_among R wait plan c others st = Inl (r, w1, s1)"
    with turn show ?thesis by simp
  next
    assume "turn_among R wait plan c others st = Inr (w1, s1)"
    with turn show ?thesis by simp
  qed
  with h db_reach_trans [OF h(4)] db_reach_sound [OF _ h(1)] show ?thesis
    by (simp add: in_service_def counted_def backs_off_def calls.same_deps_def)
qed

lemma in_service_works:
  assumes "works R wait plan st st'" "in_service E minConf s st" "\<And>d. calm (wait d)" "se_u (re_sys R) = se_u E"
  shows "in_service E minConf s st'"
proof -
  note P = polite_env [OF assms(4)]
  have h: "sound (li_sys st)" "db_reach E s (li_sys st)" using assms(2) by (simp_all add: in_service_def)
  have go: "in_service E minConf s (st\<lparr>li_sys := s1, li_requests := qs\<rparr>)" if "db_reach E (li_sys st) s1" for s1 qs
    using that assms(2) db_reach_trans [OF h(2) that] db_reach_sound [OF that h(1)] by (simp add: in_service_def)
  show ?thesis
    using assms(1)
  proof (cases rule: works.cases)
    case (pauses c others r w s1)
    show ?thesis
      unfolding pauses(1)
      by (rule turn_in_service [where wait = wait, OF assms(2,3) pauses(6) [unfolded P] disjI1 [OF pauses(7)]])
  next
    case (goes_on c others w s1)
    show ?thesis
      unfolding goes_on(1)
      by (rule turn_in_service [where wait = wait, OF assms(2,3) goes_on(6) [unfolded P] disjI2 [OF goes_on(7)]])
  next
    case (scans c others inner r' s1)
    have "db_reach (re_sys R) (li_sys st) s1" by (rule cycle_among_reach [OF scans(6,7,8)])
    then have "db_reach E (li_sys st) s1" by (simp add: db_reach_def assms(4))
    from go [OF this, of "li_requests st"] show ?thesis unfolding scans(1) by (simp add: in_service_def)
  next
    case (handles q kdf rnd now0 ios0 clocks0 ping0 io0 outdir others before now ios clocks ping io resp entry d s1)
    have o: "db_reach E x (others x)" for x using handles(6) [unfolded P] by (simp add: polite_def)
    have "(db_step (se_u E))\<^sup>*\<^sup>* (sy_db (others (li_sys st))) d"
      by (rule request_among_reach [OF handles(7,8), unfolded assms(4)])
    then have "db_reach E (others (li_sys st)) s1" by (simp add: handles(9) db_reach_def tick_def)
    then have "db_reach E (li_sys st) (others s1)" using o by (blast intro: db_reach_trans)
    from go [OF this] show ?thesis unfolding handles(1) by (simp add: in_service_def)
  next
    case (passes s1)
    then have "db_reach E (li_sys st) s1" by (simp add: db_reach_def)
    from go [OF this, of "li_requests st"] show ?thesis unfolding passes(1) by (simp add: in_service_def)
  qed (use assms(2) in \<open>simp_all add: in_service_def\<close>)
qed

lemma in_service_reach:
  assumes "(lifecycle R wait plan)\<^sup>*\<^sup>* (started plan s) st" "\<And>d. calm (wait d)" "se_u (re_sys R) = se_u E"
    and "sound s" "calls.same_deps E minConf (pl_worker plan)" "backs_off (pl_worker plan)"
  shows "in_service E minConf s st"
  using assms(1)
proof (induction rule: rtranclp_induct)
  case base
  show ?case using assms(4-6) by (simp add: in_service_def started_def)
next
  case (step st1 st2)
  from step.hyps(2) consider "control st1 st2" | "listen_error st1 st2" | "works R wait plan st1 st2" by (auto simp: lifecycle_def)
  then show ?case
  proof cases
    case 1
    then have "li_sys st2 = li_sys st1 \<and> li_w st2 = li_w st1" by (cases rule: control.cases) simp_all
    with step.IH show ?thesis by (simp add: in_service_def)
  next
    case 2
    then have "li_sys st2 = li_sys st1 \<and> li_w st2 = li_w st1" by (cases rule: listen_error.cases) simp_all
    with step.IH show ?thesis by (simp add: in_service_def)
  next
    case 3
    then show ?thesis by (rule in_service_works [OF _ step.IH assms(2,3)])
  qed
qed

lemma served_ok:
  assumes "\<And>d. calm (wait d)" "\<And>plan s. served R wait plan s (session plan s)"
  shows "session_ok (with_os os R) (default_fetcher R) (service_write (re_sys R)) session"
  unfolding session_ok_def
proof (intro allI impI, elim conjE)
  fix plan and s :: sys assume p: "planned (with_os os R) (default_fetcher R) (service_write (re_sys R)) plan" and q: "queue_ok (sy_db s)"
  from p obtain E minConf where E: "se_u E = se_u (re_sys R)"
    and parts: "calls.same_deps E minConf (pl_worker plan)" "backs_off (pl_worker plan)"
    by (rule planned_parts)
  from assms(2) obtain st where st: "(lifecycle R wait plan)\<^sup>*\<^sup>* (started plan s) st" "li_sys st = snd (session plan s)"
    unfolding served_def by blast
  have "in_service E minConf s st"
    by (rule in_service_reach [OF st(1) assms(1) E [symmetric] _ parts]) (use q in \<open>simp add: sound_def\<close>)
  then show "(db_step (se_u (re_sys (with_os os R))))\<^sup>*\<^sup>* (sy_db s) (sy_db (snd (session plan s)))"
    by (simp add: in_service_def db_reach_def E st(2))
qed

text \<open>Nothing works on the closed database but a request, which finds it closed.\<close>

lemma never_late: "(lifecycle R wait plan)\<^sup>*\<^sup>* (started plan s) st \<Longrightarrow> \<not> li_late st"
proof (induction rule: rtranclp_induct)
  case base
  show ?case by (simp add: started_def)
next
  case (step st1 st2)
  note o = orderly_reach [OF step.hyps(1)]
  from step.hyps(2) consider "control st1 st2" | "listen_error st1 st2" | "works R wait plan st1 st2" by (auto simp: lifecycle_def)
  then show ?case
  proof cases
    case 1
    then show ?thesis using step.IH by (cases rule: control.cases) simp_all
  next
    case 2
    then show ?thesis using step.IH by (cases rule: listen_error.cases) simp_all
  next
    case 3
    then show ?thesis
    proof (cases rule: works.cases)
      case late_turn
      with o show ?thesis by (auto simp: orderly_def)
    next
      case late_cycle
      with o show ?thesis by (auto simp: orderly_def)
    qed (use step.IH in simp_all)
  qed
qed

text \<open>
  C8. The whole program refines the state machine of the database, also while the goroutines of serve run
  at the same time. From sound databases, with any command line, any answers of the network, any errors of
  the driver, and a session of serve that is any execution of the lifecycle to its exit (signals, failing
  listeners and cut requests included, and the calls of the worker, of the scheduler and of the requests
  interleaved with any operations of the others), the rows of every database move only along the operations
  of the machine, and every database stays sound. And in no execution of the lifecycle does the worker or the
  scheduler work on a database that has been closed.
\<close>
theorem lifecycle_refines_state_machine:
  assumes "disk_ok (wo_disk W)" and "\<forall>d. calm (wait d)" and "\<forall>plan s. served R wait plan s (session plan s)"
    and "main_run R session ios args W = (code, out, W')"
  shows "disk_moves (se_u (re_sys R)) (wo_disk W) (wo_disk W') \<and> disk_ok (wo_disk W') \<and>
    (\<forall>plan s st. (lifecycle R wait plan)\<^sup>*\<^sup>* (started plan s) st \<longrightarrow> \<not> li_late st)"
proof -
  have "session_ok (with_os os R) (default_fetcher R) (service_write (re_sys R)) session" for os
    by (rule served_ok [where wait = wait]) (use assms(2,3) in blast)+
  from main_moves [OF assms(1) this assms(4)] show ?thesis using never_late by blast
qed

section \<open>Witnesses\<close>

text \<open>A session with a turn of the worker and a cycle of the scheduler, among idle others, before a signal ends it.\<close>

definition turn_result :: "(unit res \<times> sys Worker \<times> sys) + (sys Worker \<times> sys) \<Rightarrow> sys Worker \<times> sys" where
  "turn_result out = (case out of Inl (r, w, s) \<Rightarrow> (w, s) | Inr p \<Rightarrow> p)"

definition busy_session :: "run_env \<Rightarrow> (int \<Rightarrow> sys \<Rightarrow> unit res \<times> sys) \<Rightarrow> session" where
  "busy_session R wait plan s =
     (let s1 = snd (turn_result (turn_among R wait plan no_ctx (\<lambda>s. s) (started plan s)))
      in (None, snd (ScanRunOnce (scheduler_among (re_sys R) (re_scan R) (\<lambda>s. s) (\<lambda>_ _ d. d) (pl_scheduler plan)) no_ctx s1)))"

lemma busy_served: "served R wait plan s (busy_session R wait plan s)"
proof -
  let ?st = "started plan s"
  obtain w1 s1 where t: "turn_result (turn_among R wait plan no_ctx (\<lambda>s. s) ?st) = (w1, s1)" by fastforce
  obtain x s2 where c: "ScanRunOnce (scheduler_among (re_sys R) (re_scan R) (\<lambda>s. s) (\<lambda>_ _ d. d) (pl_scheduler plan)) no_ctx s1 = (x, s2)"
    by fastforce
  let ?st1 = "?st\<lparr>li_w := counted w1 (li_w ?st), li_sys := s1\<rparr>"
  let ?st2 = "?st1\<lparr>li_sys := s2\<rparr>"
  have start: "\<not> exited (li_main ?st)" "li_worker ?st" "li_open ?st" "sees_context ?st no_ctx"
    by (simp_all add: started_def sees_context_def)
  have "works R wait plan ?st ?st1"
  proof (cases "turn_among R wait plan no_ctx (\<lambda>s. s) ?st")
    case (Inl out)
    with t obtain r where "turn_among R wait plan no_ctx (\<lambda>s. s) ?st = Inl (r, w1, s1)"
      by (cases out) (simp add: turn_result_def)
    then show ?thesis by (rule works.pauses [OF start polite_idle(1)])
  next
    case (Inr p)
    with t have "turn_among R wait plan no_ctx (\<lambda>s. s) ?st = Inr (w1, s1)" by (simp add: turn_result_def)
    then show ?thesis by (rule works.goes_on [OF start polite_idle(1)])
  qed
  moreover have "works R wait plan ?st1 ?st2"
    by (rule works.scans [OF _ _ _ _ polite_idle, where c = no_ctx]) (use c in \<open>simp_all add: started_def sees_context_def\<close>)
  moreover have "(lifecycle R wait plan)\<^sup>*\<^sup>* ?st2 (ended ?st2)" by (rule run_down) (simp_all add: started_def)
  ultimately have "(lifecycle R wait plan)\<^sup>*\<^sup>* ?st (ended ?st2)"
    by (meson converse_rtranclp_into_rtranclp lifecycle_def)
  then show ?thesis using t c by (auto simp: served_def busy_session_def Let_def ended_def)
qed

definition demo_plan :: serve_plan where
  "demo_plan = make_plan demo_run (service_write (re_sys demo_run)) (defaults sample_env) serve_args ''music''
     (NewProvider ascii_env Musixmatch (default_fetcher demo_run ''token'')) None"

definition signalled :: "serve_plan \<Rightarrow> sys \<Rightarrow> lstate" where
  "signalled plan s = (started plan s)\<lparr>li_done := True\<rparr>"

lemma signalled_reach: "(lifecycle R wait plan)\<^sup>*\<^sup>* (started plan s) (signalled plan s)"
  unfolding signalled_def by (rule control_reach, rule control.signal) (simp_all add: started_def)

theorem lifecycle_refines_state_machine_witness:
  "\<exists>code out W'. main_run demo_run (busy_session demo_run no_wait) (\<lambda>_ _. no_faults) [''serve''] fresh_world = (code, out, W') \<and>
     disk_moves ascii_env Map.empty (wo_disk W') \<and> disk_ok (wo_disk W')"
proof -
  obtain code out W' where run: "main_run demo_run (busy_session demo_run no_wait) (\<lambda>_ _. no_faults) [''serve''] fresh_world = (code, out, W')"
    by (metis prod_cases3)
  have "disk_ok (wo_disk fresh_world)" by (simp add: fresh_world_def disk_ok_def tables_at_def queue_ok_empty)
  moreover have "\<forall>d. calm (no_wait d)" by (simp add: calm_no_wait)
  ultimately show ?thesis using lifecycle_refines_state_machine [OF _ _ _ run, of no_wait] run
    by (auto simp: fresh_world_def demo_run_def demo_env_def intro: busy_served)
qed

theorem database_closes_last_witness:
  "\<exists>st. (lifecycle demo_run no_wait demo_plan)\<^sup>*\<^sup>* (started demo_plan demo_sys) st \<and> \<not> li_open st \<and> \<not> li_worker st \<and> \<not> li_scheduler st"
proof -
  obtain st where st: "(lifecycle demo_run no_wait demo_plan)\<^sup>*\<^sup>* (started demo_plan demo_sys) st" "\<not> li_open st"
    using run_down_started [of demo_run no_wait demo_plan demo_sys] by (auto simp: ended_def)
  with database_closes_last [OF st(1)] show ?thesis by blast
qed

theorem serve_shuts_down_witness:
  "\<exists>st e. control\<^sup>*\<^sup>* (signalled demo_plan demo_sys) st \<and> li_main st = Exited e"
proof -
  have "li_done (signalled demo_plan demo_sys)" by (simp add: signalled_def)
  with serve_shuts_down [OF signalled_reach [of demo_run no_wait demo_plan demo_sys]] show ?thesis by blast
qed

end
