(* ===== verification/Migrations.thy ===== *)
theory Migrations
  imports Db_Open Queue_Claims
begin

text \<open>
  The migrations of \<open>internal/db/migrations\<close>, statement by statement, on the tables of each version of
  the schema, and what an upgrade of an existing database keeps. Goose, which runs them, is a parameter
  with its documented behaviour (\<open>goose_contract\<close>). The table \<open>api_keys\<close> of migration 001, which no
  statement of the program names, is left out.
\<close>

section \<open>Rows of the older versions\<close>

text \<open>ALTER TABLE ADD COLUMN extends a record; the number of a record is the migration that makes it.\<close>

record sr1 =
  r_id :: int
  r_library_id :: int
  r_file_path :: string
  r_artist :: string
  r_title :: string
  r_status :: status
  r_created_at :: int

record sr6 = sr1 +
  r_outdir :: string
  r_filename :: string

record lc1 =
  c_id :: int
  c_artist :: string
  c_title :: string
  c_lyrics :: string
  c_created_at :: int
  c_updated_at :: int

record lc2 = lc1 +
  c_album :: string

record wq1 =
  q_id :: int
  q_artist :: string
  q_title :: string
  q_outdir :: string
  q_status :: status
  q_priority :: int
  q_created_at :: int
  q_updated_at :: int

record wq4 = wq1 +
  q_artist_key :: string
  q_title_key :: string
  q_filename :: string
  q_attempts :: int
  q_next_attempt_at :: int
  q_last_error :: string
  q_completed_at :: "int option"

record wq5 = wq4 +
  q_output_paths :: paths_col

record wq8 = wq5 +
  q_source_path :: string

record wq9 = wq8 +
  q_scan_result_id :: "int option"

record ('sr, 'wq, 'lc) tables =
  t_libraries :: "lib_row list"
  t_lib_seq :: int
  t_scan_results :: "'sr list"
  t_sr_seq :: int
  t_work_queue :: "'wq list"
  t_wq_seq :: int
  t_lyrics_cache :: "'lc list"
  t_lc_seq :: int

record ('sr, 'wq, 'lc) tables7 = "('sr, 'wq, 'lc) tables" +
  t_api_keys :: "key_row list"

text \<open>A database file, by the version that goose has recorded in it; \<open>V0\<close> is a new one.\<close>

datatype vdb =
    V0
  | V1 "(sr1, wq1, lc1) tables"
  | V2 "(sr1, wq1, lc2) tables"
  | V3 "(sr1, wq1, lc2) tables"
  | V4 "(sr1, wq4, lc2) tables"
  | V5 "(sr1, wq5, lc2) tables"
  | V6 "(sr6, wq5, lc2) tables"
  | V7 "(sr6, wq5, lc2) tables7"
  | V8 "(sr6, wq8, lc2) tables7"
  | V9 "(sr6, wq9, lc2) tables7"
  | V10 db

fun version :: "vdb \<Rightarrow> nat" where
  "version V0 = 0" | "version (V1 d) = 1" | "version (V2 d) = 2" | "version (V3 d) = 3"
| "version (V4 d) = 4" | "version (V5 d) = 5" | "version (V6 d) = 6" | "version (V7 d) = 7"
| "version (V8 d) = 8" | "version (V9 d) = 9" | "version (V10 d) = 10"

section \<open>Statements\<close>

text \<open>CREATE UNIQUE INDEX, and a UNIQUE constraint of a table that rows are copied into.\<close>

definition unique_index :: "string \<Rightarrow> ('r \<Rightarrow> 'k) \<Rightarrow> 'r list \<Rightarrow> 'a \<Rightarrow> 'a res" where
  "unique_index cols k rows x =
     (if distinct (map k rows) then Inr x else Inl (New (''UNIQUE constraint failed: '' @ cols)))"

text \<open>\<open>ROW_NUMBER() OVER (PARTITION BY p ORDER BY o)\<close>, for an order without ties.\<close>

definition row_number :: "('r \<Rightarrow> 'p) \<Rightarrow> ('r \<Rightarrow> 'o::linorder) \<Rightarrow> 'r list \<Rightarrow> 'r \<Rightarrow> nat" where
  "row_number p ord rows r = 1 + length (filter (\<lambda>x. p x = p r \<and> ord x < ord r) rows)"

text \<open>The column \<open>MAX(i)\<close> of a SELECT with GROUP BY g.\<close>

definition group_max :: "('r \<Rightarrow> 'g) \<Rightarrow> ('r \<Rightarrow> int) \<Rightarrow> 'r list \<Rightarrow> int list" where
  "group_max g i rows = map (\<lambda>r. Max (set (map i (filter (\<lambda>x. g x = g r) rows)))) rows"

text \<open>\<open>sqlite_sequence\<close> of a table whose rows were inserted with their ids.\<close>

definition seq_of :: "('r \<Rightarrow> int) \<Rightarrow> 'r list \<Rightarrow> int" where
  "seq_of i rows = fold max (map i rows) 0"

definition change_tables ::
  "('a list \<Rightarrow> 'sr list) \<Rightarrow> ('b list \<Rightarrow> 'wq list) \<Rightarrow> ('a, 'b, 'lc) tables \<Rightarrow> ('sr, 'wq, 'lc) tables"
where
  "change_tables f g d = \<lparr>t_libraries = t_libraries d, t_lib_seq = t_lib_seq d,
     t_scan_results = f (t_scan_results d), t_sr_seq = t_sr_seq d,
     t_work_queue = g (t_work_queue d), t_wq_seq = t_wq_seq d,
     t_lyrics_cache = t_lyrics_cache d, t_lc_seq = t_lc_seq d\<rparr>"

definition change_tables7 ::
  "('a list \<Rightarrow> 'sr list) \<Rightarrow> ('b list \<Rightarrow> 'wq list) \<Rightarrow> ('a, 'b, 'lc) tables7 \<Rightarrow> ('sr, 'wq, 'lc) tables7"
where
  "change_tables7 f g d = tables.extend (change_tables f g (tables.truncate d)) (tables7.fields (t_api_keys d))"

section \<open>The migrations\<close>

text \<open>
  001: the tables, empty. The table \<open>api_keys\<close>, which nothing uses (the keys are in that of migration 007),
  and the partial index \<open>idx_work_queue_pending\<close>, which does not constrain rows, are left out.
\<close>

definition up1 :: "(sr1, wq1, lc1) tables" where
  "up1 = \<lparr>t_libraries = [], t_lib_seq = 0, t_scan_results = [], t_sr_seq = 0, t_work_queue = [], t_wq_seq = 0,
     t_lyrics_cache = [], t_lc_seq = 0\<rparr>"

text \<open>
  002: the cache is copied into a table with a column \<open>album\<close>. The copy brings its own AUTOINCREMENT
  sequence, which starts at the highest id that was copied.
\<close>

definition add_album :: "lc1 \<Rightarrow> lc2" where
  "add_album r = lc1.extend r (lc2.fields '''')"

definition up2 :: "(sr1, wq1, lc1) tables \<Rightarrow> (sr1, wq1, lc2) tables res" where
  "up2 d =
     (let rows = map add_album (t_lyrics_cache d)
      in unique_index ''lyrics_cache_new.artist, lyrics_cache_new.title, lyrics_cache_new.album''
           (\<lambda>r. (c_artist r, c_title r, c_album r)) rows
           \<lparr>t_libraries = t_libraries d, t_lib_seq = t_lib_seq d, t_scan_results = t_scan_results d, t_sr_seq = t_sr_seq d,
            t_work_queue = t_work_queue d, t_wq_seq = t_wq_seq d, t_lyrics_cache = rows, t_lc_seq = seq_of c_id rows\<rparr>)"

text \<open>003: of each file of a library the row with the highest id stays, then the pair is unique.\<close>

definition r_key :: "'a sr1_scheme \<Rightarrow> int \<times> string" where
  "r_key r = (r_library_id r, r_file_path r)"

definition up3 :: "(sr1, wq1, lc2) tables \<Rightarrow> (sr1, wq1, lc2) tables res" where
  "up3 d =
     (let newest = group_max r_key r_id (t_scan_results d);
          rows = sql_delete (\<lambda>r. r_id r \<notin> set newest) (t_scan_results d)
      in unique_index ''scan_results.library_id, scan_results.file_path'' r_key rows (d\<lparr>t_scan_results := rows\<rparr>))"

text \<open>
  004: the columns of the backoff; the normalized keys (the trigger of 001 stamps every row; no
  \<open>next_attempt_at\<close> is blank, since the column was just added with another default); of each song one row
  stays, an open one before a finished one and an older one before a newer one.
\<close>

definition add_backoff :: "wq1 \<Rightarrow> wq4" where
  "add_backoff r = wq1.extend r (wq4.fields '''' '''' '''' 0 0 '''' None)"

definition fill_keys :: "unicode_env \<Rightarrow> int \<Rightarrow> wq4 list \<Rightarrow> wq4 list" where
  "fill_keys u dbt = sql_update (\<lambda>r. q_artist_key r = '''' \<or> q_title_key r = '''')
     (\<lambda>r. r\<lparr>q_artist_key := NormalizeKey u (q_artist r), q_title_key := NormalizeKey u (q_title r), q_updated_at := dbt\<rparr>)"

definition q_key :: "'a wq4_scheme \<Rightarrow> string \<times> string" where
  "q_key r = (q_artist_key r, q_title_key r)"

definition keep_order :: "'a wq1_scheme \<Rightarrow> int \<times> int" where
  "keep_order r = (if q_status r \<in> {Pending, Processing} then 0 else 1, q_id r)"

definition drop_duplicates :: "wq4 list \<Rightarrow> wq4 list" where
  "drop_duplicates rows =
     (let gone = map q_id (filter (\<lambda>r. 1 < row_number q_key keep_order rows r) rows)
      in sql_delete (\<lambda>r. q_id r \<in> set gone) rows)"

definition up4 :: "unicode_env \<Rightarrow> int \<Rightarrow> (sr1, wq1, lc2) tables \<Rightarrow> (sr1, wq4, lc2) tables res" where
  "up4 u dbt d =
     (let rows = drop_duplicates (fill_keys u dbt (map add_backoff (t_work_queue d)))
      in unique_index ''work_queue.artist_key, work_queue.title_key'' q_key rows (change_tables id (\<lambda>_. rows) d))"

text \<open>005, 006, 007 and 008: new columns and the table \<open>api_key_metadata\<close>.\<close>

definition up5 :: "(sr1, wq4, lc2) tables \<Rightarrow> (sr1, wq5, lc2) tables" where
  "up5 = change_tables id (map (\<lambda>r. wq4.extend r (wq5.fields PathsEmpty)))"

definition up6 :: "(sr1, wq5, lc2) tables \<Rightarrow> (sr6, wq5, lc2) tables" where
  "up6 = change_tables (map (\<lambda>r. sr1.extend r (sr6.fields '''' ''''))) id"

definition up7 :: "(sr6, wq5, lc2) tables \<Rightarrow> (sr6, wq5, lc2) tables7" where
  "up7 d = tables.extend d (tables7.fields [])"

definition up8 :: "(sr6, wq5, lc2) tables7 \<Rightarrow> (sr6, wq8, lc2) tables7" where
  "up8 = change_tables7 id (map (\<lambda>r. wq5.extend r (wq8.fields '''')))"

text \<open>009: the link to a scan result; results that were being processed are pending again.\<close>

definition up9 :: "(sr6, wq8, lc2) tables7 \<Rightarrow> (sr6, wq9, lc2) tables7" where
  "up9 = change_tables7 (sql_update (\<lambda>s. r_status s = Processing) (\<lambda>s. s\<lparr>r_status := Pending\<rparr>))
     (map (\<lambda>r. wq8.extend r (wq9.fields None)))"

text \<open>010: the junction, with the links there are; then the tables are those of theory \<open>Database\<close>.\<close>

definition insert_or_ignore :: "'r list \<Rightarrow> 'r list \<Rightarrow> 'r list" where
  "insert_or_ignore new rows = fold (\<lambda>p rows. if p \<in> set rows then rows else rows @ [p]) new rows"

definition links_of :: "wq9 list \<Rightarrow> (int \<times> int) list" where
  "links_of rows = List.map_filter (\<lambda>r. map_option (Pair (q_id r)) (q_scan_result_id r)) rows"

definition wq_row10 :: "wq9 \<Rightarrow> wq_row" where
  "wq_row10 r = \<lparr>wq_id = q_id r, wq_artist = q_artist r, wq_title = q_title r, wq_artist_key = q_artist_key r,
     wq_title_key = q_title_key r, wq_outdir = q_outdir r, wq_filename = q_filename r, wq_source_path = q_source_path r,
     wq_output_paths = q_output_paths r, wq_scan_result_id = q_scan_result_id r, wq_status = q_status r,
     wq_priority = q_priority r, wq_attempts = q_attempts r, wq_next_attempt_at = q_next_attempt_at r,
     wq_last_error = q_last_error r, wq_created_at = q_created_at r, wq_updated_at = q_updated_at r,
     wq_completed_at = q_completed_at r\<rparr>"

definition sr_row10 :: "sr6 \<Rightarrow> sr_row" where
  "sr_row10 r = \<lparr>sc_id = r_id r, sc_library_id = r_library_id r, sc_file_path = r_file_path r, sc_artist = r_artist r,
     sc_title = r_title r, sc_outdir = r_outdir r, sc_filename = r_filename r, sc_status = r_status r,
     sc_created_at = r_created_at r\<rparr>"

definition lc_row10 :: "lc2 \<Rightarrow> cache_row" where
  "lc_row10 r = \<lparr>lc_id = c_id r, lc_artist = c_artist r, lc_title = c_title r, lc_album = c_album r,
     lc_lyrics = c_lyrics r, lc_created_at = c_created_at r, lc_updated_at = c_updated_at r\<rparr>"

definition up10 :: "(sr6, wq9, lc2) tables7 \<Rightarrow> db res" where
  "up10 d =
     (let links = links_of (t_work_queue d)
      in if \<exists>(w, s)\<in>set links. s \<notin> set (map r_id (t_scan_results d)) then Inl (New ''FOREIGN KEY constraint failed'')
         else Inr \<lparr>libraries = t_libraries d, lib_seq = t_lib_seq d,
           scan_results = map sr_row10 (t_scan_results d), sr_seq = t_sr_seq d,
           work_queue = map wq_row10 (t_work_queue d), wq_seq = t_wq_seq d, junction = insert_or_ignore links [],
           lyrics_cache = map lc_row10 (t_lyrics_cache d), lc_seq = t_lc_seq d, api_keys = t_api_keys d\<rparr>)"

text \<open>The next migration of a database, at an instant \<open>dbt\<close>; the last version has none.\<close>

fun migration :: "unicode_env \<Rightarrow> int \<Rightarrow> vdb \<Rightarrow> vdb res" where
  "migration u dbt V0 = Inr (V1 up1)"
| "migration u dbt (V1 d) = map_sum id V2 (up2 d)"
| "migration u dbt (V2 d) = map_sum id V3 (up3 d)"
| "migration u dbt (V3 d) = map_sum id V4 (up4 u dbt d)"
| "migration u dbt (V4 d) = Inr (V5 (up5 d))"
| "migration u dbt (V5 d) = Inr (V6 (up6 d))"
| "migration u dbt (V6 d) = Inr (V7 (up7 d))"
| "migration u dbt (V7 d) = Inr (V8 (up8 d))"
| "migration u dbt (V8 d) = Inr (V9 (up9 d))"
| "migration u dbt (V9 d) = map_sum id V10 (up10 d)"
| "migration u dbt (V10 d) = Inr (V10 d)"

inductive migrates :: "unicode_env \<Rightarrow> vdb \<Rightarrow> vdb \<Rightarrow> bool" for u where
  step: "version V < 10 \<Longrightarrow> migration u dbt V = Inr V' \<Longrightarrow> migrates u V V'"

section \<open>The constraints of each version\<close>

definition libs_part :: "('sr, 'wq, 'lc, 'm) tables_scheme \<Rightarrow> bool" where
  "libs_part d \<longleftrightarrow> ids_ok lb_id (t_lib_seq d) (t_libraries d) \<and> distinct (map lb_path (t_libraries d))"

definition scan_part :: "('a sr1_scheme, 'wq, 'lc, 'm) tables_scheme \<Rightarrow> bool" where
  "scan_part d \<longleftrightarrow> ids_ok r_id (t_sr_seq d) (t_scan_results d) \<and>
     r_library_id ` set (t_scan_results d) \<subseteq> lb_id ` set (t_libraries d)"

definition files_part :: "('a sr1_scheme, 'wq, 'lc, 'm) tables_scheme \<Rightarrow> bool" where
  "files_part d \<longleftrightarrow> distinct (map r_key (t_scan_results d))"

definition cache_part1 :: "('sr, 'wq, 'a lc1_scheme, 'm) tables_scheme \<Rightarrow> bool" where
  "cache_part1 d \<longleftrightarrow> ids_ok c_id (t_lc_seq d) (t_lyrics_cache d) \<and>
     distinct (map (\<lambda>r. (c_artist r, c_title r)) (t_lyrics_cache d))"

definition cache_part :: "('sr, 'wq, 'a lc2_scheme, 'm) tables_scheme \<Rightarrow> bool" where
  "cache_part d \<longleftrightarrow> ids_ok c_id (t_lc_seq d) (t_lyrics_cache d) \<and>
     distinct (map (\<lambda>r. (c_artist r, c_title r, c_album r)) (t_lyrics_cache d))"

definition queue_part1 :: "('sr, 'a wq1_scheme, 'lc, 'm) tables_scheme \<Rightarrow> bool" where
  "queue_part1 d \<longleftrightarrow> ids_ok q_id (t_wq_seq d) (t_work_queue d)"

definition queue_part :: "('sr, 'a wq4_scheme, 'lc, 'm) tables_scheme \<Rightarrow> bool" where
  "queue_part d \<longleftrightarrow> ids_ok q_id (t_wq_seq d) (t_work_queue d) \<and> distinct (map q_key (t_work_queue d))"

definition links_part :: "('a sr1_scheme, 'b wq9_scheme, 'lc, 'm) tables_scheme \<Rightarrow> bool" where
  "links_part d \<longleftrightarrow> (\<forall>r\<in>set (t_work_queue d). link_ok (r_id ` set (t_scan_results d)) (q_scan_result_id r))"

definition keys_part :: "('sr, 'wq, 'lc, 'm) tables7_scheme \<Rightarrow> bool" where
  "keys_part d \<longleftrightarrow> distinct (map ak_id (t_api_keys d)) \<and> distinct (map ak_hash (t_api_keys d))"

text \<open>\<open>db_wf\<close> without what the queue promises of its rows, which no constraint of the schema says.\<close>

definition db_schema :: "db \<Rightarrow> bool" where
  "db_schema d \<longleftrightarrow>
     ids_ok wq_id (wq_seq d) (work_queue d) \<and> distinct (map wq_key (work_queue d)) \<and>
     (\<forall>r\<in>set (work_queue d). link_ok (sr_ids d) (wq_scan_result_id r)) \<and>
     wf_scan d \<and> wf_junction d \<and> wf_libraries d \<and> wf_cache d \<and> wf_keys d"

fun schema_ok :: "vdb \<Rightarrow> bool" where
  "schema_ok V0 \<longleftrightarrow> True"
| "schema_ok (V1 d) \<longleftrightarrow> libs_part d \<and> scan_part d \<and> cache_part1 d \<and> queue_part1 d"
| "schema_ok (V2 d) \<longleftrightarrow> libs_part d \<and> scan_part d \<and> cache_part d \<and> queue_part1 d"
| "schema_ok (V3 d) \<longleftrightarrow> libs_part d \<and> scan_part d \<and> files_part d \<and> cache_part d \<and> queue_part1 d"
| "schema_ok (V4 d) \<longleftrightarrow> libs_part d \<and> scan_part d \<and> files_part d \<and> cache_part d \<and> queue_part d"
| "schema_ok (V5 d) \<longleftrightarrow> libs_part d \<and> scan_part d \<and> files_part d \<and> cache_part d \<and> queue_part d"
| "schema_ok (V6 d) \<longleftrightarrow> libs_part d \<and> scan_part d \<and> files_part d \<and> cache_part d \<and> queue_part d"
| "schema_ok (V7 d) \<longleftrightarrow> libs_part d \<and> scan_part d \<and> files_part d \<and> cache_part d \<and> queue_part d \<and> keys_part d"
| "schema_ok (V8 d) \<longleftrightarrow> libs_part d \<and> scan_part d \<and> files_part d \<and> cache_part d \<and> queue_part d \<and> keys_part d"
| "schema_ok (V9 d) \<longleftrightarrow> libs_part d \<and> scan_part d \<and> files_part d \<and> cache_part d \<and> queue_part d \<and> keys_part d \<and> links_part d"
| "schema_ok (V10 d) \<longleftrightarrow> db_schema d"

lemmas part_defs = libs_part_def scan_part_def files_part_def cache_part1_def cache_part_def queue_part1_def
  queue_part_def links_part_def keys_part_def

text \<open>
  What the queue promises of its rows, on the columns a version has: before 004 nothing was ever completed
  or failed, from then on it is \<open>wq_row_ok\<close>, and from 005 on the paths are readable.
\<close>

definition promise4 :: "'a wq4_scheme \<Rightarrow> bool" where
  "promise4 r \<longleftrightarrow> (q_completed_at r \<noteq> None \<longleftrightarrow> q_status r = Done) \<and>
     (q_status r \<in> {Pending, Done} \<longrightarrow> q_last_error r = '''') \<and>
     (q_status r = Failed \<longrightarrow> 1 \<le> q_attempts r) \<and> 0 \<le> q_attempts r"

definition promise5 :: "'a wq5_scheme \<Rightarrow> bool" where
  "promise5 r \<longleftrightarrow> promise4 r \<and> q_output_paths r \<noteq> PathsCorrupt"

fun rows_ok :: "vdb \<Rightarrow> bool" where
  "rows_ok V0 \<longleftrightarrow> True"
| "rows_ok (V1 d) \<longleftrightarrow> (\<forall>r\<in>set (t_work_queue d). q_status r \<in> {Pending, Processing})"
| "rows_ok (V2 d) \<longleftrightarrow> (\<forall>r\<in>set (t_work_queue d). q_status r \<in> {Pending, Processing})"
| "rows_ok (V3 d) \<longleftrightarrow> (\<forall>r\<in>set (t_work_queue d). q_status r \<in> {Pending, Processing})"
| "rows_ok (V4 d) \<longleftrightarrow> (\<forall>r\<in>set (t_work_queue d). promise4 r)"
| "rows_ok (V5 d) \<longleftrightarrow> (\<forall>r\<in>set (t_work_queue d). promise5 r)"
| "rows_ok (V6 d) \<longleftrightarrow> (\<forall>r\<in>set (t_work_queue d). promise5 r)"
| "rows_ok (V7 d) \<longleftrightarrow> (\<forall>r\<in>set (t_work_queue d). promise5 r)"
| "rows_ok (V8 d) \<longleftrightarrow> (\<forall>r\<in>set (t_work_queue d). promise5 r)"
| "rows_ok (V9 d) \<longleftrightarrow> (\<forall>r\<in>set (t_work_queue d). promise5 r)"
| "rows_ok (V10 d) \<longleftrightarrow> (\<forall>r\<in>set (work_queue d). wq_row_ok r \<and> readable r)"

lemma queue_ok_version: "queue_ok d \<longleftrightarrow> schema_ok (V10 d) \<and> rows_ok (V10 d)"
  by (auto simp: queue_ok_def all_readable_def db_schema_def db_wf_def wf_queue_def)

section \<open>Deduplication\<close>

text \<open>The rows that come first of their partition.\<close>

definition survivors :: "('r \<Rightarrow> 'p) \<Rightarrow> ('r \<Rightarrow> 'o::linorder) \<Rightarrow> 'r list \<Rightarrow> 'r list" where
  "survivors p ord rows = filter (\<lambda>r. \<forall>x\<in>set rows. p x = p r \<longrightarrow> ord r \<le> ord x) rows"

lemma row_number_first: "1 < row_number p ord rows r \<longleftrightarrow> (\<exists>x\<in>set rows. p x = p r \<and> ord x < ord r)"
  by (auto simp: row_number_def filter_empty_conv)

lemma survivors_map: "survivors p ord (map f rows) = map f (survivors (p \<circ> f) (ord \<circ> f) rows)"
  by (simp add: survivors_def filter_map comp_def)

lemma survivors_cong: "(\<And>r. r \<in> set rows \<Longrightarrow> p r = p' r \<and> ord r = ord' r) \<Longrightarrow> survivors p ord rows = survivors p' ord' rows"
  by (simp add: survivors_def cong: filter_cong)

lemma survivors_all: "distinct (map p rows) \<Longrightarrow> survivors p ord rows = rows"
  by (auto simp: survivors_def distinct_map inj_on_def intro!: filter_True)

lemma survivors_distinct:
  assumes "distinct (map ord rows)"
  shows "distinct (map p (survivors p ord rows))"
proof -
  have "r = x" if "r \<in> set (survivors p ord rows)" "x \<in> set (survivors p ord rows)" "p r = p x" for r x
  proof -
    have "ord r = ord x" "r \<in> set rows" "x \<in> set rows" using that by (auto simp: survivors_def intro: order_antisym)
    with assms show ?thesis by (auto simp: distinct_map dest: inj_onD)
  qed
  then show ?thesis
    using assms by (auto simp: distinct_map inj_on_def survivors_def)
qed

lemma survivors_cover: "p ` set (survivors p ord rows) = p ` set rows"
proof
  show "p ` set rows \<subseteq> p ` set (survivors p ord rows)"
  proof
    fix k assume "k \<in> p ` set rows"
    then have "ord ` {x \<in> set rows. p x = k} \<noteq> {}" by auto
    from Min_in [OF _ this] obtain r where "r \<in> set rows" "p r = k" "ord r = Min (ord ` {x \<in> set rows. p x = k})" by force
    then have "r \<in> set (survivors p ord rows)" by (auto simp: survivors_def)
    with \<open>p r = k\<close> show "k \<in> p ` set (survivors p ord rows)" by blast
  qed
qed (auto simp: survivors_def)

text \<open>The DELETE statements of 003 and 004 leave the survivors.\<close>

lemma drop_duplicates_survivors:
  assumes "distinct (map q_id rows)"
  shows "drop_duplicates rows = survivors q_key keep_order rows"
proof -
  have "q_id r \<in> q_id ` {x \<in> set rows. 1 < row_number q_key keep_order rows x} \<longleftrightarrow> 1 < row_number q_key keep_order rows r"
    if "r \<in> set rows" for r
    using assms that by (auto simp: distinct_map dest: inj_onD)
  then have "drop_duplicates rows = filter (\<lambda>r. \<not> 1 < row_number q_key keep_order rows r) rows"
    by (simp add: drop_duplicates_def sql_delete_def cong: filter_cong)
  then show ?thesis by (simp only: survivors_def row_number_first) (auto simp: not_less intro: filter_cong)
qed

lemma group_max_survivors:
  assumes "distinct (map i rows)"
  shows "sql_delete (\<lambda>r. i r \<notin> set (group_max g i rows)) rows = survivors g (\<lambda>r. - i r) rows"
proof -
  have "i r \<in> set (group_max g i rows) \<longleftrightarrow> (\<forall>x\<in>set rows. g x = g r \<longrightarrow> - i r \<le> - i x)" if r: "r \<in> set rows" for r
  proof
    assume "i r \<in> set (group_max g i rows)"
    then obtain y where y: "y \<in> set rows" "i r = Max (i ` {x \<in> set rows. g x = g y})" by (auto simp: group_max_def)
    have "i r \<in> i ` {x \<in> set rows. g x = g y}" unfolding y(2) using y(1) by (intro Max_in) auto
    then have "g r = g y" using assms r by (auto simp: distinct_map dest: inj_onD)
    then show "\<forall>x\<in>set rows. g x = g r \<longrightarrow> - i r \<le> - i x" unfolding y(2) by auto
  next
    assume "\<forall>x\<in>set rows. g x = g r \<longrightarrow> - i r \<le> - i x"
    then have "Max (i ` {x \<in> set rows. g x = g r}) = i r" using r by (intro Max_eqI) auto
    then show "i r \<in> set (group_max g i rows)" using r by (force simp: group_max_def)
  qed
  then show ?thesis by (auto simp: sql_delete_def survivors_def intro!: filter_cong)
qed

lemma survivors_ids: "ids_ok k seq rows \<Longrightarrow> ids_ok k seq (survivors p ord rows)"
  by (simp add: ids_ok_def survivors_def sorted_wrt_map_filter)

lemma ids_ok_map: "ids_ok k seq (map f rows) \<longleftrightarrow> ids_ok (k \<circ> f) seq rows"
  by (simp add: ids_ok_def)

section \<open>What a database says, in the columns of the last version\<close>

text \<open>
  An old row read as a row of theory \<open>Database\<close>: the columns it does not have hold what the migrations
  promise of them, the keys are the normalized names. The time of the last change is left out, since 004
  stamps every row, and a scan result that is being processed counts as pending.
\<close>

definition song1 :: "unicode_env \<Rightarrow> 'a wq1_scheme \<Rightarrow> wq_row" where
  "song1 u r = \<lparr>wq_id = q_id r, wq_artist = q_artist r, wq_title = q_title r, wq_artist_key = NormalizeKey u (q_artist r),
     wq_title_key = NormalizeKey u (q_title r), wq_outdir = q_outdir r, wq_filename = '''', wq_source_path = '''',
     wq_output_paths = PathsEmpty, wq_scan_result_id = None, wq_status = q_status r, wq_priority = q_priority r,
     wq_attempts = 0, wq_next_attempt_at = 0, wq_last_error = '''', wq_created_at = q_created_at r, wq_updated_at = 0,
     wq_completed_at = None\<rparr>"

definition song4 :: "unicode_env \<Rightarrow> 'a wq4_scheme \<Rightarrow> wq_row" where
  "song4 u r = (song1 u r)\<lparr>wq_artist_key := q_artist_key r, wq_title_key := q_title_key r, wq_filename := q_filename r,
     wq_attempts := q_attempts r, wq_next_attempt_at := q_next_attempt_at r, wq_last_error := q_last_error r,
     wq_completed_at := q_completed_at r\<rparr>"

definition song5 :: "unicode_env \<Rightarrow> 'a wq5_scheme \<Rightarrow> wq_row" where
  "song5 u r = (song4 u r)\<lparr>wq_output_paths := q_output_paths r\<rparr>"

definition song8 :: "unicode_env \<Rightarrow> 'a wq8_scheme \<Rightarrow> wq_row" where
  "song8 u r = (song5 u r)\<lparr>wq_source_path := q_source_path r\<rparr>"

definition song9 :: "unicode_env \<Rightarrow> 'a wq9_scheme \<Rightarrow> wq_row" where
  "song9 u r = (song8 u r)\<lparr>wq_scan_result_id := q_scan_result_id r\<rparr>"

definition song10 :: "wq_row \<Rightarrow> wq_row" where
  "song10 r = r\<lparr>wq_updated_at := 0\<rparr>"

definition unclaimed :: "status \<Rightarrow> status" where
  "unclaimed st = (if st = Processing then Pending else st)"

definition file1 :: "'a sr1_scheme \<Rightarrow> sr_row" where
  "file1 r = \<lparr>sc_id = r_id r, sc_library_id = r_library_id r, sc_file_path = r_file_path r, sc_artist = r_artist r,
     sc_title = r_title r, sc_outdir = '''', sc_filename = '''', sc_status = unclaimed (r_status r), sc_created_at = r_created_at r\<rparr>"

definition file6 :: "'a sr6_scheme \<Rightarrow> sr_row" where
  "file6 r = (file1 r)\<lparr>sc_outdir := r_outdir r, sc_filename := r_filename r\<rparr>"

definition file10 :: "sr_row \<Rightarrow> sr_row" where
  "file10 r = r\<lparr>sc_status := unclaimed (sc_status r)\<rparr>"

definition cached1 :: "'a lc1_scheme \<Rightarrow> cache_row" where
  "cached1 r = \<lparr>lc_id = c_id r, lc_artist = c_artist r, lc_title = c_title r, lc_album = '''', lc_lyrics = c_lyrics r,
     lc_created_at = c_created_at r, lc_updated_at = c_updated_at r\<rparr>"

definition cached2 :: "'a lc2_scheme \<Rightarrow> cache_row" where
  "cached2 r = (cached1 r)\<lparr>lc_album := c_album r\<rparr>"

text \<open>
  The meaning of a database: of each song the queue row that counts (an open one before a finished one,
  then the oldest), of each file the newest result, and everything else as it is.
\<close>

record contents =
  vw_libraries :: "lib_row list"
  vw_seqs :: "int \<times> int \<times> int"
  vw_files :: "sr_row list"
  vw_songs :: "wq_row list"
  vw_cache :: "cache_row list"
  vw_keys :: "key_row list"
  vw_links :: "(int \<times> int) set"

definition song_order :: "wq_row \<Rightarrow> int \<times> int" where
  "song_order r = (if wq_status r \<in> {Pending, Processing} then 0 else 1, wq_id r)"

definition view_of ::
  "lib_row list \<Rightarrow> int \<times> int \<times> int \<Rightarrow> sr_row list \<Rightarrow> wq_row list \<Rightarrow> cache_row list \<Rightarrow> key_row list \<Rightarrow> (int \<times> int) set \<Rightarrow> contents"
where
  "view_of libs seqs files songs cached keys links =
     \<lparr>vw_libraries = libs, vw_seqs = seqs, vw_files = survivors sr_key (\<lambda>r. - sc_id r) files,
      vw_songs = survivors wq_key song_order songs, vw_cache = cached, vw_keys = keys, vw_links = links\<rparr>"

definition table_view ::
  "('sr \<Rightarrow> sr_row) \<Rightarrow> ('wq \<Rightarrow> wq_row) \<Rightarrow> ('lc \<Rightarrow> cache_row) \<Rightarrow> key_row list \<Rightarrow> (int \<times> int) set \<Rightarrow> ('sr, 'wq, 'lc, 'm) tables_scheme \<Rightarrow> contents"
where
  "table_view fl sg ch keys links d =
     view_of (t_libraries d) (t_lib_seq d, t_sr_seq d, t_wq_seq d) (map fl (t_scan_results d)) (map sg (t_work_queue d))
       (map ch (t_lyrics_cache d)) keys links"

fun view :: "unicode_env \<Rightarrow> vdb \<Rightarrow> contents" where
  "view u V0 = view_of [] (0, 0, 0) [] [] [] [] {}"
| "view u (V1 d) = table_view file1 (song1 u) cached1 [] {} d"
| "view u (V2 d) = table_view file1 (song1 u) cached2 [] {} d"
| "view u (V3 d) = table_view file1 (song1 u) cached2 [] {} d"
| "view u (V4 d) = table_view file1 (song4 u) cached2 [] {} d"
| "view u (V5 d) = table_view file1 (song5 u) cached2 [] {} d"
| "view u (V6 d) = table_view file6 (song5 u) cached2 [] {} d"
| "view u (V7 d) = table_view file6 (song5 u) cached2 (t_api_keys d) {} d"
| "view u (V8 d) = table_view file6 (song8 u) cached2 (t_api_keys d) {} d"
| "view u (V9 d) = table_view file6 (song9 u) cached2 (t_api_keys d)
     {(q_id r, s) | r s. r \<in> set (t_work_queue d) \<and> q_scan_result_id r = Some s} d"
| "view u (V10 d) = view_of (libraries d) (lib_seq d, sr_seq d, wq_seq d) (map file10 (scan_results d))
     (map song10 (work_queue d)) (lyrics_cache d) (api_keys d) (set (junction d))"

lemmas song_defs = song1_def song4_def song5_def song8_def song9_def song10_def
lemmas file_defs = file1_def file6_def file10_def unclaimed_def
lemmas cached_defs = cached1_def cached2_def
lemmas extend_defs = sr1.defs sr6.defs lc1.defs lc2.defs wq1.defs wq4.defs wq5.defs wq8.defs wq9.defs tables.defs tables7.defs

section \<open>Every migration keeps what the database says\<close>

lemma keeps_up1: "schema_ok (V1 up1) \<and> rows_ok (V1 up1) \<and> view u (V1 up1) = view u V0"
  by (simp add: part_defs up1_def table_view_def)

lemma fold_max_ge: "(s::int) \<le> fold max xs s \<and> (\<forall>x\<in>set xs. x \<le> fold max xs s)"
proof (induction xs arbitrary: s)
  case (Cons x xs)
  from Cons.IH [of "max x s"] show ?case by auto
qed simp

lemma seq_of_ge: "0 \<le> seq_of i rows \<and> (\<forall>r\<in>set rows. i r \<le> seq_of i rows)"
  using fold_max_ge [of 0 "map i rows"] by (simp add: seq_of_def)

lemma up2_Inr:
  assumes "schema_ok (V1 d)"
  shows "\<exists>d'. up2 d = Inr d' \<and> schema_ok (V2 d') \<and> rows_ok (V2 d') = rows_ok (V1 d) \<and> view u (V2 d') = view u (V1 d)"
proof -
  let ?rows = "map add_album (t_lyrics_cache d)"
  have al: "c_id (add_album r) = c_id r" "c_artist (add_album r) = c_artist r" "c_title (add_album r) = c_title r"
    "c_album (add_album r) = ''''" "cached2 (add_album r) = cached1 r" for r
    by (simp_all add: add_album_def extend_defs cached_defs)
  have dup: "distinct (map (\<lambda>r. (c_artist r, c_title r, c_album r)) ?rows)"
    using assms by (auto simp: cache_part1_def distinct_map inj_on_def comp_def al)
  have ids: "ids_ok c_id (seq_of c_id ?rows) ?rows"
    using assms seq_of_ge [of c_id ?rows] by (simp add: cache_part1_def ids_ok_def al comp_def)
  show ?thesis
    unfolding up2_def Let_def unique_index_def if_P [OF dup]
    using assms ids dup by (simp add: part_defs table_view_def al comp_def)
qed

lemma ids_neg: "ids_ok k seq rows \<Longrightarrow> distinct (map (\<lambda>r. - k r) rows)"
  by (drule ids_ok_distinct) (simp add: distinct_map inj_on_def)

lemma survivors_hom: "(\<And>r. p' (h r) = p r \<and> ord' (h r) = ord r) \<Longrightarrow> survivors p' ord' (map h rows) = map h (survivors p ord rows)"
  by (simp add: survivors_map comp_def)

lemma survivors_idem: "survivors p ord (survivors p ord rows) = survivors p ord rows"
  unfolding survivors_def by (simp, intro filter_cong) auto

lemma file_key [simp]:
  "sr_key (file1 r) = r_key r" "sc_id (file1 r) = r_id r"
  "sr_key (file6 s) = r_key s" "sc_id (file6 s) = r_id s"
  by (simp_all add: file_defs sr_key_def r_key_def)

lemma survivors_files1: "survivors sr_key (\<lambda>r. - sc_id r) (map file1 rows) = map file1 (survivors r_key (\<lambda>r. - r_id r) rows)"
  by (rule survivors_hom) simp

lemma up3_Inr:
  assumes "schema_ok (V2 d)"
  shows "\<exists>d'. up3 d = Inr d' \<and> schema_ok (V3 d') \<and> rows_ok (V3 d') = rows_ok (V2 d) \<and> view u (V3 d') = view u (V2 d)"
proof -
  let ?rows = "survivors r_key (\<lambda>r. - r_id r) (t_scan_results d)"
  have ids: "ids_ok r_id (t_sr_seq d) (t_scan_results d)" using assms by (simp add: scan_part_def)
  have eq: "sql_delete (\<lambda>r. r_id r \<notin> set (group_max r_key r_id (t_scan_results d))) (t_scan_results d) = ?rows"
    by (rule group_max_survivors [OF ids_ok_distinct [OF ids]])
  have dup: "distinct (map r_key ?rows)" by (rule survivors_distinct [OF ids_neg [OF ids]])
  have "set ?rows \<subseteq> set (t_scan_results d)" by (simp add: survivors_def)
  then have sub: "r_library_id ` set ?rows \<subseteq> lb_id ` set (t_libraries d)" using assms by (auto simp: scan_part_def)
  show ?thesis
    unfolding up3_def Let_def eq unique_index_def if_P [OF dup]
    using assms dup sub by (simp add: part_defs table_view_def view_of_def survivors_files1 survivors_idem survivors_ids)
qed

text \<open>The rows of 004 before the deletion, and how they read.\<close>

definition backoff_row :: "unicode_env \<Rightarrow> int \<Rightarrow> wq1 \<Rightarrow> wq4" where
  "backoff_row u dbt r = (add_backoff r)\<lparr>q_artist_key := NormalizeKey u (q_artist r), q_title_key := NormalizeKey u (q_title r),
     q_updated_at := dbt\<rparr>"

lemma fill_keys_all: "fill_keys u dbt (map add_backoff rows) = map (backoff_row u dbt) rows"
  by (simp add: fill_keys_def sql_update_def backoff_row_def add_backoff_def extend_defs)

lemma backoff_row_simps [simp]:
  "q_id (backoff_row u t r) = q_id r" "keep_order (backoff_row u t r) = song_order (song1 u r)"
  "q_key (backoff_row u t r) = wq_key (song1 u r)" "song4 u (backoff_row u t r) = song1 u r"
  "q_status (backoff_row u t r) = q_status r" "q_completed_at (backoff_row u t r) = None"
  "q_last_error (backoff_row u t r) = ''''" "q_attempts (backoff_row u t r) = 0"
  by (simp_all add: backoff_row_def add_backoff_def extend_defs song_defs keep_order_def song_order_def q_key_def wq_key_def)

lemma keep_order_inj: "distinct (map q_id rows) \<Longrightarrow> distinct (map keep_order rows)"
  by (auto simp: distinct_map inj_on_def keep_order_def)

lemma song4_key [simp]: "wq_key (song4 u r) = q_key r" "song_order (song4 u r) = keep_order r"
  by (simp_all add: song_defs wq_key_def q_key_def song_order_def keep_order_def)

lemma up4_Inr:
  assumes "schema_ok (V3 d)"
  shows "\<exists>d'. up4 u dbt d = Inr d' \<and> schema_ok (V4 d') \<and> (rows_ok (V3 d) \<longrightarrow> rows_ok (V4 d')) \<and> view u (V4 d') = view u (V3 d)"
proof -
  let ?all = "map (backoff_row u dbt) (t_work_queue d)"
  let ?rows = "survivors q_key keep_order ?all"
  have "ids_ok q_id (t_wq_seq d) (t_work_queue d)" using assms by (simp add: queue_part1_def)
  then have ids: "ids_ok q_id (t_wq_seq d) ?all" by (simp add: ids_ok_map comp_def)
  have eq: "drop_duplicates (fill_keys u dbt (map add_backoff (t_work_queue d))) = ?rows"
    unfolding fill_keys_all by (rule drop_duplicates_survivors [OF ids_ok_distinct [OF ids]])
  have dup: "distinct (map q_key ?rows)" by (rule survivors_distinct [OF keep_order_inj [OF ids_ok_distinct [OF ids]]])
  have "survivors wq_key song_order (map (song4 u) ?rows) = map (song4 u) ?rows"
    by (rule survivors_all) (use dup in \<open>simp add: comp_def\<close>)
  also have "\<dots> = survivors wq_key song_order (map (song1 u) (t_work_queue d))"
    by (simp add: survivors_map comp_def)
  finally have vw: "survivors wq_key song_order (map (song4 u) ?rows) = \<dots>" .
  have "promise4 r" if "\<forall>r\<in>set (t_work_queue d). q_status r \<in> {Pending, Processing}" "r \<in> set ?rows" for r
    using that by (auto simp: survivors_def promise4_def)
  then have fine: "rows_ok (V3 d) \<longrightarrow> (\<forall>r\<in>set ?rows. promise4 r)" by simp
  show ?thesis
    unfolding up4_def Let_def eq unique_index_def if_P [OF dup]
    using assms dup vw fine by (simp add: part_defs table_view_def view_of_def survivors_ids [OF ids] change_tables_def)
qed

lemma add_columns_simps [simp]:
  "song5 u (wq4.extend r (wq5.fields PathsEmpty)) = song4 u r"
  "song8 u (wq5.extend r5 (wq8.fields '''')) = song5 u r5"
  "song9 u (wq8.extend r8 (wq9.fields None)) = song8 u r8"
  "file6 (sr1.extend s (sr6.fields '''' '''')) = file1 s"
  "q_id (wq4.extend r (wq5.fields c)) = q_id r" "q_key (wq4.extend r (wq5.fields c)) = q_key r"
  "q_id (wq5.extend r5 (wq8.fields c8)) = q_id r5" "q_key (wq5.extend r5 (wq8.fields c8)) = q_key r5"
  "q_id (wq8.extend r8 (wq9.fields c9)) = q_id r8" "q_key (wq8.extend r8 (wq9.fields c9)) = q_key r8"
  "r_id (sr1.extend s (sr6.fields a b)) = r_id s" "r_key (sr1.extend s (sr6.fields a b)) = r_key s"
  "r_library_id (sr1.extend s (sr6.fields a b)) = r_library_id s"
  "promise5 (wq4.extend r (wq5.fields PathsEmpty)) = promise4 r"
  "promise5 (wq5.extend r5 (wq8.fields c8)) = promise5 r5" "promise5 (wq8.extend r8 (wq9.fields c9)) = promise5 r8"
  "q_scan_result_id (wq8.extend r8 (wq9.fields None)) = None"
  for r :: wq4 and r5 :: wq5 and r8 :: wq8 and s :: sr1
  by (simp_all add: extend_defs song_defs file_defs q_key_def r_key_def promise4_def promise5_def)

lemma keeps_up5: "schema_ok (V4 d) \<Longrightarrow> schema_ok (V5 (up5 d)) \<and> rows_ok (V5 (up5 d)) = rows_ok (V4 d) \<and> view u (V5 (up5 d)) = view u (V4 d)"
  by (simp add: up5_def change_tables_def part_defs table_view_def comp_def ids_ok_map)

lemma keeps_up6: "schema_ok (V5 d) \<Longrightarrow> schema_ok (V6 (up6 d)) \<and> rows_ok (V6 (up6 d)) = rows_ok (V5 d) \<and> view u (V6 (up6 d)) = view u (V5 d)"
  by (simp add: up6_def change_tables_def part_defs table_view_def comp_def ids_ok_map image_image)

lemma keeps_up7: "schema_ok (V6 d) \<Longrightarrow> schema_ok (V7 (up7 d)) \<and> rows_ok (V7 (up7 d)) = rows_ok (V6 d) \<and> view u (V7 (up7 d)) = view u (V6 d)"
  by (simp add: up7_def extend_defs part_defs table_view_def)

lemma keeps_up8: "schema_ok (V7 d) \<Longrightarrow> schema_ok (V8 (up8 d)) \<and> rows_ok (V8 (up8 d)) = rows_ok (V7 d) \<and> view u (V8 (up8 d)) = view u (V7 d)"
  by (simp add: up8_def change_tables7_def change_tables_def tables.defs tables7.defs part_defs table_view_def comp_def ids_ok_map)

lemma file6_reset [simp]: "file6 (s\<lparr>r_status := Pending\<rparr>) = file6 s" if "r_status s = Processing" for s :: sr6
  using that by (simp add: file_defs)

lemma keeps_up9:
  assumes "schema_ok (V8 d)"
  shows "schema_ok (V9 (up9 d)) \<and> rows_ok (V9 (up9 d)) = rows_ok (V8 d) \<and> view u (V9 (up9 d)) = view u (V8 d)"
proof -
  let ?reset = "sql_update (\<lambda>s. r_status s = Processing) (\<lambda>s. s\<lparr>r_status := Pending\<rparr>)"
  have ids: "ids_ok r_id (t_sr_seq d) (?reset (t_scan_results d))"
    using assms by (intro ids_ok_update) (simp_all add: scan_part_def)
  have same: "map file6 (?reset rows) = map file6 rows" "map r_key (?reset rows) = map r_key rows"
    "r_library_id ` set (?reset rows) = r_library_id ` set rows" for rows :: "sr6 list"
    by (simp_all add: map_sql_update image_sql_update r_key_def)
  have none: "{(q_id r, s) |r s. r \<in> (\<lambda>r. wq8.extend r (wq9.fields None)) ` X \<and> q_scan_result_id r = Some s} = {}" for X :: "wq8 set"
    by auto
  show ?thesis
    using assms ids
    by (simp add: none up9_def change_tables7_def change_tables_def tables.defs tables7.defs part_defs table_view_def comp_def
        ids_ok_map same link_ok_def)
qed

lemma insert_or_ignore:
  "distinct rows \<Longrightarrow> distinct (insert_or_ignore new rows) \<and> set (insert_or_ignore new rows) = set rows \<union> set new"
  unfolding insert_or_ignore_def by (induction new arbitrary: rows) auto

lemma row10_simps [simp]:
  "wq_id (wq_row10 r) = q_id r" "wq_key (wq_row10 r) = q_key r"
  "wq_scan_result_id (wq_row10 r) = q_scan_result_id r" "wq_row_ok (wq_row10 r) = promise4 r"
  "readable (wq_row10 r) = (q_output_paths r \<noteq> PathsCorrupt)"
  "sc_id (sr_row10 s) = r_id s" "sr_key (sr_row10 s) = r_key s" "sc_library_id (sr_row10 s) = r_library_id s"
  "file10 (sr_row10 s) = file6 s" "lc_row10 = cached2" "lc_id (cached2 c) = c_id c"
  "lc_key (cached2 c) = (c_artist c, c_title c, c_album c)"
  by (simp_all add: fun_eq_iff wq_row10_def sr_row10_def lc_row10_def song_defs file_defs cached_defs wq_key_def q_key_def sr_key_def r_key_def
      lc_key_def wq_row_ok_def promise4_def readable_def)

lemma set_links_of: "set (links_of rows) = {(q_id r, s) | r s. r \<in> set rows \<and> q_scan_result_id r = Some s}"
  by (force simp: links_of_def List.map_filter_def)

lemma up10_Inr:
  assumes "schema_ok (V9 d)"
  shows "\<exists>d'. up10 d = Inr d' \<and> schema_ok (V10 d') \<and> rows_ok (V10 d') = rows_ok (V9 d) \<and> view u (V10 d') = view u (V9 d)"
proof -
  let ?links = "links_of (t_work_queue d)"
  have fk: "\<not> (\<exists>(w, s)\<in>set ?links. s \<notin> set (map r_id (t_scan_results d)))"
    using assms by (fastforce simp: set_links_of links_part_def link_ok_def)
  have j: "distinct (insert_or_ignore ?links [])" "set (insert_or_ignore ?links []) = set ?links"
    using insert_or_ignore [of "[]" ?links] by simp_all
  have ends: "fst ` set ?links \<subseteq> q_id ` set (t_work_queue d)" "snd ` set ?links \<subseteq> r_id ` set (t_scan_results d)"
    using assms by (fastforce simp: set_links_of links_part_def link_ok_def)+
  have song: "song10 (wq_row10 r) = song9 u r" for r by (simp add: wq_row10_def song_defs)
  show ?thesis
    unfolding up10_def Let_def if_not_P [OF fk]
    using assms j ends
    by (simp add: part_defs table_view_def comp_def ids_ok_map db_schema_def wf_scan_def wf_junction_def wf_libraries_def
        wf_cache_def wf_keys_def sr_ids_def image_image set_links_of promise5_def song)
qed

text \<open>One migration: it succeeds, and everything a database says stays said.\<close>

lemma migration_keeps:
  assumes "schema_ok V" "version V < 10"
  shows "\<exists>V'. migration u dbt V = Inr V' \<and> version V' = version V + 1 \<and> schema_ok V' \<and> (rows_ok V \<longrightarrow> rows_ok V') \<and> view u V' = view u V"
proof (cases V)
  case V0
  then show ?thesis using keeps_up1 [of u] by (simp del: schema_ok.simps rows_ok.simps view.simps)
next
  case (V1 d)
  then show ?thesis using up2_Inr [of d u] assms by (auto simp del: schema_ok.simps rows_ok.simps view.simps)
next
  case (V2 d)
  then show ?thesis using up3_Inr [of d u] assms by (auto simp del: schema_ok.simps rows_ok.simps view.simps)
next
  case (V3 d)
  then show ?thesis using up4_Inr [of d u dbt] assms by (auto simp del: schema_ok.simps rows_ok.simps view.simps)
next
  case (V4 d)
  then show ?thesis using keeps_up5 [of d u] assms by (simp del: schema_ok.simps rows_ok.simps view.simps)
next
  case (V5 d)
  then show ?thesis using keeps_up6 [of d u] assms by (simp del: schema_ok.simps rows_ok.simps view.simps)
next
  case (V6 d)
  then show ?thesis using keeps_up7 [of d u] assms by (simp del: schema_ok.simps rows_ok.simps view.simps)
next
  case (V7 d)
  then show ?thesis using keeps_up8 [of d u] assms by (simp del: schema_ok.simps rows_ok.simps view.simps)
next
  case (V8 d)
  then show ?thesis using keeps_up9 [of d u] assms by (simp del: schema_ok.simps rows_ok.simps view.simps)
next
  case (V9 d)
  then show ?thesis using up10_Inr [of d u] assms by (auto simp del: schema_ok.simps rows_ok.simps view.simps)
next
  case (V10 d)
  with assms show ?thesis by simp
qed

section \<open>Upgrades\<close>

text \<open>
  Goose applies the pending migrations in order, each in a transaction of its own, and stops at the first
  error: \<open>up io V\<close> with the errors \<open>io\<close> of the driver. That much its documentation says.
\<close>

type_synonym goose = "io \<Rightarrow> vdb \<Rightarrow> goerr option \<times> vdb"

definition goose_contract :: "unicode_env \<Rightarrow> goose \<Rightarrow> bool" where
  "goose_contract u up \<longleftrightarrow> (\<forall>io V r V'. up io V = (r, V') \<longrightarrow> (migrates u)\<^sup>*\<^sup>* V V' \<and>
     (case r of None \<Rightarrow> version V' = 10
      | Some e \<Rightarrow> (\<exists>k. io k \<noteq> None) \<or> (\<exists>dbt e'. version V' < 10 \<and> migration u dbt V' = Inl e')))"

inductive_cases migratesE: "migrates u V V'"

text \<open>The queue rows of a database, duplicates included.\<close>

fun songs :: "unicode_env \<Rightarrow> vdb \<Rightarrow> wq_row list" where
  "songs u V0 = []"
| "songs u (V1 d) = map (song1 u) (t_work_queue d)"
| "songs u (V2 d) = map (song1 u) (t_work_queue d)"
| "songs u (V3 d) = map (song1 u) (t_work_queue d)"
| "songs u (V4 d) = map (song4 u) (t_work_queue d)"
| "songs u (V5 d) = map (song5 u) (t_work_queue d)"
| "songs u (V6 d) = map (song5 u) (t_work_queue d)"
| "songs u (V7 d) = map (song5 u) (t_work_queue d)"
| "songs u (V8 d) = map (song8 u) (t_work_queue d)"
| "songs u (V9 d) = map (song9 u) (t_work_queue d)"
| "songs u (V10 d) = map song10 (work_queue d)"

lemma vw_songs: "vw_songs (view u V) = survivors wq_key song_order (songs u V)"
  by (cases V) (simp_all add: view_of_def table_view_def survivors_def)

lemma migrates_keep: "(migrates u)\<^sup>*\<^sup>* V V' \<Longrightarrow> schema_ok V \<Longrightarrow> schema_ok V' \<and> view u V' = view u V \<and> (rows_ok V \<longrightarrow> rows_ok V')"
proof (induction rule: rtranclp_induct)
  case (step V1 V2)
  from step.hyps(2) obtain t where "version V1 < 10" "migration u t V1 = Inr V2" by (auto elim: migratesE)
  with migration_keeps [of V1 u t] step show ?case by auto
qed simp

text \<open>Every row of an old queue has the row of its song in the new one, open if the old one was.\<close>

lemma same_view_same_songs:
  assumes "view u V' = view u V" "r \<in> set (songs u V)"
  shows "\<exists>s\<in>set (songs u V'). wq_key s = wq_key r \<and> song_order s \<le> song_order r"
proof -
  have "wq_key r \<in> wq_key ` set (survivors wq_key song_order (songs u V))" using assms(2) by (simp add: survivors_cover)
  then obtain s where s: "s \<in> set (survivors wq_key song_order (songs u V))" "wq_key s = wq_key r" by auto
  then have "song_order s \<le> song_order r" using assms(2) by (auto simp: survivors_def)
  moreover have "s \<in> set (vw_songs (view u V'))" using s(1) by (simp only: assms(1) vw_songs)
  then have "s \<in> set (songs u V')" by (simp add: vw_songs survivors_def)
  ultimately show ?thesis using s(2) by blast
qed

lemma version10: "version V = 10 \<longleftrightarrow> (\<exists>d. V = V10 d)"
  by (cases V) simp_all

text \<open>
  C9. An upgrade loses nothing. Whatever goose does within its contract, and wherever the driver fails:
  no migration violates a constraint, so only the driver can make the upgrade fail; the database it leaves,
  also half way, has sound tables and says the same as before: the libraries, the keys, the cached lyrics,
  the newest result of each file, and of each song the row that counts, with an open row for every song
  that had one. If it ends without error, the tables are those of the last version, and they are the sound
  tables the other theories start from if the old rows kept their promises.
\<close>
theorem upgrade_loses_nothing:
  assumes "goose_contract u up" and "schema_ok V" and "up io V = (r, V')"
  shows "schema_ok V' \<and> view u V' = view u V \<and> (rows_ok V \<longrightarrow> rows_ok V') \<and>
    (\<forall>x\<in>set (songs u V). \<exists>y\<in>set (songs u V'). wq_key y = wq_key x \<and> song_order y \<le> song_order x) \<and>
    (r = None \<longrightarrow> (\<exists>d. V' = V10 d \<and> db_schema d \<and> (rows_ok V \<longrightarrow> queue_ok d))) \<and>
    (r \<noteq> None \<longrightarrow> (\<exists>k. io k \<noteq> None))"
proof -
  from assms(1,3) have m: "(migrates u)\<^sup>*\<^sup>* V V'" and c: "case r of None \<Rightarrow> version V' = 10
      | Some e \<Rightarrow> (\<exists>k. io k \<noteq> None) \<or> (\<exists>dbt e'. version V' < 10 \<and> migration u dbt V' = Inl e')"
    unfolding goose_contract_def by blast+
  note k = migrates_keep [OF m assms(2)]
  have "migration u dbt V' \<noteq> Inl e'" if "version V' < 10" for dbt e'
    using migration_keeps [of V' u dbt] k that by auto
  with c have "r \<noteq> None \<longrightarrow> (\<exists>k. io k \<noteq> None)"
    by (auto split: option.splits)
  moreover have "\<exists>d. V' = V10 d \<and> db_schema d \<and> (rows_ok V \<longrightarrow> queue_ok d)" if "r = None"
    using c k that by (auto simp: version10 queue_ok_version simp del: rows_ok.simps)
  ultimately show ?thesis using k same_view_same_songs [of u V' V] by blast
qed

section \<open>The way back\<close>

text \<open>
  The Down sections, which the program never runs (\<open>db.Open\<close> only goes up): columns and tables are dropped
  again. 002 numbers the cached songs anew and keeps of each the lyrics that were changed last, with the
  time of the oldest. 004 drops only the indexes: the columns stay, so that its own Up would then fail at the
  first ADD COLUMN. 003 drops an index and 001 everything.
\<close>

definition wq_row9 :: "wq_row \<Rightarrow> wq9" where
  "wq_row9 r = \<lparr>q_id = wq_id r, q_artist = wq_artist r, q_title = wq_title r, q_outdir = wq_outdir r, q_status = wq_status r,
     q_priority = wq_priority r, q_created_at = wq_created_at r, q_updated_at = wq_updated_at r, q_artist_key = wq_artist_key r,
     q_title_key = wq_title_key r, q_filename = wq_filename r, q_attempts = wq_attempts r, q_next_attempt_at = wq_next_attempt_at r,
     q_last_error = wq_last_error r, q_completed_at = wq_completed_at r, q_output_paths = wq_output_paths r,
     q_source_path = wq_source_path r, q_scan_result_id = wq_scan_result_id r\<rparr>"

definition sr_row9 :: "sr_row \<Rightarrow> sr6" where
  "sr_row9 r = \<lparr>r_id = sc_id r, r_library_id = sc_library_id r, r_file_path = sc_file_path r, r_artist = sc_artist r,
     r_title = sc_title r, r_status = sc_status r, r_created_at = sc_created_at r, r_outdir = sc_outdir r, r_filename = sc_filename r\<rparr>"

definition lc_row9 :: "cache_row \<Rightarrow> lc2" where
  "lc_row9 r = \<lparr>c_id = lc_id r, c_artist = lc_artist r, c_title = lc_title r, c_lyrics = lc_lyrics r,
     c_created_at = lc_created_at r, c_updated_at = lc_updated_at r, c_album = lc_album r\<rparr>"

definition down10 :: "db \<Rightarrow> (sr6, wq9, lc2) tables7" where
  "down10 d = \<lparr>t_libraries = libraries d, t_lib_seq = lib_seq d, t_scan_results = map sr_row9 (scan_results d), t_sr_seq = sr_seq d,
     t_work_queue = map wq_row9 (work_queue d), t_wq_seq = wq_seq d, t_lyrics_cache = map lc_row9 (lyrics_cache d),
     t_lc_seq = lc_seq d, t_api_keys = api_keys d\<rparr>"

definition down9 :: "(sr6, wq9, lc2) tables7 \<Rightarrow> (sr6, wq8, lc2) tables7" where
  "down9 = change_tables7 id (map wq8.truncate)"

definition down8 :: "(sr6, wq8, lc2) tables7 \<Rightarrow> (sr6, wq5, lc2) tables7" where
  "down8 = change_tables7 id (map wq5.truncate)"

definition down7 :: "(sr6, wq5, lc2) tables7 \<Rightarrow> (sr6, wq5, lc2) tables" where
  "down7 = tables.truncate"

definition down6 :: "(sr6, wq5, lc2) tables \<Rightarrow> (sr1, wq5, lc2) tables" where
  "down6 = change_tables (map sr1.truncate) id"

definition down5 :: "(sr1, wq5, lc2) tables \<Rightarrow> (sr1, wq4, lc2) tables" where
  "down5 = change_tables id (map wq4.truncate)"

definition down4 :: "(sr1, wq4, lc2) tables \<Rightarrow> (sr1, wq4, lc2) tables res" where
  "down4 d = unique_index ''work_queue.artist, work_queue.title'' (\<lambda>r. (q_artist r, q_title r))
     (filter (\<lambda>r. q_status r = Pending) (t_work_queue d)) d"

definition forget_albums :: "lc2 list \<Rightarrow> lc1 list" where
  "forget_albums rows =
     (let song = (\<lambda>r. (c_artist r, c_title r));
          kept = filter (\<lambda>r. row_number song (\<lambda>x. (- c_updated_at x, - c_id x)) rows r = 1) rows
      in map (\<lambda>(i, r). \<lparr>c_id = i, c_artist = c_artist r, c_title = c_title r, c_lyrics = c_lyrics r,
           c_created_at = Min (set (map c_created_at (filter (\<lambda>x. song x = song r) rows))), c_updated_at = c_updated_at r\<rparr>)
         (zip (map int [1..<length kept + 1]) kept))"

definition down2 :: "(sr1, wq1, lc2) tables \<Rightarrow> (sr1, wq1, lc1) tables res" where
  "down2 d =
     (let rows = forget_albums (t_lyrics_cache d)
      in unique_index ''lyrics_cache_old.artist, lyrics_cache_old.title'' (\<lambda>r. (c_artist r, c_title r)) rows
           \<lparr>t_libraries = t_libraries d, t_lib_seq = t_lib_seq d, t_scan_results = t_scan_results d, t_sr_seq = t_sr_seq d,
            t_work_queue = t_work_queue d, t_wq_seq = t_wq_seq d, t_lyrics_cache = rows, t_lc_seq = seq_of c_id rows\<rparr>)"

lemma down_up_rows:
  "wq8.truncate (wq8.extend r8 (wq9.fields l)) = r8" "wq5.truncate (wq5.extend r5 (wq8.fields p)) = r5"
  "wq4.truncate (wq4.extend r4 (wq5.fields c)) = r4" "sr1.truncate (sr1.extend s (sr6.fields a b)) = s"
  "wq_row9 (wq_row10 r9) = r9" "sr_row9 (sr_row10 s6) = s6" "lc_row9 (cached2 k) = k"
  by (simp_all add: extend_defs wq_row9_def wq_row10_def sr_row9_def sr_row10_def lc_row9_def cached_defs)

lemmas down_defs = down10_def down9_def down8_def down7_def down6_def down5_def change_tables_def change_tables7_def tables.defs tables7.defs

lemma down5_up5: "down5 (up5 d) = d"
  by (simp add: up5_def down_defs down_up_rows comp_def)

lemma down6_up6: "down6 (up6 d) = d"
  by (simp add: up6_def down_defs down_up_rows comp_def)

lemma down7_up7: "down7 (up7 d) = d"
  by (simp add: up7_def down_defs)

lemma down8_up8: "down8 (up8 d) = d"
  by (simp add: up8_def down_defs down_up_rows comp_def)

lemma down9_up9: "\<forall>s\<in>set (t_scan_results d). r_status s \<noteq> Processing \<Longrightarrow> down9 (up9 d) = d"
  by (simp add: up9_def down_defs down_up_rows comp_def sql_update_id)

lemma down10_up10: "up10 d = Inr d' \<Longrightarrow> down10 d' = d"
  by (auto simp: up10_def Let_def down_defs down_up_rows comp_def split: if_splits)

text \<open>Two albums of one song: the later lyrics stay, with the earlier time.\<close>

lemma albums_forgotten:
  "forget_albums [\<lparr>c_id = 4, c_artist = ''x'', c_title = ''t'', c_lyrics = ''old'', c_created_at = 1, c_updated_at = 5, c_album = ''a''\<rparr>,
     \<lparr>c_id = 7, c_artist = ''x'', c_title = ''t'', c_lyrics = ''late'', c_created_at = 3, c_updated_at = 9, c_album = ''b''\<rparr>] =
   [\<lparr>c_id = 1, c_artist = ''x'', c_title = ''t'', c_lyrics = ''late'', c_created_at = 1, c_updated_at = 9\<rparr>]"
  by code_simp

section \<open>Opening a database of any version\<close>

type_synonym old_disk = "string \<Rightarrow> vdb option"

definition file_at :: "old_disk \<Rightarrow> string \<Rightarrow> vdb" where
  "file_at D path = (case D path of None \<Rightarrow> V0 | Some V \<Rightarrow> V)"

text \<open>\<open>db.Open\<close> as in theory \<open>Db_Open\<close>, with the migrations; the calls of goose are numbered from 9 on.\<close>

definition db_Open_any :: "goose \<Rightarrow> io \<Rightarrow> string \<Rightarrow> old_disk \<Rightarrow> vdb res \<times> old_disk" where
  "db_Open_any up io path D =
     (if path = '''' then (Inl (New ''db: path must not be empty''), D)
      else case io 0 of Some e \<Rightarrow> (Inl (Errorf ''db: create data dir: '' e ''''), D) | None \<Rightarrow>
     (case io 1 of Some e \<Rightarrow> (Inl (Errorf (''db: open '' @ path @ '': '') e ''''), D) | None \<Rightarrow>
     (case io 2 of Some e \<Rightarrow> (Inl (Errorf ''db: set WAL mode: '' e ''''), D) | None \<Rightarrow>
     (case run_pragmas io 6 pragmas of Some e \<Rightarrow> (Inl e, D) | None \<Rightarrow>
     (case io 3 of Some e \<Rightarrow> (Inl (Errorf ''db: sub migrations fs: '' e ''''), D) | None \<Rightarrow>
     (case io 4 of Some e \<Rightarrow> (Inl (Errorf ''db: migration provider: '' e ''''), D) | None \<Rightarrow>
     (case up (\<lambda>k. io (9 + k)) (file_at D path) of
        (Some e, V) \<Rightarrow> (Inl (Errorf ''db: migrate: '' e ''''), D(path \<mapsto> V))
      | (None, V) \<Rightarrow> (Inr V, D(path \<mapsto> V)))))))))"

text \<open>The disk of theory \<open>Db_Open\<close>: the files that are of the last version.\<close>

definition current :: "old_disk \<Rightarrow> disk" where
  "current D p = (case D p of Some (V10 d) \<Rightarrow> Some d | _ \<Rightarrow> None)"

definition files_ok :: "old_disk \<Rightarrow> bool" where
  "files_ok D \<longleftrightarrow> (\<forall>p V. D p = Some V \<longrightarrow> schema_ok V \<and> rows_ok V)"

lemma files_ok_at: "files_ok D \<Longrightarrow> schema_ok (file_at D path) \<and> rows_ok (file_at D path)"
  by (auto simp: files_ok_def file_at_def split: option.split)

lemma files_ok_upd: "files_ok D \<Longrightarrow> schema_ok V \<Longrightarrow> rows_ok V \<Longrightarrow> files_ok (D(path \<mapsto> V))"
  by (auto simp: files_ok_def)

lemma file_at_upd [simp]: "file_at (D(path \<mapsto> V)) p = (if p = path then V else file_at D p)"
  by (simp add: file_at_def)

lemma db_Open_any_cases:
  assumes "db_Open_any up io path D = (r, D')"
  obtains e where "r = Inl e" "D' = D" "path = '''' \<or> io \<noteq> no_faults"
  | e q V where "up (\<lambda>k. io (9 + k)) (file_at D path) = (Some e, V)" "r = Inl q" "D' = D(path \<mapsto> V)" "path \<noteq> ''''"
  | V where "up (\<lambda>k. io (9 + k)) (file_at D path) = (None, V)" "r = Inr V" "D' = D(path \<mapsto> V)" "path \<noteq> ''''"
      "io 0 = None" "io 1 = None" "io 2 = None" "io 3 = None" "io 4 = None" "run_pragmas io 6 pragmas = None"
proof (cases "path = '''' \<or> io 0 \<noteq> None \<or> io 1 \<noteq> None \<or> io 2 \<noteq> None \<or> io 3 \<noteq> None \<or> io 4 \<noteq> None \<or> run_pragmas io 6 pragmas \<noteq> None")
  case True
  then have "\<exists>e. r = Inl e \<and> D' = D" using assms unfolding db_Open_any_def by (auto split: option.splits if_splits)
  moreover have "path = '''' \<or> io \<noteq> no_faults" using True by (auto simp: no_faults_app)
  ultimately show thesis using that(1) by blast
next
  case False
  obtain q V where "up (\<lambda>k. io (9 + k)) (file_at D path) = (q, V)" by fastforce
  with False assms that(2,3) show thesis by (cases q) (auto simp: db_Open_any_def)
qed

lemma run_pragmas_io: "(\<And>k. k0 \<le> k \<Longrightarrow> io' k = io k) \<Longrightarrow> run_pragmas io' k0 ps = run_pragmas io k0 ps"
  by (induction ps arbitrary: k0) (auto split: option.split)

text \<open>
  C10. Opening a database of any version, with any errors of the driver and any goose that keeps its
  contract: no file on the disk says anything else than before, and all stay sound, also when the upgrade
  breaks off half way; without errors of the driver the opening succeeds; and when it does, it gives the
  sound tables of the last version, which are the ones that \<open>db_Open\<close> gives on the upgraded disk.
\<close>
theorem Open_upgrades:
  assumes "goose_contract u up" and "files_ok D" and "db_Open_any up io path D = (r, D')"
  shows "files_ok D' \<and> (\<forall>p. view u (file_at D' p) = view u (file_at D p)) \<and>
    (\<forall>V. r = Inr V \<longrightarrow> (\<exists>d. V = V10 d \<and> queue_ok d \<and> db_Open (io(5 := None)) path (current D') = (Inr d, current D'))) \<and>
    (path \<noteq> '''' \<and> io = no_faults \<longrightarrow> is_ok r)"
proof -
  note at = files_ok_at [OF assms(2), of path]
  note up = upgrade_loses_nothing [OF assms(1) conjunct1 [OF at], of "\<lambda>k. io (9 + k)"]
  show ?thesis
  using assms(3)
  proof (cases rule: db_Open_any_cases)
    case (1 e)
    with assms(2) show ?thesis by auto
  next
    case (2 e q V)
    with up [OF 2(1)] at files_ok_upd [OF assms(2)] show ?thesis by (auto simp: no_faults_def)
  next
    case (3 V)
    with up [OF 3(1)] at obtain d where d: "V = V10 d" "queue_ok d" by blast
    have "current D' path = Some d" using 3(3) d(1) by (simp add: current_def)
    then have "db_Open (io(5 := None)) path (current D') = (Inr d, current D')"
      using 3 run_pragmas_io [of 6 "io(5 := None)" io pragmas] by (simp add: db_Open_def tables_at_def map_upd_triv)
    with 3 d up [OF 3(1)] at files_ok_upd [OF assms(2)] show ?thesis by auto
  qed
qed

section \<open>A goose, and an old database\<close>

primrec apply_pending :: "unicode_env \<Rightarrow> int \<Rightarrow> nat \<Rightarrow> io \<Rightarrow> nat \<Rightarrow> vdb \<Rightarrow> goerr option \<times> vdb" where
  "apply_pending u dbt 0 io k V = (None, V)"
| "apply_pending u dbt (Suc n) io k V =
     (case io k of Some e \<Rightarrow> (Some e, V)
      | None \<Rightarrow> (case migration u dbt V of Inl e \<Rightarrow> (Some e, V) | Inr V' \<Rightarrow> apply_pending u dbt n io (k + 1) V'))"

definition goose_at :: "unicode_env \<Rightarrow> int \<Rightarrow> goose" where
  "goose_at u dbt io V = apply_pending u dbt (10 - version V) io 0 V"

lemma migration_version: "migration u dbt V = Inr V' \<Longrightarrow> version V < 10 \<Longrightarrow> version V' = version V + 1"
  by (cases V) (auto simp: map_sum_def split: sum.splits)

lemma apply_pending_contract:
  "version V + n = 10 \<Longrightarrow> apply_pending u dbt n io k V = (r, V') \<Longrightarrow> (migrates u)\<^sup>*\<^sup>* V V' \<and>
     (case r of None \<Rightarrow> version V' = 10
      | Some e \<Rightarrow> (\<exists>k. io k \<noteq> None) \<or> (\<exists>dbt e'. version V' < 10 \<and> migration u dbt V' = Inl e'))"
proof (induction n arbitrary: V k)
  case (Suc n)
  show ?case
  proof (cases "io k = None \<and> is_ok (migration u dbt V)")
    case True
    then obtain V1 where V1: "migration u dbt V = Inr V1" by (auto simp: is_ok_def split: sum.splits)
    with migration_version [OF V1] Suc.prems True have "migrates u V V1" "version V1 + n = 10"
      and "apply_pending u dbt n io (k + 1) V1 = (r, V')"
      by (auto intro: migrates.step)
    with Suc.IH [OF this(2,3)] show ?thesis by (auto intro: converse_rtranclp_into_rtranclp)
  next
    case False
    show ?thesis
    proof (cases "io k")
      case (Some e)
      with Suc.prems have "V' = V \<and> r = Some e" by simp
      with Some show ?thesis by auto
    next
      case None
      with False obtain e where "migration u dbt V = Inl e" by (auto simp: is_ok_def split: sum.splits)
      with None Suc.prems show ?thesis by auto
    qed
  qed
qed auto

lemma goose_at_contract: "goose_contract u (goose_at u dbt)"
  unfolding goose_contract_def
proof (intro allI impI)
  fix io V r V' assume "goose_at u dbt io V = (r, V')"
  moreover have "version V + (10 - version V) = 10" by (cases V) simp_all
  ultimately show "(migrates u)\<^sup>*\<^sup>* V V' \<and> (case r of None \<Rightarrow> version V' = 10
      | Some e \<Rightarrow> (\<exists>k. io k \<noteq> None) \<or> (\<exists>dbt e'. version V' < 10 \<and> migration u dbt V' = Inl e'))"
    unfolding goose_at_def by (rule apply_pending_contract [rotated])
qed

text \<open>One file scanned twice, one song queued twice under two spellings.\<close>

definition old_tables :: "(sr1, wq1, lc1) tables" where
  "old_tables = \<lparr>t_libraries = [\<lparr>lb_id = 1, lb_path = ''/music'', lb_name = ''music'', lb_created_at = 1, lb_updated_at = 1\<rparr>], t_lib_seq = 1,
     t_scan_results = [\<lparr>r_id = 1, r_library_id = 1, r_file_path = ''/music/a'', r_artist = ''X'', r_title = ''T'', r_status = Done, r_created_at = 1\<rparr>,
       \<lparr>r_id = 2, r_library_id = 1, r_file_path = ''/music/a'', r_artist = ''x'', r_title = ''t'', r_status = Processing, r_created_at = 2\<rparr>], t_sr_seq = 2,
     t_work_queue = [\<lparr>q_id = 1, q_artist = ''X'', q_title = ''T'', q_outdir = '''', q_status = Processing, q_priority = 0, q_created_at = 1, q_updated_at = 1\<rparr>,
       \<lparr>q_id = 2, q_artist = ''x'', q_title = ''t'', q_outdir = '''', q_status = Pending, q_priority = 5, q_created_at = 2, q_updated_at = 2\<rparr>], t_wq_seq = 2,
     t_lyrics_cache = [\<lparr>c_id = 1, c_artist = ''x'', c_title = ''t'', c_lyrics = ''la'', c_created_at = 1, c_updated_at = 1\<rparr>], t_lc_seq = 9\<rparr>"

lemma old_tables_ok: "schema_ok (V1 old_tables)" "rows_ok (V1 old_tables)"
  by (simp_all add: part_defs old_tables_def ids_ok_def)

theorem upgrade_loses_nothing_witness:
  "\<exists>r V'. goose_at ascii_env 50 no_faults (V1 old_tables) = (r, V') \<and> r = None \<and> view ascii_env V' = view ascii_env (V1 old_tables) \<and>
     (\<exists>d. V' = V10 d \<and> queue_ok d)"
proof -
  obtain r V' where up: "goose_at ascii_env 50 no_faults (V1 old_tables) = (r, V')" by fastforce
  from upgrade_loses_nothing [OF goose_at_contract old_tables_ok(1) up] up old_tables_ok(2) show ?thesis
    by (auto simp: no_faults_def simp del: schema_ok.simps rows_ok.simps)
qed

text \<open>What it gives: the newer result is pending again, the older row stays, the sequence of the cache starts over.\<close>

lemma old_tables_upgraded:
  "case goose_at ascii_env 50 no_faults (V1 old_tables) of
     (None, V10 d) \<Rightarrow> map (\<lambda>s. (sc_id s, sc_status s)) (scan_results d) = [(2, Pending)] \<and>
       map (\<lambda>r. (wq_id r, wq_status r, wq_updated_at r)) (work_queue d) = [(1, Processing, 50)] \<and> lc_seq d = 1
   | _ \<Rightarrow> False"
  by code_simp

theorem Open_upgrades_witness:
  "\<exists>d D'. db_Open_any (goose_at ascii_env 50) no_faults ''q.db'' [''q.db'' \<mapsto> V1 old_tables] = (Inr (V10 d), D') \<and> queue_ok d \<and>
     view ascii_env (V10 d) = view ascii_env (V1 old_tables)"
proof -
  let ?D = "[''q.db'' \<mapsto> V1 old_tables]"
  have ok: "files_ok ?D" using old_tables_ok by (auto simp: files_ok_def simp del: schema_ok.simps rows_ok.simps)
  obtain r D' where o: "db_Open_any (goose_at ascii_env 50) no_faults ''q.db'' ?D = (r, D')" by fastforce
  note k = Open_upgrades [OF goose_at_contract ok o]
  then obtain V where "r = Inr V" by (auto simp: is_ok_def split: sum.splits)
  with k obtain d where d: "r = Inr (V10 d)" "queue_ok d" by blast
  with o have "file_at D' ''q.db'' = V10 d" by (auto elim: db_Open_any_cases)
  moreover have "file_at ?D ''q.db'' = V1 old_tables" by (simp add: file_at_def)
  ultimately have "view ascii_env (V10 d) = view ascii_env (V1 old_tables)" using k by metis
  with o d show ?thesis by blast
qed

end
