(* ===== verification/Spec2Isabelle.thy ===== *)
theory Spec2Isabelle
  imports Serve_Lifecycle Migrations
begin

text \<open>
  A model of mxlrcgo-svc (package paths below are those of \<open>src/internal\<close>), a service that fetches song
  lyrics from Musixmatch and writes them beside audio files, with the theorems that make it correct.

  \<^bold>\<open>The program.\<close> \<open>serve\<close> runs three activities on one SQLite database: a scheduler scans the library roots
  into \<open>scan_results\<close> and hands what the cache does not have to the \<open>work_queue\<close>; an HTTP server queues the
  songs of Lidarr webhooks; a worker claims one queue row at a time, looks the song up in the cache or at
  the provider, verifies it if asked to, writes the file and completes the row, which marks the linked
  scan results done. \<open>fetch\<close> does the same for a list in memory, once. The other commands inspect and repair
  the database and the configuration. \<open>db.Open\<close> allows one connection, so every operation is atomic.

  \<^bold>\<open>Conventions.\<close> Go's strings are lists of bytes, \<open>int\<close> and \<open>time.Duration\<close> are \<open>int\<close> with the wrap of \<open>i64\<close>
  written out where the code can overflow, a float is a rounded rational, infinite or NaN (\<open>Go_Float\<close>),
  times are nanoseconds. A fallible function returns \<open>goerr + 'a\<close>, and \<open>goerr\<close> keeps the wrapping that
  \<open>errors.Is\<close> sees. Driver and system-call errors come from an \<open>io\<close>, a function of the number of the call,
  so a theorem about any \<open>io\<close> covers every error path. The world outside (network, clocks, random numbers,
  Unicode tables, ffmpeg, TOML, JSON, fastjson, the argument parser) is a parameter.

  \<^bold>\<open>Theories.\<close>
  Go: \<open>Prelude\<close> (tables as lists of rows), \<open>Go_Base\<close> (errors, transactions, decimal text), \<open>Go_Strings\<close>,
  \<open>Go_Strconv\<close>, \<open>Go_Csv\<close>, \<open>Go_Url\<close>, \<open>Go_Paths\<close>, \<open>Path_Facts\<close>, \<open>Go_Float\<close>, \<open>Go_Time\<close>, \<open>Files\<close> (a file system).
  Data: \<open>Models\<close> (\<open>models\<close>), \<open>Normalize\<close> and \<open>Match_Confidence\<close> (\<open>normalize\<close>), \<open>Backoff\<close> (\<open>backoff\<close>).
  Database: \<open>Database\<close> (schema, triggers, cascades, the invariant \<open>db_wf\<close>), \<open>Db_Open\<close> (\<open>db/db.go\<close>) and
  \<open>Migrations\<close> (\<open>db/migrations\<close>: each version of the schema, each migration, opening an old database).
  Queue: \<open>Input_Queue\<close>, \<open>Work_Queue\<close> (all of \<open>DBQueue\<close>, \<open>queue/queue.go\<close>), \<open>Work_Queue_Inv\<close>, \<open>Queue_Rows\<close>,
  \<open>Queue_Enqueue\<close>, \<open>Queue_Claims\<close>, \<open>Queue_Cancel\<close>.
  Repositories: \<open>Lyrics_Cache\<close> (\<open>cache\<close>), \<open>Scan_Repo\<close> and \<open>Scan_Enqueuer\<close> (\<open>scan\<close>), \<open>Library_Repo\<close>
  (\<open>library\<close>), \<open>Auth\<close> and \<open>Auth_Keys\<close> (\<open>auth\<close>).
  Activities: \<open>Scanner\<close>, \<open>Scheduler\<close> (\<open>scan/scheduler.go\<close>), \<open>Worker\<close>, \<open>Worker_Contract\<close> and \<open>Service\<close>
  (\<open>worker\<close> on the durable queue), \<open>Server\<close>, \<open>App\<close> (\<open>app\<close>), \<open>Providers\<close>, \<open>Musixmatch\<close> (\<open>musixmatch/client.go\<close>),
  \<open>Verification\<close> and \<open>Transcribe\<close> (\<open>verification\<close>), \<open>Lyrics_Writer\<close> (\<open>lyrics\<close>).
  Entry: \<open>Config\<close> (\<open>config\<close>), \<open>Config_Cmd\<close>, \<open>Commands_DB\<close> and \<open>Commands_Run\<close> (\<open>commands/commands.go\<close> and
  \<open>cmd/mxlrcgo-svc/main.go\<close>).
  Whole: \<open>Db_Steps\<close> (the database as a state machine), \<open>Service_Steps\<close> (the service implements it) and
  \<open>Serve_Lifecycle\<close> (the goroutines of \<open>runServe\<close> as a step relation, from their start to the exit).

  \<^bold>\<open>Interfaces.\<close> The locales are the interfaces of the code, each interpreted on the code's own model: \<open>fifo\<close> for
  the queue in memory, \<open>claim_queue\<close> for the durable one, \<open>keyed_store\<close> for the cache, \<open>key_store\<close> for both
  stores of API keys, \<open>enqueuer_env\<close> for the repositories of the enqueuer, \<open>worker_env\<close> for everything the
  worker calls (twice: for soundness, and for the traces of \<open>Service_Steps\<close>), \<open>scan_env\<close> for a scan cycle.

  \<^bold>\<open>What the theorems show.\<close>
  One operation: every operation keeps \<open>db_wf\<close> and is atomic; Dequeue claims the best ready row and drains
  the queue in order; Enqueue keeps one row per song and never touches a claimed one; Complete marks the
  linked results; Fail backs off; CancelByLibrary refines a specification by sets of paths.
  One activity: a round of the worker settles its row or says so; the circuit breaker opens, counts nothing
  and closes; a cycle serves every library; a webhook queues every track; a scan finds exactly the eligible
  files; WriteLRC publishes or leaves no part of a file; the failed list of \<open>fetch\<close> reads back.
  The whole: every operation of every component is a step of \<open>db_step\<close>. In every execution rows move only
  along their life cycle, done is final, and ids are not reused (\<open>Db_Steps\<close>). Rounds, cycles and requests,
  and every run of the program with any command line and any interleaving, are executions of that machine
  (\<open>Service_Steps\<close>, \<open>Commands_Run\<close>, \<open>Serve_Lifecycle\<close>); so its invariants hold for the program. The
  goroutines of \<open>serve\<close> return once their context has ended, the process then exits after at most ten steps
  towards its end, and closes the database last, though it does not wait for the requests in flight. An
  upgrade from any version loses no library, key, lyrics, file or song, also when it breaks off half way
  (\<open>Migrations\<close>). Exit code 2 means that nothing was changed.
  The edges: HTTP endpoints need a key of the right scope and the log hides it; keys work until they are
  revoked; the client classifies every bad answer; a configuration that loads is in range; what
  \<open>config set\<close> accepts is what \<open>config get\<close> shows; library references are never guessed; the confidence of a
  match lies in the unit interval; verification leaves no file behind.

  \<^bold>\<open>Bounds and fuel.\<close> The scan recurses on the remaining depth, which the code bounds too. The loops of the
  worker, of its goroutine and of the scheduler are \<open>partial_function (option)\<close>: not returning is None, and
  \<open>worker_loop_returns\<close> (for \<open>Run\<close> and \<open>RunPaced\<close>) and the theorem on the goroutines of \<open>serve\<close> show
  Some. All other loops recurse on their data or have a measure.

  \<^bold>\<open>Not modelled.\<close> What goes to the log and to standard error; the time limits of the HTTP server and TLS; the
  redirect of \<open>http.ServeMux\<close> for unclean paths; reading the tags of an audio file and the JSON and TOML
  codecs, which are third-party or library code at fixed types. The library that applies the migrations is a
  parameter with the contract of its documentation; the indexes that are not unique and the table \<open>api_keys\<close>
  of migration 001, which nothing uses, are left out. Goroutines interleave between turns of the worker,
  cycles and requests in \<open>Commands_Run\<close> and \<open>Serve_Lifecycle\<close>; that any finer interleaving of their database
  operations keeps the invariants is what the theorems on \<open>db_step\<close> say.
\<close>

end
